(* ===== verification/Prelude.thy ===== *)
theory Prelude
  imports Main "HOL-Library.Word" "HOL-Library.Multiset"
begin

text \<open>
  Shared vocabulary of the development: the machine types the sources use, the named
  collections the component proofs draw on, and the generic lemmas on words, lists and
  step systems that several components need.
\<close>

unbundle bit_operations_syntax

section \<open>Machine types\<close>

text \<open>
  \<open>size_t\<close>, \<open>uint64_t\<close>, \<open>uint32_t\<close> and \<open>uint16_t\<close> are words of their width; all targets of
  the build are 64-bit, so \<open>size_t\<close> has 64 bits.
\<close>

type_synonym size_t = "64 word"
type_synonym u64 = "64 word"
type_synonym u32 = "32 word"
type_synonym u16 = "16 word"
type_synonym u8 = "8 word"

text \<open>
  A \<^verbatim>\<open>std::function<void()>\<close> is an optional task: \<open>None\<close> is the empty (or moved-from)
  function, \<open>Some t\<close> a callable one. What a task does is the user's code.
\<close>

type_synonym 't fn = "'t option"

text \<open>The values of the C type \<open>int\<close>.\<close>

definition INT_MAX :: int where
  "INT_MAX = 2147483647"

section \<open>Named collections\<close>

named_theorems deque_simps "unfoldings of the task deque operations"
named_theorems core_simps "unfoldings of the event-loop core operations"
named_theorems backend_simps "unfoldings of the readiness backends"
named_theorems sched_simps "unfoldings of the worker and hive operations"
named_theorems net_simps "unfoldings of the network layer"

section \<open>Words\<close>

lemma unat_and_mask_pow2:
  fixes w :: "'a::len word"
  assumes "c = 2 ^ k" "k < LENGTH('a)"
  shows "unat (w AND (c - 1)) = unat w mod 2 ^ k"
proof -
  have "c - 1 = mask k"
    using assms by (simp add: mask_eq_decr_exp)
  then have "w AND (c - 1) = take_bit k w"
    by (simp add: take_bit_eq_mask)
  then show ?thesis
    by (metis take_bit_eq_mod unsigned_take_bit_eq)
qed

lemma unat_pow2_word:
  assumes "k < LENGTH('a)"
  shows "unat ((2 :: 'a::len word) ^ k) = 2 ^ k"
proof -
  have "(2 :: 'a word) ^ k = word_of_nat (2 ^ k)" by simp
  moreover have "(2::nat) ^ k < 2 ^ LENGTH('a)" using assms by simp
  ultimately show ?thesis by (metis unat_of_nat mod_less)
qed

lemma unat_Suc_word:
  fixes w :: "'a::len word"
  assumes "unat w + 1 < 2 ^ LENGTH('a)"
  shows "unat (w + 1) = unat w + 1"
  using assms by (simp add: unat_word_ariths)

lemma unat_sub_word:
  fixes a b :: "'a::len word"
  assumes "b \<le> a"
  shows "unat (a - b) = unat a - unat b"
  using assms by (simp add: unat_sub)

lemma unat_less_size: "unat (w :: size_t) < 2 ^ 64"
proof -
  have "unat w < 2 ^ LENGTH(64)" by (rule unsigned_less)
  then show ?thesis by simp
qed

section \<open>Lists\<close>

lemma map_upt_Suc_last:
  assumes "a \<le> b"
  shows "map f [a..<Suc b] = map f [a..<b] @ [f b]"
  using assms by simp

lemma map_upt_Cons:
  assumes "a < b"
  shows "map f [a..<b] = f a # map f [Suc a..<b]"
  using assms by (simp add: upt_conv_Cons)

lemma butlast_map_upt: "butlast (map f [a..<b]) = map f [a..<b - 1]"
  by (cases b) auto

text \<open>Two indices of a window shorter than the ring occupy different slots.\<close>

lemma mod_window_inj:
  fixes i j c :: nat
  assumes "i mod c = j mod c" "i \<le> j" "j < i + c"
  shows "i = j"
proof -
  from assms(1) have "c dvd j - i"
    using assms(2) by (metis mod_eq_dvd_iff_nat)
  moreover from assms(2,3) have "j - i < c" by simp
  ultimately have "j - i = 0"
    by (metis dvd_imp_le not_gr_zero not_le)
  with assms(2) show ?thesis by simp
qed

section \<open>Options\<close>

lemma some_the: "\<not> Option.is_none x \<Longrightarrow> x = Some (the x)"
  by (cases x) (simp_all add: Option.is_none_def)

section \<open>Step systems\<close>

text \<open>
  Forward simulation of step systems: under an invariant of the concrete system every concrete
  step is an abstract step or leaves the abstract state as it is, so every concrete run projects
  to an abstract one.
\<close>

locale simulation =
  fixes cstep :: "'c \<Rightarrow> 'c \<Rightarrow> bool"
    and astep :: "'a \<Rightarrow> 'a \<Rightarrow> bool"
    and inv :: "'c \<Rightarrow> bool"
    and abs :: "'c \<Rightarrow> 'a"
  assumes inv_step: "inv s \<Longrightarrow> cstep s t \<Longrightarrow> inv t"
    and sim_step: "inv s \<Longrightarrow> cstep s t \<Longrightarrow> astep (abs s) (abs t) \<or> abs t = abs s"
begin

lemma inv_run: "cstep\<^sup>*\<^sup>* s t \<Longrightarrow> inv s \<Longrightarrow> inv t"
  by (induction rule: rtranclp_induct) (auto intro: inv_step)

lemma sim_run: "cstep\<^sup>*\<^sup>* s t \<Longrightarrow> inv s \<Longrightarrow> astep\<^sup>*\<^sup>* (abs s) (abs t)"
proof (induction rule: rtranclp_induct)
  case (step u v)
  then have "inv u" using inv_run by blast
  with step show ?case using sim_step [of u v] by (auto intro: rtranclp.rtrancl_into_rtrancl)
qed simp

end

end
