(* ===== verification/Task_Deque.thy ===== *)
theory Task_Deque
  imports Prelude
begin

text \<open>
  \<^verbatim>\<open>utils/concurrency/task_deque.{h,cc}\<close>: the bounded work-stealing deque. This theory
  models every operation as it runs without interference (the interleaved execution is in
  \<open>Task_Deque_Conc\<close>), keeps the 64-bit counters at their width, states the contract of
  a bounded deque as a locale and shows that the ring buffer implements it.
\<close>

unbundle bit_operations_syntax

section \<open>The class and its operations\<close>

text \<open>
  \<open>dq_buffer\<close> is \<^verbatim>\<open>std::vector<std::function<void()>> buffer_\<close>; \<open>dq_top\<close>, \<open>dq_bottom\<close> and
  \<open>dq_size\<close> are the three atomics.
\<close>

record 't task_deque =
  dq_capacity :: size_t
  dq_buffer :: "'t fn list"
  dq_top :: size_t
  dq_bottom :: size_t
  dq_size :: size_t

definition isPow2 :: "size_t \<Rightarrow> bool" where
  "isPow2 x \<longleftrightarrow> x \<noteq> 0 \<and> x AND (x - 1) = 0"

text \<open>
  The loop \<^verbatim>\<open>while (p < x) p <<= 1;\<close>. It need not end: \<open>None\<close> is a loop that never returns.
\<close>

partial_function (option) roundUpPow2_loop :: "size_t \<Rightarrow> size_t \<Rightarrow> size_t option" where
  "roundUpPow2_loop p x = (if p < x then roundUpPow2_loop (push_bit 1 p) x else Some p)"

definition roundUpPow2 :: "size_t \<Rightarrow> size_t option" where
  "roundUpPow2 x =
     (if x < 2 then Some 2
      else if isPow2 x then Some x
      else roundUpPow2_loop 1 x)"

definition TaskDeque :: "size_t \<Rightarrow> 't task_deque option" where
  "TaskDeque capacity =
     (case roundUpPow2 capacity of
        None \<Rightarrow> None
      | Some c \<Rightarrow> Some \<lparr>dq_capacity = c, dq_buffer = replicate (unat c) None,
                        dq_top = 0, dq_bottom = 0, dq_size = 0\<rparr>)"

definition capacity :: "'t task_deque \<Rightarrow> size_t" where
  "capacity d = dq_capacity d"

definition maxSize :: "'t task_deque \<Rightarrow> size_t" where
  "maxSize d = (if dq_capacity d > 0 then dq_capacity d - 1 else 0)"

definition approxSize :: "'t task_deque \<Rightarrow> size_t" where
  "approxSize d = dq_size d"

definition remainingSpace :: "'t task_deque \<Rightarrow> size_t" where
  "remainingSpace d =
     (let b = dq_bottom d; t = dq_top d;
          used = (if b \<ge> t then b - t else 0);
          max_sz = maxSize d
      in if used \<ge> max_sz then 0 else max_sz - used)"

text \<open>The slot an index lives in: \<^verbatim>\<open>i & (capacity_ - 1)\<close>.\<close>

definition dq_slot :: "'t task_deque \<Rightarrow> size_t \<Rightarrow> nat" where
  "dq_slot d i = unat (i AND (dq_capacity d - 1))"

text \<open>
  \<^verbatim>\<open>tryPushBottom(std::function<void()>&&)\<close>: the result and the deque. A refused task is not
  moved from, so the caller still has it.
\<close>

definition tryPushBottom :: "'t fn \<Rightarrow> 't task_deque \<Rightarrow> bool \<times> 't task_deque" where
  "tryPushBottom task d =
     (case task of
        None \<Rightarrow> (True, d)
      | Some f \<Rightarrow>
          (let b = dq_bottom d; t = dq_top d
           in if b - t \<ge> maxSize d then (False, d)
              else (True, d\<lparr>dq_buffer := (dq_buffer d)[dq_slot d b := Some f],
                            dq_bottom := b + 1,
                            dq_size := dq_size d + 1\<rparr>)))"

text \<open>\<^verbatim>\<open>tryPushBottom(const std::function<void()>&)\<close> copies the task and pushes the copy.\<close>

definition tryPushBottom_copy :: "'t fn \<Rightarrow> 't task_deque \<Rightarrow> bool \<times> 't task_deque" where
  "tryPushBottom_copy task d =
     (if task = None then (True, d)
      else let copy = task in tryPushBottom copy d)"

text \<open>
  \<^verbatim>\<open>tryPopBottom\<close>: the outer option is \<^verbatim>\<open>std::optional\<close>, the inner one the task itself. Moving
  a task out of its slot leaves the slot empty. Without interference the compare-exchange on
  \<open>top_\<close> always finds the value just loaded.
\<close>

definition tryPopBottom :: "'t task_deque \<Rightarrow> 't fn option \<times> 't task_deque" where
  "tryPopBottom d =
     (if dq_bottom d = 0 then (None, d)
      else
        let b = dq_bottom d - 1;
            d1 = d\<lparr>dq_bottom := b\<rparr>;
            t = dq_top d1
        in if t \<le> b then
             (if t = b then
                (let d2 = d1\<lparr>dq_top := t + 1\<rparr>;
                     d3 = d2\<lparr>dq_bottom := b + 1\<rparr>;
                     d4 = d3\<lparr>dq_size := dq_size d3 - 1\<rparr>
                 in (Some (dq_buffer d4 ! dq_slot d4 b),
                     d4\<lparr>dq_buffer := (dq_buffer d4)[dq_slot d4 b := None]\<rparr>))
              else
                (let item = dq_buffer d1 ! dq_slot d1 b;
                     d2 = d1\<lparr>dq_buffer := (dq_buffer d1)[dq_slot d1 b := None]\<rparr>
                 in (Some item, d2\<lparr>dq_size := dq_size d2 - 1\<rparr>)))
           else (None, d1\<lparr>dq_bottom := b + 1\<rparr>))"

definition tryStealTop :: "'t task_deque \<Rightarrow> 't fn option \<times> 't task_deque" where
  "tryStealTop d =
     (let t = dq_top d; b = dq_bottom d
      in if t < b then
           (let d1 = d\<lparr>dq_top := t + 1\<rparr>;
                d2 = d1\<lparr>dq_size := dq_size d1 - 1\<rparr>
            in (Some (dq_buffer d2 ! dq_slot d2 t),
                d2\<lparr>dq_buffer := (dq_buffer d2)[dq_slot d2 t := None]\<rparr>))
         else (None, d))"

record dq_DebugState =
  ds_top :: size_t
  ds_bottom :: size_t
  ds_size :: size_t

definition debugState :: "'t task_deque \<Rightarrow> dq_DebugState" where
  "debugState d = \<lparr>ds_top = dq_top d, ds_bottom = dq_bottom d, ds_size = dq_size d\<rparr>"

section \<open>Rounding the capacity\<close>

lemma bit_top_of_nat:
  assumes "2 ^ k \<le> (n::nat)" "n < 2 ^ Suc k"
  shows "bit n k"
proof -
  from assms have "n div 2 ^ k = 1"
    by (simp add: div_nat_eqI)
  then show ?thesis by (simp add: bit_iff_odd)
qed

lemma isPow2_pow2:
  assumes "k < 64"
  shows "isPow2 (2 ^ k)"
proof -
  have "unat ((2 :: size_t) ^ k) = 2 ^ k"
    using assms by (simp add: unat_pow2_word)
  moreover from this have "(2 :: size_t) ^ k \<noteq> 0"
    by (metis power_not_zero unsigned_0 zero_neq_numeral)
  moreover have "unat ((2 :: size_t) ^ k AND (2 ^ k - 1)) = unat ((2::size_t) ^ k) mod 2 ^ k"
    using assms by (intro unat_and_mask_pow2) auto
  ultimately show ?thesis
    unfolding isPow2_def by (metis mod_self unsigned_0 word_unat_eq_iff)
qed

lemma isPow2_imp_pow2:
  assumes "isPow2 x"
  shows "\<exists>k<64. x = 2 ^ k"
proof -
  let ?n = "unat x"
  from assms have pos: "0 < ?n" and zero: "x AND (x - 1) = 0"
    by (auto simp: isPow2_def unat_gt_0)
  from pos obtain k where lo: "2 ^ k \<le> ?n" and hi: "?n < 2 ^ Suc k"
    using ex_power_ivl1 [of 2 ?n] by auto
  have "?n < 2 ^ 64"
    using unsigned_less [of x, where 'a = nat] by simp
  with lo have "(2::nat) ^ k < 2 ^ 64" by linarith
  then have k: "k < 64" by (rule power_less_imp_less_exp [rotated]) simp
  show ?thesis
  proof (cases "?n = 2 ^ k")
    case True
    also have "(2::nat) ^ k = unat ((2 :: size_t) ^ k)"
      using k by (subst unat_pow2_word) auto
    finally have "x = 2 ^ k" by (rule word_unat_eq_iff [THEN iffD2])
    with k show ?thesis by blast
  next
    case False
    have "unat (x - 1) = ?n - 1"
      using pos by (metis One_nat_def unat_gt_0 unat_minus_one)
    with lo hi False pos have "2 ^ k \<le> unat (x - 1)" "unat (x - 1) < 2 ^ Suc k" by auto
    then have "bit (unat (x - 1)) k" "bit ?n k"
      using lo hi bit_top_of_nat by blast+
    then have "bit (x AND (x - 1)) k"
      by (simp add: bit_and_iff bit_unsigned_iff)
    with zero show ?thesis by simp
  qed
qed

lemma pow2_size_t_less:
  assumes "j < k" "k < 64"
  shows "(2 :: size_t) ^ j < 2 ^ k"
  using assms by (simp add: word_less_nat_alt unat_pow2_word)

lemma roundUpPow2_loop_result:
  assumes "m < 64" "x \<le> 2 ^ m" "\<forall>j<m. 2 ^ j < x" "k \<le> m"
  shows "roundUpPow2_loop (2 ^ k) x = Some (2 ^ m)"
  using assms(4)
proof (induction "m - k" arbitrary: k)
  case 0
  then have "k = m" by simp
  with assms(2) show ?case by (subst roundUpPow2_loop.simps) (simp add: leD)
next
  case (Suc n)
  then have "k < m" by simp
  then have "roundUpPow2_loop (2 ^ Suc k) x = Some (2 ^ m)"
    using Suc by (intro Suc.hyps) auto
  moreover have "push_bit 1 (2 ^ k :: size_t) = 2 ^ Suc k"
    by (simp add: push_bit_eq_mult)
  moreover from assms(3) \<open>k < m\<close> have "2 ^ k < x" by blast
  ultimately show ?case
    by (metis roundUpPow2_loop.simps)
qed

text \<open>Whatever the loop returns is a shifted start value that is not below the bound.\<close>

lemma roundUpPow2_loop_Some:
  assumes "roundUpPow2_loop p x = Some r"
  shows "\<exists>n. r = push_bit n p \<and> \<not> r < x"
proof -
  have step: "\<exists>n. s = push_bit n q \<and> \<not> s < y"
    if IH: "\<And>q y s. f q y = Some s \<Longrightarrow> \<exists>n. s = push_bit n q \<and> \<not> s < y"
      and eq: "(if q < y then f (push_bit 1 q) y else Some q) = Some s"
    for f :: "size_t \<Rightarrow> size_t \<Rightarrow> size_t option" and q y s
  proof (cases "q < y")
    case True
    with eq have "f (push_bit 1 q) y = Some s" by simp
    from IH [OF this] obtain n where "s = push_bit n (push_bit 1 q)" "\<not> s < y" by blast
    then show ?thesis by (metis push_bit_push_bit)
  next
    case False
    with eq show ?thesis by (metis option.inject push_bit_0_id id_apply)
  qed
  have "(case (p, x) of (p, x) \<Rightarrow> \<lambda>r. \<exists>n. r = push_bit n p \<and> \<not> r < x) r"
  proof (rule roundUpPow2_loop.raw_induct)
    show "(case (p, x) of (p, x) \<Rightarrow> roundUpPow2_loop p x) = Some r"
      using assms by (simp only: case_prod_conv)
  qed (rule step)
  then show ?thesis by (simp only: case_prod_conv)
qed

lemma pow2_size_t_le: "(2 :: size_t) ^ n \<le> 2 ^ 63"
proof (cases "n < 64")
  case True
  then consider "n = 63" | "n < 63" by linarith
  then show ?thesis using pow2_size_t_less [of n 63] by cases (simp_all add: less_imp_le)
next
  case False
  then have "(2 :: size_t) ^ n = 0" by simp
  then show ?thesis by (simp only: word_zero_le)
qed

lemma roundUpPow2_loop_diverges:
  assumes "2 ^ 63 < x"
  shows "roundUpPow2_loop 1 x = None"
proof (rule ccontr)
  assume "roundUpPow2_loop 1 x \<noteq> None"
  then obtain r where "roundUpPow2_loop 1 x = Some r" by blast
  then obtain n where "r = push_bit n 1" "\<not> r < x" using roundUpPow2_loop_Some by blast
  then have "\<not> 2 ^ n < x" by (simp add: push_bit_eq_mult)
  moreover have "2 ^ n < x" using pow2_size_t_le assms by (rule order_le_less_trans)
  ultimately show False by contradiction
qed

lemma ex_least_pow2:
  assumes "x \<le> (2 :: size_t) ^ 63"
  shows "\<exists>m<64. x \<le> 2 ^ m \<and> (\<forall>j<m. 2 ^ j < x)"
proof -
  define m where "m = (LEAST m. x \<le> 2 ^ m)"
  have "x \<le> 2 ^ m" unfolding m_def by (rule LeastI) (rule assms)
  moreover have "m \<le> 63" unfolding m_def using assms by (rule Least_le)
  moreover have "\<forall>j<m. 2 ^ j < x" unfolding m_def using not_less_Least not_le by blast
  ultimately show ?thesis by (intro exI [of _ m]) simp
qed

lemma roundUpPow2_pow2_least:
  assumes "x \<le> 2 ^ 63"
  shows "\<exists>k. 1 \<le> k \<and> k < 64 \<and> roundUpPow2 x = Some (2 ^ k) \<and> x \<le> 2 ^ k \<and>
             (\<forall>j. 1 \<le> j \<and> j < k \<longrightarrow> 2 ^ j < x)"
proof -
  obtain m where m: "m < 64" "x \<le> 2 ^ m" "\<forall>j<m. 2 ^ j < x"
    using ex_least_pow2 [OF assms] by blast
  consider "x < 2" | "2 \<le> x" "isPow2 x" | "2 \<le> x" "\<not> isPow2 x" by fastforce
  then show ?thesis
  proof cases
    case 1
    then have "roundUpPow2 x = Some (2 ^ 1) \<and> x \<le> 2 ^ 1"
      by (simp add: roundUpPow2_def less_imp_le)
    then show ?thesis by (intro exI [of _ 1]) simp
  next
    case 2
    then obtain k where k: "k < 64" "x = 2 ^ k" using isPow2_imp_pow2 by blast
    with 2 have "1 \<le> k" by (cases k) (auto simp: word_le_nat_alt)
    moreover from 2(1) have "\<not> x < 2" by (rule leD)
    ultimately show ?thesis
      using 2 k by (intro exI [of _ k]) (simp add: roundUpPow2_def pow2_size_t_less)
  next
    case 3
    then have "roundUpPow2 x = Some (2 ^ m)"
      using roundUpPow2_loop_result [OF m, of 0] leD [OF 3(1)]
      by (simp add: roundUpPow2_def)
    moreover have "1 \<le> m" using 3 m(2) by (cases m) (auto simp: word_le_nat_alt)
    ultimately show ?thesis using m by blast
  qed
qed

lemma roundUpPow2_pow2:
  assumes "x \<le> 2 ^ 63" "roundUpPow2 x = Some c"
  shows "\<exists>k. 1 \<le> k \<and> k < 64 \<and> c = 2 ^ k"
  using roundUpPow2_pow2_least [OF assms(1)] assms(2) by auto

lemma roundUpPow2_above:
  assumes "2 ^ 63 < x"
  shows "roundUpPow2 x = None"
proof -
  have "\<not> isPow2 x"
  proof
    assume "isPow2 x"
    then obtain k where "x = 2 ^ k" using isPow2_imp_pow2 by blast
    with assms pow2_size_t_le [of k] show False by (metis linorder_not_less)
  qed
  moreover have "2 < x"
    by (rule order_less_trans [OF _ assms]) simp
  then have "\<not> x < 2" by (rule order_less_not_sym)
  ultimately show ?thesis
    using roundUpPow2_loop_diverges [OF assms] by (simp add: roundUpPow2_def)
qed


text \<open>
  Capacity rounding: for every request up to \<open>2 ^ 63\<close> the loop ends and the result is the
  least power of two that is at least 2 and at least the request, so the deque never gets a
  smaller ring than asked for and the index mask \<open>capacity_ - 1\<close> is always valid.
\<close>

lemma roundUpPow2_least:
  assumes "x \<le> 2 ^ 63"
  shows "\<exists>k. 1 \<le> k \<and> k < 64 \<and> roundUpPow2 x = Some (2 ^ k) \<and> x \<le> 2 ^ k \<and>
             (\<forall>j. 1 \<le> j \<and> j < k \<longrightarrow> 2 ^ j < x)"
  using assms by (rule roundUpPow2_pow2_least)

lemma roundUpPow2_least_witness:
  "(100 :: size_t) \<le> 2 ^ 63 \<and>
   (\<exists>k. 1 \<le> k \<and> k < 64 \<and> roundUpPow2 100 = Some (2 ^ k) \<and> (100 :: size_t) \<le> 2 ^ k \<and>
        (\<forall>j. 1 \<le> j \<and> j < k \<longrightarrow> (2 :: size_t) ^ j < 100))"
proof -
  have "(100 :: size_t) \<le> 2 ^ 63" by simp
  with roundUpPow2_least [OF this] show ?thesis by blast
qed

text \<open>
  A capacity above \<open>2 ^ 63\<close> is never rounded: doubling the 64-bit counter overflows to 0
  before it reaches the request, and the loop (hence the constructor) does not return.
\<close>

lemma TaskDeque_diverges:
  assumes "2 ^ 63 < x"
  shows "(TaskDeque x :: 't task_deque option) = None"
  using roundUpPow2_above [OF assms] by (simp add: TaskDeque_def)

lemma TaskDeque_diverges_witness:
  "(2 :: size_t) ^ 63 < 2 ^ 63 + 1 \<and> (TaskDeque (2 ^ 63 + 1) :: nat task_deque option) = None"
proof -
  have "(2 :: size_t) ^ 63 < 2 ^ 63 + 1" by simp
  with TaskDeque_diverges [OF this] show ?thesis by blast
qed

section \<open>The contract of a bounded deque\<close>

text \<open>
  Sequences of operations and what they return, and their specification on plain lists: the
  front of the list is the top, its end the bottom.
\<close>

datatype 't dq_op = PushBottom "'t fn" | PopBottom | StealTop

datatype 't dq_out = Pushed bool | Took "'t fn option"

fun spec_step :: "nat \<Rightarrow> 't dq_op \<Rightarrow> 't list \<Rightarrow> 't dq_out \<times> 't list" where
  "spec_step n (PushBottom None) xs = (Pushed True, xs)"
| "spec_step n (PushBottom (Some x)) xs =
     (if length xs < n then (Pushed True, xs @ [x]) else (Pushed False, xs))"
| "spec_step n PopBottom xs =
     (if xs = [] then (Took None, xs) else (Took (Some (Some (last xs))), butlast xs))"
| "spec_step n StealTop xs =
     (if xs = [] then (Took None, xs) else (Took (Some (Some (hd xs))), tl xs))"

fun run_ops :: "('o \<Rightarrow> 's \<Rightarrow> 'r \<times> 's) \<Rightarrow> 'o list \<Rightarrow> 's \<Rightarrow> 'r list \<times> 's" where
  "run_ops f [] s = ([], s)"
| "run_ops f (x # xs) s =
     (let (r, s') = f x s; (rs, s'') = run_ops f xs s' in (r # rs, s''))"

text \<open>
  What the scheduler relies on: the owner pushes and pops at one end, thieves steal at the
  other, a full deque refuses and leaves itself unchanged, an empty one says so. \<open>headroom\<close>
  counts the pushes left before a monotone counter of the implementation would wrap.
\<close>

locale bounded_deque =
  fixes invar :: "'d \<Rightarrow> bool"
    and contents :: "'d \<Rightarrow> 'a list"
    and bound :: "'d \<Rightarrow> nat"
    and headroom :: "'d \<Rightarrow> nat"
    and push :: "'a option \<Rightarrow> 'd \<Rightarrow> bool \<times> 'd"
    and pop :: "'d \<Rightarrow> 'a option option \<times> 'd"
    and steal :: "'d \<Rightarrow> 'a option option \<times> 'd"
  assumes push_empty: "push None d = (True, d)"
    and push_full: "invar d \<Longrightarrow> bound d \<le> length (contents d) \<Longrightarrow> push (Some x) d = (False, d)"
    and push_room: "invar d \<Longrightarrow> length (contents d) < bound d \<Longrightarrow> 0 < headroom d \<Longrightarrow>
       fst (push (Some x) d) \<and> invar (snd (push (Some x) d)) \<and>
       contents (snd (push (Some x) d)) = contents d @ [x] \<and>
       bound (snd (push (Some x) d)) = bound d \<and>
       headroom (snd (push (Some x) d)) = headroom d - 1"
    and pop_none: "invar d \<Longrightarrow> contents d = [] \<Longrightarrow> pop d = (None, d)"
    and pop_some: "invar d \<Longrightarrow> contents d \<noteq> [] \<Longrightarrow>
       fst (pop d) = Some (Some (last (contents d))) \<and> invar (snd (pop d)) \<and>
       contents (snd (pop d)) = butlast (contents d) \<and>
       bound (snd (pop d)) = bound d \<and> headroom d \<le> headroom (snd (pop d))"
    and steal_none: "invar d \<Longrightarrow> contents d = [] \<Longrightarrow> steal d = (None, d)"
    and steal_some: "invar d \<Longrightarrow> contents d \<noteq> [] \<Longrightarrow>
       fst (steal d) = Some (Some (hd (contents d))) \<and> invar (snd (steal d)) \<and>
       contents (snd (steal d)) = tl (contents d) \<and>
       bound (snd (steal d)) = bound d \<and> headroom d \<le> headroom (snd (steal d))"
    and fits: "invar d \<Longrightarrow> length (contents d) \<le> bound d"
begin

text \<open>The last task pushed is the first one popped, and popping restores the contents.\<close>

lemma push_pop:
  assumes "invar d" "length (contents d) < bound d" "0 < headroom d"
  shows "fst (pop (snd (push (Some x) d))) = Some (Some x) \<and>
         contents (snd (pop (snd (push (Some x) d)))) = contents d"
  using push_room [OF assms, of x] pop_some [of "snd (push (Some x) d)"] by simp

text \<open>Pushing a batch that fits appends it in order.\<close>

primrec push_all :: "'a list \<Rightarrow> 'd \<Rightarrow> 'd" where
  "push_all [] d = d"
| "push_all (x # xs) d = push_all xs (snd (push (Some x) d))"

lemma push_all:
  assumes "invar d" "length (contents d) + length xs \<le> bound d" "length xs \<le> headroom d"
  shows "invar (push_all xs d) \<and> contents (push_all xs d) = contents d @ xs \<and>
         bound (push_all xs d) = bound d"
  using assms
proof (induction xs arbitrary: d)
  case (Cons x xs)
  then have "fst (push (Some x) d)" "invar (snd (push (Some x) d))"
    "contents (snd (push (Some x) d)) = contents d @ [x]"
    "bound (snd (push (Some x) d)) = bound d" "headroom (snd (push (Some x) d)) = headroom d - 1"
    using push_room [of d x] by auto
  with Cons show ?case by simp
qed simp

text \<open>Repeated stealing takes the oldest tasks, in the order they were pushed.\<close>

primrec steal_n :: "nat \<Rightarrow> 'd \<Rightarrow> 'a list \<times> 'd" where
  "steal_n 0 d = ([], d)"
| "steal_n (Suc n) d =
     (case steal d of
        (Some (Some x), d') \<Rightarrow> (let (xs, d'') = steal_n n d' in (x # xs, d''))
      | (_, d') \<Rightarrow> ([], d'))"

lemma steal_n:
  assumes "invar d"
  shows "fst (steal_n n d) = take n (contents d) \<and> invar (snd (steal_n n d)) \<and>
         contents (snd (steal_n n d)) = drop n (contents d)"
  using assms
proof (induction n arbitrary: d)
  case (Suc n)
  show ?case
  proof (cases "contents d")
    case Nil
    with Suc.prems show ?thesis by (simp add: steal_none)
  next
    case (Cons x xs)
    with steal_some [OF Suc.prems] obtain d' where
      "steal d = (Some (Some x), d')" "invar d'" "contents d' = xs"
      by (cases "steal d") auto
    with Suc.IH [of d'] Cons show ?thesis
      by (simp add: split_beta)
  qed
qed simp

text \<open>Every sequence of operations returns what the list specification returns.\<close>

fun impl_step :: "'a dq_op \<Rightarrow> 'd \<Rightarrow> 'a dq_out \<times> 'd" where
  "impl_step (PushBottom x) d = map_prod Pushed id (push x d)"
| "impl_step PopBottom d = map_prod Took id (pop d)"
| "impl_step StealTop d = map_prod Took id (steal d)"

lemma impl_step:
  assumes "invar d" "0 < headroom d" "impl_step x d = (r, d')"
  shows "invar d' \<and> spec_step (bound d) x (contents d) = (r, contents d') \<and>
         bound d' = bound d \<and> headroom d - 1 \<le> headroom d'"
proof (cases x)
  case (PushBottom y)
  with assms show ?thesis
    by (cases y; cases "length (contents d) < bound d")
      (auto simp: push_empty push_full push_room prod_eq_iff)
next
  case PopBottom
  with assms show ?thesis
    by (cases "contents d = []") (auto simp: pop_none pop_some prod_eq_iff intro!: le_trans [OF diff_le_self])
next
  case StealTop
  with assms show ?thesis
    by (cases "contents d = []") (auto simp: steal_none steal_some prod_eq_iff intro!: le_trans [OF diff_le_self])
qed

lemma run_ops_spec:
  assumes "invar d" "length xs \<le> headroom d"
  shows "fst (run_ops impl_step xs d) = fst (run_ops (spec_step (bound d)) xs (contents d)) \<and>
         contents (snd (run_ops impl_step xs d)) = snd (run_ops (spec_step (bound d)) xs (contents d)) \<and>
         invar (snd (run_ops impl_step xs d))"
  using assms
proof (induction xs arbitrary: d)
  case (Cons x xs)
  obtain r d' where step: "impl_step x d = (r, d')" by (cases "impl_step x d")
  with Cons.prems have d': "invar d'" "spec_step (bound d) x (contents d) = (r, contents d')"
    "bound d' = bound d" "headroom d - 1 \<le> headroom d'"
    using impl_step [of d x r d'] by auto
  with Cons.IH [of d'] Cons.prems step show ?case by (simp add: split_beta)
qed simp

end

section \<open>The ring buffer implements the contract\<close>

definition dq_cap :: "'t task_deque \<Rightarrow> nat" where
  "dq_cap d = unat (dq_capacity d)"

definition dq_inv :: "'t task_deque \<Rightarrow> bool" where
  "dq_inv d \<longleftrightarrow>
     (\<exists>k. 1 \<le> k \<and> k < 64 \<and> dq_capacity d = 2 ^ k) \<and>
     length (dq_buffer d) = dq_cap d \<and>
     dq_top d \<le> dq_bottom d \<and>
     unat (dq_bottom d) - unat (dq_top d) \<le> dq_cap d - 1 \<and>
     dq_size d = dq_bottom d - dq_top d \<and>
     (\<forall>i. unat (dq_top d) \<le> i \<and> i < unat (dq_bottom d) \<longrightarrow>
          dq_buffer d ! (i mod dq_cap d) \<noteq> None)"

definition dq_task_at :: "'t task_deque \<Rightarrow> nat \<Rightarrow> 't" where
  "dq_task_at d i = the (dq_buffer d ! (i mod dq_cap d))"

definition dq_contents :: "'t task_deque \<Rightarrow> 't list" where
  "dq_contents d = map (dq_task_at d) [unat (dq_top d)..<unat (dq_bottom d)]"

definition dq_bound :: "'t task_deque \<Rightarrow> nat" where
  "dq_bound d = unat (maxSize d)"

definition dq_headroom :: "'t task_deque \<Rightarrow> nat" where
  "dq_headroom d = 2 ^ 64 - 1 - unat (dq_bottom d)"

lemma dq_ring_upd [simp]:
  "dq_slot (d\<lparr>dq_top := t\<rparr>) = dq_slot d" "dq_slot (d\<lparr>dq_bottom := t\<rparr>) = dq_slot d"
  "dq_slot (d\<lparr>dq_size := t\<rparr>) = dq_slot d" "dq_slot (d\<lparr>dq_buffer := bs\<rparr>) = dq_slot d"
  "dq_cap (d\<lparr>dq_top := t\<rparr>) = dq_cap d" "dq_cap (d\<lparr>dq_bottom := t\<rparr>) = dq_cap d"
  "dq_cap (d\<lparr>dq_size := t\<rparr>) = dq_cap d" "dq_cap (d\<lparr>dq_buffer := bs\<rparr>) = dq_cap d"
  by (simp_all add: dq_slot_def dq_cap_def fun_eq_iff)

lemma dq_cap_pow2:
  assumes "dq_inv d"
  shows "\<exists>k. 1 \<le> k \<and> k < 64 \<and> dq_capacity d = 2 ^ k \<and> dq_cap d = 2 ^ k"
  using assms by (auto simp: dq_inv_def dq_cap_def unat_pow2_word)

lemma dq_cap_ge_2:
  assumes "dq_inv d"
  shows "2 \<le> dq_cap d"
proof -
  obtain k where "1 \<le> k" "dq_cap d = 2 ^ k" using dq_cap_pow2 [OF assms] by blast
  then show ?thesis by (metis power_increasing one_le_numeral power_one_right)
qed

lemma dq_slot_mod:
  assumes "dq_inv d"
  shows "dq_slot d i = unat i mod dq_cap d"
proof -
  obtain k where "k < 64" "dq_capacity d = 2 ^ k" "dq_cap d = 2 ^ k"
    using dq_cap_pow2 [OF assms] by blast
  then show ?thesis by (simp add: dq_slot_def unat_and_mask_pow2)
qed

lemma dq_slot_in_range:
  assumes "dq_inv d"
  shows "dq_slot d i < length (dq_buffer d)"
  using assms dq_cap_ge_2 [OF assms] by (simp add: dq_slot_mod) (simp add: dq_inv_def)

lemma dq_bound_eq:
  assumes "dq_inv d"
  shows "dq_bound d = dq_cap d - 1"
proof -
  have "0 < dq_capacity d"
    using dq_cap_ge_2 [OF assms] by (metis dq_cap_def not_numeral_le_zero unat_eq_zero word_gt_0)
  then show ?thesis
    by (simp add: dq_bound_def maxSize_def dq_cap_def unat_minus_one)
qed

lemma dq_length_contents: "length (dq_contents d) = unat (dq_bottom d) - unat (dq_top d)"
  by (simp add: dq_contents_def)

lemma dq_contents_Nil:
  assumes "dq_inv d"
  shows "dq_contents d = [] \<longleftrightarrow> dq_top d = dq_bottom d"
  using assms by (auto simp: dq_contents_def dq_inv_def word_le_nat_alt word_unat_eq_iff)

lemma dq_other_slot:
  assumes "i < dq_cap d + j" "j < dq_cap d + i" "i \<noteq> j"
  shows "i mod dq_cap d \<noteq> j mod dq_cap d"
  using assms mod_window_inj [of i "dq_cap d" j] mod_window_inj [of j "dq_cap d" i]
  by (metis add.commute nat_le_linear)

text \<open>The facts the operation proofs share: order of the counters and the free slot.\<close>

lemma dq_top_le_bottom:
  assumes "dq_inv d"
  shows "unat (dq_top d) \<le> unat (dq_bottom d)"
  using assms by (simp add: dq_inv_def word_le_nat_alt)

lemma dq_window:
  assumes "dq_inv d"
  shows "unat (dq_bottom d) < unat (dq_top d) + dq_cap d"
  using assms dq_cap_ge_2 [OF assms] by (simp add: dq_inv_def) linarith

lemma dq_live_slot:
  assumes "dq_inv d" "unat (dq_top d) \<le> i" "i < unat (dq_bottom d)"
  shows "dq_buffer d ! (i mod dq_cap d) = Some (dq_task_at d i)"
  using assms by (auto simp: dq_inv_def dq_task_at_def)

lemma dq_buffer_length:
  assumes "dq_inv d"
  shows "length (dq_buffer d) = dq_cap d" and "i mod dq_cap d < dq_cap d"
  using assms dq_cap_ge_2 [OF assms] by (auto simp: dq_inv_def)

text \<open>
  A changed deque over the same ring keeps the invariant when its counters stay in order and
  its live slots hold the tasks of \<open>f\<close>; its contents are then the values of \<open>f\<close>.
\<close>

lemma dq_invI:
  assumes "dq_inv d" "dq_capacity d' = dq_capacity d" "length (dq_buffer d') = length (dq_buffer d)"
    and "dq_top d' \<le> dq_bottom d'"
    and "unat (dq_bottom d') - unat (dq_top d') \<le> dq_cap d - 1"
    and "dq_size d' = dq_bottom d' - dq_top d'"
    and live: "\<And>i. unat (dq_top d') \<le> i \<Longrightarrow> i < unat (dq_bottom d') \<Longrightarrow>
          dq_buffer d' ! (i mod dq_cap d) = Some (f i)"
  shows "dq_inv d'" and "dq_contents d' = map f [unat (dq_top d')..<unat (dq_bottom d')]"
    and "dq_bound d' = dq_bound d"
proof -
  have cap: "dq_cap d' = dq_cap d" using assms(2) by (simp add: dq_cap_def)
  show "dq_inv d'"
    using assms unfolding dq_inv_def cap by auto
  show "dq_contents d' = map f [unat (dq_top d')..<unat (dq_bottom d')]"
    using live by (simp add: dq_contents_def dq_task_at_def cap)
  show "dq_bound d' = dq_bound d"
    using assms(2) by (simp add: dq_bound_def maxSize_def)
qed

definition dq_pushed :: "'t \<Rightarrow> 't task_deque \<Rightarrow> 't task_deque" where
  "dq_pushed x d = d\<lparr>dq_buffer := (dq_buffer d)[unat (dq_bottom d) mod dq_cap d := Some x],
                     dq_bottom := dq_bottom d + 1, dq_size := dq_size d + 1\<rparr>"

lemma tryPushBottom_room:
  assumes "dq_inv d" "length (dq_contents d) < dq_bound d"
  shows "tryPushBottom (Some x) d = (True, dq_pushed x d)"
proof -
  have "\<not> maxSize d \<le> dq_bottom d - dq_top d"
    using assms dq_top_le_bottom [OF assms(1)]
    by (simp add: dq_length_contents dq_bound_def word_le_nat_alt unat_sub_word)
  then show ?thesis
    by (simp add: tryPushBottom_def dq_pushed_def dq_slot_mod [OF assms(1)] Let_def)
qed

lemma tryPushBottom_full:
  assumes "dq_inv d" "dq_bound d \<le> length (dq_contents d)"
  shows "tryPushBottom (Some x) d = (False, d)"
proof -
  have "maxSize d \<le> dq_bottom d - dq_top d"
    using assms dq_top_le_bottom [OF assms(1)]
    by (simp add: dq_length_contents dq_bound_def word_le_nat_alt unat_sub_word)
  then show ?thesis by (simp add: tryPushBottom_def)
qed

lemma dq_pushed:
  assumes "dq_inv d" "length (dq_contents d) < dq_bound d" "0 < dq_headroom d"
  shows "dq_inv (dq_pushed x d)" and "dq_contents (dq_pushed x d) = dq_contents d @ [x]"
    and "dq_bound (dq_pushed x d) = dq_bound d"
    and "dq_headroom (dq_pushed x d) = dq_headroom d - 1"
proof -
  let ?t = "unat (dq_top d)" and ?b = "unat (dq_bottom d)" and ?c = "dq_cap d"
  let ?f = "\<lambda>i. if i = ?b then x else dq_task_at d i"
  have tb: "?t \<le> ?b" by (rule dq_top_le_bottom [OF assms(1)])
  have room: "?b - ?t < ?c - 1"
    using assms(2) by (simp add: dq_length_contents dq_bound_eq [OF assms(1)])
  have b1: "unat (dq_bottom d + 1) = Suc ?b"
    using assms(3) unat_Suc_word [of "dq_bottom d"] by (simp add: dq_headroom_def)
  note I = dq_invI [OF assms(1), of "dq_pushed x d" ?f]
  have live: "dq_buffer (dq_pushed x d) ! (i mod ?c) = Some (?f i)" if "?t \<le> i" "i < Suc ?b" for i
  proof (cases "i = ?b")
    case True
    then show ?thesis by (simp add: dq_pushed_def dq_buffer_length [OF assms(1)])
  next
    case False
    then have "?b mod ?c \<noteq> i mod ?c"
      using that room by (intro dq_other_slot) auto
    then show ?thesis
      using that False by (simp add: dq_pushed_def dq_live_slot [OF assms(1)])
  qed
  have size: "dq_size d = dq_bottom d - dq_top d" using assms(1) by (simp add: dq_inv_def)
  show "dq_inv (dq_pushed x d)" and "dq_bound (dq_pushed x d) = dq_bound d"
    using live tb room by (intro I; simp add: dq_pushed_def b1 size word_le_nat_alt)+
  have "dq_contents (dq_pushed x d) = map ?f [?t..<Suc ?b]"
    using live tb room by (subst I) (simp_all add: dq_pushed_def b1 size word_le_nat_alt)
  also have "\<dots> = dq_contents d @ [x]" using tb by (simp add: dq_contents_def)
  finally show "dq_contents (dq_pushed x d) = dq_contents d @ [x]" .
  show "dq_headroom (dq_pushed x d) = dq_headroom d - 1"
    using b1 by (simp add: dq_headroom_def dq_pushed_def)
qed

text \<open>Taking the newest task: the bottom index moves back, or, for the last task, the top moves on.\<close>

definition dq_popped :: "'t task_deque \<Rightarrow> 't task_deque" where
  "dq_popped d = d\<lparr>dq_buffer := (dq_buffer d)[(unat (dq_bottom d) - 1) mod dq_cap d := None],
                   dq_bottom := (if dq_top d = dq_bottom d - 1 then dq_bottom d else dq_bottom d - 1),
                   dq_top := (if dq_top d = dq_bottom d - 1 then dq_top d + 1 else dq_top d),
                   dq_size := dq_size d - 1\<rparr>"

definition dq_stolen :: "'t task_deque \<Rightarrow> 't task_deque" where
  "dq_stolen d = d\<lparr>dq_buffer := (dq_buffer d)[unat (dq_top d) mod dq_cap d := None],
                   dq_top := dq_top d + 1, dq_size := dq_size d - 1\<rparr>"

lemma dq_nonempty:
  assumes "dq_inv d" "dq_contents d \<noteq> []"
  shows "unat (dq_top d) < unat (dq_bottom d)" and "unat (dq_bottom d - 1) = unat (dq_bottom d) - 1"
    and "unat (dq_top d + 1) = Suc (unat (dq_top d))" and "dq_bottom d \<noteq> 0"
proof -
  show lt: "unat (dq_top d) < unat (dq_bottom d)"
    using assms by (simp add: dq_contents_def)
  then show nz: "dq_bottom d \<noteq> 0" by auto
  then show "unat (dq_bottom d - 1) = unat (dq_bottom d) - 1" by (rule unat_minus_one)
  have "unat (dq_bottom d) < 2 ^ 64" using unsigned_less [of "dq_bottom d"] by simp
  then show "unat (dq_top d + 1) = Suc (unat (dq_top d))"
    using lt unat_Suc_word [of "dq_top d"] by simp
qed

lemma tryPopBottom_some:
  assumes "dq_inv d" "dq_contents d \<noteq> []"
  shows "tryPopBottom d = (Some (Some (last (dq_contents d))), dq_popped d)"
proof -
  note N = dq_nonempty [OF assms]
  have le: "dq_top d \<le> dq_bottom d - 1" using N by (simp add: word_le_nat_alt)
  have "last (dq_contents d) = dq_task_at d (unat (dq_bottom d) - 1)"
    using N by (simp add: dq_contents_def last_map)
  moreover have "dq_buffer d ! ((unat (dq_bottom d) - 1) mod dq_cap d) =
      Some (dq_task_at d (unat (dq_bottom d) - 1))"
    using N by (intro dq_live_slot [OF assms(1)]) auto
  moreover have "dq_slot d (dq_bottom d - 1) = (unat (dq_bottom d) - 1) mod dq_cap d"
    using N by (simp add: dq_slot_mod [OF assms(1)])
  ultimately show ?thesis
    using N le by (simp add: tryPopBottom_def dq_popped_def Let_def)
qed

lemma tryPopBottom_none:
  assumes "dq_inv d" "dq_contents d = []"
  shows "tryPopBottom d = (None, d)"
proof (cases "dq_bottom d = 0")
  case False
  then have "unat (dq_bottom d - 1) < unat (dq_bottom d)"
    by (simp add: unat_minus_one unat_gt_0)
  moreover have "dq_top d = dq_bottom d" using assms dq_contents_Nil by blast
  ultimately have "\<not> dq_top d \<le> dq_bottom d - 1" by (simp add: word_le_nat_alt)
  with False show ?thesis by (simp add: tryPopBottom_def Let_def)
qed (simp add: tryPopBottom_def)

lemma tryStealTop_some:
  assumes "dq_inv d" "dq_contents d \<noteq> []"
  shows "tryStealTop d = (Some (Some (hd (dq_contents d))), dq_stolen d)"
proof -
  note N = dq_nonempty [OF assms]
  have "hd (dq_contents d) = dq_task_at d (unat (dq_top d))"
    using N by (simp add: dq_contents_def hd_map)
  moreover have "dq_buffer d ! (unat (dq_top d) mod dq_cap d) = Some (dq_task_at d (unat (dq_top d)))"
    using N by (intro dq_live_slot [OF assms(1)]) auto
  ultimately show ?thesis
    using N by (simp add: tryStealTop_def dq_stolen_def Let_def word_less_nat_alt
        dq_slot_mod [OF assms(1)])
qed

lemma tryStealTop_none:
  assumes "dq_inv d" "dq_contents d = []"
  shows "tryStealTop d = (None, d)"
  using assms dq_contents_Nil [OF assms(1)] by (simp add: tryStealTop_def)

lemma dq_stolen:
  assumes "dq_inv d" "dq_contents d \<noteq> []"
  shows "dq_inv (dq_stolen d)" and "dq_contents (dq_stolen d) = tl (dq_contents d)"
    and "dq_bound (dq_stolen d) = dq_bound d" and "dq_headroom (dq_stolen d) = dq_headroom d"
proof -
  note N = dq_nonempty [OF assms] and W = dq_window [OF assms(1)]
  let ?t = "unat (dq_top d)" and ?b = "unat (dq_bottom d)" and ?c = "dq_cap d"
  note I = dq_invI [OF assms(1), of "dq_stolen d" "dq_task_at d"]
  have live: "dq_buffer (dq_stolen d) ! (i mod ?c) = Some (dq_task_at d i)" if "Suc ?t \<le> i" "i < ?b" for i
  proof -
    have "?t mod ?c \<noteq> i mod ?c" using that W by (intro dq_other_slot) auto
    then show ?thesis using that by (simp add: dq_stolen_def dq_live_slot [OF assms(1)])
  qed
  have size: "dq_size d = dq_bottom d - dq_top d" using assms(1) by (simp add: dq_inv_def)
  show "dq_inv (dq_stolen d)" and "dq_bound (dq_stolen d) = dq_bound d"
    using live N W by (intro I; simp add: dq_stolen_def size word_le_nat_alt)+
  have "dq_contents (dq_stolen d) = map (dq_task_at d) [Suc ?t..<?b]"
    using live N W by (subst I) (simp_all add: dq_stolen_def size word_le_nat_alt)
  also have "\<dots> = tl (dq_contents d)" using N by (simp add: dq_contents_def upt_conv_Cons)
  finally show "dq_contents (dq_stolen d) = tl (dq_contents d)" .
  show "dq_headroom (dq_stolen d) = dq_headroom d" by (simp add: dq_headroom_def dq_stolen_def)
qed

lemma dq_popped:
  assumes "dq_inv d" "dq_contents d \<noteq> []"
  shows "dq_inv (dq_popped d)" and "dq_contents (dq_popped d) = butlast (dq_contents d)"
    and "dq_bound (dq_popped d) = dq_bound d" and "dq_headroom d \<le> dq_headroom (dq_popped d)"
proof -
  note N = dq_nonempty [OF assms] and W = dq_window [OF assms(1)]
  let ?t = "unat (dq_top d)" and ?b = "unat (dq_bottom d)" and ?c = "dq_cap d"
  let ?last = "dq_top d = dq_bottom d - 1"
  note I = dq_invI [OF assms(1), of "dq_popped d" "dq_task_at d"]
  have last: "?last \<longleftrightarrow> ?b = Suc ?t" using N by (auto simp: word_unat_eq_iff)
  have live: "dq_buffer (dq_popped d) ! (i mod ?c) = Some (dq_task_at d i)" if "?t \<le> i" "i < ?b - 1" for i
  proof -
    have "(?b - 1) mod ?c \<noteq> i mod ?c" using that W by (intro dq_other_slot) auto
    then show ?thesis using that by (simp add: dq_popped_def dq_live_slot [OF assms(1)])
  qed
  have size: "dq_size d = dq_bottom d - dq_top d" using assms(1) by (simp add: dq_inv_def)
  have t': "unat (dq_top (dq_popped d)) = (if ?b = Suc ?t then Suc ?t else ?t)"
    and b': "unat (dq_bottom (dq_popped d)) = (if ?b = Suc ?t then ?b else ?b - 1)"
    using N(2,3) last by (simp_all add: dq_popped_def)
  have counters: "dq_top (dq_popped d) \<le> dq_bottom (dq_popped d)"
    "unat (dq_bottom (dq_popped d)) - unat (dq_top (dq_popped d)) = ?b - 1 - ?t"
    using N(1) t' b' by (auto simp: word_le_nat_alt)
  have diff: "dq_size (dq_popped d) = dq_bottom (dq_popped d) - dq_top (dq_popped d)"
    by (cases ?last) (simp_all add: dq_popped_def size)
  have range: "?t \<le> i \<and> i < ?b - 1"
    if "unat (dq_top (dq_popped d)) \<le> i" "i < unat (dq_bottom (dq_popped d))" for i
    using that N(1) unfolding t' b' by (simp split: if_splits)
  have same: "dq_capacity (dq_popped d) = dq_capacity d"
    "length (dq_buffer (dq_popped d)) = length (dq_buffer d)" by (simp_all add: dq_popped_def)
  show "dq_inv (dq_popped d)" and "dq_bound (dq_popped d) = dq_bound d"
    using live range counters diff same W by (intro I; simp)+
  have "dq_contents (dq_popped d) =
      map (dq_task_at d) [unat (dq_top (dq_popped d))..<unat (dq_bottom (dq_popped d))]"
    using live range counters diff same W by (intro I) simp_all
  also have "\<dots> = butlast (dq_contents d)"
    using N(1) unfolding t' b' by (simp add: dq_contents_def butlast_map_upt)
  finally show "dq_contents (dq_popped d) = butlast (dq_contents d)" .
  show "dq_headroom d \<le> dq_headroom (dq_popped d)"
    using b' by (simp add: dq_headroom_def diff_le_mono2)
qed

interpretation td: bounded_deque dq_inv dq_contents dq_bound dq_headroom
  tryPushBottom tryPopBottom tryStealTop
proof unfold_locales
  fix d :: "'t task_deque" and x
  show "tryPushBottom None d = (True, d)" by (simp add: tryPushBottom_def)
  assume inv: "dq_inv d"
  show "length (dq_contents d) \<le> dq_bound d"
    using inv by (simp add: dq_length_contents dq_bound_eq) (simp add: dq_inv_def)
qed (simp_all add: tryPushBottom_room tryPushBottom_full dq_pushed tryPopBottom_some
    tryPopBottom_none dq_popped tryStealTop_some tryStealTop_none dq_stolen)

lemma TaskDeque_inv:
  assumes "(TaskDeque x :: 't task_deque option) = Some d"
  shows "dq_inv d" and "dq_contents d = []" and "dq_headroom d = 2 ^ 64 - 1"
proof -
  from assms obtain c where c: "roundUpPow2 x = Some c" and
    d: "d = \<lparr>dq_capacity = c, dq_buffer = replicate (unat c) None, dq_top = 0, dq_bottom = 0, dq_size = 0\<rparr>"
    by (auto simp: TaskDeque_def split: option.splits)
  have "x \<le> 2 ^ 63"
  proof (rule ccontr)
    assume "\<not> x \<le> 2 ^ 63"
    then have "2 ^ 63 < x" by (simp only: not_le)
    from roundUpPow2_above [OF this] c show False by simp
  qed
  with c obtain k where "1 \<le> k" "k < 64" "c = 2 ^ k" using roundUpPow2_pow2 by blast
  then show "dq_inv d" and "dq_contents d = []" and "dq_headroom d = 2 ^ 64 - 1"
    by (auto simp: d dq_inv_def dq_cap_def dq_contents_def dq_headroom_def)
qed

section \<open>Properties\<close>

text \<open>One operation of the deque, as a step on operation names.\<close>

definition dq_step :: "'t dq_op \<Rightarrow> 't task_deque \<Rightarrow> 't dq_out \<times> 't task_deque" where
  "dq_step = td.impl_step"

lemma dq_step_simps [simp]:
  "dq_step (PushBottom x) d = map_prod Pushed id (tryPushBottom x d)"
  "dq_step PopBottom d = map_prod Took id (tryPopBottom d)"
  "dq_step StealTop d = map_prod Took id (tryStealTop d)"
  by (simp_all add: dq_step_def)

text \<open>
  C6. The work-stealing deque refines a bounded list: from a freshly constructed deque, any
  sequence of fewer than \<open>2 ^ 64\<close> pushes, pops and steals returns exactly what the list
  specification returns (owner end LIFO, thief end FIFO, refusal only when \<open>capacity_ - 1\<close>
  tasks are stored) and leaves the same tasks stored in the same order.
\<close>

theorem deque_refines_list:
  assumes "TaskDeque c = Some d" "length ops < 2 ^ 64"
  shows "fst (run_ops dq_step ops d) = fst (run_ops (spec_step (unat (maxSize d))) ops []) \<and>
         dq_contents (snd (run_ops dq_step ops d)) = snd (run_ops (spec_step (unat (maxSize d))) ops [])"
proof -
  have "dq_inv d" "dq_contents d = []" "length ops \<le> dq_headroom d"
    using TaskDeque_inv [OF assms(1)] assms(2) by simp_all
  then show ?thesis
    using td.run_ops_spec [of d ops] by (simp add: dq_step_def dq_bound_def)
qed

lemma TaskDeque_4:
  obtains d :: "'t task_deque" where "TaskDeque 4 = Some d" "unat (maxSize d) = 3"
  by (simp add: TaskDeque_def roundUpPow2_def isPow2_def maxSize_def)

theorem deque_refines_list_witness:
  "\<exists>d. TaskDeque 4 = Some d \<and>
     fst (run_ops dq_step [PushBottom (Some (1::nat)), PushBottom (Some 2), StealTop, PopBottom, PopBottom] d)
       = [Pushed True, Pushed True, Took (Some (Some 1)), Took (Some (Some 2)), Took None]"
proof -
  let ?ops = "[PushBottom (Some (1::nat)), PushBottom (Some 2), StealTop, PopBottom, PopBottom]"
  obtain d :: "nat task_deque" where d: "TaskDeque 4 = Some d" and "unat (maxSize d) = 3"
    by (rule TaskDeque_4)
  with deque_refines_list [OF d, of ?ops] d show ?thesis by auto
qed

text \<open>
  Slots stay in range and the size counter is exact: after any such sequence the deque
  invariant holds, so every index the code computes with \<open>& (capacity_ - 1)\<close> lies inside
  \<open>buffer_\<close>, \<open>size_\<close> is the number of stored tasks, and at most \<open>capacity_ - 1\<close> are stored.
\<close>

lemma deque_invariant:
  assumes "TaskDeque c = Some d" "length ops < 2 ^ 64"
  defines "d' \<equiv> snd (run_ops dq_step ops d)"
  shows "dq_slot d' i < length (dq_buffer d') \<and>
         unat (approxSize d') = length (dq_contents d') \<and>
         length (dq_contents d') \<le> unat (maxSize d')"
proof -
  have "dq_inv d" "length ops \<le> dq_headroom d"
    using TaskDeque_inv [OF assms(1)] assms(2) by simp_all
  then have inv: "dq_inv d'"
    using td.run_ops_spec [of d ops] by (simp add: dq_step_def d'_def)
  have "unat (dq_size d') = unat (dq_bottom d') - unat (dq_top d')"
    using inv by (simp add: dq_inv_def unat_sub_word)
  then show ?thesis
    using inv td.fits [OF inv] dq_slot_in_range [OF inv]
    by (simp add: dq_length_contents approxSize_def dq_bound_def)
qed

lemma deque_invariant_witness:
  "\<exists>d. TaskDeque 4 = Some d \<and>
     (let d' = snd (run_ops dq_step [PushBottom (Some (7::nat)), StealTop] d)
      in dq_slot d' 9 < length (dq_buffer d') \<and> unat (approxSize d') = length (dq_contents d') \<and>
         length (dq_contents d') \<le> unat (maxSize d'))"
proof -
  obtain d :: "nat task_deque" where d: "TaskDeque 4 = Some d"
    by (rule TaskDeque_4)
  with deque_invariant [OF d, of "[PushBottom (Some 7), StealTop]" 9] show ?thesis
    unfolding Let_def by auto
qed

text \<open>
  The callers' guard \<^verbatim>\<open>remainingSpace() != 0 && tryPushBottom(task)\<close>: on the owner thread
  \<open>remainingSpace\<close> is the exact number of free places, and it is non-zero precisely when a push of
  a non-empty task is accepted.
\<close>

lemma remainingSpace_exact:
  assumes "dq_inv d"
  shows "unat (remainingSpace d) = unat (maxSize d) - length (dq_contents d) \<and>
         (remainingSpace d \<noteq> 0 \<longleftrightarrow> fst (tryPushBottom (Some x) d))"
proof -
  have tb: "dq_top d \<le> dq_bottom d" using assms by (simp add: dq_inv_def)
  then have used: "unat (dq_bottom d - dq_top d) = length (dq_contents d)"
    by (simp add: unat_sub_word dq_length_contents)
  then have r: "unat (remainingSpace d) = unat (maxSize d) - length (dq_contents d)"
    using tb by (auto simp: remainingSpace_def word_le_nat_alt unat_sub_word Let_def)
  have "remainingSpace d \<noteq> 0 \<longleftrightarrow> length (dq_contents d) < dq_bound d"
    using r by (auto simp: dq_bound_def word_unat_eq_iff)
  moreover have "fst (tryPushBottom (Some x) d) \<longleftrightarrow> length (dq_contents d) < dq_bound d"
    using tryPushBottom_room [OF assms] tryPushBottom_full [OF assms]
    by (cases "length (dq_contents d) < dq_bound d") auto
  ultimately show ?thesis using r by simp
qed

lemma remainingSpace_exact_witness:
  "\<exists>d :: nat task_deque. dq_inv d \<and> unat (remainingSpace d) = 3 \<and> fst (tryPushBottom (Some 5) d)"
proof -
  obtain d :: "nat task_deque" where d: "TaskDeque 4 = Some d" and m: "unat (maxSize d) = 3"
    by (rule TaskDeque_4)
  then have "dq_inv d" "dq_contents d = []" using TaskDeque_inv [OF d] by auto
  with m show ?thesis
    using remainingSpace_exact [of d 5] by (intro exI [of _ d]) auto
qed

end
