(* ===== verification/Task_Deque_Conc.thy ===== *)
theory Task_Deque_Conc
  imports Task_Deque
begin

text \<open>
  \<^verbatim>\<open>utils/concurrency/task_deque.cc\<close> under interference: one owner pushes and pops while any
  number of thieves steal. Every access to a shared atomic or to a slot of \<open>buffer_\<close> is one
  step, and a scheduler interleaves the steps in any order. Memory is sequentially consistent
  (the code orders the accesses that matter with \<open>seq_cst\<close> fences and compare-exchanges); the
  counters are unbounded here, since 64 bits do not wrap within any feasible run and the
  wrap-around itself is treated in \<open>Task_Deque\<close>.
\<close>

section \<open>Program counters and shared state\<close>

text \<open>
  Where the owner is, with its local \<open>b\<close>; the constructor names the next access to shared state.
  Pushes: write the slot, publish \<open>bottom_\<close>, count. Pops: load \<open>top_\<close>, then take the slot
  directly, or race for the last task with a compare-exchange, or undo.
\<close>

datatype owner_pc =
    OIdle
  | OPushSlot nat
  | OPushBottom nat
  | OPushSize
  | OPopTop nat
  | OPopTake nat
  | OPopTakeSize
  | OPopCas nat
  | OPopWinBottom nat
  | OPopWinSize nat
  | OPopWinTake nat
  | OPopUndo nat

text \<open>A thief, with its local \<open>t\<close>: load \<open>bottom_\<close>, compare-exchange \<open>top_\<close>, count, move the slot out.\<close>

datatype thief_pc =
    TIdle
  | TLoadBottom nat
  | TCas nat
  | TSize nat
  | TTake nat

datatype owner_cmd = CPush | CPop

text \<open>
  Tasks are numbered in the order they are pushed. The last four fields are history: the next
  number, the task pushed at each index, the tasks claimed so far, and for every completed take
  the claimed task with what was moved out of the slot.
\<close>

record conc_deque =
  c_cap :: nat
  c_buf :: "nat \<Rightarrow> nat fn"
  c_top :: nat
  c_bottom :: nat
  c_size :: size_t
  c_owner :: owner_pc
  c_thief :: "nat \<Rightarrow> thief_pc"
  c_next :: nat
  c_tok :: "nat \<Rightarrow> nat"
  c_claimed :: "nat list"
  c_delivered :: "(nat \<times> nat fn) list"

definition conc_init :: "nat \<Rightarrow> conc_deque" where
  "conc_init cap = \<lparr>c_cap = cap, c_buf = (\<lambda>_. None), c_top = 0, c_bottom = 0, c_size = 0,
     c_owner = OIdle, c_thief = (\<lambda>_. TIdle), c_next = 0, c_tok = (\<lambda>_. 0),
     c_claimed = [], c_delivered = []\<rparr>"

text \<open>Moving the task of index \<open>i\<close> out of its slot.\<close>

definition move_out :: "nat \<Rightarrow> conc_deque \<Rightarrow> conc_deque" where
  "move_out i s = s\<lparr>c_buf := (c_buf s)(i mod c_cap s := None),
                    c_delivered := c_delivered s @ [(c_tok s i, c_buf s (i mod c_cap s))]\<rparr>"

definition claim_index :: "nat \<Rightarrow> conc_deque \<Rightarrow> conc_deque" where
  "claim_index i s = s\<lparr>c_claimed := c_claimed s @ [c_tok s i]\<rparr>"

section \<open>Steps\<close>

text \<open>\<^verbatim>\<open>tryPushBottom\<close>, one access at a time.\<close>

definition push_step :: "conc_deque \<Rightarrow> conc_deque" where
  "push_step s =
     (case c_owner s of
        OIdle \<Rightarrow> (if c_bottom s - c_top s \<ge> c_cap s - 1 then s
                  else s\<lparr>c_owner := OPushSlot (c_bottom s)\<rparr>)
      | OPushSlot b \<Rightarrow> s\<lparr>c_buf := (c_buf s)(b mod c_cap s := Some (c_next s)),
                         c_tok := (c_tok s)(b := c_next s), c_next := Suc (c_next s),
                         c_owner := OPushBottom b\<rparr>
      | OPushBottom b \<Rightarrow> s\<lparr>c_bottom := b + 1, c_owner := OPushSize\<rparr>
      | OPushSize \<Rightarrow> s\<lparr>c_size := c_size s + 1, c_owner := OIdle\<rparr>
      | _ \<Rightarrow> s)"

text \<open>\<^verbatim>\<open>tryPopBottom\<close>, one access at a time.\<close>

definition pop_step :: "conc_deque \<Rightarrow> conc_deque" where
  "pop_step s =
     (case c_owner s of
        OIdle \<Rightarrow> (if c_bottom s = 0 then s
                  else s\<lparr>c_bottom := c_bottom s - 1, c_owner := OPopTop (c_bottom s - 1)\<rparr>)
      | OPopTop b \<Rightarrow>
          (let t = c_top s in
           if t \<le> b then
             (if t = b then s\<lparr>c_owner := OPopCas b\<rparr>
              else claim_index b (s\<lparr>c_owner := OPopTake b\<rparr>))
           else s\<lparr>c_owner := OPopUndo b\<rparr>)
      | OPopTake b \<Rightarrow> (move_out b s)\<lparr>c_owner := OPopTakeSize\<rparr>
      | OPopTakeSize \<Rightarrow> s\<lparr>c_size := c_size s - 1, c_owner := OIdle\<rparr>
      | OPopCas b \<Rightarrow> (if c_top s = b
                      then claim_index b (s\<lparr>c_top := b + 1, c_owner := OPopWinBottom b\<rparr>)
                      else s\<lparr>c_owner := OPopUndo b\<rparr>)
      | OPopWinBottom b \<Rightarrow> s\<lparr>c_bottom := b + 1, c_owner := OPopWinSize b\<rparr>
      | OPopWinSize b \<Rightarrow> s\<lparr>c_size := c_size s - 1, c_owner := OPopWinTake b\<rparr>
      | OPopWinTake b \<Rightarrow> (move_out b s)\<lparr>c_owner := OIdle\<rparr>
      | OPopUndo b \<Rightarrow> s\<lparr>c_bottom := b + 1, c_owner := OIdle\<rparr>
      | _ \<Rightarrow> s)"

text \<open>The owner: idle, it starts the commanded operation; otherwise it goes on with its own.\<close>

definition owner_step :: "owner_cmd \<Rightarrow> conc_deque \<Rightarrow> conc_deque" where
  "owner_step cmd s =
     (case c_owner s of
        OIdle \<Rightarrow> (case cmd of CPush \<Rightarrow> push_step s | CPop \<Rightarrow> pop_step s)
      | OPushSlot _ \<Rightarrow> push_step s
      | OPushBottom _ \<Rightarrow> push_step s
      | OPushSize \<Rightarrow> push_step s
      | _ \<Rightarrow> pop_step s)"

text \<open>\<^verbatim>\<open>tryStealTop\<close> of thief \<open>i\<close>, one access at a time.\<close>

definition thief_step :: "nat \<Rightarrow> conc_deque \<Rightarrow> conc_deque" where
  "thief_step i s =
     (let go = (\<lambda>pc s. s\<lparr>c_thief := (c_thief s)(i := pc)\<rparr>) in
      case c_thief s i of
        TIdle \<Rightarrow> go (TLoadBottom (c_top s)) s
      | TLoadBottom t \<Rightarrow> (if t < c_bottom s then go (TCas t) s else go TIdle s)
      | TCas t \<Rightarrow> (if c_top s = t then claim_index t (go (TSize t) (s\<lparr>c_top := t + 1\<rparr>))
                   else go TIdle s)
      | TSize t \<Rightarrow> go (TTake t) (s\<lparr>c_size := c_size s - 1\<rparr>)
      | TTake t \<Rightarrow> go TIdle (move_out t s))"

inductive conc_step :: "conc_deque \<Rightarrow> conc_deque \<Rightarrow> bool" where
  owner: "conc_step s (owner_step cmd s)"
| thief: "conc_step s (thief_step i s)"

text \<open>A schedule picks who moves next.\<close>

datatype sched = Owner owner_cmd | Thief nat

fun sched_step :: "sched \<Rightarrow> conc_deque \<Rightarrow> conc_deque" where
  "sched_step (Owner cmd) s = owner_step cmd s"
| "sched_step (Thief i) s = thief_step i s"

lemma sched_reachable: "conc_step\<^sup>*\<^sup>* s (fold sched_step xs s)"
proof (induction xs arbitrary: s)
  case (Cons x xs)
  have "conc_step s (sched_step x s)" by (cases x) (auto intro: conc_step.intros)
  with Cons [of "sched_step x s"] show ?case by (simp add: converse_rtranclp_into_rtranclp)
qed simp

section \<open>The abstract deque\<close>

text \<open>Atomic pushes at the end, pops at the end, steals at the front; every task that leaves is claimed.\<close>

record atomic_deque =
  a_queue :: "nat list"
  a_claimed :: "nat list"
  a_next :: nat

inductive atomic_step :: "atomic_deque \<Rightarrow> atomic_deque \<Rightarrow> bool" where
  push: "atomic_step \<lparr>a_queue = q, a_claimed = c, a_next = n\<rparr>
                     \<lparr>a_queue = q @ [n], a_claimed = c, a_next = Suc n\<rparr>"
| pop: "atomic_step \<lparr>a_queue = q @ [x], a_claimed = c, a_next = n\<rparr>
                    \<lparr>a_queue = q, a_claimed = c @ [x], a_next = n\<rparr>"
| steal: "atomic_step \<lparr>a_queue = x # q, a_claimed = c, a_next = n\<rparr>
                      \<lparr>a_queue = q, a_claimed = c @ [x], a_next = n\<rparr>"

definition atomic_ok :: "atomic_deque \<Rightarrow> bool" where
  "atomic_ok a \<longleftrightarrow> distinct (a_claimed a @ a_queue a) \<and>
                   set (a_claimed a @ a_queue a) = {0..<a_next a}"

lemma atomic_step_ok: "atomic_step a b \<Longrightarrow> atomic_ok a \<Longrightarrow> atomic_ok b"
  by (induction rule: atomic_step.induct) (auto simp: atomic_ok_def)

interpretation spec: simulation atomic_step "\<lambda>_ _. True" atomic_ok "\<lambda>_. ()"
  by unfold_locales (auto intro: atomic_step_ok)

text \<open>
  The logical end of the deque: a pop that has lowered \<open>bottom_\<close> but not yet won or lost its task
  still leaves that task in the deque.
\<close>

fun lim_of :: "owner_pc \<Rightarrow> nat \<Rightarrow> nat" where
  "lim_of (OPopTop b) _ = b + 1"
| "lim_of (OPopCas b) _ = b + 1"
| "lim_of (OPopWinBottom b) _ = b + 1"
| "lim_of (OPopUndo b) _ = b + 1"
| "lim_of _ bottom = bottom"

definition c_lim :: "conc_deque \<Rightarrow> nat" where
  "c_lim s = lim_of (c_owner s) (c_bottom s)"

definition c_abs :: "conc_deque \<Rightarrow> atomic_deque" where
  "c_abs s = \<lparr>a_queue = map (c_tok s) [c_top s..<c_lim s], a_claimed = c_claimed s,
              a_next = (case c_owner s of OPushBottom _ \<Rightarrow> c_next s - 1 | _ \<Rightarrow> c_next s)\<rparr>"

text \<open>What the owner's program counter says about the counters.\<close>

fun owner_at :: "owner_pc \<Rightarrow> conc_deque \<Rightarrow> bool" where
  "owner_at (OPushSlot b) s \<longleftrightarrow> c_bottom s = b"
| "owner_at (OPushBottom b) s \<longleftrightarrow> c_bottom s = b \<and> c_tok s b = c_next s - 1 \<and> 0 < c_next s"
| "owner_at (OPopTop b) s \<longleftrightarrow> c_bottom s = b"
| "owner_at (OPopTake b) s \<longleftrightarrow> c_bottom s = b"
| "owner_at (OPopCas b) s \<longleftrightarrow> c_bottom s = b \<and> b \<le> c_top s"
| "owner_at (OPopWinBottom b) s \<longleftrightarrow> c_bottom s = b \<and> c_top s = b + 1"
| "owner_at (OPopWinSize b) s \<longleftrightarrow> c_bottom s = b + 1 \<and> c_top s = b + 1"
| "owner_at (OPopWinTake b) s \<longleftrightarrow> c_bottom s = b + 1 \<and> c_top s = b + 1"
| "owner_at (OPopUndo b) s \<longleftrightarrow> c_bottom s = b \<and> c_top s = b + 1"
| "owner_at _ s \<longleftrightarrow> True"

definition owner_ok :: "conc_deque \<Rightarrow> bool" where
  "owner_ok s \<longleftrightarrow> owner_at (c_owner s) s"

text \<open>
  No thief is ahead of \<open>top_\<close>, and one whose compare-exchange could still succeed goes for a task
  that is logically there.
\<close>

definition thief_ok :: "conc_deque \<Rightarrow> thief_pc \<Rightarrow> bool" where
  "thief_ok s pc \<longleftrightarrow>
     (case pc of
        TIdle \<Rightarrow> True
      | TLoadBottom t \<Rightarrow> t \<le> c_top s
      | TCas t \<Rightarrow> t \<le> c_top s \<and> (t = c_top s \<longrightarrow> t < c_lim s)
      | TSize t \<Rightarrow> t < c_top s
      | TTake t \<Rightarrow> t < c_top s)"

definition conc_inv :: "conc_deque \<Rightarrow> bool" where
  "conc_inv s \<longleftrightarrow> c_top s \<le> c_lim s \<and> owner_ok s \<and> (\<forall>i. thief_ok s (c_thief s i))"

lemmas conc_defs = conc_inv_def owner_ok_def thief_ok_def c_lim_def move_out_def claim_index_def

section \<open>The invariant and the simulation\<close>

lemma conc_init_inv: "conc_inv (conc_init cap)"
  by (simp add: conc_defs conc_init_def)

lemma thief_okI:
  assumes "\<forall>i. thief_ok s (c_thief s i)"
    and "c_thief s' = c_thief s" "c_top s \<le> c_top s'"
    and "c_top s' = c_top s \<Longrightarrow> c_top s < c_lim s \<Longrightarrow> c_top s < c_lim s'"
  shows "\<forall>i. thief_ok s' (c_thief s' i)"
proof
  fix i
  have "thief_ok s (c_thief s i)" using assms(1) by blast
  with assms(2-4) show "thief_ok s' (c_thief s' i)"
    by (cases "c_thief s i") (auto simp: thief_ok_def)
qed

lemma push_step_inv:
  assumes "conc_inv s"
  shows "conc_inv (push_step s)"
proof -
  have th: "\<forall>i. thief_ok s (c_thief s i)" and top: "c_top s \<le> c_lim s" and ow: "owner_ok s"
    using assms by (auto simp: conc_inv_def)
  have "\<forall>i. thief_ok (push_step s) (c_thief (push_step s) i)"
  proof (rule thief_okI [OF th])
    show "c_thief (push_step s) = c_thief s" "c_top s \<le> c_top (push_step s)"
      by (auto simp: push_step_def split: owner_pc.split)
    show "c_top s < c_lim (push_step s)" if "c_top s < c_lim s"
      using that ow by (cases "c_owner s") (auto simp: push_step_def c_lim_def owner_ok_def)
  qed
  then show ?thesis
    using top ow by (cases "c_owner s")
      (auto simp: push_step_def c_lim_def owner_ok_def conc_inv_def)
qed

lemma pop_step_inv:
  assumes "conc_inv s"
  shows "conc_inv (pop_step s)"
proof -
  have th: "\<forall>i. thief_ok s (c_thief s i)" and top: "c_top s \<le> c_lim s" and ow: "owner_ok s"
    using assms by (auto simp: conc_inv_def)
  have "\<forall>i. thief_ok (pop_step s) (c_thief (pop_step s) i)"
  proof (rule thief_okI [OF th])
    show "c_thief (pop_step s) = c_thief s" "c_top s \<le> c_top (pop_step s)"
      by (auto simp: pop_step_def Let_def move_out_def claim_index_def split: owner_pc.split)
    show "c_top s < c_lim (pop_step s)"
      if "c_top (pop_step s) = c_top s" "c_top s < c_lim s"
      using that ow by (cases "c_owner s")
        (auto simp: pop_step_def Let_def c_lim_def owner_ok_def move_out_def claim_index_def
          split: if_splits)
  qed
  then show ?thesis
    using top ow by (cases "c_owner s")
      (auto simp: pop_step_def Let_def c_lim_def owner_ok_def conc_inv_def move_out_def
        claim_index_def)
qed

lemma owner_step_cases: "owner_step cmd s = push_step s \<or> owner_step cmd s = pop_step s"
  by (auto simp: owner_step_def split: owner_pc.splits owner_cmd.splits)

lemma owner_step_inv: "conc_inv s \<Longrightarrow> conc_inv (owner_step cmd s)"
  using owner_step_cases [of cmd s] push_step_inv pop_step_inv by metis

lemma thief_ok_cong:
  "c_top s' = c_top s \<Longrightarrow> c_lim s' = c_lim s \<Longrightarrow> thief_ok s' pc = thief_ok s pc"
  by (auto simp: thief_ok_def split: thief_pc.splits)

lemma thief_ok_cas:
  "thief_ok s pc \<Longrightarrow> c_top s' = Suc (c_top s) \<Longrightarrow> c_lim s' = c_lim s \<Longrightarrow> thief_ok s' pc"
  by (auto simp: thief_ok_def split: thief_pc.splits)

lemma thief_step_frame:
  "c_owner (thief_step i s) = c_owner s" "c_bottom (thief_step i s) = c_bottom s"
  "c_tok (thief_step i s) = c_tok s" "c_next (thief_step i s) = c_next s"
  "c_cap (thief_step i s) = c_cap s" "c_lim (thief_step i s) = c_lim s"
  "j \<noteq> i \<Longrightarrow> c_thief (thief_step i s) j = c_thief s j"
  by (auto simp: thief_step_def Let_def move_out_def claim_index_def c_lim_def
      split: thief_pc.split)

lemma thief_step_top:
  "c_top (thief_step i s) =
     (case c_thief s i of TCas t \<Rightarrow> if c_top s = t then t + 1 else c_top s | _ \<Rightarrow> c_top s)"
  by (auto simp: thief_step_def Let_def move_out_def claim_index_def split: thief_pc.splits)

lemma thief_step_ok:
  assumes "conc_inv s"
  shows "thief_ok (thief_step i s) (c_thief (thief_step i s) j)"
proof (cases "j = i")
  case True
  have "c_bottom s \<le> c_lim s"
    using assms by (cases "c_owner s") (auto simp: conc_inv_def c_lim_def owner_ok_def)
  moreover have "thief_ok s (c_thief s i)" using assms by (simp add: conc_inv_def)
  ultimately show ?thesis
    using True by (cases "c_thief s i")
      (auto simp: thief_ok_def thief_step_def Let_def move_out_def claim_index_def c_lim_def)
next
  case False
  have "thief_ok s (c_thief s j)" using assms by (simp add: conc_inv_def)
  with False show ?thesis
    by (cases "c_top (thief_step i s) = c_top s")
      (auto simp: thief_step_frame thief_step_top split: thief_pc.splits if_splits
        intro: thief_ok_cas [of s] thief_ok_cong [of _ s, THEN iffD2])
qed

lemma thief_step_inv:
  assumes "conc_inv s"
  shows "conc_inv (thief_step i s)"
proof -
  have ok: "thief_ok s (c_thief s i)" "c_top s \<le> c_lim s" "owner_ok s"
    using assms by (auto simp: conc_inv_def)
  have "c_top (thief_step i s) \<le> c_lim (thief_step i s)"
    using ok by (auto simp: thief_step_frame thief_step_top thief_ok_def split: thief_pc.splits)
  moreover have "owner_ok (thief_step i s)"
    using ok by (cases "c_owner s"; cases "c_thief s i")
      (auto simp: owner_ok_def thief_step_frame thief_step_top thief_ok_def c_lim_def)
  ultimately show ?thesis using thief_step_ok [OF assms] by (simp add: conc_inv_def)
qed

lemma conc_step_inv: "conc_inv s \<Longrightarrow> conc_step s t \<Longrightarrow> conc_inv t"
  by (auto elim!: conc_step.cases intro: owner_step_inv thief_step_inv)

lemma map_upd_above: "b \<le> x \<Longrightarrow> map (f(x := y)) [a..<b] = map f [a..<b]"
  by (auto intro: map_cong)

lemma push_step_sim:
  assumes "conc_inv s"
  shows "atomic_step (c_abs s) (c_abs (push_step s)) \<or> c_abs (push_step s) = c_abs s"
proof (cases "c_owner s")
  case (OPushBottom b)
  with assms have "c_bottom s = b" "c_tok s b = c_next s - 1" "0 < c_next s" "c_top s \<le> b"
    by (auto simp: conc_inv_def owner_ok_def c_lim_def)
  with OPushBottom show ?thesis
    using atomic_step.push [of "map (c_tok s) [c_top s..<b]" "c_claimed s" "c_next s - 1"]
    by (auto simp: push_step_def c_abs_def c_lim_def)
qed (use assms in \<open>auto simp: push_step_def c_abs_def c_lim_def conc_inv_def owner_ok_def
       map_upd_above\<close>)

lemma pop_step_sim:
  assumes "conc_inv s"
  shows "atomic_step (c_abs s) (c_abs (pop_step s)) \<or> c_abs (pop_step s) = c_abs s"
proof (cases "c_owner s")
  case (OPopTop b)
  with assms have "c_bottom s = b" "c_top s \<le> b + 1"
    by (auto simp: conc_inv_def owner_ok_def c_lim_def)
  with OPopTop show ?thesis
    using atomic_step.pop [of "map (c_tok s) [c_top s..<b]" "c_tok s b" "c_claimed s" "c_next s"]
    by (auto simp: pop_step_def c_abs_def c_lim_def claim_index_def Let_def)
next
  case (OPopCas b)
  with assms have "c_bottom s = b" "b \<le> c_top s" "c_top s \<le> b + 1"
    by (auto simp: conc_inv_def owner_ok_def c_lim_def)
  with OPopCas show ?thesis
    using atomic_step.pop [of "[]" "c_tok s b" "c_claimed s" "c_next s"]
    by (auto simp: pop_step_def c_abs_def c_lim_def claim_index_def)
qed (use assms in \<open>auto simp: pop_step_def c_abs_def c_lim_def conc_inv_def owner_ok_def
       move_out_def\<close>)

lemma thief_step_sim:
  assumes "conc_inv s"
  shows "atomic_step (c_abs s) (c_abs (thief_step i s)) \<or> c_abs (thief_step i s) = c_abs s"
proof (cases "c_thief s i")
  case (TCas t)
  show ?thesis
  proof (cases "t = c_top s")
    case True
    have "thief_ok s (c_thief s i)" using assms by (simp add: conc_inv_def)
    with TCas True have "t < c_lim s" by (simp add: thief_ok_def)
    then have "map (c_tok s) [t..<c_lim s] = c_tok s t # map (c_tok s) [Suc t..<c_lim s]"
      by (rule map_upt_Cons)
    with TCas True show ?thesis
      using atomic_step.steal [of "c_tok s t" "map (c_tok s) [Suc t..<c_lim s]" "c_claimed s"
          "a_next (c_abs s)"]
      by (auto simp: thief_step_def Let_def c_abs_def c_lim_def claim_index_def
          cong: owner_pc.case_cong)
  qed (use TCas in \<open>auto simp: thief_step_def Let_def c_abs_def c_lim_def
         cong: owner_pc.case_cong\<close>)
qed (auto simp: thief_step_def Let_def c_abs_def c_lim_def move_out_def
       cong: owner_pc.case_cong)

lemma conc_step_sim:
  "conc_inv s \<Longrightarrow> conc_step s t \<Longrightarrow> atomic_step (c_abs s) (c_abs t) \<or> c_abs t = c_abs s"
  using owner_step_cases push_step_sim pop_step_sim thief_step_sim
  by (metis conc_step.cases)

interpretation conc: simulation conc_step atomic_step conc_inv c_abs
  by unfold_locales (use conc_step_inv conc_step_sim in blast)+

text \<open>
  C3. Any interleaving of the owner with any number of thieves behaves like an atomic deque: the
  run of any schedule projects to a run of pushes and pops at one end and steals at the other,
  each taking effect at one access inside the operation.
\<close>

theorem conc_refines_atomic:
  "atomic_step\<^sup>*\<^sup>* \<lparr>a_queue = [], a_claimed = [], a_next = 0\<rparr>
                 (c_abs (fold sched_step xs (conc_init cap)))"
  using conc.sim_run [OF sched_reachable conc_init_inv, of cap xs]
  by (simp add: c_abs_def conc_init_def c_lim_def)

text \<open>
  C4. In every interleaving no task is claimed twice and none is lost: the tasks claimed so far and
  the tasks still in the deque are, without repetition, exactly the tasks pushed so far.
\<close>

theorem conc_claims_exactly_once:
  "let s = fold sched_step xs (conc_init cap); q = a_queue (c_abs s) in
   distinct (c_claimed s @ q) \<and> set (c_claimed s @ q) = {0..<a_next (c_abs s)}"
proof -
  have "atomic_ok (c_abs (conc_init cap))"
    by (simp add: atomic_ok_def c_abs_def conc_init_def c_lim_def)
  then have "atomic_ok (c_abs (fold sched_step xs (conc_init cap)))"
    using conc.sim_run [OF sched_reachable conc_init_inv] spec.inv_run by blast
  then show ?thesis by (simp add: Let_def atomic_ok_def c_abs_def)
qed

section \<open>What a take delivers\<close>

text \<open>
  A claimed index stays pending until its slot is moved out. The slots that matter are those of
  the indices still in the deque, of the index an unfinished push has just written, and of the
  pending ones.
\<close>

fun taking :: "thief_pc \<Rightarrow> nat option" where
  "taking (TSize t) = Some t"
| "taking (TTake t) = Some t"
| "taking _ = None"

fun winning :: "owner_pc \<Rightarrow> nat option" where
  "winning (OPopWinBottom b) = Some b"
| "winning (OPopWinSize b) = Some b"
| "winning (OPopWinTake b) = Some b"
| "winning _ = None"

fun hi_of :: "owner_pc \<Rightarrow> nat \<Rightarrow> nat" where
  "hi_of (OPushBottom b) _ = b + 1"
| "hi_of (OPopTake b) _ = b + 1"
| "hi_of pc bottom = lim_of pc bottom"

definition c_hi :: "conc_deque \<Rightarrow> nat" where
  "c_hi s = hi_of (c_owner s) (c_bottom s)"

definition live :: "conc_deque \<Rightarrow> nat \<Rightarrow> bool" where
  "live s i \<longleftrightarrow> (c_top s \<le> i \<and> i < c_hi s) \<or> (\<exists>k. taking (c_thief s k) = Some i) \<or>
                winning (c_owner s) = Some i"

text \<open>No stalled thief is a whole lap behind the writes of the owner.\<close>

definition lap_free :: "conc_deque \<Rightarrow> bool" where
  "lap_free s \<longleftrightarrow> (\<forall>k t. taking (c_thief s k) = Some t \<longrightarrow> c_hi s \<le> t + c_cap s)"

definition window_ok :: "conc_deque \<Rightarrow> bool" where
  "window_ok s \<longleftrightarrow> 0 < c_cap s \<and> c_hi s \<le> c_top s + c_cap s \<and>
                   (case c_owner s of OPushSlot b \<Rightarrow> b < c_top s + c_cap s | _ \<Rightarrow> True)"

definition takers_ok :: "conc_deque \<Rightarrow> bool" where
  "takers_ok s \<longleftrightarrow>
     (\<forall>j k t. taking (c_thief s j) = Some t \<longrightarrow> taking (c_thief s k) = Some t \<longrightarrow> j = k) \<and>
     (\<forall>k t. taking (c_thief s k) = Some t \<longrightarrow> winning (c_owner s) \<noteq> Some t)"

definition slots_ok :: "conc_deque \<Rightarrow> bool" where
  "slots_ok s \<longleftrightarrow> (\<forall>i. live s i \<longrightarrow> c_buf s (i mod c_cap s) = Some (c_tok s i))"

definition delivered_ok :: "conc_deque \<Rightarrow> bool" where
  "delivered_ok s \<longleftrightarrow> (\<forall>(k, r) \<in> set (c_delivered s). r = Some k)"

definition payload_inv :: "conc_deque \<Rightarrow> bool" where
  "payload_inv s \<longleftrightarrow> conc_inv s \<and> window_ok s \<and> takers_ok s \<and> slots_ok s \<and> delivered_ok s"

lemma pending_below_top:
  assumes "conc_inv s" "taking (c_thief s k) = Some t"
  shows "t < c_top s"
proof -
  have "thief_ok s (c_thief s k)" using assms(1) by (simp add: conc_inv_def)
  with assms(2) show ?thesis by (cases "c_thief s k") (auto simp: thief_ok_def)
qed

lemma live_bounds:
  assumes "conc_inv s" "window_ok s" "lap_free s" "live s i"
  shows "i < c_hi s" "c_hi s \<le> i + c_cap s"
proof -
  have lim: "c_top s \<le> c_lim s" "c_lim s \<le> c_hi s" and ow: "owner_ok s"
    using assms(1) by (cases "c_owner s"; auto simp: conc_inv_def owner_ok_def c_lim_def c_hi_def)+
  note th = pending_below_top [OF assms(1)]
  have win: "c_hi s = b + 1" if "winning (c_owner s) = Some b" for b
    using that ow by (cases "c_owner s") (auto simp: owner_ok_def c_hi_def)
  show "i < c_hi s"
    using assms(4) lim th win by (fastforce simp: live_def)
  show "c_hi s \<le> i + c_cap s"
    using assms(2,3,4) win by (fastforce simp: live_def window_ok_def lap_free_def)
qed

lemma live_slots_distinct:
  assumes "conc_inv s" "window_ok s" "lap_free s" "live s i" "live s j"
    and "i mod c_cap s = j mod c_cap s"
  shows "i = j"
proof (cases "i \<le> j")
  case True
  with live_bounds [OF assms(1-4)] live_bounds [OF assms(1-3,5)] show ?thesis
    using mod_window_inj [OF assms(6)] by simp
next
  case False
  with live_bounds [OF assms(1-4)] live_bounds [OF assms(1-3,5)] show ?thesis
    using mod_window_inj [OF assms(6) [symmetric]] by simp
qed

lemma slots_same:
  assumes "slots_ok s" "\<And>i. live s' i \<Longrightarrow> live s i"
    and "c_buf s' = c_buf s" "c_tok s' = c_tok s" "c_cap s' = c_cap s"
  shows "slots_ok s'"
  using assms by (simp add: slots_ok_def)

lemma slots_move_out:
  assumes "conc_inv s" "window_ok s" "lap_free s" "slots_ok s" "live s x"
    and "\<And>i. live s' i \<Longrightarrow> live s i \<and> i \<noteq> x"
    and "c_buf s' = (c_buf s)(x mod c_cap s := None)" "c_tok s' = c_tok s" "c_cap s' = c_cap s"
  shows "slots_ok s'"
  unfolding slots_ok_def using assms live_slots_distinct [OF assms(1-3)]
  by (auto simp: slots_ok_def)

lemma push_window:
  assumes "conc_inv s" "window_ok s"
  shows "window_ok (push_step s)"
  using assms by (cases "c_owner s")
    (auto simp: push_step_def window_ok_def c_hi_def conc_inv_def owner_ok_def c_lim_def)

lemma push_slots:
  assumes "payload_inv s" "lap_free (push_step s)"
  shows "slots_ok (push_step s)"
proof (cases "c_owner s")
  case (OPushSlot b)
  let ?s' = "push_step s"
  have inv: "conc_inv ?s'" "window_ok ?s'"
    using assms(1) push_step_inv push_window by (auto simp: payload_inv_def)
  have b: "c_bottom s = b" "c_top s \<le> b"
    using assms(1) OPushSlot by (auto simp: payload_inv_def conc_inv_def owner_ok_def c_lim_def)
  then have b': "live ?s' b"
    using OPushSlot by (simp add: push_step_def live_def c_hi_def)
  have old: "live s i" if "live ?s' i" "i \<noteq> b" for i
    using that OPushSlot b by (auto simp: push_step_def live_def c_hi_def)
  have "c_buf ?s' (i mod c_cap ?s') = Some (c_tok ?s' i)" if "live ?s' i" for i
  proof (cases "i = b")
    case False
    with that b' have "i mod c_cap ?s' \<noteq> b mod c_cap ?s'"
      using live_slots_distinct [OF inv assms(2)] by blast
    then show ?thesis
      using old [OF that False] assms(1) OPushSlot False
      by (auto simp: push_step_def payload_inv_def slots_ok_def)
  qed (use OPushSlot in \<open>simp add: push_step_def\<close>)
  then show ?thesis by (simp add: slots_ok_def)
qed (use assms in \<open>auto simp: payload_inv_def push_step_def live_def c_hi_def conc_inv_def
       owner_ok_def intro!: slots_same [of s]\<close>)

lemma push_payload:
  assumes "payload_inv s" "lap_free (push_step s)"
  shows "payload_inv (push_step s)"
proof -
  have "takers_ok (push_step s) \<and> delivered_ok (push_step s)"
    using assms(1) by (cases "c_owner s")
      (auto simp: payload_inv_def push_step_def takers_ok_def delivered_ok_def)
  with push_slots [OF assms] show ?thesis
    using assms(1) push_step_inv push_window by (simp add: payload_inv_def)
qed

lemma pop_window:
  assumes "conc_inv s" "window_ok s"
  shows "window_ok (pop_step s)"
  using assms by (cases "c_owner s")
    (auto simp: pop_step_def window_ok_def c_hi_def conc_inv_def owner_ok_def c_lim_def Let_def
      move_out_def claim_index_def)

lemma pop_takers:
  assumes "conc_inv s" "takers_ok s"
  shows "takers_ok (pop_step s)"
  using assms(2) by (cases "c_owner s")
    (auto simp: pop_step_def takers_ok_def Let_def move_out_def claim_index_def
      dest: pending_below_top [OF assms(1)])

lemma pop_slots:
  assumes "payload_inv s" "lap_free s"
  shows "slots_ok (pop_step s)" "delivered_ok (pop_step s)"
proof -
  note pi = assms(1) [unfolded payload_inv_def]
  have take: "slots_ok (pop_step s) \<and> delivered_ok (pop_step s)"
    if x: "live s x" and st: "pop_step s = (move_out x s)\<lparr>c_owner := pc\<rparr>"
      and lv: "\<And>i. live ((move_out x s)\<lparr>c_owner := pc\<rparr>) i \<Longrightarrow> live s i \<and> i \<noteq> x" for x pc
  proof -
    have "slots_ok ((move_out x s)\<lparr>c_owner := pc\<rparr>)"
      by (rule slots_move_out [of s x]) (use pi assms(2) x lv in \<open>auto simp: move_out_def\<close>)
    moreover have "c_buf s (x mod c_cap s) = Some (c_tok s x)"
      using pi x by (simp add: slots_ok_def)
    ultimately show ?thesis
      using pi st by (auto simp: delivered_ok_def move_out_def)
  qed
  have "conc_inv s" using pi by blast
  note th = pending_below_top [OF this]
  have "slots_ok (pop_step s) \<and> delivered_ok (pop_step s)"
  proof (cases "c_owner s")
    case (OPopTake b)
    show ?thesis
      by (rule take [of b OPopTakeSize])
        (use OPopTake pi in \<open>auto simp: pop_step_def live_def c_hi_def move_out_def conc_inv_def
           owner_ok_def c_lim_def dest: th\<close>)
  next
    case (OPopWinTake b)
    show ?thesis
      by (rule take [of b OIdle])
        (use OPopWinTake pi in \<open>auto simp: pop_step_def live_def c_hi_def move_out_def conc_inv_def
           owner_ok_def c_lim_def takers_ok_def\<close>)
  qed (use pi in \<open>auto simp: pop_step_def live_def c_hi_def conc_inv_def owner_ok_def Let_def
         claim_index_def delivered_ok_def intro!: slots_same [of s] split: if_splits\<close>)
  then show "slots_ok (pop_step s)" "delivered_ok (pop_step s)" by auto
qed

lemma pop_payload:
  assumes "payload_inv s" "lap_free s"
  shows "payload_inv (pop_step s)"
  using assms pop_slots pop_step_inv pop_window pop_takers by (simp add: payload_inv_def)

lemma thief_hi: "c_hi (thief_step i s) = c_hi s"
  by (simp add: c_hi_def thief_step_frame)

lemma thief_step_pc:
  "c_thief (thief_step i s) i =
     (case c_thief s i of
        TIdle \<Rightarrow> TLoadBottom (c_top s)
      | TLoadBottom t \<Rightarrow> if t < c_bottom s then TCas t else TIdle
      | TCas t \<Rightarrow> if c_top s = t then TSize t else TIdle
      | TSize t \<Rightarrow> TTake t
      | TTake t \<Rightarrow> TIdle)"
  by (auto simp: thief_step_def Let_def move_out_def claim_index_def split: thief_pc.split)

lemma thief_taking:
  "taking (c_thief (thief_step i s) j) = Some t \<Longrightarrow>
   taking (c_thief s j) = Some t \<or> j = i \<and> c_thief s i = TCas t \<and> t = c_top s"
  by (cases "j = i") (auto simp: thief_step_frame thief_step_pc split: thief_pc.splits if_splits)

lemma thief_window:
  assumes "conc_inv s" "window_ok s"
  shows "window_ok (thief_step i s)"
  using assms(2) by (auto simp: window_ok_def thief_hi thief_step_frame thief_step_top
      split: thief_pc.splits owner_pc.splits)

lemma thief_takers:
  assumes "conc_inv s" "takers_ok s"
  shows "takers_ok (thief_step i s)"
proof -
  note below = pending_below_top [OF assms(1)]
  have win: "b < c_top s" if "winning (c_owner s) = Some b" for b
    using that assms(1) by (cases "c_owner s") (auto simp: conc_inv_def owner_ok_def)
  show ?thesis
    unfolding takers_ok_def
  proof (intro conjI allI impI)
    fix j k t
    assume jk: "taking (c_thief (thief_step i s) j) = Some t"
      "taking (c_thief (thief_step i s) k) = Some t"
    show "j = k"
      using thief_taking [OF jk(1)] thief_taking [OF jk(2)] assms(2) below
      by (fastforce simp: takers_ok_def)
  next
    fix k t
    assume k: "taking (c_thief (thief_step i s) k) = Some t"
    show "winning (c_owner (thief_step i s)) \<noteq> Some t"
      using thief_taking [OF k] assms(2) win by (fastforce simp: takers_ok_def thief_step_frame)
  qed
qed

lemma thief_slots:
  assumes "payload_inv s" "lap_free s"
  shows "slots_ok (thief_step i s)" "delivered_ok (thief_step i s)"
proof -
  note pi = assms(1) [unfolded payload_inv_def]
  have live: "live s j" if "live (thief_step i s) j" for j
  proof -
    have "c_thief s i = TCas t \<Longrightarrow> t = c_top s \<Longrightarrow> t < c_hi s" for t
      using pi spec [of "\<lambda>k. thief_ok s (c_thief s k)" i]
      by (cases "c_owner s") (auto simp: conc_inv_def thief_ok_def c_lim_def c_hi_def owner_ok_def)
    with that show ?thesis
      using thief_taking [of i s _ j]
      by (auto simp: live_def thief_hi thief_step_frame thief_step_top split: thief_pc.splits if_splits)
  qed
  have "slots_ok (thief_step i s) \<and> delivered_ok (thief_step i s)"
  proof (cases "c_thief s i")
    case (TTake t)
    then have "taking (c_thief s i) = Some t" by simp
    then have t: "live s t" "taking (c_thief s i) = Some t" by (auto simp: live_def)
    then have "c_buf s (t mod c_cap s) = Some (c_tok s t)" using pi by (simp add: slots_ok_def)
    then have dl: "delivered_ok (thief_step i s)"
      using pi TTake by (auto simp: thief_step_def delivered_ok_def move_out_def)
    have "t < c_top s" using pi t(2) pending_below_top by blast
    moreover have "taking (c_thief (thief_step i s) k) \<noteq> Some t" for k
      using pi t(2) TTake by (cases "k = i")
        (auto simp: thief_step_frame thief_step_pc takers_ok_def)
    moreover have "winning (c_owner s) \<noteq> Some t"
      using pi t(2) unfolding takers_ok_def by blast
    ultimately have "\<not> live (thief_step i s) t"
      using TTake by (auto simp: live_def thief_step_frame thief_step_top)
    then have lv: "\<And>j. live (thief_step i s) j \<Longrightarrow> live s j \<and> j \<noteq> t" using live by blast
    have "slots_ok (thief_step i s)"
      by (rule slots_move_out [OF _ _ assms(2) _ t(1) lv])
        (use pi in blast, use pi in blast, use pi in blast, assumption,
         simp_all add: TTake thief_step_def move_out_def)
    with dl show ?thesis by simp
  qed (use pi live in \<open>auto simp: thief_step_def Let_def claim_index_def delivered_ok_def
         intro!: slots_same [of s] split: if_splits\<close>)
  then show "slots_ok (thief_step i s)" "delivered_ok (thief_step i s)" by auto
qed

lemma thief_payload:
  assumes "payload_inv s" "lap_free s"
  shows "payload_inv (thief_step i s)"
  using assms thief_slots thief_step_inv thief_window thief_takers by (simp add: payload_inv_def)

lemma sched_payload:
  assumes "payload_inv s" "lap_free s" "lap_free (sched_step x s)"
  shows "payload_inv (sched_step x s)"
proof (cases x)
  case (Owner cmd)
  with assms push_payload [of s] pop_payload [of s] show ?thesis
    using owner_step_cases [of cmd s] by auto
qed (use assms thief_payload in simp)

fun lap_free_run :: "sched list \<Rightarrow> conc_deque \<Rightarrow> bool" where
  "lap_free_run [] s \<longleftrightarrow> lap_free s"
| "lap_free_run (x # xs) s \<longleftrightarrow> lap_free s \<and> lap_free_run xs (sched_step x s)"

lemma lap_free_run_head: "lap_free_run xs s \<Longrightarrow> lap_free s"
  by (cases xs) auto

lemma run_payload:
  "payload_inv s \<Longrightarrow> lap_free_run xs s \<Longrightarrow> payload_inv (fold sched_step xs s)"
proof (induction xs arbitrary: s)
  case (Cons x xs)
  then have "payload_inv (sched_step x s)"
    using sched_payload lap_free_run_head by auto
  with Cons show ?case by simp
qed simp

lemma conc_init_payload: "0 < cap \<Longrightarrow> payload_inv (conc_init cap)"
  using conc_init_inv [of cap]
  by (auto simp: payload_inv_def window_ok_def takers_ok_def slots_ok_def delivered_ok_def live_def
      conc_init_def c_hi_def)

text \<open>
  C5. As long as no thief stalls, between winning its compare-exchange and moving the slot out, for
  so long that the owner writes a whole lap ahead, every take moves out exactly the task that was
  claimed, in any interleaving.
\<close>

theorem conc_delivers_claimed:
  assumes "0 < cap" "lap_free_run xs (conc_init cap)"
    and "(k, r) \<in> set (c_delivered (fold sched_step xs (conc_init cap)))"
  shows "r = Some k"
  using run_payload [OF conc_init_payload assms(2)] assms(1,3)
  by (auto simp: payload_inv_def delivered_ok_def)

definition steal_one :: "sched list" where
  "steal_one = replicate 4 (Owner CPush) @ replicate 5 (Thief 0)"

lemma lap_free_early: "c_hi s \<le> c_cap s \<Longrightarrow> lap_free s"
  by (auto simp: lap_free_def)

fun early_run :: "sched list \<Rightarrow> conc_deque \<Rightarrow> bool" where
  "early_run [] s \<longleftrightarrow> c_hi s \<le> c_cap s"
| "early_run (x # xs) s \<longleftrightarrow> c_hi s \<le> c_cap s \<and> early_run xs (sched_step x s)"

lemma early_run_lap_free: "early_run xs s \<Longrightarrow> lap_free_run xs s"
  by (induction xs arbitrary: s) (auto intro: lap_free_early)

lemma steal_one_run:
  "lap_free_run steal_one (conc_init 4)"
  "c_delivered (fold sched_step steal_one (conc_init 4)) = [(0, Some 0)]"
proof -
  have "early_run steal_one (conc_init 4)" by code_simp
  then show "lap_free_run steal_one (conc_init 4)" by (rule early_run_lap_free)
qed code_simp

theorem conc_delivers_claimed_witness:
  "lap_free_run steal_one (conc_init 4) \<and>
   (0, Some 0) \<in> set (c_delivered (fold sched_step steal_one (conc_init 4))) \<and>
   Some (0::nat) = Some 0"
  using conc_delivers_claimed [of 4 steal_one 0 "Some 0"] steal_one_run by simp

definition lap_schedule :: "sched list" where
  "lap_schedule =
     replicate 4 (Owner CPush) @ replicate 4 (Thief 0) @
     replicate 4 (Owner CPush) @ replicate 5 (Thief 1) @
     replicate 4 (Owner CPush) @ [Thief 0] @ replicate 5 (Thief 1)"

text \<open>
  Without that proviso the deque misdelivers. On the smallest ring a thief wins task 0 and stalls
  before moving the slot out; task 1 is pushed and stolen, task 2 is pushed into the slot the thief
  still has to read. The thief then runs task 2, task 0 is never delivered, and the next thief that
  claims task 2 moves out an empty function.
\<close>

lemma conc_lap_misdelivers:
  "let s = fold sched_step lap_schedule (conc_init 2) in
   c_claimed s = [0, 1, 2] \<and> c_delivered s = [(1, Some 1), (0, Some 2), (2, None)]"
  by code_simp

end
