(* ===== verification/Event_Core.thy ===== *)
theory Event_Core
  imports Prelude
begin

text \<open>
  \<^verbatim>\<open>platform/schedule/eventloop_core.h\<close> and \<^verbatim>\<open>.cc\<close>: the event-loop core that every platform
  backend shares. Virtual calls go through a table of functions, as in the code; the objects
  they mutate (the backend, the event sources, whatever the callbacks touch) are one world
  \<open>'w\<close>. Sources are shared pointers: \<open>None\<close> is a null pointer and equality is pointer identity.
  A callback may call \<^verbatim>\<open>addSource\<close> and \<^verbatim>\<open>removeSource\<close> on the core it runs in; it does not
  re-enter \<^verbatim>\<open>runOnce\<close>.
\<close>

section \<open>Types\<close>

datatype BackendType =
    LINUX_POLL | LINUX_EPOLL | MACOS_POLL | MACOS_KQUEUE | MACOS_COCOA | WINDOWS_WIN32 | WINDOWS_IOCP

definition isSourceMatchBackend :: "BackendType \<Rightarrow> BackendType \<Rightarrow> bool" where
  "isSourceMatchBackend type backend_type = (type = backend_type)"

datatype 's core_call = CallAdd "'s option" | CallRemove "'s option"

text \<open>The virtual functions of \<open>IEventCoreBackend\<close> and \<open>IEventSource\<close>; \<open>wait\<close> may not return.\<close>

record ('w, 's, 'e) vtable =
  vt_addSource :: "'s \<Rightarrow> 'w \<Rightarrow> 'w"
  vt_removeSource :: "'s \<Rightarrow> 'w \<Rightarrow> 'w"
  vt_wait :: "int \<Rightarrow> 'w \<Rightarrow> 'w option"
  vt_rawEvents :: "'w \<Rightarrow> 'e list"
  vt_arm :: "'s \<Rightarrow> 'w \<Rightarrow> 'w"
  vt_disarm :: "'s \<Rightarrow> 'w \<Rightarrow> 'w"
  vt_matches :: "'w \<Rightarrow> 's \<Rightarrow> 'e \<Rightarrow> bool"
  vt_dispatch :: "'s \<Rightarrow> 'e \<Rightarrow> 'w \<Rightarrow> 'w \<times> 's core_call list"

datatype PendingOpKind = Add | Remove

record 's PendingOp =
  op_kind :: PendingOpKind
  op_src :: "'s option"

record ('w, 's) IEventLoopCore =
  core_backend :: 'w
  core_sources :: "'s option list"
  pending_ops :: "'s PendingOp list"
  in_dispatch :: bool

definition new_core :: "'w \<Rightarrow> ('w, 's) IEventLoopCore" where
  "new_core w = \<lparr>core_backend = w, core_sources = [], pending_ops = [], in_dispatch = False\<rparr>"

section \<open>Operations\<close>

definition addSource :: "'s option \<Rightarrow> ('w, 's) IEventLoopCore \<Rightarrow> ('w, 's) IEventLoopCore" where
  "addSource source c =
     (if source = None then c
      else c\<lparr>pending_ops := pending_ops c @ [\<lparr>op_kind = Add, op_src = source\<rparr>]\<rparr>)"

definition removeSource :: "'s option \<Rightarrow> ('w, 's) IEventLoopCore \<Rightarrow> ('w, 's) IEventLoopCore" where
  "removeSource source c =
     (if source = None then c
      else c\<lparr>pending_ops := pending_ops c @ [\<lparr>op_kind = Remove, op_src = source\<rparr>]\<rparr>)"

fun do_call :: "'s core_call \<Rightarrow> ('w, 's) IEventLoopCore \<Rightarrow> ('w, 's) IEventLoopCore" where
  "do_call (CallAdd s) c = addSource s c"
| "do_call (CallRemove s) c = removeSource s c"

text \<open>The inner loop: the first source of the snapshot that matches gets the event.\<close>

fun dispatch_one ::
  "('w, 's, 'e) vtable \<Rightarrow> 'e \<Rightarrow> 's option list \<Rightarrow> ('w, 's) IEventLoopCore \<Rightarrow> ('w, 's) IEventLoopCore"
where
  "dispatch_one vt ev [] c = c"
| "dispatch_one vt ev (src # rest) c =
     (case src of
        None \<Rightarrow> dispatch_one vt ev rest c
      | Some s \<Rightarrow>
          if vt_matches vt (core_backend c) s ev then
            (let (w, calls) = vt_dispatch vt s ev (core_backend c) in
             fold do_call calls (c\<lparr>core_backend := w\<rparr>))
          else dispatch_one vt ev rest c)"

definition dispatchRawEvents ::
  "('w, 's, 'e) vtable \<Rightarrow> ('w, 's) IEventLoopCore \<Rightarrow> ('w, 's) IEventLoopCore" where
  "dispatchRawEvents vt c =
     (if in_dispatch c then c
      else
        (let c = c\<lparr>in_dispatch := True\<rparr>;
             evs = vt_rawEvents vt (core_backend c);
             sources_snapshot = core_sources c;
             c = fold (\<lambda>ev. dispatch_one vt ev sources_snapshot) evs c
         in c\<lparr>in_dispatch := False\<rparr>))"

definition apply_op ::
  "('w, 's, 'e) vtable \<Rightarrow> 's PendingOp \<Rightarrow> ('w, 's) IEventLoopCore \<Rightarrow> ('w, 's) IEventLoopCore" where
  "apply_op vt op c =
     (case op_src op of
        None \<Rightarrow> c
      | Some s \<Rightarrow>
          (case op_kind op of
             Add \<Rightarrow>
               (let w = vt_addSource vt s (core_backend c);
                    w = vt_arm vt s w;
                    exists = list_ex (\<lambda>p. p = Some s) (core_sources c);
                    c = c\<lparr>core_backend := w\<rparr>
                in if \<not> exists then c\<lparr>core_sources := core_sources c @ [Some s]\<rparr> else c)
           | Remove \<Rightarrow>
               (let w = vt_disarm vt s (core_backend c);
                    w = vt_removeSource vt s w
                in c\<lparr>core_backend := w, core_sources := filter (\<lambda>p. p \<noteq> Some s) (core_sources c)\<rparr>)))"

definition applyPendingChanges ::
  "('w, 's, 'e) vtable \<Rightarrow> ('w, 's) IEventLoopCore \<Rightarrow> ('w, 's) IEventLoopCore" where
  "applyPendingChanges vt c =
     (if in_dispatch c then c
      else fold (apply_op vt) (pending_ops c) (c\<lparr>pending_ops := []\<rparr>))"

definition runOnce ::
  "('w, 's, 'e) vtable \<Rightarrow> int \<Rightarrow> ('w, 's) IEventLoopCore \<Rightarrow> ('w, 's) IEventLoopCore option" where
  "runOnce vt timeout c =
     map_option (\<lambda>w. applyPendingChanges vt (dispatchRawEvents vt (c\<lparr>core_backend := w\<rparr>)))
       (vt_wait vt timeout (core_backend c))"

definition applyInitialChanges ::
  "('w, 's, 'e) vtable \<Rightarrow> ('w, 's) IEventLoopCore \<Rightarrow> ('w, 's) IEventLoopCore" where
  "applyInitialChanges vt c = applyPendingChanges vt c"

lemmas core_ops [core_simps] = addSource_def removeSource_def apply_op_def applyPendingChanges_def
  dispatchRawEvents_def runOnce_def new_core_def

section \<open>Requests are deferred\<close>

text \<open>What a callback's calls add to the pending requests.\<close>

fun call_ops :: "'s core_call \<Rightarrow> 's PendingOp list" where
  "call_ops (CallAdd (Some s)) = [\<lparr>op_kind = Add, op_src = Some s\<rparr>]"
| "call_ops (CallRemove (Some s)) = [\<lparr>op_kind = Remove, op_src = Some s\<rparr>]"
| "call_ops _ = []"

lemma do_call_pending:
  "do_call k c = c\<lparr>pending_ops := pending_ops c @ call_ops k\<rparr>"
  by (cases k; cases "case k of CallAdd s \<Rightarrow> s | CallRemove s \<Rightarrow> s") (auto simp: core_simps)

lemma fold_do_call:
  "fold do_call ks c = c\<lparr>pending_ops := pending_ops c @ concat (map call_ops ks)\<rparr>"
  by (induction ks arbitrary: c) (simp_all add: do_call_pending)

lemma dispatch_one_frame:
  "core_sources (dispatch_one vt ev ss c) = core_sources c"
  "in_dispatch (dispatch_one vt ev ss c) = in_dispatch c"
  "\<exists>ops. pending_ops (dispatch_one vt ev ss c) = pending_ops c @ ops"
  by (induction vt ev ss c rule: dispatch_one.induct)
    (auto simp: fold_do_call split: option.split prod.split)

lemma dispatch_all_frame:
  "core_sources (fold (\<lambda>ev. dispatch_one vt ev ss) evs c) = core_sources c"
  "in_dispatch (fold (\<lambda>ev. dispatch_one vt ev ss) evs c) = in_dispatch c"
  by (induction evs arbitrary: c) (simp_all add: dispatch_one_frame)

section \<open>The registered sources\<close>

text \<open>
  Sources in the order of registration, without the pointers: the abstract effect of a request
  is to append a new source or to delete it.
\<close>

fun spec_op :: "'s PendingOp \<Rightarrow> 's list \<Rightarrow> 's list" where
  "spec_op op xs =
     (case op_src op of
        None \<Rightarrow> xs
      | Some s \<Rightarrow> (case op_kind op of
                    Add \<Rightarrow> if s \<in> set xs then xs else xs @ [s]
                  | Remove \<Rightarrow> removeAll s xs))"

definition core_inv :: "('w, 's) IEventLoopCore \<Rightarrow> bool" where
  "core_inv c \<longleftrightarrow> (\<exists>xs. core_sources c = map Some xs \<and> distinct xs) \<and> \<not> in_dispatch c"

definition registered :: "('w, 's) IEventLoopCore \<Rightarrow> 's list" where
  "registered c = map the (core_sources c)"

lemma registered_map [simp]: "core_sources c = map Some xs \<Longrightarrow> registered c = xs"
  by (simp add: registered_def comp_def)

lemma filter_map_Some: "filter (\<lambda>p. p \<noteq> Some s) (map Some xs) = map Some (removeAll s xs)"
  by (induction xs) auto

lemma apply_op_sources:
  assumes "core_sources c = map Some xs"
  shows "core_sources (apply_op vt op c) = map Some (spec_op op xs)"
  using assms by (auto simp: core_simps Let_def list_ex_iff filter_map_Some
      split: option.split PendingOpKind.split)

lemma spec_op_distinct: "distinct xs \<Longrightarrow> distinct (spec_op op xs)"
  by (auto simp: distinct_removeAll split: option.split PendingOpKind.split)

lemma apply_op_frame:
  "in_dispatch (apply_op vt op c) = in_dispatch c"
  "pending_ops (apply_op vt op c) = pending_ops c"
  by (auto simp: core_simps Let_def split: option.split PendingOpKind.split)

lemma apply_ops_sources:
  assumes "core_sources c = map Some xs"
  shows "core_sources (fold (apply_op vt) ops c) = map Some (fold spec_op ops xs)"
    and "in_dispatch (fold (apply_op vt) ops c) = in_dispatch c"
    and "pending_ops (fold (apply_op vt) ops c) = pending_ops c"
  using assms
  by (induction ops arbitrary: c xs) (simp_all del: spec_op.simps add: apply_op_sources apply_op_frame)

lemma spec_ops_distinct: "distinct xs \<Longrightarrow> distinct (fold spec_op ops xs)"
  by (induction ops arbitrary: xs) (simp_all del: spec_op.simps add: spec_op_distinct)

text \<open>The last request that names a source decides.\<close>

fun last_op :: "'s PendingOp list \<Rightarrow> 's \<Rightarrow> PendingOpKind option" where
  "last_op [] s = None"
| "last_op (op # ops) s =
     (case last_op ops s of
        Some k \<Rightarrow> Some k
      | None \<Rightarrow> if op_src op = Some s then Some (op_kind op) else None)"

lemma spec_ops_mem:
  "s \<in> set (fold spec_op ops xs) \<longleftrightarrow>
     (case last_op ops s of Some Add \<Rightarrow> True | Some Remove \<Rightarrow> False | None \<Rightarrow> s \<in> set xs)"
proof (induction ops arbitrary: xs)
  case (Cons op ops)
  show ?case
    by (simp only: fold_simps Cons.IH last_op.simps)
      (auto split: option.split PendingOpKind.split if_splits)
qed simp

lemma applyPendingChanges_inv:
  assumes "core_inv c"
  shows "core_inv (applyPendingChanges vt c)"
    and "registered (applyPendingChanges vt c) = fold spec_op (pending_ops c) (registered c)"
    and "pending_ops (applyPendingChanges vt c) = []"
proof -
  obtain xs where xs: "core_sources c = map Some xs" "distinct xs" "\<not> in_dispatch c"
    using assms by (auto simp: core_inv_def)
  have *: "core_sources (c\<lparr>pending_ops := []\<rparr>) = map Some xs" using xs by simp
  show "core_inv (applyPendingChanges vt c)"
    using xs spec_ops_distinct by (auto simp: core_inv_def applyPendingChanges_def apply_ops_sources [OF *])
  show "registered (applyPendingChanges vt c) = fold spec_op (pending_ops c) (registered c)"
    using xs by (simp add: registered_def applyPendingChanges_def apply_ops_sources [OF *] comp_def)
  show "pending_ops (applyPendingChanges vt c) = []"
    using xs by (simp add: applyPendingChanges_def apply_ops_sources [OF *])
qed

lemma dispatch_inv:
  assumes "core_inv c"
  shows "core_inv (dispatchRawEvents vt c)" "core_sources (dispatchRawEvents vt c) = core_sources c"
  using assms by (auto simp: core_inv_def dispatchRawEvents_def Let_def dispatch_all_frame)

section \<open>A dispatch round\<close>

text \<open>
  What a round does, without the core's bookkeeping: each event goes to the first source of the
  fixed list that matches it when its turn comes. The log lists the deliveries, the calls are
  what the callbacks asked of the core.
\<close>

fun dispatch_round ::
  "('w, 's, 'e) vtable \<Rightarrow> 'e list \<Rightarrow> 's list \<Rightarrow> 'w \<Rightarrow> 'w \<times> ('s \<times> 'e) list \<times> 's core_call list" where
  "dispatch_round vt [] xs w = (w, [], [])"
| "dispatch_round vt (ev # evs) xs w =
     (case find (\<lambda>s. vt_matches vt w s ev) xs of
        None \<Rightarrow> dispatch_round vt evs xs w
      | Some s \<Rightarrow>
          let (w1, calls1) = vt_dispatch vt s ev w;
              (w2, log, calls2) = dispatch_round vt evs xs w1
          in (w2, (s, ev) # log, calls1 @ calls2))"

lemma dispatch_one_find:
  "dispatch_one vt ev (map Some xs) c =
     (case find (\<lambda>s. vt_matches vt (core_backend c) s ev) xs of
        None \<Rightarrow> c
      | Some s \<Rightarrow> (let (w, calls) = vt_dispatch vt s ev (core_backend c) in
                   c\<lparr>core_backend := w, pending_ops := pending_ops c @ concat (map call_ops calls)\<rparr>))"
  by (induction xs) (simp_all add: fold_do_call split: prod.split)

lemma dispatch_all_round:
  "dispatch_round vt evs xs (core_backend c) = (w, log, calls) \<Longrightarrow>
   fold (\<lambda>ev. dispatch_one vt ev (map Some xs)) evs c =
   c\<lparr>core_backend := w, pending_ops := pending_ops c @ concat (map call_ops calls)\<rparr>"
proof (induction evs arbitrary: c w log calls)
  case (Cons ev evs)
  show ?case
  proof (cases "find (\<lambda>s. vt_matches vt (core_backend c) s ev) xs")
    case None
    with Cons show ?thesis by (simp add: dispatch_one_find)
  next
    case (Some s)
    obtain w1 k1 where d: "vt_dispatch vt s ev (core_backend c) = (w1, k1)" by fastforce
    obtain w2 l2 k2 where r: "dispatch_round vt evs xs w1 = (w2, l2, k2)" by (metis prod_cases3)
    with Cons.prems Some d have eq: "w = w2" "calls = k1 @ k2" by auto
    let ?c = "c\<lparr>core_backend := w1, pending_ops := pending_ops c @ concat (map call_ops k1)\<rparr>"
    have "dispatch_one vt ev (map Some xs) c = ?c" using Some d by (simp add: dispatch_one_find)
    moreover have "dispatch_round vt evs xs (core_backend ?c) = (w2, l2, k2)" using r by simp
    ultimately show ?thesis using Cons.IH [of ?c w2 l2 k2] eq by simp
  qed
qed simp

lemma dispatch_is_round:
  assumes "core_inv c"
    and "dispatch_round vt (vt_rawEvents vt (core_backend c)) (registered c) (core_backend c) = (w, log, calls)"
  shows "dispatchRawEvents vt c =
         c\<lparr>core_backend := w, pending_ops := pending_ops c @ concat (map call_ops calls)\<rparr>"
proof -
  obtain xs where xs: "core_sources c = map Some xs" "\<not> in_dispatch c"
    using assms(1) by (auto simp: core_inv_def)
  let ?c = "c\<lparr>in_dispatch := True\<rparr>"
  have "dispatch_round vt (vt_rawEvents vt (core_backend ?c)) xs (core_backend ?c) = (w, log, calls)"
    using assms(2) xs by simp
  from dispatch_all_round [OF this] xs show ?thesis
    by (simp add: dispatchRawEvents_def Let_def)
qed

section \<open>Runs of the core\<close>

datatype 's loop_op = LAdd "'s option" | LRemove "'s option" | LApplyInitial | LRunOnce int

fun loop_step ::
  "('w, 's, 'e) vtable \<Rightarrow> 's loop_op \<Rightarrow> ('w, 's) IEventLoopCore \<Rightarrow> ('w, 's) IEventLoopCore option" where
  "loop_step vt (LAdd s) c = Some (addSource s c)"
| "loop_step vt (LRemove s) c = Some (removeSource s c)"
| "loop_step vt LApplyInitial c = Some (applyInitialChanges vt c)"
| "loop_step vt (LRunOnce timeout) c = runOnce vt timeout c"

fun loop_run ::
  "('w, 's, 'e) vtable \<Rightarrow> 's loop_op list \<Rightarrow> ('w, 's) IEventLoopCore \<Rightarrow> ('w, 's) IEventLoopCore option" where
  "loop_run vt [] c = Some c"
| "loop_run vt (k # ks) c = Option.bind (loop_step vt k c) (loop_run vt ks)"

lemma core_inv_cong:
  "core_sources c' = core_sources c \<Longrightarrow> in_dispatch c' = in_dispatch c \<Longrightarrow> core_inv c' = core_inv c"
  by (simp add: core_inv_def)

lemma loop_step_inv: "loop_step vt k c = Some c' \<Longrightarrow> core_inv c \<Longrightarrow> core_inv c'"
proof (induction vt k c rule: loop_step.induct)
  case (4 vt timeout c)
  then obtain w where "c' = applyPendingChanges vt (dispatchRawEvents vt (c\<lparr>core_backend := w\<rparr>))"
    by (auto simp: runOnce_def)
  moreover have "core_inv (c\<lparr>core_backend := w\<rparr>)" using 4 by (simp add: core_inv_def)
  ultimately show ?case using dispatch_inv applyPendingChanges_inv by blast
next
  case (3 vt c)
  then show ?case using applyPendingChanges_inv(1) by (auto simp: applyInitialChanges_def)
qed (auto simp: addSource_def removeSource_def core_inv_def split: if_splits)

lemma loop_run_inv: "loop_run vt ks c = Some c' \<Longrightarrow> core_inv c \<Longrightarrow> core_inv c'"
  by (induction ks arbitrary: c) (auto simp: bind_eq_Some_conv dest: loop_step_inv)

lemma new_core_inv: "core_inv (new_core w)"
  by (simp add: core_inv_def new_core_def)

section \<open>Requests that fit\<close>

text \<open>
  Some sources cannot be watched at the same time, for instance two for the same descriptor. A
  list of requests fits if no source is added while a conflicting one is registered; a source may
  follow a conflicting one that is removed before, as when the system reuses a descriptor.
\<close>

fun fits :: "('s \<Rightarrow> 's \<Rightarrow> bool) \<Rightarrow> 's PendingOp list \<Rightarrow> 's list \<Rightarrow> bool" where
  "fits conflict [] xs \<longleftrightarrow> True"
| "fits conflict (op # ops) xs \<longleftrightarrow>
     (case op_src op of
        None \<Rightarrow> True
      | Some s \<Rightarrow> op_kind op = Add \<longrightarrow> (\<forall>x \<in> set xs. x \<noteq> s \<longrightarrow> \<not> conflict x s)) \<and>
     fits conflict ops (spec_op op xs)"

fun step_fits ::
  "('w, 's, 'e) vtable \<Rightarrow> ('s \<Rightarrow> 's \<Rightarrow> bool) \<Rightarrow> 's loop_op \<Rightarrow> ('w, 's) IEventLoopCore \<Rightarrow> bool" where
  "step_fits vt conflict LApplyInitial c = fits conflict (pending_ops c) (registered c)"
| "step_fits vt conflict (LRunOnce t) c =
     (case vt_wait vt t (core_backend c) of
        None \<Rightarrow> True
      | Some w \<Rightarrow> (let c = dispatchRawEvents vt (c\<lparr>core_backend := w\<rparr>)
                  in fits conflict (pending_ops c) (registered c)))"
| "step_fits vt conflict _ c = True"

fun run_fits ::
  "('w, 's, 'e) vtable \<Rightarrow> ('s \<Rightarrow> 's \<Rightarrow> bool) \<Rightarrow> 's loop_op list \<Rightarrow> ('w, 's) IEventLoopCore \<Rightarrow> bool" where
  "run_fits vt conflict [] c = True"
| "run_fits vt conflict (k # ks) c \<longleftrightarrow>
     step_fits vt conflict k c \<and>
     (case loop_step vt k c of None \<Rightarrow> True | Some c' \<Rightarrow> run_fits vt conflict ks c')"

section \<open>The contract of a backend\<close>

text \<open>
  What the core relies on: \<open>arm\<close> and \<open>disarm\<close> of a source add it to and take it from the sources
  the backend watches, as long as no conflicting source is watched; waiting and callbacks do not
  change that set.
\<close>

locale watcher_backend =
  fixes vt :: "('w, 's, 'e) vtable"
    and winv :: "'w \<Rightarrow> bool"
    and armed :: "'w \<Rightarrow> 's set"
    and conflict :: "'s \<Rightarrow> 's \<Rightarrow> bool"
  assumes add_law: "winv w \<Longrightarrow> winv (vt_addSource vt s w) \<and> armed (vt_addSource vt s w) = armed w"
    and remove_law: "winv w \<Longrightarrow> winv (vt_removeSource vt s w) \<and> armed (vt_removeSource vt s w) = armed w"
    and arm_law: "winv w \<Longrightarrow> \<forall>x \<in> armed w. x \<noteq> s \<longrightarrow> \<not> conflict x s \<Longrightarrow>
            winv (vt_arm vt s w) \<and> armed (vt_arm vt s w) = insert s (armed w)"
    and disarm_law: "winv w \<Longrightarrow> winv (vt_disarm vt s w) \<and> armed (vt_disarm vt s w) = armed w - {s}"
    and wait_law: "winv w \<Longrightarrow> vt_wait vt t w = Some w' \<Longrightarrow> winv w' \<and> armed w' = armed w"
    and dispatch_law: "winv w \<Longrightarrow> vt_dispatch vt s ev w = (w', calls) \<Longrightarrow>
            winv w' \<and> armed w' = armed w \<and> vt_matches vt w' = vt_matches vt w"
begin

definition wf :: "('w, 's) IEventLoopCore \<Rightarrow> bool" where
  "wf c \<longleftrightarrow> core_inv c \<and> winv (core_backend c) \<and> armed (core_backend c) = set (registered c)"

lemma round_law:
  "dispatch_round vt evs xs w = (w', log, calls) \<Longrightarrow> winv w \<Longrightarrow>
   winv w' \<and> armed w' = armed w \<and> vt_matches vt w' = vt_matches vt w"
proof (induction evs arbitrary: w w' log calls)
  case (Cons ev evs)
  show ?case
  proof (cases "find (\<lambda>s. vt_matches vt w s ev) xs")
    case (Some s)
    obtain w1 k1 where d: "vt_dispatch vt s ev w = (w1, k1)" by fastforce
    obtain w2 l2 k2 where r: "dispatch_round vt evs xs w1 = (w2, l2, k2)" by (metis prod_cases3)
    have eq: "w' = w2" using Cons.prems(1) Some d r by auto
    then show ?thesis using Cons.IH [OF r] dispatch_law [OF Cons.prems(2) d] by auto
  qed (use Cons in auto)
qed auto

lemma apply_op_wf:
  assumes "wf c" "fits conflict [op] (registered c)"
  shows "wf (apply_op vt op c)"
proof (cases "op_src op")
  case (Some s)
  obtain xs where xs: "core_sources c = map Some xs" "distinct xs" "\<not> in_dispatch c"
    using assms(1) by (auto simp: wf_def core_inv_def)
  have w: "winv (core_backend c)" "armed (core_backend c) = set xs"
    using assms(1) xs by (auto simp: wf_def)
  have core: "core_sources (apply_op vt op c) = map Some (spec_op op xs)"
    using apply_op_sources [OF xs(1)] .
  have "winv (core_backend (apply_op vt op c)) \<and>
        armed (core_backend (apply_op vt op c)) = set (spec_op op xs)"
    using w add_law [OF w(1), of s] disarm_law [OF w(1), of s] assms(2) xs(1)
      arm_law [of "vt_addSource vt s (core_backend c)" s]
      remove_law [of "vt_disarm vt s (core_backend c)" s] Some
    by (cases "op_kind op") (auto simp: apply_op_def Let_def)
  then show ?thesis
    using core spec_op_distinct [OF xs(2)] xs(3)
    by (simp add: wf_def core_inv_def apply_op_frame del: spec_op.simps)
qed (use assms in \<open>simp add: apply_op_def\<close>)

lemma apply_ops_wf:
  "wf c \<Longrightarrow> fits conflict ops (registered c) \<Longrightarrow> wf (fold (apply_op vt) ops c)"
proof (induction ops arbitrary: c)
  case (Cons op ops)
  then obtain xs where xs: "core_sources c = map Some xs" by (auto simp: wf_def core_inv_def)
  have "registered (apply_op vt op c) = spec_op op (registered c)"
    using registered_map [OF apply_op_sources [OF xs]] registered_map [OF xs] by simp
  moreover have "fits conflict [op] (registered c)" using Cons.prems(2) by simp
  ultimately show ?case
    using Cons.IH [OF apply_op_wf [OF Cons.prems(1)]] Cons.prems(2) by (simp del: spec_op.simps)
qed simp

lemma apply_wf:
  assumes "wf c" "fits conflict (pending_ops c) (registered c)"
  shows "wf (applyPendingChanges vt c)"
proof -
  have "wf (c\<lparr>pending_ops := []\<rparr>)" using assms(1) by (auto simp: wf_def core_inv_def registered_def)
  with assms show ?thesis by (simp add: applyPendingChanges_def apply_ops_wf registered_def)
qed

lemma dispatch_wf:
  assumes "wf c"
  shows "wf (dispatchRawEvents vt c)"
proof -
  obtain w log calls where r:
    "dispatch_round vt (vt_rawEvents vt (core_backend c)) (registered c) (core_backend c) = (w, log, calls)"
    by (metis prod_cases3)
  have ci: "core_inv c" using assms by (simp add: wf_def)
  show ?thesis
    using round_law [OF r] assms unfolding dispatch_is_round [OF ci r]
    by (auto simp: wf_def core_inv_def registered_def)
qed

lemma wait_wf:
  assumes "wf c" "vt_wait vt t (core_backend c) = Some w"
  shows "wf (c\<lparr>core_backend := w\<rparr>)"
  using assms wait_law [OF _ assms(2)] by (auto simp: wf_def core_inv_def registered_def)

lemma loop_step_wf:
  assumes "loop_step vt k c = Some c'" "step_fits vt conflict k c" "wf c"
  shows "wf c'"
proof (cases k)
  case (LRunOnce t)
  with assms obtain w where "vt_wait vt t (core_backend c) = Some w"
    "c' = applyPendingChanges vt (dispatchRawEvents vt (c\<lparr>core_backend := w\<rparr>))"
    by (auto simp: runOnce_def)
  with assms LRunOnce show ?thesis
    using apply_wf [OF dispatch_wf [OF wait_wf]] by (simp add: Let_def)
next
  case LApplyInitial
  with assms show ?thesis by (auto simp: applyInitialChanges_def intro: apply_wf)
qed (use assms in \<open>auto simp: addSource_def removeSource_def wf_def core_inv_def registered_def
       split: if_splits\<close>)

lemma loop_run_wf:
  "loop_run vt ks c = Some c' \<Longrightarrow> run_fits vt conflict ks c \<Longrightarrow> wf c \<Longrightarrow> wf c'"
proof (induction ks arbitrary: c)
  case (Cons k ks)
  then obtain c1 where "loop_step vt k c = Some c1" "loop_run vt ks c1 = Some c'"
    by (auto simp: bind_eq_Some_conv)
  with Cons loop_step_wf [of k c c1] show ?case by auto
qed simp

lemma new_core_wf: "winv w \<Longrightarrow> armed w = {} \<Longrightarrow> wf (new_core w)"
  by (simp add: wf_def new_core_inv) (simp add: new_core_def registered_def)

lemma loop_watches_registered:
  assumes "loop_run vt ks (new_core w) = Some c" "run_fits vt conflict ks (new_core w)"
    and "winv w" "armed w = {}"
  shows "winv (core_backend c)" "armed (core_backend c) = set (registered c)"
  using loop_run_wf [OF assms(1,2)] new_core_wf [OF assms(3,4)] by (auto simp: wf_def)

lemma round_complete:
  "dispatch_round vt evs xs w = (w', log, calls) \<Longrightarrow> winv w \<Longrightarrow>
   \<forall>ev \<in> set evs. \<exists>s \<in> set xs. vt_matches vt w s ev \<Longrightarrow>
   map snd log = evs \<and> (\<forall>(s, ev) \<in> set log. find (\<lambda>s. vt_matches vt w s ev) xs = Some s)"
proof (induction evs arbitrary: w w' log calls)
  case (Cons ev evs)
  obtain s where s: "find (\<lambda>s. vt_matches vt w s ev) xs = Some s"
    using Cons.prems(3) by (metis find_None_iff list.set_intros(1) option.exhaust)
  obtain w1 k1 where d: "vt_dispatch vt s ev w = (w1, k1)" by fastforce
  obtain w2 l2 k2 where r: "dispatch_round vt evs xs w1 = (w2, l2, k2)" by (metis prod_cases3)
  have eq: "log = (s, ev) # l2" using Cons.prems(1) s d r by auto
  have m: "winv w1" "vt_matches vt w1 = vt_matches vt w"
    using dispatch_law [OF Cons.prems(2) d] by auto
  have "map snd l2 = evs \<and> (\<forall>(s, ev) \<in> set l2. find (\<lambda>s. vt_matches vt w1 s ev) xs = Some s)"
    using Cons.IH [OF r m(1)] Cons.prems(3) m(2) by simp
  then show ?case using eq s m(2) by simp
qed auto

end

text \<open>
  A reactor reports nothing but events of watched sources, so no event of a round is lost.
\<close>

locale reactor = watcher_backend +
  assumes event_law: "winv w \<Longrightarrow> vt_wait vt t w = Some w' \<Longrightarrow> ev \<in> set (vt_rawEvents vt w') \<Longrightarrow>
            \<exists>s\<in>armed w'. vt_matches vt w' s ev"
begin

lemma wait_round_complete:
  assumes "wf c" "vt_wait vt t (core_backend c) = Some w"
    and "dispatch_round vt (vt_rawEvents vt w) (registered c) w = (w', log, calls)"
  shows "map snd log = vt_rawEvents vt w \<and>
         (\<forall>(s, ev) \<in> set log. find (\<lambda>s. vt_matches vt w s ev) (registered c) = Some s)"
  using round_complete [OF assms(3)] event_law [OF _ assms(2)] wait_law [OF _ assms(2)] assms(1)
  by (auto simp: wf_def)

end

section \<open>Properties\<close>

text \<open>
  C11. However a core was used before, applying the pending requests leaves each source registered
  at most once and no null pointer among them, empties the requests, and the last request that
  names a source decides whether it is registered afterwards; sources no request names stay as
  they were.
\<close>

theorem core_last_request_decides:
  assumes "loop_run vt ks (new_core w) = Some c"
  shows "let c' = applyPendingChanges vt c in
     distinct (core_sources c') \<and> None \<notin> set (core_sources c') \<and> pending_ops c' = [] \<and>
     (\<forall>s. Some s \<in> set (core_sources c') \<longleftrightarrow>
        (case last_op (pending_ops c) s of
           Some Add \<Rightarrow> True | Some Remove \<Rightarrow> False | None \<Rightarrow> Some s \<in> set (core_sources c)))"
proof -
  have inv: "core_inv c" by (rule loop_run_inv [OF assms new_core_inv])
  then obtain xs where xs: "core_sources c = map Some xs" by (auto simp: core_inv_def)
  obtain ys where ys: "core_sources (applyPendingChanges vt c) = map Some ys" "distinct ys"
    using applyPendingChanges_inv(1) [OF inv, of vt] by (auto simp: core_inv_def)
  have eq: "ys = fold spec_op (pending_ops c) xs"
    using applyPendingChanges_inv(2) [OF inv, of vt] xs ys by (simp del: spec_op.simps)
  have "Some s \<in> set (map Some zs) \<longleftrightarrow> s \<in> set zs" for s :: 'b and zs by auto
  then show ?thesis
    using ys applyPendingChanges_inv(3) [OF inv, of vt] spec_ops_mem [of _ "pending_ops c" xs, folded eq]
    unfolding Let_def xs ys(1) by (simp add: distinct_map cong: option.case_cong)
qed

text \<open>
  C12. A dispatch round hands each raw event to the first registered source that matches it when its
  turn comes, in the order of the events; whatever the callbacks add or remove on the way only
  lengthens the list of pending requests, so it changes neither the registered sources nor who
  receives the rest of the round.
\<close>

theorem dispatch_uses_snapshot:
  assumes "loop_run vt ks (new_core w) = Some c"
  shows "dispatchRawEvents vt c =
     (case dispatch_round vt (vt_rawEvents vt (core_backend c)) (map the (core_sources c)) (core_backend c) of
        (w', log, calls) \<Rightarrow>
          c\<lparr>core_backend := w', pending_ops := pending_ops c @ concat (map call_ops calls)\<rparr>)"
proof -
  have "core_inv c" by (rule loop_run_inv [OF assms new_core_inv])
  from dispatch_is_round [OF this, of vt] show ?thesis
    by (simp add: registered_def split: prod.split)
qed

end
