(* ===== verification/Epoll_Backend.thy ===== *)
theory Epoll_Backend
  imports Event_Core
begin

text \<open>
  \<^verbatim>\<open>platform/linux/schedule/epoll_backend.h\<close> and \<^verbatim>\<open>.cc\<close>. The kernel's epoll instance is a parameter:
  a state \<open>'k\<close>, the system call \<open>ctl\<close> on it, and the view \<open>kset\<close> of the interest set in it. What
  the code relies on is \<open>epoll_documented\<close>, the behaviour of \<open>epoll_ctl(2)\<close>; \<open>epoll_wait(2)\<close> is a
  list of answers to come, which report descriptors of the interest set.
\<close>

section \<open>State\<close>

record EpollRawEvent =
  ep_fd :: int
  ep_events :: u32

record EpollEventSource =
  es_type :: BackendType
  es_fd :: int
  es_events :: u32
  es_armed :: bool
  es_backend :: bool

record EpollBackend =
  epoll_events_size :: nat
  fd_events :: "int \<rightharpoonup> u32"
  ep_ready :: "EpollRawEvent list"

definition new_EpollEventSource :: "int \<Rightarrow> u32 \<Rightarrow> EpollEventSource" where
  "new_EpollEventSource fd events =
     \<lparr>es_type = LINUX_EPOLL, es_fd = fd, es_events = events, es_armed = False, es_backend = False\<rparr>"

definition new_EpollBackend :: "nat \<Rightarrow> EpollBackend" where
  "new_EpollBackend vector_size = \<lparr>epoll_events_size = vector_size, fd_events = Map.empty, ep_ready = []\<rparr>"

datatype ctl_op = EPOLL_CTL_ADD | EPOLL_CTL_MOD | EPOLL_CTL_DEL

type_synonym 'k ctl = "ctl_op \<Rightarrow> int \<Rightarrow> u32 \<Rightarrow> 'k \<Rightarrow> bool \<times> 'k"

text \<open>The result is whether \<open>epoll_ctl\<close> returned 0. A deletion leaves the descriptor out of the set.\<close>

definition epoll_documented :: "'k ctl \<Rightarrow> ('k \<Rightarrow> int \<rightharpoonup> u32) \<Rightarrow> bool" where
  "epoll_documented ctl kset \<longleftrightarrow>
     (\<forall>fd e k ok k'. ctl EPOLL_CTL_ADD fd e k = (ok, k') \<longrightarrow> kset k' = (if ok then (kset k)(fd \<mapsto> e) else kset k)) \<and>
     (\<forall>fd e k ok k'. ctl EPOLL_CTL_MOD fd e k = (ok, k') \<longrightarrow> kset k' = (if ok then (kset k)(fd \<mapsto> e) else kset k)) \<and>
     (\<forall>fd e k ok k'. ctl EPOLL_CTL_DEL fd e k = (ok, k') \<longrightarrow> kset k' = (kset k)(fd := None))"

section \<open>Backend operations\<close>

definition registerFd :: "'k ctl \<Rightarrow> int \<Rightarrow> u32 \<Rightarrow> EpollBackend \<times> 'k \<Rightarrow> EpollBackend \<times> 'k" where
  "registerFd ctl fd events bk =
     (let (b, k) = bk in
      case fd_events b fd of
        None \<Rightarrow>
          (let (ok, k) = ctl EPOLL_CTL_ADD fd events k
           in (if ok then b\<lparr>fd_events := (fd_events b)(fd \<mapsto> events)\<rparr> else b, k))
      | Some old \<Rightarrow>
          if old = events then (b, k)
          else
            (let (ok, k) = ctl EPOLL_CTL_MOD fd events k
             in (if ok then b\<lparr>fd_events := (fd_events b)(fd \<mapsto> events)\<rparr> else b, k)))"

definition unregisterFd :: "'k ctl \<Rightarrow> int \<Rightarrow> EpollBackend \<times> 'k \<Rightarrow> EpollBackend \<times> 'k" where
  "unregisterFd ctl fd bk =
     (let (b, k) = bk in
      case fd_events b fd of
        None \<Rightarrow> (b, k)
      | Some _ \<Rightarrow> (b\<lparr>fd_events := (fd_events b)(fd := None)\<rparr>, snd (ctl EPOLL_CTL_DEL fd 0 k)))"

datatype 'k epoll_answer =
    EpollEINTR
  | EpollError
  | EpollReturn "'k \<Rightarrow> nat \<Rightarrow> (int \<times> u32) list"

fun epoll_retry :: "'k epoll_answer list \<Rightarrow> ('k epoll_answer \<times> 'k epoll_answer list) option" where
  "epoll_retry [] = None"
| "epoll_retry (EpollEINTR # rest) = epoll_retry rest"
| "epoll_retry (a # rest) = Some (a, rest)"

definition wait ::
  "'k epoll_answer list \<Rightarrow> EpollBackend \<times> 'k \<Rightarrow> (EpollBackend \<times> 'k epoll_answer list) option" where
  "wait answers bk =
     (let (b, k) = bk; b = b\<lparr>ep_ready := []\<rparr> in
      case epoll_retry answers of
        None \<Rightarrow> None
      | Some (EpollReturn report, rest) \<Rightarrow>
          Some (b\<lparr>ep_ready := map (\<lambda>(fd, e). \<lparr>ep_fd = fd, ep_events = e\<rparr>) (report k (epoll_events_size b))\<rparr>, rest)
      | Some (_, rest) \<Rightarrow> Some (b, rest))"

definition rawEvents :: "EpollBackend \<Rightarrow> EpollRawEvent list" where
  "rawEvents b = ep_ready b"

section \<open>Sources\<close>

record ('s, 'u, 'k) epoll_world =
  ew_backend :: EpollBackend
  ew_kernel :: 'k
  ew_src :: "'s \<Rightarrow> EpollEventSource"
  ew_user :: 'u
  ew_answers :: "'k epoll_answer list"

definition ew_on :: "(EpollBackend \<times> 'k \<Rightarrow> EpollBackend \<times> 'k) \<Rightarrow> ('s, 'u, 'k) epoll_world \<Rightarrow> ('s, 'u, 'k) epoll_world" where
  "ew_on f w = (let (b, k) = f (ew_backend w, ew_kernel w) in w\<lparr>ew_backend := b, ew_kernel := k\<rparr>)"

definition arm :: "'k ctl \<Rightarrow> 's \<Rightarrow> ('s, 'u, 'k) epoll_world \<Rightarrow> ('s, 'u, 'k) epoll_world" where
  "arm ctl s w =
     (let src = ew_src w s in
      if \<not> isSourceMatchBackend (es_type src) LINUX_EPOLL then w
      else if es_armed src then w
      else (ew_on (registerFd ctl (es_fd src) (es_events src)) w)
             \<lparr>ew_src := (ew_src w)(s := src\<lparr>es_armed := True, es_backend := True\<rparr>)\<rparr>)"

definition disarm :: "'k ctl \<Rightarrow> 's \<Rightarrow> ('s, 'u, 'k) epoll_world \<Rightarrow> ('s, 'u, 'k) epoll_world" where
  "disarm ctl s w =
     (let src = ew_src w s in
      if \<not> isSourceMatchBackend (es_type src) LINUX_EPOLL then w
      else if \<not> es_armed src then w
      else (ew_on (unregisterFd ctl (es_fd src)) w)
             \<lparr>ew_src := (ew_src w)(s := src\<lparr>es_armed := False, es_backend := False\<rparr>)\<rparr>)"

definition setEvents :: "'k ctl \<Rightarrow> 's \<Rightarrow> u32 \<Rightarrow> ('s, 'u, 'k) epoll_world \<Rightarrow> ('s, 'u, 'k) epoll_world" where
  "setEvents ctl s events w =
     (let src = (ew_src w s)\<lparr>es_events := events\<rparr>;
          w = w\<lparr>ew_src := (ew_src w)(s := src)\<rparr>
      in if es_armed src \<and> es_backend src \<and> isSourceMatchBackend (es_type src) LINUX_EPOLL
         then ew_on (registerFd ctl (es_fd src) (es_events src)) w else w)"

definition matches :: "('s, 'u, 'k) epoll_world \<Rightarrow> 's \<Rightarrow> EpollRawEvent \<Rightarrow> bool" where
  "matches w s ev = (ep_fd ev = es_fd (ew_src w s))"

type_synonym ('s, 'u) epoll_callback = "'u \<Rightarrow> u32 \<Rightarrow> 'u \<times> ('s \<times> u32) list \<times> 's core_call list"

text \<open>A callback answers with the \<^verbatim>\<open>setEvents\<close> calls it makes and its calls on the core.\<close>

definition dispatch ::
  "'k ctl \<Rightarrow> ('s \<Rightarrow> ('s, 'u) epoll_callback option) \<Rightarrow> 's \<Rightarrow> EpollRawEvent \<Rightarrow> ('s, 'u, 'k) epoll_world \<Rightarrow>
   ('s, 'u, 'k) epoll_world \<times> 's core_call list" where
  "dispatch ctl cbs s ev w =
     (case cbs s of
        None \<Rightarrow> (w, [])
      | Some cb \<Rightarrow>
          (let (u, scalls, ccalls) = cb (ew_user w) (ep_events ev)
           in (fold (\<lambda>(s, e). setEvents ctl s e) scalls (w\<lparr>ew_user := u\<rparr>), ccalls)))"

definition epoll_vtable ::
  "'k ctl \<Rightarrow> ('s \<Rightarrow> ('s, 'u) epoll_callback option) \<Rightarrow> (('s, 'u, 'k) epoll_world, 's, EpollRawEvent) vtable" where
  "epoll_vtable ctl cbs =
     \<lparr>vt_addSource = (\<lambda>_ w. w),
      vt_removeSource = (\<lambda>_ w. w),
      vt_wait = (\<lambda>_ w. map_option (\<lambda>(b, rest). w\<lparr>ew_backend := b, ew_answers := rest\<rparr>)
                         (wait (ew_answers w) (ew_backend w, ew_kernel w))),
      vt_rawEvents = (\<lambda>w. rawEvents (ew_backend w)),
      vt_arm = arm ctl,
      vt_disarm = disarm ctl,
      vt_matches = matches,
      vt_dispatch = dispatch ctl cbs\<rparr>"

definition epoll_fresh ::
  "'k \<Rightarrow> nat \<Rightarrow> ('s \<Rightarrow> int) \<Rightarrow> ('s \<Rightarrow> u32) \<Rightarrow> 'u \<Rightarrow> 'k epoll_answer list \<Rightarrow> ('s, 'u, 'k) epoll_world" where
  "epoll_fresh k vector_size fdof evof u answers =
     \<lparr>ew_backend = new_EpollBackend vector_size, ew_kernel = k,
      ew_src = (\<lambda>s. new_EpollEventSource (fdof s) (evof s)), ew_user = u, ew_answers = answers\<rparr>"

section \<open>The cache agrees with the kernel\<close>

definition epoll_sync :: "('k \<Rightarrow> int \<rightharpoonup> u32) \<Rightarrow> EpollBackend \<times> 'k \<Rightarrow> bool" where
  "epoll_sync kset bk \<longleftrightarrow> fd_events (fst bk) = kset (snd bk)"

lemma epoll_register_law:
  assumes "epoll_documented ctl kset" "epoll_sync kset bk"
  shows "epoll_sync kset (registerFd ctl fd e bk)"
    and "\<exists>m \<in> {fd_events (fst bk), (fd_events (fst bk))(fd \<mapsto> e)}. fd_events (fst (registerFd ctl fd e bk)) = m"
proof -
  have ctl: "kset (snd (ctl op fd e k)) = (if fst (ctl op fd e k) then (kset k)(fd \<mapsto> e) else kset k)"
    if "op = EPOLL_CTL_ADD \<or> op = EPOLL_CTL_MOD" for op k
    using assms(1) that unfolding epoll_documented_def by (metis prod.collapse)
  show "epoll_sync kset (registerFd ctl fd e bk)"
    using assms(2) ctl by (auto simp: epoll_sync_def registerFd_def split: prod.split option.split)
      (metis ctl fst_conv snd_conv)+
  show "\<exists>m \<in> {fd_events (fst bk), (fd_events (fst bk))(fd \<mapsto> e)}. fd_events (fst (registerFd ctl fd e bk)) = m"
    by (auto simp: registerFd_def split: prod.split option.split)
qed

lemma epoll_unregister_law:
  assumes "epoll_documented ctl kset" "epoll_sync kset bk"
  shows "epoll_sync kset (unregisterFd ctl fd bk)"
    and "fd_events (fst (unregisterFd ctl fd bk)) = (fd_events (fst bk))(fd := None)"
proof -
  have "kset (snd (ctl EPOLL_CTL_DEL fd 0 k)) = (kset k)(fd := None)" for k
    using assms(1) unfolding epoll_documented_def by (metis prod.collapse)
  then show "epoll_sync kset (unregisterFd ctl fd bk)"
    using assms(2) by (auto simp: epoll_sync_def unregisterFd_def split: prod.split option.split)
  show "fd_events (fst (unregisterFd ctl fd bk)) = (fd_events (fst bk))(fd := None)"
    by (auto simp: unregisterFd_def fun_eq_iff split: prod.split option.split)
qed

section \<open>The backend as a reactor\<close>

definition epoll_armed :: "('s, 'u, 'k) epoll_world \<Rightarrow> 's set" where
  "epoll_armed w = {s. es_armed (ew_src w s)}"

definition epoll_accepts :: "'k ctl \<Rightarrow> bool" where
  "epoll_accepts ctl \<longleftrightarrow> (\<forall>op fd e k. fst (ctl op fd e k))"

definition epoll_reports :: "('k \<Rightarrow> int \<rightharpoonup> u32) \<Rightarrow> 'k epoll_answer list \<Rightarrow> bool" where
  "epoll_reports kset answers \<longleftrightarrow>
     (\<forall>r. EpollReturn r \<in> set answers \<longrightarrow> (\<forall>k n. fst ` set (r k n) \<subseteq> dom (kset k)))"

text \<open>
  Watched descriptors belong to armed sources; when the kernel refuses nothing, all armed
  sources are watched, with their events.
\<close>

definition epoll_covers :: "'k ctl \<Rightarrow> ('s \<Rightarrow> int) \<Rightarrow> ('s, 'u, 'k) epoll_world \<Rightarrow> bool" where
  "epoll_covers ctl fdof w \<longleftrightarrow>
     (\<forall>fd e. fd_events (ew_backend w) fd = Some e \<longrightarrow> fd \<in> fdof ` epoll_armed w) \<and>
     (epoll_accepts ctl \<longrightarrow>
        (\<forall>s \<in> epoll_armed w. fd_events (ew_backend w) (fdof s) = Some (es_events (ew_src w s))))"

definition epoll_winv ::
  "'k ctl \<Rightarrow> ('k \<Rightarrow> int \<rightharpoonup> u32) \<Rightarrow> ('s \<Rightarrow> int) \<Rightarrow> ('s, 'u, 'k) epoll_world \<Rightarrow> bool" where
  "epoll_winv ctl kset fdof w \<longleftrightarrow>
     epoll_documented ctl kset \<and> epoll_sync kset (ew_backend w, ew_kernel w) \<and>
     (\<forall>s. es_type (ew_src w s) = LINUX_EPOLL \<and> es_fd (ew_src w s) = fdof s \<and>
          es_backend (ew_src w s) = es_armed (ew_src w s)) \<and>
     inj_on fdof (epoll_armed w) \<and> epoll_covers ctl fdof w \<and> epoll_reports kset (ew_answers w)"

lemma epoll_register_accepts:
  "epoll_accepts ctl \<Longrightarrow> fd_events (fst (registerFd ctl fd e bk)) fd = Some e"
  "fd' \<noteq> fd \<Longrightarrow> fd_events (fst (registerFd ctl fd e bk)) fd' = fd_events (fst bk) fd'"
  by (auto simp: registerFd_def epoll_accepts_def split: prod.split option.split) (metis fst_conv)+

lemma ew_on_sel [simp]:
  "ew_backend (ew_on f w) = fst (f (ew_backend w, ew_kernel w))"
  "ew_kernel (ew_on f w) = snd (f (ew_backend w, ew_kernel w))"
  "ew_src (ew_on f w) = ew_src w" "ew_user (ew_on f w) = ew_user w" "ew_answers (ew_on f w) = ew_answers w"
  by (simp_all add: ew_on_def split_def Let_def)

text \<open>Registering the descriptor of one source, with the source's flags and events set as given.\<close>

lemma epoll_put_law:
  assumes w: "epoll_winv ctl kset fdof w"
    and c: "\<forall>x \<in> epoll_armed w. x \<noteq> s \<longrightarrow> fdof x \<noteq> fdof s"
    and w': "w' = (ew_on (registerFd ctl (fdof s) e) w)\<lparr>ew_src := (ew_src w)(s :=
               (ew_src w s)\<lparr>es_events := e, es_armed := True, es_backend := True\<rparr>)\<rparr>"
  shows "epoll_winv ctl kset fdof w'" "epoll_armed w' = insert s (epoll_armed w)"
proof -
  have armed: "epoll_armed w' = insert s (epoll_armed w)" by (auto simp: w' epoll_armed_def)
  have "inj_on fdof (insert s (epoll_armed w))"
    using w c by (auto simp: epoll_winv_def inj_on_def)
  moreover have "epoll_sync kset (ew_backend w', ew_kernel w')"
    using epoll_register_law(1) [of ctl kset "(ew_backend w, ew_kernel w)" "fdof s" e] w
    by (simp add: w' epoll_winv_def)
  moreover have "epoll_covers ctl fdof w'"
    using w c epoll_register_accepts(1) [of ctl "fdof s" e "(ew_backend w, ew_kernel w)"]
      epoll_register_accepts(2) [of _ "fdof s" ctl e "(ew_backend w, ew_kernel w)"]
    unfolding epoll_covers_def armed
    by (auto simp: w' epoll_winv_def epoll_covers_def) (metis image_insert insert_iff)+
  ultimately show "epoll_winv ctl kset fdof w'" "epoll_armed w' = insert s (epoll_armed w)"
    using w armed by (auto simp: epoll_winv_def w')
qed

lemma epoll_arm_law:
  assumes "epoll_winv ctl kset fdof w" "\<forall>x \<in> epoll_armed w. x \<noteq> s \<longrightarrow> fdof x \<noteq> fdof s"
  shows "epoll_winv ctl kset fdof (arm ctl s w)" "epoll_armed (arm ctl s w) = insert s (epoll_armed w)"
proof -
  have "epoll_winv ctl kset fdof (arm ctl s w) \<and> epoll_armed (arm ctl s w) = insert s (epoll_armed w)"
  proof (cases "s \<in> epoll_armed w")
    case True
    then have "arm ctl s w = w" by (simp add: arm_def Let_def epoll_armed_def)
    with True assms show ?thesis by auto
  next
    case False
    have "arm ctl s w = (ew_on (registerFd ctl (fdof s) (es_events (ew_src w s))) w)\<lparr>ew_src := (ew_src w)(s :=
               (ew_src w s)\<lparr>es_events := es_events (ew_src w s), es_armed := True, es_backend := True\<rparr>)\<rparr>"
      using False assms(1) by (simp add: arm_def Let_def epoll_armed_def epoll_winv_def isSourceMatchBackend_def)
    from epoll_put_law [OF assms this] show ?thesis by simp
  qed
  then show "epoll_winv ctl kset fdof (arm ctl s w)" "epoll_armed (arm ctl s w) = insert s (epoll_armed w)"
    by auto
qed

lemma epoll_disarm_law:
  assumes w: "epoll_winv ctl kset fdof w"
  shows "epoll_winv ctl kset fdof (disarm ctl s w)" "epoll_armed (disarm ctl s w) = epoll_armed w - {s}"
proof -
  have armed: "epoll_armed (disarm ctl s w) = epoll_armed w - {s}"
    using w by (auto simp: disarm_def Let_def epoll_armed_def epoll_winv_def isSourceMatchBackend_def)
  have "epoll_winv ctl kset fdof (disarm ctl s w)"
  proof (cases "s \<in> epoll_armed w")
    case True
    then have w': "disarm ctl s w = (ew_on (unregisterFd ctl (fdof s)) w)
             \<lparr>ew_src := (ew_src w)(s := (ew_src w s)\<lparr>es_armed := False, es_backend := False\<rparr>)\<rparr>"
      using w by (simp add: disarm_def Let_def epoll_armed_def epoll_winv_def isSourceMatchBackend_def)
    have other: "fdof x \<noteq> fdof s" if "x \<in> epoll_armed w" "x \<noteq> s" for x
      using w that True by (auto simp: epoll_winv_def inj_on_def)
    have doc: "epoll_documented ctl kset" "epoll_sync kset (ew_backend w, ew_kernel w)"
      using w by (auto simp: epoll_winv_def)
    note law = epoll_unregister_law [OF doc, of "fdof s"]
    have "epoll_covers ctl fdof (disarm ctl s w)"
      using w other unfolding epoll_covers_def armed
      by (auto simp: w' law epoll_winv_def epoll_covers_def image_iff split: if_splits)
    then show ?thesis
      using w armed law inj_on_subset [of fdof "epoll_armed w" "epoll_armed w - {s}"]
      by (auto simp: epoll_winv_def w')
  qed (use w in \<open>simp add: disarm_def Let_def epoll_armed_def\<close>)
  with armed show "epoll_winv ctl kset fdof (disarm ctl s w)"
    "epoll_armed (disarm ctl s w) = epoll_armed w - {s}" by auto
qed

lemma epoll_setEvents_law:
  assumes w: "epoll_winv ctl kset fdof w"
  shows "epoll_winv ctl kset fdof (setEvents ctl s e w) \<and> epoll_armed (setEvents ctl s e w) = epoll_armed w \<and>
         matches (setEvents ctl s e w) = matches w"
proof -
  have m: "matches (setEvents ctl s e w) = matches w"
    by (auto simp: matches_def setEvents_def Let_def fun_eq_iff)
  show ?thesis
  proof (cases "s \<in> epoll_armed w")
    case True
    then have "es_armed (ew_src w s)" "es_backend (ew_src w s)" "es_fd (ew_src w s) = fdof s"
      "es_type (ew_src w s) = LINUX_EPOLL"
      using w by (auto simp: epoll_armed_def epoll_winv_def)
    note srcs = this
    have src: "(ew_src w s)\<lparr>es_events := e, es_armed := True, es_backend := True\<rparr> =
        (ew_src w s)\<lparr>es_events := e\<rparr>"
      using srcs by (cases "ew_src w s") auto
    have w': "setEvents ctl s e w = (ew_on (registerFd ctl (fdof s) e) w)\<lparr>ew_src := (ew_src w)(s :=
               (ew_src w s)\<lparr>es_events := e, es_armed := True, es_backend := True\<rparr>)\<rparr>"
      unfolding src using srcs by (simp add: setEvents_def Let_def isSourceMatchBackend_def ew_on_def split_def)
    have "\<forall>x \<in> epoll_armed w. x \<noteq> s \<longrightarrow> fdof x \<noteq> fdof s"
      using w True by (auto simp: epoll_winv_def inj_on_def)
    from epoll_put_law [OF w this w'] m True show ?thesis by auto
  next
    case False
    then have w': "setEvents ctl s e w = w\<lparr>ew_src := (ew_src w)(s := (ew_src w s)\<lparr>es_events := e\<rparr>)\<rparr>"
      by (simp add: setEvents_def Let_def epoll_armed_def)
    have armed: "epoll_armed (setEvents ctl s e w) = epoll_armed w"
      using False by (auto simp: w' epoll_armed_def)
    have "epoll_covers ctl fdof (setEvents ctl s e w)"
      using w False unfolding epoll_covers_def armed by (auto simp: w' epoll_winv_def epoll_covers_def)
    with m w armed show ?thesis by (auto simp: epoll_winv_def w')
  qed
qed

lemma epoll_src_calls_law:
  "epoll_winv ctl kset fdof w \<Longrightarrow> epoll_winv ctl kset fdof (fold (\<lambda>(s, e). setEvents ctl s e) cs w) \<and>
   epoll_armed (fold (\<lambda>(s, e). setEvents ctl s e) cs w) = epoll_armed w \<and>
   matches (fold (\<lambda>(s, e). setEvents ctl s e) cs w) = matches w"
proof (induction cs arbitrary: w)
  case (Cons c cs)
  then show ?case using epoll_setEvents_law [of ctl kset fdof w] by (cases c) auto
qed simp

lemma epoll_dispatch_law:
  assumes "epoll_winv ctl kset fdof w" "dispatch ctl cbs s ev w = (w', calls)"
  shows "epoll_winv ctl kset fdof w' \<and> epoll_armed w' = epoll_armed w \<and> matches w' = matches w"
proof (cases "cbs s")
  case (Some cb)
  obtain u sc cc where cb: "cb (ew_user w) (ep_events ev) = (u, sc, cc)" by (metis prod_cases3)
  have "epoll_winv ctl kset fdof (w\<lparr>ew_user := u\<rparr>)" "epoll_armed (w\<lparr>ew_user := u\<rparr>) = epoll_armed w"
    "matches (w\<lparr>ew_user := u\<rparr>) = matches w"
    using assms(1) by (auto simp: epoll_winv_def epoll_armed_def matches_def epoll_covers_def fun_eq_iff)
  with epoll_src_calls_law [of ctl kset fdof "w\<lparr>ew_user := u\<rparr>" sc] assms(2) Some cb show ?thesis
    by (auto simp: dispatch_def)
qed (use assms in \<open>simp add: dispatch_def\<close>)

lemma epoll_retry_mem: "epoll_retry answers = Some (a, rest) \<Longrightarrow> insert a (set rest) \<subseteq> set answers"
  by (induction answers rule: epoll_retry.induct) auto

lemma epoll_wait_law:
  assumes w: "epoll_winv ctl kset fdof w" and r: "vt_wait (epoll_vtable ctl cbs) t w = Some w'"
  shows "epoll_winv ctl kset fdof w'" "epoll_armed w' = epoll_armed w"
    and "ev \<in> set (vt_rawEvents (epoll_vtable ctl cbs) w') \<Longrightarrow> \<exists>s \<in> epoll_armed w'. matches w' s ev"
proof -
  obtain b rest where b: "wait (ew_answers w) (ew_backend w, ew_kernel w) = Some (b, rest)"
    and w': "w' = w\<lparr>ew_backend := b, ew_answers := rest\<rparr>"
    using r by (auto simp: epoll_vtable_def)
  from b obtain a where a: "epoll_retry (ew_answers w) = Some (a, rest)"
    and fe: "fd_events b = fd_events (ew_backend w)"
    and rd: "\<forall>ev \<in> set (ep_ready b). \<exists>r n. a = EpollReturn r \<and> ep_fd ev \<in> fst ` set (r (ew_kernel w) n)"
    by (auto simp: wait_def Let_def image_iff split: option.splits epoll_answer.splits) force
  have ans: "insert a (set rest) \<subseteq> set (ew_answers w)" using epoll_retry_mem [OF a] .
  then have "epoll_reports kset rest"
    using w unfolding epoll_winv_def epoll_reports_def by blast
  then show "epoll_winv ctl kset fdof w'" "epoll_armed w' = epoll_armed w"
    using w fe by (auto simp: w' epoll_winv_def epoll_armed_def epoll_sync_def epoll_covers_def)
  show "\<exists>s \<in> epoll_armed w'. matches w' s ev" if "ev \<in> set (vt_rawEvents (epoll_vtable ctl cbs) w')"
  proof -
    have "ev \<in> set (ep_ready b)" using that by (simp add: w' epoll_vtable_def rawEvents_def)
    then obtain r n where rn: "a = EpollReturn r" "ep_fd ev \<in> fst ` set (r (ew_kernel w) n)" using rd by blast
    then have "ep_fd ev \<in> dom (kset (ew_kernel w))"
      using w ans by (fastforce simp: epoll_winv_def epoll_reports_def)
    then have "ep_fd ev \<in> fdof ` epoll_armed w"
      using w by (auto simp: epoll_winv_def epoll_sync_def epoll_covers_def)
    then obtain s where "s \<in> epoll_armed w" "fdof s = ep_fd ev" by auto
    then show ?thesis using w
      by (auto simp: w' epoll_winv_def matches_def epoll_armed_def intro!: exI [of _ s])
  qed
qed

interpretation epoll: reactor "epoll_vtable ctl cbs" "epoll_winv ctl kset fdof" epoll_armed "\<lambda>x y. fdof x = fdof y"
  for ctl cbs kset fdof
proof (unfold_locales, goal_cases)
  case (3 w s)
  then show ?case using epoll_arm_law [of ctl kset fdof w s] by (simp add: epoll_vtable_def)
next
  case (4 w s)
  then show ?case using epoll_disarm_law [of ctl kset fdof w s] by (simp add: epoll_vtable_def)
next
  case (5 w t w')
  then show ?case using epoll_wait_law(1,2) by blast
next
  case (7 w t w' ev)
  then show ?case using epoll_wait_law(3) [of ctl kset fdof w cbs t w' ev] by (simp add: epoll_vtable_def)
next
  case (6 w s ev w' calls)
  then show ?case using epoll_dispatch_law [of ctl kset fdof w cbs s ev w' calls]
    by (simp add: epoll_vtable_def)
qed (simp_all add: epoll_vtable_def)

lemma epoll_fresh_law:
  assumes "epoll_documented ctl kset" "kset k = Map.empty" "epoll_reports kset answers"
  shows "epoll_winv ctl kset fdof (epoll_fresh k n fdof evof u answers)"
    and "epoll_armed (epoll_fresh k n fdof evof u answers) = {}"
  using assms by (auto simp: epoll_winv_def epoll_armed_def epoll_fresh_def new_EpollEventSource_def
      new_EpollBackend_def epoll_sync_def epoll_covers_def)

section \<open>Properties\<close>


section \<open>A concrete run\<close>

text \<open>
  A kernel that accepts everything it is documented to accept, two sources, one report; the
  callback of the first source changes its own events.
\<close>

fun demo_ctl :: "(int \<rightharpoonup> u32) ctl" where
  "demo_ctl EPOLL_CTL_ADD fd e k = (True, k(fd \<mapsto> e))"
| "demo_ctl EPOLL_CTL_MOD fd e k = (True, k(fd \<mapsto> e))"
| "demo_ctl EPOLL_CTL_DEL fd e k = (True, k(fd := None))"

lemma demo_ctl_ok: "epoll_documented demo_ctl (\<lambda>k. k)" "epoll_accepts demo_ctl"
  by (simp_all add: epoll_documented_def epoll_accepts_def) (metis demo_ctl.simps ctl_op.exhaust fst_conv)

definition demo_epoll_answers :: "(int \<rightharpoonup> u32) epoll_answer list" where
  "demo_epoll_answers = [EpollEINTR, EpollReturn (\<lambda>k n. if k 5 = None then [] else [(5, 1)])]"

lemma demo_epoll_reports: "epoll_reports (\<lambda>k. k) demo_epoll_answers"
  by (auto simp: epoll_reports_def demo_epoll_answers_def split: if_splits)

definition demo_epoll_cbs :: "nat \<Rightarrow> (nat, nat) epoll_callback option" where
  "demo_epoll_cbs s = (if s = 0 then Some (\<lambda>u e. (u + 1, [(0, 5)], [])) else None)"

definition demo_epoll :: "((nat, nat, int \<rightharpoonup> u32) epoll_world, nat) IEventLoopCore" where
  "demo_epoll = new_core (epoll_fresh Map.empty 64 (\<lambda>s. 5 + int s) (\<lambda>_. 1) 0 demo_epoll_answers)"

definition demo_epoll_ops :: "nat loop_op list" where
  "demo_epoll_ops = [LAdd (Some 0), LAdd (Some 1), LApplyInitial, LRunOnce (-1)]"

definition demo_epoll_after :: "((nat, nat, int \<rightharpoonup> u32) epoll_world, nat) IEventLoopCore" where
  "demo_epoll_after = the (loop_run (epoll_vtable demo_ctl demo_epoll_cbs) demo_epoll_ops demo_epoll)"

lemma demo_epoll_run:
  "loop_run (epoll_vtable demo_ctl demo_epoll_cbs) demo_epoll_ops demo_epoll = Some demo_epoll_after"
  "run_fits (epoll_vtable demo_ctl demo_epoll_cbs) (\<lambda>x y. 5 + int x = 5 + int y) demo_epoll_ops demo_epoll"
proof -
  have "\<not> Option.is_none (loop_run (epoll_vtable demo_ctl demo_epoll_cbs) demo_epoll_ops demo_epoll)"
    by code_simp
  then show "loop_run (epoll_vtable demo_ctl demo_epoll_cbs) demo_epoll_ops demo_epoll = Some demo_epoll_after"
    unfolding demo_epoll_after_def by (rule some_the)
qed code_simp


end
