(* ===== verification/Kqueue_Backend.thy ===== *)
theory Kqueue_Backend
  imports Event_Core
begin

text \<open>
  \<^verbatim>\<open>platform/macos/schedule/kqueue_backend.h\<close> and \<^verbatim>\<open>.cc\<close>. A registration is a pair of descriptor and
  filter, packed into a 64-bit key. The kernel's queue is a parameter: a state \<open>'k\<close>, the change
  list of one entry that \<^verbatim>\<open>kevent(2)\<close> applies to it, and the view \<open>kset\<close> of the registered filters
  in it. What the code relies on is \<open>kqueue_documented\<close>; waiting is a list of answers to come,
  which report registered filters.
\<close>

section \<open>State\<close>

type_synonym fd_t = "32 word"
type_synonym filter_t = "16 word"

record Registration =
  r_flags :: u16
  r_fflags :: u32
  r_data :: u64

record KqueueRawEvent =
  kq_ident :: u64
  kq_filter :: filter_t
  kq_flags :: u16
  kq_fflags :: u32
  kq_data :: u64

record KqueueEventSource =
  ks_type :: BackendType
  ks_fd :: fd_t
  ks_filter :: filter_t
  ks_reg :: Registration
  ks_armed :: bool

record KqueueBackend =
  kq_open :: bool
  max_events :: nat
  registered_map :: "u64 \<rightharpoonup> Registration"
  kq_ready :: "KqueueRawEvent list"

definition registrationKey :: "fd_t \<Rightarrow> filter_t \<Rightarrow> u64" where
  "registrationKey fd flt = (push_bit 32 (ucast fd)) OR (ucast flt)"

definition new_KqueueEventSource :: "fd_t \<Rightarrow> filter_t \<Rightarrow> Registration \<Rightarrow> KqueueEventSource" where
  "new_KqueueEventSource fd flt reg =
     \<lparr>ks_type = MACOS_KQUEUE, ks_fd = fd, ks_filter = flt, ks_reg = reg, ks_armed = False\<rparr>"

text \<open>\<open>ok\<close> says whether \<^verbatim>\<open>kqueue()\<close> returned a descriptor.\<close>

definition new_KqueueBackend :: "bool \<Rightarrow> nat \<Rightarrow> KqueueBackend" where
  "new_KqueueBackend ok n =
     \<lparr>kq_open = ok, max_events = n, registered_map = Map.empty, kq_ready = []\<rparr>"

datatype change = EV_ADD Registration | EV_DELETE

type_synonym 'k kchange = "fd_t \<Rightarrow> filter_t \<Rightarrow> change \<Rightarrow> 'k \<Rightarrow> bool \<times> 'k"

text \<open>
  Flags with \<^verbatim>\<open>EV_ADD\<close> and without \<^verbatim>\<open>EV_DELETE\<close> and \<^verbatim>\<open>EV_ONESHOT\<close>: the filter stays until it is
  deleted. The code's default is \<^verbatim>\<open>EV_ADD | EV_ENABLE | EV_CLEAR\<close>.
\<close>

definition stays :: "Registration \<Rightarrow> bool" where
  "stays r \<longleftrightarrow> r_flags r AND 0x13 = 1"

definition kqueue_documented :: "'k kchange \<Rightarrow> ('k \<Rightarrow> fd_t \<times> filter_t \<rightharpoonup> Registration) \<Rightarrow> bool" where
  "kqueue_documented kev kset \<longleftrightarrow>
     (\<forall>fd flt r k ok k'. stays r \<and> kev fd flt (EV_ADD r) k = (ok, k') \<longrightarrow>
        kset k' = (if ok then (kset k)((fd, flt) \<mapsto> r) else kset k)) \<and>
     (\<forall>fd flt k ok k'. kev fd flt EV_DELETE k = (ok, k') \<longrightarrow> kset k' = (kset k)((fd, flt) := None))"

section \<open>Backend operations\<close>

definition registerFd ::
  "'k kchange \<Rightarrow> fd_t \<Rightarrow> filter_t \<Rightarrow> Registration \<Rightarrow> KqueueBackend \<times> 'k \<Rightarrow> KqueueBackend \<times> 'k" where
  "registerFd kev fd flt reg bk =
     (let (b, k) = bk in
      if \<not> kq_open b then (b, k)
      else
        let key = registrationKey fd flt in
        if registered_map b key = Some reg then (b, k)
        else (b\<lparr>registered_map := (registered_map b)(key \<mapsto> reg)\<rparr>, snd (kev fd flt (EV_ADD reg) k)))"

definition unregisterFd ::
  "'k kchange \<Rightarrow> fd_t \<Rightarrow> filter_t \<Rightarrow> KqueueBackend \<times> 'k \<Rightarrow> KqueueBackend \<times> 'k" where
  "unregisterFd kev fd flt bk =
     (let (b, k) = bk in
      if \<not> kq_open b then (b, k)
      else
        let key = registrationKey fd flt in
        case registered_map b key of
          None \<Rightarrow> (b, k)
        | Some _ \<Rightarrow>
            (b\<lparr>registered_map := (registered_map b)(key := None)\<rparr>, snd (kev fd flt EV_DELETE k)))"

text \<open>The time that is given to \<^verbatim>\<open>kevent(2)\<close>: seconds and nanoseconds, or to wait forever.\<close>

definition wait_timespec :: "int \<Rightarrow> (int \<times> int) option" where
  "wait_timespec timeout =
     (if timeout \<ge> 0 then Some (timeout div 1000, (timeout mod 1000) * 1000000) else None)"

text \<open>An answer is an error or the events found, given the time and the room for events.\<close>

datatype 'k kq_answer = KqError | KqReturn "'k \<Rightarrow> (int \<times> int) option \<Rightarrow> nat \<Rightarrow> KqueueRawEvent list"

definition wait ::
  "int \<Rightarrow> 'k kq_answer list \<Rightarrow> KqueueBackend \<times> 'k \<Rightarrow> (KqueueBackend \<times> 'k kq_answer list) option" where
  "wait timeout answers bk =
     (let (b, k) = bk; b = b\<lparr>kq_ready := []\<rparr> in
      if \<not> kq_open b then Some (b, answers)
      else
        case answers of
          [] \<Rightarrow> None
        | KqError # rest \<Rightarrow> Some (b, rest)
        | KqReturn report # rest \<Rightarrow>
            Some (b\<lparr>kq_ready := report k (wait_timespec timeout) (max_events b)\<rparr>, rest))"

definition rawEvents :: "KqueueBackend \<Rightarrow> KqueueRawEvent list" where
  "rawEvents b = kq_ready b"

section \<open>Sources\<close>

record ('s, 'u, 'k) kq_world =
  qw_backend :: KqueueBackend
  qw_kernel :: 'k
  qw_src :: "'s \<Rightarrow> KqueueEventSource"
  qw_user :: 'u
  qw_answers :: "'k kq_answer list"

definition qw_on ::
  "(KqueueBackend \<times> 'k \<Rightarrow> KqueueBackend \<times> 'k) \<Rightarrow> ('s, 'u, 'k) kq_world \<Rightarrow> ('s, 'u, 'k) kq_world" where
  "qw_on f w = (let (b, k) = f (qw_backend w, qw_kernel w) in w\<lparr>qw_backend := b, qw_kernel := k\<rparr>)"

definition arm :: "'k kchange \<Rightarrow> 's \<Rightarrow> ('s, 'u, 'k) kq_world \<Rightarrow> ('s, 'u, 'k) kq_world" where
  "arm kev s w =
     (let src = qw_src w s in
      if \<not> isSourceMatchBackend (ks_type src) MACOS_KQUEUE then w
      else if ks_armed src then w
      else (qw_on (registerFd kev (ks_fd src) (ks_filter src) (ks_reg src)) w)
             \<lparr>qw_src := (qw_src w)(s := src\<lparr>ks_armed := True\<rparr>)\<rparr>)"

definition disarm :: "'k kchange \<Rightarrow> 's \<Rightarrow> ('s, 'u, 'k) kq_world \<Rightarrow> ('s, 'u, 'k) kq_world" where
  "disarm kev s w =
     (let src = qw_src w s in
      if \<not> isSourceMatchBackend (ks_type src) MACOS_KQUEUE then w
      else if \<not> ks_armed src then w
      else (qw_on (unregisterFd kev (ks_fd src) (ks_filter src)) w)
             \<lparr>qw_src := (qw_src w)(s := src\<lparr>ks_armed := False\<rparr>)\<rparr>)"

text \<open>\<^verbatim>\<open>uintptr_t\<close> of a descriptor extends the sign.\<close>

definition matches :: "('s, 'u, 'k) kq_world \<Rightarrow> 's \<Rightarrow> KqueueRawEvent \<Rightarrow> bool" where
  "matches w s ev \<longleftrightarrow>
     kq_ident ev = scast (ks_fd (qw_src w s)) \<and> kq_filter ev = ks_filter (qw_src w s)"

type_synonym ('s, 'u) kq_callback = "'u \<Rightarrow> KqueueRawEvent \<Rightarrow> 'u \<times> 's core_call list"

definition dispatch ::
  "('s \<Rightarrow> ('s, 'u) kq_callback option) \<Rightarrow> 's \<Rightarrow> KqueueRawEvent \<Rightarrow> ('s, 'u, 'k) kq_world \<Rightarrow>
   ('s, 'u, 'k) kq_world \<times> 's core_call list" where
  "dispatch cbs s ev w =
     (case cbs s of
        None \<Rightarrow> (w, [])
      | Some cb \<Rightarrow> (let (u, ccalls) = cb (qw_user w) ev in (w\<lparr>qw_user := u\<rparr>, ccalls)))"

definition kq_vtable ::
  "'k kchange \<Rightarrow> ('s \<Rightarrow> ('s, 'u) kq_callback option) \<Rightarrow>
   (('s, 'u, 'k) kq_world, 's, KqueueRawEvent) vtable" where
  "kq_vtable kev cbs =
     \<lparr>vt_addSource = (\<lambda>_ w. w),
      vt_removeSource = (\<lambda>_ w. w),
      vt_wait = (\<lambda>t w. map_option (\<lambda>(b, rest). w\<lparr>qw_backend := b, qw_answers := rest\<rparr>)
                         (wait t (qw_answers w) (qw_backend w, qw_kernel w))),
      vt_rawEvents = (\<lambda>w. rawEvents (qw_backend w)),
      vt_arm = arm kev,
      vt_disarm = disarm kev,
      vt_matches = matches,
      vt_dispatch = dispatch cbs\<rparr>"

definition kq_fresh ::
  "bool \<Rightarrow> 'k \<Rightarrow> nat \<Rightarrow> ('s \<Rightarrow> fd_t \<times> filter_t) \<Rightarrow> ('s \<Rightarrow> Registration) \<Rightarrow> 'u \<Rightarrow> 'k kq_answer list \<Rightarrow>
   ('s, 'u, 'k) kq_world" where
  "kq_fresh ok k n keyof regof u answers =
     \<lparr>qw_backend = new_KqueueBackend ok n, qw_kernel = k,
      qw_src = (\<lambda>s. new_KqueueEventSource (fst (keyof s)) (snd (keyof s)) (regof s)), qw_user = u,
      qw_answers = answers\<rparr>"

section \<open>The key\<close>

lemma registrationKey_inj:
  "registrationKey fd flt = registrationKey fd' flt' \<longleftrightarrow> fd = fd' \<and> flt = flt'"
proof
  assume eq: "registrationKey fd flt = registrationKey fd' flt'"
  have hi: "bit (registrationKey fd flt) (32 + n) = bit fd n" if "n < 32" for fd flt n
    using that by (auto simp: registrationKey_def bit_simps dest: bit_imp_le_length)
  have lo: "bit (registrationKey fd flt) n = bit flt n" if "n < 16" for fd flt n
    using that by (simp add: registrationKey_def bit_simps)
  have "bit fd n = bit fd' n" if "n < 32" for n
    using hi [OF that, of fd flt] hi [OF that, of fd' flt'] eq by simp
  then have "fd = fd'" by (intro bit_word_eqI) simp
  moreover have "bit flt n = bit flt' n" if "n < 16" for n
    using lo [OF that, of fd flt] lo [OF that, of fd' flt'] eq by simp
  then have "flt = flt'" by (intro bit_word_eqI) simp
  ultimately show "fd = fd' \<and> flt = flt'" by simp
qed simp

section \<open>The backend as a reactor\<close>

definition kq_armed :: "('s, 'u, 'k) kq_world \<Rightarrow> 's set" where
  "kq_armed w = {s. ks_armed (qw_src w s)}"

definition kq_accepts :: "'k kchange \<Rightarrow> bool" where
  "kq_accepts kev \<longleftrightarrow> (\<forall>fd flt c k. fst (kev fd flt c k))"

text \<open>Only registered filters are reported.\<close>

definition kq_reports :: "('k \<Rightarrow> fd_t \<times> filter_t \<rightharpoonup> Registration) \<Rightarrow> 'k kq_answer list \<Rightarrow> bool" where
  "kq_reports kset answers \<longleftrightarrow>
     (\<forall>r. KqReturn r \<in> set answers \<longrightarrow>
        (\<forall>k t n. \<forall>ev \<in> set (r k t n).
           \<exists>fd. kq_ident ev = scast fd \<and> (fd, kq_filter ev) \<in> dom (kset k)))"

definition kq_covers ::
  "'k kchange \<Rightarrow> ('k \<Rightarrow> fd_t \<times> filter_t \<rightharpoonup> Registration) \<Rightarrow> ('s \<Rightarrow> fd_t \<times> filter_t) \<Rightarrow>
   ('s, 'u, 'k) kq_world \<Rightarrow> bool" where
  "kq_covers kev kset keyof w \<longleftrightarrow>
     (\<not> kq_open (qw_backend w) \<longrightarrow> registered_map (qw_backend w) = Map.empty) \<and>
     (\<forall>p r. kset (qw_kernel w) p = Some r \<longrightarrow>
        registered_map (qw_backend w) (registrationKey (fst p) (snd p)) = Some r) \<and>
     (\<forall>key. registered_map (qw_backend w) key \<noteq> None \<longrightarrow>
        (\<exists>s \<in> kq_armed w. key = registrationKey (fst (keyof s)) (snd (keyof s)))) \<and>
     (kq_accepts kev \<and> kq_open (qw_backend w) \<longrightarrow>
        (\<forall>s \<in> kq_armed w. kset (qw_kernel w) (keyof s) = Some (ks_reg (qw_src w s))))"

definition kq_winv ::
  "'k kchange \<Rightarrow> ('k \<Rightarrow> fd_t \<times> filter_t \<rightharpoonup> Registration) \<Rightarrow> ('s \<Rightarrow> fd_t \<times> filter_t) \<Rightarrow>
   ('s, 'u, 'k) kq_world \<Rightarrow> bool" where
  "kq_winv kev kset keyof w \<longleftrightarrow>
     kqueue_documented kev kset \<and> kq_reports kset (qw_answers w) \<and>
     (\<forall>s. ks_type (qw_src w s) = MACOS_KQUEUE \<and> stays (ks_reg (qw_src w s)) \<and>
          (ks_fd (qw_src w s), ks_filter (qw_src w s)) = keyof s) \<and>
     inj_on keyof (kq_armed w) \<and> kq_covers kev kset keyof w"

lemma qw_on_sel [simp]:
  "qw_backend (qw_on f w) = fst (f (qw_backend w, qw_kernel w))"
  "qw_kernel (qw_on f w) = snd (f (qw_backend w, qw_kernel w))"
  "qw_src (qw_on f w) = qw_src w" "qw_user (qw_on f w) = qw_user w"
  "qw_answers (qw_on f w) = qw_answers w"
  by (simp_all add: qw_on_def split_def Let_def)

abbreviation key_of :: "fd_t \<times> filter_t \<Rightarrow> u64" where
  "key_of p \<equiv> registrationKey (fst p) (snd p)"

lemma key_of_inj: "key_of p = key_of q \<longleftrightarrow> p = q"
  by (simp add: registrationKey_inj prod_eq_iff)

lemma kq_ctl:
  assumes "kqueue_documented kev kset"
  shows "stays r \<Longrightarrow> kset (snd (kev fd flt (EV_ADD r) k)) =
      (if fst (kev fd flt (EV_ADD r) k) then (kset k)((fd, flt) \<mapsto> r) else kset k)"
    and "kset (snd (kev fd flt EV_DELETE k)) = (kset k)((fd, flt) := None)"
  using assms unfolding kqueue_documented_def by (metis prod.collapse)+

lemma kq_arm_law:
  assumes w: "kq_winv kev kset keyof w"
    and c: "\<forall>x \<in> kq_armed w. x \<noteq> s \<longrightarrow> keyof x \<noteq> keyof s"
  shows "kq_winv kev kset keyof (arm kev s w) \<and> kq_armed (arm kev s w) = insert s (kq_armed w)"
proof (cases "s \<in> kq_armed w")
  case True
  then have "arm kev s w = w" by (simp add: arm_def Let_def kq_armed_def)
  with True w show ?thesis by auto
next
  case False
  let ?src = "qw_src w s"
  have src: "ks_type ?src = MACOS_KQUEUE" "stays (ks_reg ?src)" "(ks_fd ?src, ks_filter ?src) = keyof s"
    "fst (keyof s) = ks_fd ?src" "snd (keyof s) = ks_filter ?src"
    using w by (auto simp: kq_winv_def) (metis fst_conv snd_conv)+
  let ?r = "registerFd kev (ks_fd ?src) (ks_filter ?src) (ks_reg ?src) (qw_backend w, qw_kernel w)"
  let ?w = "arm kev s w"
  have eq: "?w = (qw_on (registerFd kev (ks_fd ?src) (ks_filter ?src) (ks_reg ?src)) w)
      \<lparr>qw_src := (qw_src w)(s := ?src\<lparr>ks_armed := True\<rparr>)\<rparr>"
    using False src by (simp add: arm_def Let_def kq_armed_def isSourceMatchBackend_def)
  have armed: "kq_armed ?w = insert s (kq_armed w)" by (auto simp: eq kq_armed_def)
  have free: "registered_map (qw_backend w) (key_of (keyof s)) = None"
  proof (rule ccontr)
    assume "registered_map (qw_backend w) (key_of (keyof s)) \<noteq> None"
    then obtain x where "x \<in> kq_armed w" "key_of (keyof s) = key_of (keyof x)"
      using w unfolding kq_winv_def kq_covers_def by blast
    then show False using c False unfolding key_of_inj by metis
  qed
  have doc: "kqueue_documented kev kset" and cov: "kq_covers kev kset keyof w"
    using w by (simp_all add: kq_winv_def)
  have r: "?r = (if kq_open (qw_backend w)
      then ((qw_backend w)\<lparr>registered_map := (registered_map (qw_backend w))(key_of (keyof s) \<mapsto> ks_reg ?src)\<rparr>,
            snd (kev (ks_fd ?src) (ks_filter ?src) (EV_ADD (ks_reg ?src)) (qw_kernel w)))
      else (qw_backend w, qw_kernel w))"
    using free src by (simp add: registerFd_def Let_def)
  have kn: "kset (qw_kernel w) (keyof s) = None"
    using cov free unfolding kq_covers_def by (metis not_None_eq)
  note k = kq_ctl(1) [OF doc src(2), of "ks_fd ?src" "ks_filter ?src" "qw_kernel w"]
  have "kq_covers kev kset keyof ?w"
  proof (cases "kq_open (qw_backend w)")
    case False
    then have "registered_map (qw_backend w) = Map.empty" using cov by (simp add: kq_covers_def)
    with False cov show ?thesis unfolding kq_covers_def armed by (simp add: eq r)
  next
    case True
    let ?ok = "fst (kev (ks_fd ?src) (ks_filter ?src) (EV_ADD (ks_reg ?src)) (qw_kernel w))"
    have k': "kset (qw_kernel ?w) =
        (if ?ok then (kset (qw_kernel w))(keyof s \<mapsto> ks_reg ?src) else kset (qw_kernel w))"
      and m': "registered_map (qw_backend ?w) =
        (registered_map (qw_backend w))(key_of (keyof s) \<mapsto> ks_reg ?src)"
      using True k src(3) by (simp_all add: eq r)
    have 1: "registered_map (qw_backend ?w) (key_of p) = Some r"
      if "kset (qw_kernel ?w) p = Some r" for p r
      using that cov kn unfolding kq_covers_def k' m' by (auto simp: key_of_inj split: if_splits)
    have 2: "\<exists>x \<in> kq_armed ?w. key = key_of (keyof x)"
      if "registered_map (qw_backend ?w) key \<noteq> None" for key
      using that cov unfolding kq_covers_def m' armed by (auto split: if_splits)
    have 3: "kset (qw_kernel ?w) (keyof x) = Some (ks_reg (qw_src ?w x))"
      if "kq_accepts kev" "x \<in> kq_armed ?w" for x
      using that cov True c unfolding kq_covers_def k' armed
      by (auto simp: kq_accepts_def eq)
    show ?thesis unfolding kq_covers_def using 1 2 3 True by (auto simp: eq r)
  qed
  moreover have "inj_on keyof (kq_armed ?w)"
    using w c unfolding armed by (auto simp: kq_winv_def inj_on_def)
  moreover have "ks_type (qw_src ?w x) = MACOS_KQUEUE \<and> stays (ks_reg (qw_src ?w x)) \<and>
      (ks_fd (qw_src ?w x), ks_filter (qw_src ?w x)) = keyof x" for x
    using w src by (auto simp: eq kq_winv_def)
  ultimately show ?thesis using w armed by (simp add: kq_winv_def eq)
qed

lemma kq_disarm_law:
  assumes w: "kq_winv kev kset keyof w"
  shows "kq_winv kev kset keyof (disarm kev s w) \<and> kq_armed (disarm kev s w) = kq_armed w - {s}"
proof (cases "s \<in> kq_armed w")
  case False
  then have "disarm kev s w = w" by (simp add: disarm_def Let_def kq_armed_def)
  with False w show ?thesis by auto
next
  case True
  let ?src = "qw_src w s" let ?w = "disarm kev s w"
  have src: "ks_type ?src = MACOS_KQUEUE" "stays (ks_reg ?src)" "(ks_fd ?src, ks_filter ?src) = keyof s"
    "fst (keyof s) = ks_fd ?src" "snd (keyof s) = ks_filter ?src"
    using w by (auto simp: kq_winv_def) (metis fst_conv snd_conv)+
  have eq: "?w = (qw_on (unregisterFd kev (ks_fd ?src) (ks_filter ?src)) w)
      \<lparr>qw_src := (qw_src w)(s := ?src\<lparr>ks_armed := False\<rparr>)\<rparr>"
    using True src by (simp add: disarm_def Let_def kq_armed_def isSourceMatchBackend_def)
  have armed: "kq_armed ?w = kq_armed w - {s}" by (auto simp: eq kq_armed_def)
  have doc: "kqueue_documented kev kset" and cov: "kq_covers kev kset keyof w"
    and inj: "inj_on keyof (kq_armed w)" using w by (simp_all add: kq_winv_def)
  have other: "keyof x \<noteq> keyof s" if "x \<in> kq_armed w - {s}" for x
    using inj that True by (auto simp: inj_on_def)
  note k = kq_ctl(2) [OF doc, of "ks_fd ?src" "ks_filter ?src" "qw_kernel w"]
  have covers: "kq_covers kev kset keyof ?w"
  proof (cases "kq_open (qw_backend w) \<and> registered_map (qw_backend w) (key_of (keyof s)) \<noteq> None")
    case False
    then have same: "qw_backend ?w = qw_backend w" "qw_kernel ?w = qw_kernel w"
      using src by (auto simp: eq unregisterFd_def Let_def split: option.split)
    have "registered_map (qw_backend w) (key_of (keyof s)) = None"
      using False cov by (auto simp: kq_covers_def)
    then have "\<exists>x \<in> kq_armed ?w. key = key_of (keyof x)"
      if "registered_map (qw_backend w) key \<noteq> None" for key
      using that cov unfolding kq_covers_def armed by (metis Diff_iff singletonD)
    then show ?thesis
      using cov unfolding kq_covers_def same by (simp add: armed) (simp add: eq)
  next
    case True
    then have k': "kset (qw_kernel ?w) = (kset (qw_kernel w))(keyof s := None)"
      and m': "registered_map (qw_backend ?w) = (registered_map (qw_backend w))(key_of (keyof s) := None)"
      and o': "kq_open (qw_backend ?w) = kq_open (qw_backend w)"
      using k src by (auto simp: eq unregisterFd_def Let_def split: option.split)
    have 1: "registered_map (qw_backend ?w) (key_of p) = Some r"
      if "kset (qw_kernel ?w) p = Some r" for p r
      using that cov unfolding kq_covers_def k' m' by (auto simp: key_of_inj split: if_splits)
    have 2: "\<exists>x \<in> kq_armed ?w. key = key_of (keyof x)"
      if "registered_map (qw_backend ?w) key \<noteq> None" for key
      using that cov unfolding kq_covers_def m' armed by (auto split: if_splits)
    have 3: "kset (qw_kernel ?w) (keyof x) = Some (ks_reg (qw_src ?w x))"
      if "kq_accepts kev" "kq_open (qw_backend ?w)" "x \<in> kq_armed ?w" for x
      using that cov other unfolding kq_covers_def k' o' armed by (auto simp: eq)
    show ?thesis unfolding kq_covers_def using 1 2 3 True o' by simp
  qed
  moreover have "inj_on keyof (kq_armed ?w)"
    unfolding armed using inj by (rule inj_on_subset) auto
  moreover have "ks_type (qw_src ?w x) = MACOS_KQUEUE \<and> stays (ks_reg (qw_src ?w x)) \<and>
      (ks_fd (qw_src ?w x), ks_filter (qw_src ?w x)) = keyof x" for x
    using w src by (auto simp: eq kq_winv_def)
  ultimately show ?thesis using w armed by (simp add: kq_winv_def eq)
qed

lemma kq_wait_law:
  assumes w: "kq_winv kev kset keyof w" and r: "vt_wait (kq_vtable kev cbs) t w = Some w'"
  shows "kq_winv kev kset keyof w'" "kq_armed w' = kq_armed w"
    and "ev \<in> set (vt_rawEvents (kq_vtable kev cbs) w') \<Longrightarrow> \<exists>s \<in> kq_armed w'. matches w' s ev"
proof -
  obtain b rest where b: "wait t (qw_answers w) (qw_backend w, qw_kernel w) = Some (b, rest)"
    and w': "w' = w\<lparr>qw_backend := b, qw_answers := rest\<rparr>"
    using r by (auto simp: kq_vtable_def)
  from b have fr: "registered_map b = registered_map (qw_backend w)" "kq_open b = kq_open (qw_backend w)"
    "set rest \<subseteq> set (qw_answers w)"
    by (auto simp: wait_def Let_def split: if_splits list.splits kq_answer.splits)
  have rd: "\<exists>r ts n. KqReturn r \<in> set (qw_answers w) \<and> ev \<in> set (r (qw_kernel w) ts n)"
    if "ev \<in> set (kq_ready b)" for ev
  proof -
    have "\<exists>r. KqReturn r \<in> set (qw_answers w) \<and>
        ev \<in> set (r (qw_kernel w) (wait_timespec t) (max_events (qw_backend w)))"
      using b that by (auto simp: wait_def Let_def split: if_splits list.splits kq_answer.splits)
    then show ?thesis by blast
  qed
  have "kq_reports kset rest" using w fr(3) by (auto simp: kq_winv_def kq_reports_def)
  then show "kq_winv kev kset keyof w'" and armed: "kq_armed w' = kq_armed w"
    using w fr by (auto simp: w' kq_winv_def kq_covers_def kq_armed_def)
  show "\<exists>s \<in> kq_armed w'. matches w' s ev" if "ev \<in> set (vt_rawEvents (kq_vtable kev cbs) w')"
  proof -
    have "ev \<in> set (kq_ready b)" using that by (simp add: w' kq_vtable_def rawEvents_def)
    then obtain r ts n where rn: "KqReturn r \<in> set (qw_answers w)" "ev \<in> set (r (qw_kernel w) ts n)"
      using rd by blast
    then obtain fd where fd: "kq_ident ev = scast fd" "(fd, kq_filter ev) \<in> dom (kset (qw_kernel w))"
      using w unfolding kq_winv_def kq_reports_def by blast
    then have "registered_map (qw_backend w) (key_of (fd, kq_filter ev)) \<noteq> None"
      using w by (fastforce simp: kq_winv_def kq_covers_def)
    then obtain s where s: "s \<in> kq_armed w" "key_of (fd, kq_filter ev) = key_of (keyof s)"
      using w unfolding kq_winv_def kq_covers_def by blast
    then have "keyof s = (fd, kq_filter ev)" by (simp only: key_of_inj)
    moreover have "(ks_fd (qw_src w s), ks_filter (qw_src w s)) = keyof s" using w by (simp add: kq_winv_def)
    ultimately have "matches w' s ev" using fd(1) by (simp add: w' matches_def)
    then show ?thesis using s(1) armed by blast
  qed
qed

lemma kq_dispatch_law:
  assumes "kq_winv kev kset keyof w" "dispatch cbs s ev w = (w', calls)"
  shows "kq_winv kev kset keyof w' \<and> kq_armed w' = kq_armed w \<and> matches w' = matches w"
  using assms
  by (auto simp: dispatch_def kq_winv_def kq_armed_def kq_covers_def matches_def fun_eq_iff
      split: option.splits prod.splits)

interpretation kqueue: reactor "kq_vtable kev cbs" "kq_winv kev kset keyof" kq_armed
    "\<lambda>x y. keyof x = keyof y"
  for kev cbs kset keyof
proof (unfold_locales, goal_cases)
  case (3 w s)
  then show ?case using kq_arm_law [of kev kset keyof w s] by (simp add: kq_vtable_def)
next
  case (4 w s)
  then show ?case using kq_disarm_law [of kev kset keyof w s] by (simp add: kq_vtable_def)
next
  case (5 w t w')
  then show ?case using kq_wait_law(1,2) by blast
next
  case (7 w t w' ev)
  then show ?case using kq_wait_law(3) [of kev kset keyof w cbs t w' ev] by (simp add: kq_vtable_def)
next
  case (6 w s ev w' calls)
  then show ?case using kq_dispatch_law [of kev kset keyof w cbs s ev w' calls]
    by (simp add: kq_vtable_def)
qed (simp_all add: kq_vtable_def)

lemma kq_fresh_law:
  assumes "kqueue_documented kev kset" "kset k = Map.empty" "kq_reports kset answers"
    and "\<And>s. stays (regof s)"
  shows "kq_winv kev kset keyof (kq_fresh ok k n keyof regof u answers)"
    and "kq_armed (kq_fresh ok k n keyof regof u answers) = {}"
  using assms by (auto simp: kq_winv_def kq_armed_def kq_fresh_def new_KqueueEventSource_def
      new_KqueueBackend_def kq_covers_def)

section \<open>Properties\<close>


section \<open>A concrete run\<close>

fun demo_change :: "(fd_t \<times> filter_t \<rightharpoonup> Registration) kchange" where
  "demo_change fd flt (EV_ADD r) k = (True, k((fd, flt) \<mapsto> r))"
| "demo_change fd flt EV_DELETE k = (True, k((fd, flt) := None))"

definition demo_reg :: Registration where
  "demo_reg = \<lparr>r_flags = 0x25, r_fflags = 0, r_data = 0\<rparr>"

definition demo_kq_answers :: "(fd_t \<times> filter_t \<rightharpoonup> Registration) kq_answer list" where
  "demo_kq_answers =
     [KqReturn (\<lambda>k t n. if k (5, -1) = None then []
        else [\<lparr>kq_ident = 5, kq_filter = -1, kq_flags = 0, kq_fflags = 0, kq_data = 3\<rparr>])]"

text \<open>Two sources, for reading and writing on descriptor 5; reading removes the second one.\<close>

definition demo_kq :: "((nat, nat, fd_t \<times> filter_t \<rightharpoonup> Registration) kq_world, nat) IEventLoopCore" where
  "demo_kq = new_core (kq_fresh True Map.empty 64 (\<lambda>s. (5, if s = 0 then -1 else -2)) (\<lambda>_. demo_reg)
     (0 :: nat) demo_kq_answers)"

definition demo_kq_cbs :: "nat \<Rightarrow> (nat, nat) kq_callback option" where
  "demo_kq_cbs s = Some (\<lambda>u ev. (u + 1, [CallRemove (Some 1)]))"

definition demo_kq_ops :: "nat loop_op list" where
  "demo_kq_ops = [LAdd (Some 0), LAdd (Some 1), LApplyInitial, LRunOnce 1500]"

definition demo_kq_after :: "((nat, nat, fd_t \<times> filter_t \<rightharpoonup> Registration) kq_world, nat) IEventLoopCore" where
  "demo_kq_after = the (loop_run (kq_vtable demo_change demo_kq_cbs) demo_kq_ops demo_kq)"


end
