(* ===== verification/Index_Table.thy ===== *)
theory Index_Table
  imports Prelude
begin

text \<open>
  The table the readiness backends keep: a vector of entries and a hash map from the key of an
  entry to its position, with removal by moving the last entry into the hole. The lemmas here
  are shared by the \<open>poll\<close> and the Win32 backends.
\<close>

definition index_ok :: "'k list \<Rightarrow> ('k \<rightharpoonup> nat) \<Rightarrow> bool" where
  "index_ok ks idx \<longleftrightarrow> (\<forall>i < length ks. idx (ks ! i) = Some i) \<and> dom idx = set ks"

lemma index_ok_nth: "index_ok ks idx \<Longrightarrow> i < length ks \<Longrightarrow> idx (ks ! i) = Some i"
  by (simp add: index_ok_def)

lemma index_ok_dom: "index_ok ks idx \<Longrightarrow> dom idx = set ks"
  by (simp add: index_ok_def)

lemma index_okD:
  assumes "index_ok ks idx" "idx k = Some i"
  shows "i < length ks" "ks ! i = k"
proof -
  have "k \<in> set ks" using assms by (auto simp: index_ok_def)
  then obtain j where "j < length ks" "ks ! j = k" by (auto simp: in_set_conv_nth)
  with index_ok_nth [OF assms(1), of j] assms(2) show "i < length ks" "ks ! i = k" by auto
qed

lemma index_ok_distinct:
  assumes "index_ok ks idx"
  shows "distinct ks"
  unfolding distinct_conv_nth
proof (intro allI impI)
  fix i j assume "i < length ks" "j < length ks" "i \<noteq> j"
  then show "ks ! i \<noteq> ks ! j" using index_ok_nth [OF assms, of i] index_ok_nth [OF assms, of j] by auto
qed

lemma index_ok_empty [simp]: "index_ok [] Map.empty"
  by (simp add: index_ok_def)

lemma index_ok_append:
  assumes "index_ok ks idx" "idx k = None"
  shows "index_ok (ks @ [k]) (idx(k \<mapsto> length ks))"
proof -
  have "k \<notin> set ks" using assms by (auto simp: index_ok_def)
  then have "\<forall>i < length ks. ks ! i \<noteq> k" by auto
  with assms show ?thesis by (auto simp: index_ok_def nth_append less_Suc_eq)
qed

lemma index_ok_pop:
  assumes "index_ok (ks @ [k]) idx"
  shows "index_ok ks (idx(k := None))"
proof -
  have "k \<notin> set ks" using index_ok_distinct [OF assms] by simp
  moreover have "idx (ks ! i) = Some i" if "i < length ks" for i
    using index_ok_nth [OF assms, of i] that by (simp add: nth_append)
  ultimately show ?thesis using index_ok_dom [OF assms] by (auto simp: index_ok_def)
qed

lemma index_ok_swap_pop:
  assumes "index_ok (ks @ [l]) idx" "i < length ks" "ks ! i = k"
  shows "index_ok (ks[i := l]) ((idx(l \<mapsto> i))(k := None))"
proof -
  have d: "distinct ks" "l \<notin> set ks" using index_ok_distinct [OF assms(1)] by auto
  have idx: "idx (ks ! j) = Some j" if "j < length ks" for j
    using index_ok_nth [OF assms(1), of j] that by (simp add: nth_append)
  have k: "k \<in> set ks" using assms(2,3) by auto
  have "ks ! j \<noteq> k" if "j < length ks" "j \<noteq> i" for j
    using that d(1) assms(2,3) by (auto simp: nth_eq_iff_index_eq)
  then have "((idx(l \<mapsto> i))(k := None)) (ks[i := l] ! j) = Some j" if "j < length ks" for j
    using idx [OF that] d(2) k that by (cases "j = i") auto
  moreover have "dom ((idx(l \<mapsto> i))(k := None)) = set (ks[i := l])"
    using index_ok_dom [OF assms(1)] d k assms(2,3) by (auto simp: set_update_distinct)
  ultimately show ?thesis by (simp add: index_ok_def)
qed

section \<open>The table\<close>

text \<open>Entries \<open>xs\<close> with their keys, and what removing the entry with key \<open>k\<close> leaves.\<close>

definition table_remove :: "('a \<Rightarrow> 'k) \<Rightarrow> 'k \<Rightarrow> 'a list \<Rightarrow> ('k \<rightharpoonup> nat) \<Rightarrow> 'a list \<times> ('k \<rightharpoonup> nat)" where
  "table_remove key k xs idx =
     (case idx k of
        None \<Rightarrow> (xs, idx)
      | Some i \<Rightarrow>
          (let n = length xs - 1 in
           if i \<noteq> n then (butlast (xs[i := xs ! n]), (idx(key (xs ! n) \<mapsto> i))(k := None))
           else (butlast xs, idx(k := None))))"

lemma table_remove_ok:
  assumes ok: "index_ok (map key xs) idx"
    and r: "table_remove key k xs idx = (xs', idx')"
  shows "index_ok (map key xs') idx'" "set xs' = {x \<in> set xs. key x \<noteq> k}"
proof -
  have "index_ok (map key xs') idx' \<and> set xs' = {x \<in> set xs. key x \<noteq> k}"
  proof (cases "idx k")
    case None
    then have "k \<notin> key ` set xs" using index_ok_dom [OF ok] by auto
    with None r ok show ?thesis by (auto simp: table_remove_def)
  next
    case (Some i)
    then have i: "i < length xs" "key (xs ! i) = k"
      using index_okD [OF ok Some] by auto
    then obtain ys z where xs: "xs = ys @ [z]" by (cases xs rule: rev_cases) auto
    have d: "distinct (map key ys)" "key z \<notin> key ` set ys"
      using index_ok_distinct [OF ok] xs by auto
    show ?thesis
    proof (cases "i = length ys")
      case True
      with i xs have "key z = k" by simp
      with d have "{x \<in> set xs. key x \<noteq> k} = set ys" using xs by (auto simp: image_iff)
      with True Some r xs ok \<open>key z = k\<close> index_ok_pop [of "map key ys" k idx] show ?thesis
        by (auto simp: table_remove_def)
    next
      case False
      with i xs have iy: "i < length ys" "key (ys ! i) = k" by (auto simp: nth_append)
      then have x': "xs' = ys[i := z]" "idx' = (idx(key z \<mapsto> i))(k := None)"
        using Some r xs False by (auto simp: table_remove_def Let_def butlast_append list_update_append)
      have "index_ok (map key ys @ [key z]) idx" using ok xs by simp
      from index_ok_swap_pop [OF this, of i k] iy x' have "index_ok (map key xs') idx'"
        by (simp add: map_update)
      moreover have "key (ys ! j) \<noteq> k" if "j < length ys" "j \<noteq> i" for j
        using that d(1) iy by (auto simp: distinct_conv_nth)
      then have "set (ys[i := z]) = insert z {x \<in> set ys. key x \<noteq> k}"
        using iy by (auto simp: in_set_conv_nth nth_list_update split: if_splits)
          (metis length_list_update nth_list_update)+
      moreover have "key z \<noteq> k" using d(2) iy by (metis image_eqI nth_mem)
      ultimately show ?thesis using x' xs by auto
    qed
  qed
  then show "index_ok (map key xs') idx'" "set xs' = {x \<in> set xs. key x \<noteq> k}" by auto
qed

end
