(* ===== verification/Win32_Backend.thy ===== *)
theory Win32_Backend
  imports Event_Core Index_Table
begin

text \<open>
  \<^verbatim>\<open>platform/windows/schedule/win32_backend.h\<close> and \<^verbatim>\<open>.cc\<close>: the backend on
  \<^verbatim>\<open>MsgWaitForMultipleObjectsEx\<close> with its two kinds of source, for window messages and for waitable
  handles. What the system returns is a list of answers to come: the result of the wait, given the
  handles and the time, and the messages that \<^verbatim>\<open>PeekMessage\<close> then removes until there is none left.
  The window procedures that \<^verbatim>\<open>DispatchMessage\<close> calls are outside the model.
\<close>

section \<open>State\<close>

type_synonym HANDLE = "64 word"

datatype Win32RawEventKind = Message | Handle

record Win32RawEvent =
  we_kind :: Win32RawEventKind
  we_msg :: u32
  we_wparam :: u64
  we_lparam :: u64
  we_handle :: HANDLE

record Win32MessageSource =
  wm_type :: BackendType
  wm_msg :: u32
  wm_armed :: bool

record Win32HandleSource =
  wh_type :: BackendType
  wh_handle :: HANDLE
  wh_armed :: bool

datatype win32_source = MsgSource Win32MessageSource | HandleSource Win32HandleSource

record Win32Backend =
  handles :: "HANDLE list"
  handle_index :: "HANDLE \<rightharpoonup> nat"
  win32_ready :: "Win32RawEvent list"

definition new_Win32MessageSource :: "u32 \<Rightarrow> Win32MessageSource" where
  "new_Win32MessageSource msg = \<lparr>wm_type = WINDOWS_WIN32, wm_msg = msg, wm_armed = False\<rparr>"

definition new_Win32HandleSource :: "HANDLE \<Rightarrow> Win32HandleSource" where
  "new_Win32HandleSource h = \<lparr>wh_type = WINDOWS_WIN32, wh_handle = h, wh_armed = False\<rparr>"

definition new_Win32Backend :: Win32Backend where
  "new_Win32Backend = \<lparr>handles = [], handle_index = Map.empty, win32_ready = []\<rparr>"

section \<open>Backend operations\<close>

definition registerHandle :: "HANDLE \<Rightarrow> Win32Backend \<Rightarrow> Win32Backend" where
  "registerHandle h b =
     (if h = 0 then b
      else if handle_index b h \<noteq> None then b
      else b\<lparr>handles := handles b @ [h], handle_index := (handle_index b)(h \<mapsto> length (handles b))\<rparr>)"

definition unregisterHandle :: "HANDLE \<Rightarrow> Win32Backend \<Rightarrow> Win32Backend" where
  "unregisterHandle h b =
     (case handle_index b h of
        None \<Rightarrow> b
      | Some idx \<Rightarrow>
          let last = length (handles b) - 1;
              b = (if idx \<noteq> last then
                     let moved = handles b ! last in
                     b\<lparr>handles := (handles b)[idx := moved], handle_index := (handle_index b)(moved \<mapsto> idx)\<rparr>
                   else b)
          in b\<lparr>handles := butlast (handles b), handle_index := (handle_index b)(h := None)\<rparr>)"

definition INFINITE :: u32 where
  "INFINITE = 0xFFFFFFFF"

definition WAIT_OBJECT_0 :: u32 where
  "WAIT_OBJECT_0 = 0"

definition WAIT_FAILED :: u32 where
  "WAIT_FAILED = 0xFFFFFFFF"

definition MAXIMUM_WAIT_OBJECTS :: nat where
  "MAXIMUM_WAIT_OBJECTS = 64"

record MSG =
  msg_message :: u32
  msg_wParam :: u64
  msg_lParam :: u64

type_synonym win_answer = "HANDLE list \<Rightarrow> u32 \<Rightarrow> u32 \<times> MSG list"

text \<open>The event of a handle that ended the wait, and those of the messages.\<close>

definition handle_event :: "HANDLE list \<Rightarrow> u32 \<Rightarrow> Win32RawEvent list" where
  "handle_event hs r =
     (let handle_count = (word_of_nat (length hs) :: u32) in
      if r \<ge> WAIT_OBJECT_0 \<and> r < WAIT_OBJECT_0 + handle_count then
        (let idx = unat (r - WAIT_OBJECT_0) in
         [\<lparr>we_kind = Handle, we_msg = 0, we_wparam = 0, we_lparam = 0, we_handle = hs ! idx\<rparr>])
      else [])"

definition message_event :: "MSG \<Rightarrow> Win32RawEvent" where
  "message_event m =
     \<lparr>we_kind = Message, we_msg = msg_message m, we_wparam = msg_wParam m, we_lparam = msg_lParam m, we_handle = 0\<rparr>"

definition wait :: "int \<Rightarrow> win_answer list \<Rightarrow> Win32Backend \<Rightarrow> (Win32Backend \<times> win_answer list) option" where
  "wait timeout answers b =
     (let ms = (if timeout < 0 then INFINITE else word_of_int timeout) in
      case answers of
        [] \<Rightarrow> None
      | a # rest \<Rightarrow>
          (let (r, msgs) = a (handles b) ms
           in Some (b\<lparr>win32_ready := handle_event (handles b) r @ map message_event msgs\<rparr>, rest)))"

definition rawEvents :: "Win32Backend \<Rightarrow> Win32RawEvent list" where
  "rawEvents b = win32_ready b"

section \<open>Sources\<close>

record ('s, 'u) win32_world =
  ww_backend :: Win32Backend
  ww_src :: "'s \<Rightarrow> win32_source"
  ww_user :: 'u
  ww_answers :: "win_answer list"

definition set_src :: "'s \<Rightarrow> win32_source \<Rightarrow> ('s, 'u) win32_world \<Rightarrow> ('s, 'u) win32_world" where
  "set_src s src w = w\<lparr>ww_src := (ww_src w)(s := src)\<rparr>"

definition arm :: "'s \<Rightarrow> ('s, 'u) win32_world \<Rightarrow> ('s, 'u) win32_world" where
  "arm s w =
     (case ww_src w s of
        MsgSource src \<Rightarrow>
          (if \<not> isSourceMatchBackend (wm_type src) WINDOWS_WIN32 then w
           else set_src s (MsgSource (src\<lparr>wm_armed := True\<rparr>)) w)
      | HandleSource src \<Rightarrow>
          (if \<not> isSourceMatchBackend (wh_type src) WINDOWS_WIN32 then w
           else if wh_armed src then w
           else set_src s (HandleSource (src\<lparr>wh_armed := True\<rparr>))
                  (w\<lparr>ww_backend := registerHandle (wh_handle src) (ww_backend w)\<rparr>)))"

definition disarm :: "'s \<Rightarrow> ('s, 'u) win32_world \<Rightarrow> ('s, 'u) win32_world" where
  "disarm s w =
     (case ww_src w s of
        MsgSource src \<Rightarrow>
          (if \<not> isSourceMatchBackend (wm_type src) WINDOWS_WIN32 then w
           else set_src s (MsgSource (src\<lparr>wm_armed := False\<rparr>)) w)
      | HandleSource src \<Rightarrow>
          (if \<not> isSourceMatchBackend (wh_type src) WINDOWS_WIN32 then w
           else if \<not> wh_armed src then w
           else set_src s (HandleSource (src\<lparr>wh_armed := False\<rparr>))
                  (w\<lparr>ww_backend := unregisterHandle (wh_handle src) (ww_backend w)\<rparr>)))"

definition matches :: "('s, 'u) win32_world \<Rightarrow> 's \<Rightarrow> Win32RawEvent \<Rightarrow> bool" where
  "matches w s ev =
     (case ww_src w s of
        MsgSource src \<Rightarrow> wm_armed src \<and> we_kind ev = Message \<and> we_msg ev = wm_msg src
      | HandleSource src \<Rightarrow> wh_armed src \<and> we_kind ev = Handle \<and> we_handle ev = wh_handle src)"

text \<open>A message source's callback gets the whole event, a handle source's only the handle.\<close>

type_synonym ('s, 'u) message_cb = "'u \<Rightarrow> Win32RawEvent \<Rightarrow> 'u \<times> 's core_call list"
type_synonym ('s, 'u) handle_cb = "'u \<Rightarrow> HANDLE \<Rightarrow> 'u \<times> 's core_call list"

definition dispatch ::
  "('s \<Rightarrow> ('s, 'u) message_cb option) \<Rightarrow> ('s \<Rightarrow> ('s, 'u) handle_cb option) \<Rightarrow> 's \<Rightarrow> Win32RawEvent \<Rightarrow>
   ('s, 'u) win32_world \<Rightarrow> ('s, 'u) win32_world \<times> 's core_call list" where
  "dispatch mcb hcb s ev w =
     (case ww_src w s of
        MsgSource _ \<Rightarrow>
          (case mcb s of
             None \<Rightarrow> (w, [])
           | Some cb \<Rightarrow> (let (u, ccalls) = cb (ww_user w) ev in (w\<lparr>ww_user := u\<rparr>, ccalls)))
      | HandleSource _ \<Rightarrow>
          (case hcb s of
             None \<Rightarrow> (w, [])
           | Some cb \<Rightarrow> (let (u, ccalls) = cb (ww_user w) (we_handle ev) in (w\<lparr>ww_user := u\<rparr>, ccalls))))"

definition win32_vtable ::
  "('s \<Rightarrow> ('s, 'u) message_cb option) \<Rightarrow> ('s \<Rightarrow> ('s, 'u) handle_cb option) \<Rightarrow>
   (('s, 'u) win32_world, 's, Win32RawEvent) vtable" where
  "win32_vtable mcb hcb =
     \<lparr>vt_addSource = (\<lambda>_ w. w),
      vt_removeSource = (\<lambda>_ w. w),
      vt_wait = (\<lambda>t w. map_option (\<lambda>(b, rest). w\<lparr>ww_backend := b, ww_answers := rest\<rparr>)
                         (wait t (ww_answers w) (ww_backend w))),
      vt_rawEvents = (\<lambda>w. rawEvents (ww_backend w)),
      vt_arm = arm,
      vt_disarm = disarm,
      vt_matches = matches,
      vt_dispatch = dispatch mcb hcb\<rparr>"

text \<open>\<open>Inl\<close> builds a source for a message, \<open>Inr\<close> one for a handle.\<close>

definition new_source :: "u32 + HANDLE \<Rightarrow> win32_source" where
  "new_source k =
     (case k of Inl msg \<Rightarrow> MsgSource (new_Win32MessageSource msg)
      | Inr h \<Rightarrow> HandleSource (new_Win32HandleSource h))"

definition win32_fresh :: "('s \<Rightarrow> u32 + HANDLE) \<Rightarrow> 'u \<Rightarrow> win_answer list \<Rightarrow> ('s, 'u) win32_world" where
  "win32_fresh keyof u answers =
     \<lparr>ww_backend = new_Win32Backend, ww_src = (\<lambda>s. new_source (keyof s)), ww_user = u, ww_answers = answers\<rparr>"

section \<open>The handle table\<close>

definition table_ok :: "Win32Backend \<Rightarrow> bool" where
  "table_ok b \<longleftrightarrow> index_ok (handles b) (handle_index b)"

lemma registerHandle_law:
  assumes "table_ok b"
  shows "table_ok (registerHandle h b)"
    and "set (handles (registerHandle h b)) = (if h = 0 then set (handles b) else insert h (set (handles b)))"
proof -
  show "table_ok (registerHandle h b)"
    using assms index_ok_append [of "handles b" "handle_index b" h]
    by (auto simp: table_ok_def registerHandle_def)
  show "set (handles (registerHandle h b)) = (if h = 0 then set (handles b) else insert h (set (handles b)))"
    using assms index_ok_dom [of "handles b" "handle_index b"]
    by (auto simp: table_ok_def registerHandle_def)
qed

lemma unregisterHandle_table:
  "table_remove (\<lambda>x. x) h (handles b) (handle_index b) =
   (handles (unregisterHandle h b), handle_index (unregisterHandle h b))"
  by (simp add: table_remove_def unregisterHandle_def Let_def split: option.split)

lemma unregisterHandle_law:
  assumes "table_ok b"
  shows "table_ok (unregisterHandle h b)" "set (handles (unregisterHandle h b)) = set (handles b) - {h}"
  using table_remove_ok [of "\<lambda>x. x", OF _ unregisterHandle_table, of b h] assms
  by (auto simp: table_ok_def)

section \<open>The backend under the core\<close>

fun src_key :: "win32_source \<Rightarrow> u32 + HANDLE" where
  "src_key (MsgSource src) = Inl (wm_msg src)"
| "src_key (HandleSource src) = Inr (wh_handle src)"

fun src_armed :: "win32_source \<Rightarrow> bool" where
  "src_armed (MsgSource src) = wm_armed src"
| "src_armed (HandleSource src) = wh_armed src"

fun src_type :: "win32_source \<Rightarrow> BackendType" where
  "src_type (MsgSource src) = wm_type src"
| "src_type (HandleSource src) = wh_type src"

definition win32_armed :: "('s, 'u) win32_world \<Rightarrow> 's set" where
  "win32_armed w = {s. src_armed (ww_src w s)}"

text \<open>Two sources for the same handle conflict: removing one would take the handle from the other.\<close>

definition same_handle :: "('s \<Rightarrow> u32 + HANDLE) \<Rightarrow> 's \<Rightarrow> 's \<Rightarrow> bool" where
  "same_handle keyof x y = (case keyof x of Inl _ \<Rightarrow> False | Inr h \<Rightarrow> keyof y = Inr h)"

definition win32_winv :: "('s \<Rightarrow> u32 + HANDLE) \<Rightarrow> win_answer set \<Rightarrow> ('s, 'u) win32_world \<Rightarrow> bool" where
  "win32_winv keyof A w \<longleftrightarrow>
     table_ok (ww_backend w) \<and> set (ww_answers w) \<subseteq> A \<and>
     (\<forall>s. src_type (ww_src w s) = WINDOWS_WIN32 \<and> src_key (ww_src w s) = keyof s) \<and>
     (\<forall>x \<in> win32_armed w. \<forall>y \<in> win32_armed w. same_handle keyof x y \<longrightarrow> x = y) \<and>
     set (handles (ww_backend w)) = {h. h \<noteq> 0 \<and> (\<exists>s \<in> win32_armed w. keyof s = Inr h)}"

lemma win32_arm_law:
  assumes w: "win32_winv keyof A w" and c: "\<forall>x \<in> win32_armed w. x \<noteq> s \<longrightarrow> \<not> same_handle keyof x s"
  shows "win32_winv keyof A (arm s w) \<and> win32_armed (arm s w) = insert s (win32_armed w)"
proof -
  let ?w = "arm s w"
  have ty: "src_type (ww_src w s) = WINDOWS_WIN32" "src_key (ww_src w s) = keyof s" and tab: "table_ok (ww_backend w)"
    using w by (simp_all add: win32_winv_def)
  have src: "src_type (ww_src ?w x) = src_type (ww_src w x)" "src_key (ww_src ?w x) = src_key (ww_src w x)" for x
    by (auto simp: arm_def set_src_def split: win32_source.split)
  have armed: "win32_armed ?w = insert s (win32_armed w)"
    using ty by (auto simp: win32_armed_def arm_def set_src_def isSourceMatchBackend_def split: win32_source.split)
  have bk: "ww_backend ?w = (case keyof s of Inl _ \<Rightarrow> ww_backend w
      | Inr h \<Rightarrow> if s \<in> win32_armed w then ww_backend w else registerHandle h (ww_backend w))"
  proof (cases "ww_src w s")
    case (MsgSource m)
    then have "keyof s = Inl (wm_msg m)" using ty(2) by simp
    with MsgSource show ?thesis by (simp add: arm_def set_src_def)
  next
    case (HandleSource m)
    then have "keyof s = Inr (wh_handle m)" "wh_type m = WINDOWS_WIN32" using ty by simp_all
    with HandleSource show ?thesis
      by (simp add: arm_def set_src_def isSourceMatchBackend_def win32_armed_def)
  qed
  have "table_ok (ww_backend ?w)"
    using tab registerHandle_law(1) by (simp add: bk split: sum.split)
  moreover have "set (handles (ww_backend ?w)) = {h. h \<noteq> 0 \<and> (\<exists>x \<in> win32_armed ?w. keyof x = Inr h)}"
  proof (cases "keyof s")
    case (Inl m)
    then show ?thesis using w unfolding armed bk by (auto simp: win32_winv_def)
  next
    case (Inr h)
    have old: "set (handles (ww_backend w)) = {h. h \<noteq> 0 \<and> (\<exists>x \<in> win32_armed w. keyof x = Inr h)}"
      using w by (simp add: win32_winv_def)
    show ?thesis
    proof (cases "s \<in> win32_armed w")
      case True
      then show ?thesis using old Inr unfolding armed bk by (simp add: insert_absorb)
    next
      case False
      then show ?thesis using old Inr registerHandle_law(2) [OF tab] unfolding armed bk by auto
    qed
  qed
  moreover have "x = y" if "x \<in> win32_armed ?w" "y \<in> win32_armed ?w" "same_handle keyof x y" for x y
  proof -
    have "same_handle keyof y x" using that(3) by (auto simp: same_handle_def split: sum.splits)
    moreover have "x = y" if "x \<in> win32_armed w" "y \<in> win32_armed w"
      using w that \<open>same_handle keyof x y\<close> by (simp add: win32_winv_def)
    ultimately show ?thesis using that c unfolding armed by (cases "x = s"; cases "y = s") auto
  qed
  moreover have "ww_answers ?w = ww_answers w"
    by (simp add: arm_def set_src_def split: win32_source.split)
  ultimately show ?thesis using w armed src by (simp add: win32_winv_def)
qed

lemma win32_disarm_law:
  assumes w: "win32_winv keyof A w"
  shows "win32_winv keyof A (disarm s w) \<and> win32_armed (disarm s w) = win32_armed w - {s}"
proof -
  let ?w = "disarm s w"
  have ty: "src_type (ww_src w s) = WINDOWS_WIN32" "src_key (ww_src w s) = keyof s" and tab: "table_ok (ww_backend w)"
    using w by (simp_all add: win32_winv_def)
  have src: "src_type (ww_src ?w x) = src_type (ww_src w x)" "src_key (ww_src ?w x) = src_key (ww_src w x)" for x
    by (auto simp: disarm_def set_src_def split: win32_source.split)
  have armed: "win32_armed ?w = win32_armed w - {s}"
    using ty by (auto simp: win32_armed_def disarm_def set_src_def isSourceMatchBackend_def split: win32_source.split)
  have bk: "ww_backend ?w = (case keyof s of Inl _ \<Rightarrow> ww_backend w
      | Inr h \<Rightarrow> if s \<in> win32_armed w then unregisterHandle h (ww_backend w) else ww_backend w)"
  proof (cases "ww_src w s")
    case (MsgSource m)
    then have "keyof s = Inl (wm_msg m)" using ty(2) by simp
    with MsgSource show ?thesis by (simp add: disarm_def set_src_def)
  next
    case (HandleSource m)
    then have "keyof s = Inr (wh_handle m)" "wh_type m = WINDOWS_WIN32" using ty by simp_all
    with HandleSource show ?thesis
      by (simp add: disarm_def set_src_def isSourceMatchBackend_def win32_armed_def)
  qed
  have "table_ok (ww_backend ?w)"
    using tab unregisterHandle_law(1) by (simp add: bk split: sum.split)
  moreover have "set (handles (ww_backend ?w)) = {h. h \<noteq> 0 \<and> (\<exists>x \<in> win32_armed ?w. keyof x = Inr h)}"
  proof (cases "keyof s")
    case (Inl m)
    then show ?thesis using w unfolding armed bk by (auto simp: win32_winv_def)
  next
    case (Inr h)
    have "keyof x \<noteq> Inr h" if "x \<in> win32_armed w" "x \<noteq> s" "s \<in> win32_armed w" for x
      using w that Inr by (auto simp: win32_winv_def same_handle_def)
    then show ?thesis
      using w Inr unregisterHandle_law(2) [OF tab] unfolding armed bk by (auto simp: win32_winv_def)
  qed
  moreover have "\<forall>x \<in> win32_armed ?w. \<forall>y \<in> win32_armed ?w. same_handle keyof x y \<longrightarrow> x = y"
    using w unfolding armed by (auto simp: win32_winv_def)
  moreover have "ww_answers ?w = ww_answers w"
    by (simp add: disarm_def set_src_def split: win32_source.split)
  ultimately show ?thesis using w armed src by (simp add: win32_winv_def)
qed

lemma handle_event_in:
  assumes "ev \<in> set (handle_event hs r)"
  shows "we_kind ev = Handle" "we_handle ev \<in> set hs"
proof -
  have r: "r < word_of_nat (length hs)" and ev: "ev = \<lparr>we_kind = Handle, we_msg = 0, we_wparam = 0, we_lparam = 0, we_handle = hs ! unat r\<rparr>"
    using assms by (auto simp: handle_event_def Let_def WAIT_OBJECT_0_def split: if_splits)
  from r have "unat r < take_bit 32 (length hs)" by (simp add: word_less_nat_alt unsigned_of_nat)
  then have "unat r < length hs" using take_bit_nat_less_eq_self less_le_trans by blast
  with ev show "we_kind ev = Handle" "we_handle ev \<in> set hs" by simp_all
qed

lemma wait_gives:
  assumes "wait t answers b = Some (b', rest)"
  shows "handles b' = handles b" "handle_index b' = handle_index b" "set rest \<subseteq> set answers"
    and "ev \<in> set (win32_ready b') \<Longrightarrow> we_kind ev = Handle \<Longrightarrow> we_handle ev \<in> set (handles b)"
  using assms handle_event_in
  by (auto simp: wait_def Let_def message_event_def split: list.splits prod.splits)

lemma win32_wait_law:
  assumes w: "win32_winv keyof A w" and r: "vt_wait (win32_vtable mcb hcb) t w = Some w'"
  shows "win32_winv keyof A w'" "win32_armed w' = win32_armed w"
    and "ev \<in> set (rawEvents (ww_backend w')) \<Longrightarrow> we_kind ev = Handle \<Longrightarrow> we_handle ev \<in> set (handles (ww_backend w'))"
proof -
  obtain b rest where b: "wait t (ww_answers w) (ww_backend w) = Some (b, rest)"
    and w': "w' = w\<lparr>ww_backend := b, ww_answers := rest\<rparr>"
    using r by (auto simp: win32_vtable_def)
  note law = wait_gives [OF b]
  show "win32_winv keyof A w'" "win32_armed w' = win32_armed w"
    using w law(1,2,3) by (auto simp: w' win32_winv_def win32_armed_def table_ok_def)
  show "ev \<in> set (rawEvents (ww_backend w')) \<Longrightarrow> we_kind ev = Handle \<Longrightarrow> we_handle ev \<in> set (handles (ww_backend w'))"
    using law(1,4) by (simp add: w' rawEvents_def)
qed

lemma win32_dispatch_law:
  assumes "win32_winv keyof A w" "dispatch mcb hcb s ev w = (w', calls)"
  shows "win32_winv keyof A w' \<and> win32_armed w' = win32_armed w \<and> matches w' = matches w"
proof -
  obtain u where "w' = w\<lparr>ww_user := u\<rparr>"
    using assms(2) by (cases w)
      (auto simp: dispatch_def split: win32_source.splits option.splits prod.splits)
  with assms(1) show ?thesis by (auto simp: win32_winv_def win32_armed_def matches_def fun_eq_iff)
qed

text \<open>
  The backend keeps the contract of a watcher, but is no reactor: the thread's queue also holds
  messages that no source asked for.
\<close>

interpretation win32: watcher_backend "win32_vtable mcb hcb" "win32_winv keyof A" win32_armed "same_handle keyof"
  for mcb hcb keyof A
proof (unfold_locales, goal_cases)
  case (3 w s)
  then show ?case using win32_arm_law [of keyof A w s] by (simp add: win32_vtable_def)
next
  case (4 w s)
  then show ?case using win32_disarm_law [of keyof A w s] by (simp add: win32_vtable_def)
next
  case (5 w t w')
  then show ?case using win32_wait_law(1,2) by blast
next
  case (6 w s ev w' calls)
  then show ?case using win32_dispatch_law [of keyof A w mcb hcb s ev w' calls] by (simp add: win32_vtable_def)
qed (simp_all add: win32_vtable_def)

lemma win32_fresh_law:
  "win32_winv keyof (set answers) (win32_fresh keyof u answers)" "win32_armed (win32_fresh keyof u answers) = {}"
  by (auto simp: win32_winv_def win32_armed_def win32_fresh_def new_source_def new_Win32Backend_def table_ok_def
      new_Win32MessageSource_def new_Win32HandleSource_def split: sum.split)


section \<open>Properties\<close>

lemma win32_registered:
  assumes "loop_run (win32_vtable mcb hcb) ks (new_core (win32_fresh keyof u answers)) = Some c"
    and "run_fits (win32_vtable mcb hcb) (same_handle keyof) ks (new_core (win32_fresh keyof u answers))"
  shows "win32_winv keyof (set answers) (core_backend c)"
    and "win32_armed (core_backend c) = {s. Some s \<in> set (core_sources c)}"
proof -
  note law = win32.loop_watches_registered [OF assms win32_fresh_law]
  have "core_inv c" using loop_run_inv [OF assms(1) new_core_inv] .
  then obtain xs where "core_sources c = map Some xs" by (auto simp: core_inv_def)
  with law show "win32_winv keyof (set answers) (core_backend c)"
    "win32_armed (core_backend c) = {s. Some s \<in> set (core_sources c)}" by auto
qed


text \<open>
  The wait takes at most 63 handles: from the 64th registered handle on, the system call fails
  at once, and no iteration reports any handle, however many of them are signalled.
\<close>

definition win32_documented :: "win_answer list \<Rightarrow> bool" where
  "win32_documented answers \<longleftrightarrow>
     (\<forall>a \<in> set answers. \<forall>hs ms. length hs > MAXIMUM_WAIT_OBJECTS - 1 \<longrightarrow> fst (a hs ms) = WAIT_FAILED)"

lemma win32_too_many_handles:
  assumes "loop_run (win32_vtable mcb hcb) ks (new_core (win32_fresh keyof u answers)) = Some c"
    and "run_fits (win32_vtable mcb hcb) (same_handle keyof) ks (new_core (win32_fresh keyof u answers))"
    and "win32_documented answers"
    and "card {h. h \<noteq> 0 \<and> (\<exists>s. Some s \<in> set (core_sources c) \<and> keyof s = Inr h)} \<ge> MAXIMUM_WAIT_OBJECTS"
    and "vt_wait (win32_vtable mcb hcb) t (core_backend c) = Some w"
  shows "\<forall>ev \<in> set (rawEvents (ww_backend w)). we_kind ev = Message"
proof -
  let ?b = "ww_backend (core_backend c)"
  note reg = win32_registered [OF assms(1,2)]
  have "set (handles ?b) = {h. h \<noteq> 0 \<and> (\<exists>s. Some s \<in> set (core_sources c) \<and> keyof s = Inr h)}"
    using reg by (auto simp: win32_winv_def)
  then have "MAXIMUM_WAIT_OBJECTS \<le> length (handles ?b)"
    using assms(4) card_length [of "handles ?b"] by simp
  moreover obtain b rest where b: "wait t (ww_answers (core_backend c)) ?b = Some (b, rest)" "ww_backend w = b"
    using assms(5) by (auto simp: win32_vtable_def)
  moreover have "handle_event hs WAIT_FAILED = []" for hs
  proof -
    have "WAIT_FAILED = - 1" by (simp add: WAIT_FAILED_def)
    then have "\<not> WAIT_FAILED < word_of_nat (length hs)"
      using word_n1_ge [of "word_of_nat (length hs) :: u32"] by (simp only: not_less)
    then show ?thesis by (simp add: handle_event_def WAIT_OBJECT_0_def)
  qed
  moreover obtain a where a: "ww_answers (core_backend c) = a # rest"
    "b = ?b\<lparr>win32_ready := handle_event (handles ?b) (fst (a (handles ?b) (if t < 0 then INFINITE else word_of_int t))) @
       map message_event (snd (a (handles ?b) (if t < 0 then INFINITE else word_of_int t)))\<rparr>"
    using b(1) by (cases "ww_answers (core_backend c)") (auto simp: wait_def Let_def split_def)
  moreover have "fst (a (handles ?b) ms) = WAIT_FAILED" for ms
    using assms(3) reg(1) a(1) \<open>MAXIMUM_WAIT_OBJECTS \<le> length (handles ?b)\<close>
    by (auto simp: win32_documented_def MAXIMUM_WAIT_OBJECTS_def win32_winv_def)
  ultimately show ?thesis using b(2) by (auto simp: rawEvents_def message_event_def)
qed

section \<open>Concrete runs\<close>

text \<open>
  Sources 0 and 1 wait for the handles 10 and 11, source 2 for message \<open>WM_USER + 1\<close>. The wait
  reports the second handle and finds a message; the callback of handle 11 removes source 0.
\<close>

definition demo_key :: "nat \<Rightarrow> u32 + HANDLE" where
  "demo_key s = (if s = 2 then Inl 0x401 else Inr (10 + word_of_nat s))"

definition demo_win32 :: "((nat, nat) win32_world, nat) IEventLoopCore" where
  "demo_win32 = new_core (win32_fresh demo_key 0
     [\<lambda>hs ms. (1, [\<lparr>msg_message = 0x401, msg_wParam = 0, msg_lParam = 0\<rparr>]), \<lambda>hs ms. (0, [])])"

definition demo_vt :: "((nat, nat) win32_world, nat, Win32RawEvent) vtable" where
  "demo_vt = win32_vtable (\<lambda>_. Some (\<lambda>u ev. (u + 1, []))) (\<lambda>_. Some (\<lambda>u h. (u + 10, [CallRemove (Some 0)])))"

definition demo_ops :: "nat loop_op list" where
  "demo_ops = [LAdd (Some 0), LAdd (Some 1), LAdd (Some 2), LApplyInitial, LRunOnce 50]"

definition demo_win32_after :: "((nat, nat) win32_world, nat) IEventLoopCore" where
  "demo_win32_after = the (loop_run demo_vt demo_ops demo_win32)"


text \<open>Sixty-four handles: the wait fails, although the first of them is signalled.\<close>

definition many_key :: "nat \<Rightarrow> u32 + HANDLE" where
  "many_key s = Inr (word_of_nat (Suc s))"

definition many_answer :: win_answer where
  "many_answer hs ms = (if length hs > MAXIMUM_WAIT_OBJECTS - 1 then WAIT_FAILED else 0, [])"

definition many_win32 :: "((nat, nat) win32_world, nat) IEventLoopCore" where
  "many_win32 = new_core (win32_fresh many_key 0 [many_answer])"

definition many_ops :: "nat loop_op list" where
  "many_ops = map (\<lambda>s. LAdd (Some s)) [0..<64] @ [LApplyInitial]"

definition many_win32_after :: "((nat, nat) win32_world, nat) IEventLoopCore" where
  "many_win32_after = the (loop_run demo_vt many_ops many_win32)"

lemma many_evaluated:
  "run_fits demo_vt (same_handle many_key) many_ops many_win32 \<and>
   (case loop_run demo_vt many_ops many_win32 of
      None \<Rightarrow> False
    | Some c \<Rightarrow> length (handles (ww_backend (core_backend c))) = 64 \<and> distinct (handles (ww_backend (core_backend c))) \<and>
        \<not> Option.is_none (vt_wait demo_vt 0 (core_backend c)))"
  by code_simp

lemma win32_too_many_handles_witness:
  "length (handles (ww_backend (core_backend many_win32_after))) = 64 \<and>
   (\<exists>w. vt_wait demo_vt 0 (core_backend many_win32_after) = Some w \<and>
        (\<forall>ev \<in> set (rawEvents (ww_backend w)). we_kind ev = Message))"
proof -
  let ?hs = "handles (ww_backend (core_backend many_win32_after))"
  obtain c where c: "loop_run demo_vt many_ops many_win32 = Some c" and "\<not> Option.is_none (vt_wait demo_vt 0 (core_backend c))"
    and "length (handles (ww_backend (core_backend c))) = 64" "distinct (handles (ww_backend (core_backend c)))"
    and fit: "run_fits demo_vt (same_handle many_key) many_ops many_win32"
    using many_evaluated by (auto split: option.splits)
  moreover from c have "many_win32_after = c" by (simp add: many_win32_after_def)
  ultimately have len: "length ?hs = 64" "distinct ?hs" and wt: "\<not> Option.is_none (vt_wait demo_vt 0 (core_backend many_win32_after))"
    and r: "loop_run demo_vt many_ops many_win32 = Some many_win32_after" by simp_all
  note run = r [unfolded demo_vt_def many_win32_def] and fits = fit [unfolded demo_vt_def many_win32_def]
  have "set ?hs = {h. h \<noteq> 0 \<and> (\<exists>s. Some s \<in> set (core_sources many_win32_after) \<and> many_key s = Inr h)}"
    using win32_registered [OF run fits] by (auto simp: win32_winv_def)
  then have "card {h. h \<noteq> 0 \<and> (\<exists>s. Some s \<in> set (core_sources many_win32_after) \<and> many_key s = Inr h)} = 64"
    using len distinct_card by metis
  moreover have "win32_documented [many_answer]"
    by (simp add: win32_documented_def many_answer_def)
  moreover from wt obtain w where "vt_wait demo_vt 0 (core_backend many_win32_after) = Some w"
    by (auto simp: Option.is_none_def)
  ultimately show ?thesis
    using len win32_too_many_handles [OF run fits] unfolding demo_vt_def
    by (auto simp: MAXIMUM_WAIT_OBJECTS_def)
qed

end
