(* ===== verification/Iocp_Backend.thy ===== *)
theory Iocp_Backend
  imports Event_Core
begin

text \<open>
  \<^verbatim>\<open>platform/windows/schedule/iocp_backend.h\<close> and \<^verbatim>\<open>.cc\<close>: the backend on an I/O completion port. A
  source stands for a completion key, and a handle source associates its handle with the port when
  it is armed. The port is a parameter: a state \<open>'k\<close> that associating and posting change. What
  \<^verbatim>\<open>GetQueuedCompletionStatusEx\<close> returns is a list of answers to come. \<^verbatim>\<open>OVERLAPPED*\<close> is a number,
  0 the null pointer.
\<close>

section \<open>State\<close>

type_synonym HANDLE = "64 word"
type_synonym ULONG_PTR = "64 word"
type_synonym overlapped = nat

definition INVALID_HANDLE_VALUE :: HANDLE where
  "INVALID_HANDLE_VALUE = -1"

record IocpRawEvent =
  ie_key :: ULONG_PTR
  ie_overlapped :: overlapped
  ie_bytes :: u32
  ie_error :: u32

text \<open>\<open>is_backend\<close>: the pointer to the backend is set.\<close>

record IocpEventSource =
  is_type :: BackendType
  is_key :: ULONG_PTR
  is_handle :: HANDLE
  is_backend :: bool
  is_armed :: bool

record IocpBackend =
  ib_port :: bool
  ib_max_events :: nat
  ib_ready :: "IocpRawEvent list"

definition new_IocpEventSource :: "ULONG_PTR \<Rightarrow> HANDLE \<Rightarrow> IocpEventSource" where
  "new_IocpEventSource key handle =
     \<lparr>is_type = WINDOWS_IOCP, is_key = key, is_handle = handle, is_backend = False, is_armed = False\<rparr>"

text \<open>\<open>ok\<close> says whether the port could be created.\<close>

definition new_IocpBackend :: "bool \<Rightarrow> nat \<Rightarrow> IocpBackend" where
  "new_IocpBackend ok n = \<lparr>ib_port = ok, ib_max_events = n, ib_ready = []\<rparr>"

text \<open>The system calls on the port: associate a handle, post a packet.\<close>

record 'k port_api =
  pa_associate :: "HANDLE \<Rightarrow> ULONG_PTR \<Rightarrow> 'k \<Rightarrow> bool \<times> 'k"
  pa_post :: "u32 \<Rightarrow> ULONG_PTR \<Rightarrow> overlapped \<Rightarrow> 'k \<Rightarrow> 'k"

section \<open>Backend operations\<close>

definition associateHandle ::
  "'k port_api \<Rightarrow> HANDLE \<Rightarrow> ULONG_PTR \<Rightarrow> IocpBackend \<Rightarrow> 'k \<Rightarrow> bool \<times> 'k" where
  "associateHandle api handle key b k =
     (if \<not> ib_port b \<or> handle = 0 \<or> handle = INVALID_HANDLE_VALUE then (False, k)
      else pa_associate api handle key k)"

definition postCompletion ::
  "'k port_api \<Rightarrow> ULONG_PTR \<Rightarrow> u32 \<Rightarrow> overlapped \<Rightarrow> IocpBackend \<Rightarrow> 'k \<Rightarrow> 'k" where
  "postCompletion api key bytes ov b k = (if \<not> ib_port b then k else pa_post api bytes key ov k)"

definition postWake :: "'k port_api \<Rightarrow> ULONG_PTR \<Rightarrow> IocpBackend \<Rightarrow> 'k \<Rightarrow> 'k" where
  "postWake api key = postCompletion api key 0 0"

definition INFINITE :: u32 where
  "INFINITE = 0xFFFFFFFF"

record overlapped_entry =
  oe_key :: ULONG_PTR
  oe_overlapped :: overlapped
  oe_bytes :: u32

text \<open>An answer is a failure (a timeout included) or the entries, given the room and the time.\<close>

datatype 'k iocp_answer =
    IocpFails
  | IocpEntries "'k \<Rightarrow> nat \<Rightarrow> u32 \<Rightarrow> overlapped_entry list \<times> 'k"

definition entry_event :: "overlapped_entry \<Rightarrow> IocpRawEvent" where
  "entry_event e = \<lparr>ie_key = oe_key e, ie_overlapped = oe_overlapped e, ie_bytes = oe_bytes e, ie_error = 0\<rparr>"

definition wait ::
  "int \<Rightarrow> 'k iocp_answer list \<Rightarrow> IocpBackend \<Rightarrow> 'k \<Rightarrow> (IocpBackend \<times> 'k \<times> 'k iocp_answer list) option" where
  "wait timeout answers b k =
     (let b = b\<lparr>ib_ready := []\<rparr>;
          ms = (if timeout < 0 then INFINITE else word_of_int timeout)
      in case answers of
           [] \<Rightarrow> None
         | IocpFails # rest \<Rightarrow> Some (b, k, rest)
         | IocpEntries f # rest \<Rightarrow>
             (let (entries, k) = f k (ib_max_events b) ms
              in Some (b\<lparr>ib_ready := map entry_event entries\<rparr>, k, rest)))"

definition rawEvents :: "IocpBackend \<Rightarrow> IocpRawEvent list" where
  "rawEvents b = ib_ready b"

section \<open>Sources\<close>

record ('s, 'u, 'k) iocp_world =
  iw_backend :: IocpBackend
  iw_kernel :: 'k
  iw_src :: "'s \<Rightarrow> IocpEventSource"
  iw_user :: 'u
  iw_answers :: "'k iocp_answer list"

definition arm :: "'k port_api \<Rightarrow> 's \<Rightarrow> ('s, 'u, 'k) iocp_world \<Rightarrow> ('s, 'u, 'k) iocp_world" where
  "arm api s w =
     (let src = iw_src w s in
      if \<not> isSourceMatchBackend (is_type src) WINDOWS_IOCP then
        w\<lparr>iw_src := (iw_src w)(s := src\<lparr>is_armed := False, is_backend := False\<rparr>)\<rparr>
      else
        (let w = w\<lparr>iw_src := (iw_src w)(s := src\<lparr>is_armed := True, is_backend := True\<rparr>)\<rparr> in
         if is_handle src \<noteq> 0 then
           w\<lparr>iw_kernel := snd (associateHandle api (is_handle src) (is_key src) (iw_backend w) (iw_kernel w))\<rparr>
         else w))"

definition disarm :: "'s \<Rightarrow> ('s, 'u, 'k) iocp_world \<Rightarrow> ('s, 'u, 'k) iocp_world" where
  "disarm s w =
     (let src = iw_src w s in
      if \<not> isSourceMatchBackend (is_type src) WINDOWS_IOCP then w
      else w\<lparr>iw_src := (iw_src w)(s := src\<lparr>is_armed := False, is_backend := False\<rparr>)\<rparr>)"

definition matches :: "('s, 'u, 'k) iocp_world \<Rightarrow> 's \<Rightarrow> IocpRawEvent \<Rightarrow> bool" where
  "matches w s ev \<longleftrightarrow> is_armed (iw_src w s) \<and> ie_key ev = is_key (iw_src w s)"

text \<open>
  Wakeup sources (those without a callback here) do nothing when they are dispatched, and post to
  the port when they are notified.
\<close>

type_synonym ('s, 'u) iocp_callback = "'u \<Rightarrow> IocpRawEvent \<Rightarrow> 'u \<times> 's core_call list"

definition dispatch ::
  "('s \<Rightarrow> ('s, 'u) iocp_callback option) \<Rightarrow> 's \<Rightarrow> IocpRawEvent \<Rightarrow> ('s, 'u, 'k) iocp_world \<Rightarrow>
   ('s, 'u, 'k) iocp_world \<times> 's core_call list" where
  "dispatch cbs s ev w =
     (case cbs s of
        None \<Rightarrow> (w, [])
      | Some cb \<Rightarrow> (let (u, ccalls) = cb (iw_user w) ev in (w\<lparr>iw_user := u\<rparr>, ccalls)))"

definition wake_notify :: "'k port_api \<Rightarrow> 's \<Rightarrow> ('s, 'u, 'k) iocp_world \<Rightarrow> ('s, 'u, 'k) iocp_world" where
  "wake_notify api s w =
     (if \<not> is_backend (iw_src w s) then w
      else w\<lparr>iw_kernel := postWake api (is_key (iw_src w s)) (iw_backend w) (iw_kernel w)\<rparr>)"

definition iocp_vtable ::
  "'k port_api \<Rightarrow> ('s \<Rightarrow> ('s, 'u) iocp_callback option) \<Rightarrow>
   (('s, 'u, 'k) iocp_world, 's, IocpRawEvent) vtable" where
  "iocp_vtable api cbs =
     \<lparr>vt_addSource = (\<lambda>_ w. w),
      vt_removeSource = (\<lambda>_ w. w),
      vt_wait = (\<lambda>t w. map_option (\<lambda>(b, k, rest). w\<lparr>iw_backend := b, iw_kernel := k, iw_answers := rest\<rparr>)
                         (wait t (iw_answers w) (iw_backend w) (iw_kernel w))),
      vt_rawEvents = (\<lambda>w. rawEvents (iw_backend w)),
      vt_arm = arm api,
      vt_disarm = disarm,
      vt_matches = matches,
      vt_dispatch = dispatch cbs\<rparr>"

definition iocp_fresh ::
  "bool \<Rightarrow> nat \<Rightarrow> 'k \<Rightarrow> ('s \<Rightarrow> ULONG_PTR) \<Rightarrow> ('s \<Rightarrow> HANDLE) \<Rightarrow> 'u \<Rightarrow> 'k iocp_answer list \<Rightarrow>
   ('s, 'u, 'k) iocp_world" where
  "iocp_fresh ok n k keyof handleof u answers =
     \<lparr>iw_backend = new_IocpBackend ok n, iw_kernel = k,
      iw_src = (\<lambda>s. new_IocpEventSource (keyof s) (handleof s)), iw_user = u, iw_answers = answers\<rparr>"

section \<open>The backend under the core\<close>

text \<open>
  \<open>kassoc\<close> is the key the port has for a handle. It keeps the first key it is given: associating a
  handle again fails, and nothing takes an association back.
\<close>

definition iocp_documented :: "'k port_api \<Rightarrow> ('k \<Rightarrow> HANDLE \<rightharpoonup> ULONG_PTR) \<Rightarrow> bool" where
  "iocp_documented api kassoc \<longleftrightarrow>
     (\<forall>h key k. kassoc (snd (pa_associate api h key k)) =
        (if fst (pa_associate api h key k) then (kassoc k)(h \<mapsto> key) else kassoc k)) \<and>
     (\<forall>h key k. kassoc k h \<noteq> None \<longrightarrow> \<not> fst (pa_associate api h key k)) \<and>
     (\<forall>n key ov k. kassoc (pa_post api n key ov k) = kassoc k)"

definition iocp_armed :: "('s, 'u, 'k) iocp_world \<Rightarrow> 's set" where
  "iocp_armed w = {s. is_armed (iw_src w s)}"

definition iocp_answers_ok :: "('k \<Rightarrow> HANDLE \<rightharpoonup> ULONG_PTR) \<Rightarrow> 'k iocp_answer list \<Rightarrow> bool" where
  "iocp_answers_ok kassoc answers \<longleftrightarrow>
     (\<forall>f. IocpEntries f \<in> set answers \<longrightarrow> (\<forall>k n ms. kassoc (snd (f k n ms)) = kassoc k))"

text \<open>The port never has another key for a handle than the one of the source built for it.\<close>

definition iocp_winv ::
  "'k port_api \<Rightarrow> ('k \<Rightarrow> HANDLE \<rightharpoonup> ULONG_PTR) \<Rightarrow> ('s \<Rightarrow> ULONG_PTR) \<Rightarrow> ('s \<Rightarrow> HANDLE) \<Rightarrow>
   ('s, 'u, 'k) iocp_world \<Rightarrow> bool" where
  "iocp_winv api kassoc keyof handleof w \<longleftrightarrow>
     iocp_documented api kassoc \<and> iocp_answers_ok kassoc (iw_answers w) \<and>
     (\<forall>s. is_type (iw_src w s) = WINDOWS_IOCP \<and> is_key (iw_src w s) = keyof s \<and>
          is_handle (iw_src w s) = handleof s \<and> is_backend (iw_src w s) = is_armed (iw_src w s)) \<and>
     (\<forall>h key. kassoc (iw_kernel w) h = Some key \<longrightarrow> (\<exists>s. handleof s = h \<and> keyof s = key))"

lemma iocp_arm_law:
  assumes "iocp_winv api kassoc keyof handleof w"
  shows "iocp_winv api kassoc keyof handleof (arm api s w) \<and> iocp_armed (arm api s w) = insert s (iocp_armed w)"
proof -
  let ?r = "associateHandle api (handleof s) (keyof s) (iw_backend w) (iw_kernel w)"
  have src: "is_type (iw_src w s) = WINDOWS_IOCP" "is_key (iw_src w s) = keyof s" "is_handle (iw_src w s) = handleof s"
    using assms by (simp_all add: iocp_winv_def)
  have "kassoc (snd ?r) = kassoc (iw_kernel w) \<or> kassoc (snd ?r) = (kassoc (iw_kernel w))(handleof s \<mapsto> keyof s)"
    using assms by (auto simp: associateHandle_def iocp_winv_def iocp_documented_def)
  then have "\<exists>x. handleof x = h \<and> keyof x = key" if "kassoc (snd ?r) h = Some key" for h key
    using assms that by (auto simp: iocp_winv_def split: if_splits)
  then show ?thesis
    using assms src
    by (auto simp: arm_def Let_def isSourceMatchBackend_def iocp_winv_def iocp_armed_def)
qed

lemma iocp_disarm_law:
  assumes "iocp_winv api kassoc keyof handleof w"
  shows "iocp_winv api kassoc keyof handleof (disarm s w) \<and> iocp_armed (disarm s w) = iocp_armed w - {s}"
  using assms by (auto simp: disarm_def Let_def isSourceMatchBackend_def iocp_winv_def iocp_armed_def)

lemma iocp_wait_law:
  assumes "iocp_winv api kassoc keyof handleof w" "vt_wait (iocp_vtable api cbs) t w = Some w'"
  shows "iocp_winv api kassoc keyof handleof w' \<and> iocp_armed w' = iocp_armed w"
proof -
  obtain b k rest where b: "wait t (iw_answers w) (iw_backend w) (iw_kernel w) = Some (b, k, rest)"
    and w': "w' = w\<lparr>iw_backend := b, iw_kernel := k, iw_answers := rest\<rparr>"
    using assms(2) by (auto simp: iocp_vtable_def)
  from b have "set rest \<subseteq> set (iw_answers w)"
    by (auto simp: wait_def Let_def split: list.splits iocp_answer.splits prod.splits)
  moreover have "kassoc k = kassoc (iw_kernel w)"
  proof -
    have "k = iw_kernel w \<or> (\<exists>f n ms. IocpEntries f \<in> set (iw_answers w) \<and> k = snd (f (iw_kernel w) n ms))"
      using b unfolding wait_def Let_def
      by (auto split: list.splits iocp_answer.splits prod.splits) (metis snd_conv)
    with assms(1) show ?thesis unfolding iocp_winv_def iocp_answers_ok_def by metis
  qed
  ultimately show ?thesis using assms(1)
    by (auto simp: w' iocp_winv_def iocp_armed_def iocp_answers_ok_def)
qed

lemma iocp_dispatch_law:
  assumes "iocp_winv api kassoc keyof handleof w" "dispatch cbs s ev w = (w', calls)"
  shows "iocp_winv api kassoc keyof handleof w' \<and> iocp_armed w' = iocp_armed w \<and> matches w' = matches w"
  using assms by (auto simp: dispatch_def iocp_winv_def iocp_armed_def matches_def fun_eq_iff
      split: option.splits prod.splits)

text \<open>
  Sources never conflict: a key may even be shared. It is no reactor, since a packet for the key of
  a source that was removed can still be in the port.
\<close>

interpretation iocp: watcher_backend "iocp_vtable api cbs" "iocp_winv api kassoc keyof handleof" iocp_armed
    "\<lambda>_ _. False"
  for api cbs kassoc keyof handleof
proof (unfold_locales, goal_cases)
  case (3 w s)
  then show ?case using iocp_arm_law [of api kassoc keyof handleof w s] by (simp add: iocp_vtable_def)
next
  case (4 w s)
  then show ?case using iocp_disarm_law [of api kassoc keyof handleof w s] by (simp add: iocp_vtable_def)
next
  case (5 w t w')
  then show ?case using iocp_wait_law by blast
next
  case (6 w s ev w' calls)
  then show ?case using iocp_dispatch_law [of api kassoc keyof handleof w cbs s ev w' calls]
    by (simp add: iocp_vtable_def)
qed (simp_all add: iocp_vtable_def)

text \<open>A wakeup source posts to the port exactly while it is armed.\<close>

lemma wake_notify_armed:
  assumes "iocp_winv api kassoc keyof handleof w"
  shows "wake_notify api s w =
    (if s \<in> iocp_armed w \<and> ib_port (iw_backend w)
     then w\<lparr>iw_kernel := pa_post api 0 (keyof s) 0 (iw_kernel w)\<rparr> else w)"
proof -
  have "is_backend (iw_src w s) = is_armed (iw_src w s)" "is_key (iw_src w s) = keyof s"
    using assms by (simp_all add: iocp_winv_def)
  then show ?thesis by (simp add: wake_notify_def postWake_def postCompletion_def iocp_armed_def)
qed

end
