(* ===== verification/Poll_Backend.thy ===== *)
theory Poll_Backend
  imports Event_Core Index_Table
begin

text \<open>
  \<^verbatim>\<open>platform/linux/schedule/poll_backend.h\<close> and \<^verbatim>\<open>.cc\<close>: the \<open>poll(2)\<close> backend and its event
  sources, and \<^verbatim>\<open>platform/macos/schedule/poll_backend.*\<close>, the same code under the other platform's
  backend type. Source objects live in a heap indexed by their address; a callback answers with
  the calls it makes on the sources (\<^verbatim>\<open>setEvents\<close>) and on the core. \<open>poll(2)\<close> itself is a list
  of answers to come. The release build's assertion on \<open>POLLNVAL\<close> is a \<open>wait\<close> that does not return.
\<close>

section \<open>State\<close>

type_synonym short = "16 word"

record pollfd =
  pf_fd :: int
  pf_events :: short
  pf_revents :: short

record PollRawEvent =
  re_fd :: int
  re_revents :: short

record PollBackend =
  pollfds :: "pollfd list"
  fd_index :: "int \<rightharpoonup> nat"
  ready_events :: "PollRawEvent list"

text \<open>The source's pointer to its backend is set exactly while it is armed, to the one backend.\<close>

record PollEventSource =
  ps_type :: BackendType
  ps_fd :: int
  ps_events :: short
  ps_armed :: bool
  ps_backend :: bool

definition new_PollBackend :: PollBackend where
  "new_PollBackend = \<lparr>pollfds = [], fd_index = Map.empty, ready_events = []\<rparr>"

definition new_PollEventSource :: "BackendType \<Rightarrow> int \<Rightarrow> short \<Rightarrow> PollEventSource" where
  "new_PollEventSource ty fd events =
     \<lparr>ps_type = ty, ps_fd = fd, ps_events = events, ps_armed = False, ps_backend = False\<rparr>"

section \<open>The descriptor table\<close>

definition registerFd :: "int \<Rightarrow> short \<Rightarrow> PollBackend \<Rightarrow> PollBackend" where
  "registerFd fd events b =
     (case fd_index b fd of
        Some i \<Rightarrow> b\<lparr>pollfds := (pollfds b)[i := (pollfds b ! i)\<lparr>pf_events := events\<rparr>]\<rparr>
      | None \<Rightarrow>
          b\<lparr>fd_index := (fd_index b)(fd \<mapsto> length (pollfds b)),
            pollfds := pollfds b @ [\<lparr>pf_fd = fd, pf_events = events, pf_revents = 0\<rparr>]\<rparr>)"

definition unregisterFd :: "int \<Rightarrow> PollBackend \<Rightarrow> PollBackend" where
  "unregisterFd fd b =
     (case fd_index b fd of
        None \<Rightarrow> b
      | Some index \<Rightarrow>
          let last = length (pollfds b) - 1;
              b = (if index \<noteq> last then
                     b\<lparr>pollfds := (pollfds b)[index := pollfds b ! last],
                       fd_index := (fd_index b)(pf_fd (pollfds b ! last) \<mapsto> index)\<rparr>
                   else b)
          in b\<lparr>pollfds := butlast (pollfds b), fd_index := (fd_index b)(fd := None)\<rparr>)"

section \<open>Waiting\<close>

text \<open>
  One answer of \<open>poll\<close>: interrupted, another error, or the number it returns with the \<open>revents\<close>
  it stores at each position of the table.
\<close>

datatype poll_answer =
    PollEINTR
  | PollError
  | PollReturn int "nat \<Rightarrow> short"

definition POLLNVAL :: short where
  "POLLNVAL = 0x20"

fun poll_retry :: "poll_answer list \<Rightarrow> (poll_answer \<times> poll_answer list) option" where
  "poll_retry [] = None"
| "poll_retry (PollEINTR # rest) = poll_retry rest"
| "poll_retry (a # rest) = Some (a, rest)"

definition store_revents :: "(nat \<Rightarrow> short) \<Rightarrow> pollfd list \<Rightarrow> pollfd list" where
  "store_revents revs ps = map2 (\<lambda>i p. p\<lparr>pf_revents := revs i\<rparr>) [0..<length ps] ps"

text \<open>The scan over the table, with \<open>num_found\<close>; \<open>None\<close> is the failed assertion.\<close>

fun scan :: "pollfd list \<Rightarrow> int \<Rightarrow> int \<Rightarrow> PollRawEvent list option" where
  "scan [] num_found ret = Some []"
| "scan (pfd # rest) num_found ret =
     (if pf_revents pfd \<noteq> 0 then
        (if pf_revents pfd AND POLLNVAL \<noteq> 0 then None
         else
           (let ev = \<lparr>re_fd = pf_fd pfd, re_revents = pf_revents pfd\<rparr> in
            if num_found + 1 \<ge> ret then Some [ev]
            else map_option (\<lambda>evs. ev # evs) (scan rest (num_found + 1) ret)))
      else scan rest num_found ret)"

definition wait :: "poll_answer list \<Rightarrow> PollBackend \<Rightarrow> (PollBackend \<times> poll_answer list) option" where
  "wait answers b =
     (let b = b\<lparr>ready_events := []\<rparr> in
      case poll_retry answers of
        None \<Rightarrow> None
      | Some (PollReturn ret revs, rest) \<Rightarrow>
          (let b = b\<lparr>pollfds := store_revents revs (pollfds b)\<rparr> in
           if ret \<le> 0 then Some (b, rest)
           else map_option (\<lambda>evs. (b\<lparr>ready_events := evs\<rparr>, rest)) (scan (pollfds b) 0 ret))
      | Some (_, rest) \<Rightarrow> Some (b, rest))"

definition rawEvents :: "PollBackend \<Rightarrow> PollRawEvent list" where
  "rawEvents b = ready_events b"

section \<open>Sources\<close>

datatype 's src_call = SetEvents 's short

record ('s, 'u) poll_world =
  pw_type :: BackendType
  pw_backend :: PollBackend
  pw_src :: "'s \<Rightarrow> PollEventSource"
  pw_user :: 'u
  pw_answers :: "poll_answer list"

definition arm :: "'s \<Rightarrow> ('s, 'u) poll_world \<Rightarrow> ('s, 'u) poll_world" where
  "arm s w =
     (let src = pw_src w s in
      if \<not> isSourceMatchBackend (ps_type src) (pw_type w) then w
      else if ps_armed src then w
      else w\<lparr>pw_backend := registerFd (ps_fd src) (ps_events src) (pw_backend w),
             pw_src := (pw_src w)(s := src\<lparr>ps_armed := True, ps_backend := True\<rparr>)\<rparr>)"

definition disarm :: "'s \<Rightarrow> ('s, 'u) poll_world \<Rightarrow> ('s, 'u) poll_world" where
  "disarm s w =
     (let src = pw_src w s in
      if \<not> isSourceMatchBackend (ps_type src) (pw_type w) then w
      else if \<not> ps_armed src then w
      else w\<lparr>pw_backend := unregisterFd (ps_fd src) (pw_backend w),
             pw_src := (pw_src w)(s := src\<lparr>ps_armed := False, ps_backend := False\<rparr>)\<rparr>)"

definition setEvents :: "'s \<Rightarrow> short \<Rightarrow> ('s, 'u) poll_world \<Rightarrow> ('s, 'u) poll_world" where
  "setEvents s events w =
     (let src = (pw_src w s)\<lparr>ps_events := events\<rparr>;
          w = w\<lparr>pw_src := (pw_src w)(s := src)\<rparr>
      in if ps_armed src \<and> ps_backend src \<and> isSourceMatchBackend (ps_type src) (pw_type w)
         then w\<lparr>pw_backend := registerFd (ps_fd src) (ps_events src) (pw_backend w)\<rparr>
         else w)"

definition matches :: "('s, 'u) poll_world \<Rightarrow> 's \<Rightarrow> PollRawEvent \<Rightarrow> bool" where
  "matches w s ev = (re_fd ev = ps_fd (pw_src w s))"

text \<open>
  \<^verbatim>\<open>PollReadinessEventSource::dispatch\<close>: the stored callback, if there is one, gets the \<open>revents\<close>.
\<close>

type_synonym ('s, 'u) callback = "'u \<Rightarrow> short \<Rightarrow> 'u \<times> 's src_call list \<times> 's core_call list"

fun do_src_call :: "'s src_call \<Rightarrow> ('s, 'u) poll_world \<Rightarrow> ('s, 'u) poll_world" where
  "do_src_call (SetEvents s events) w = setEvents s events w"

definition dispatch ::
  "('s \<Rightarrow> ('s, 'u) callback option) \<Rightarrow> 's \<Rightarrow> PollRawEvent \<Rightarrow> ('s, 'u) poll_world \<Rightarrow>
   ('s, 'u) poll_world \<times> 's core_call list" where
  "dispatch cbs s ev w =
     (case cbs s of
        None \<Rightarrow> (w, [])
      | Some cb \<Rightarrow>
          (let (u, scalls, ccalls) = cb (pw_user w) (re_revents ev)
           in (fold do_src_call scalls (w\<lparr>pw_user := u\<rparr>), ccalls)))"

definition poll_vtable ::
  "('s \<Rightarrow> ('s, 'u) callback option) \<Rightarrow> (('s, 'u) poll_world, 's, PollRawEvent) vtable" where
  "poll_vtable cbs =
     \<lparr>vt_addSource = (\<lambda>_ w. w),
      vt_removeSource = (\<lambda>_ w. w),
      vt_wait = (\<lambda>_ w. map_option (\<lambda>(b, rest). w\<lparr>pw_backend := b, pw_answers := rest\<rparr>)
                         (wait (pw_answers w) (pw_backend w))),
      vt_rawEvents = (\<lambda>w. rawEvents (pw_backend w)),
      vt_arm = arm,
      vt_disarm = disarm,
      vt_matches = matches,
      vt_dispatch = dispatch cbs\<rparr>"

section \<open>The table and its index\<close>

definition poll_inv :: "PollBackend \<Rightarrow> bool" where
  "poll_inv b \<longleftrightarrow> index_ok (map pf_fd (pollfds b)) (fd_index b)"

text \<open>What the backend watches: descriptors with their events.\<close>

definition interest :: "PollBackend \<Rightarrow> int \<rightharpoonup> short" where
  "interest b = map_of (map (\<lambda>p. (pf_fd p, pf_events p)) (pollfds b))"

lemma new_PollBackend_inv [simp]: "poll_inv new_PollBackend" "interest new_PollBackend = Map.empty"
  by (simp_all add: new_PollBackend_def poll_inv_def interest_def)

lemma interest_Some_iff:
  assumes "poll_inv b"
  shows "interest b fd = Some e \<longleftrightarrow> (\<exists>p \<in> set (pollfds b). pf_fd p = fd \<and> pf_events p = e)"
proof -
  have "distinct (map fst (map (\<lambda>p. (pf_fd p, pf_events p)) (pollfds b)))"
    using index_ok_distinct assms by (simp add: poll_inv_def comp_def)
  then show ?thesis
    unfolding interest_def by (subst map_of_eq_Some_iff) auto
qed

lemma interest_ext:
  assumes "poll_inv b"
    and "\<And>fd e. m fd = Some e \<longleftrightarrow> (\<exists>p \<in> set (pollfds b). pf_fd p = fd \<and> pf_events p = e)"
  shows "interest b = m"
proof
  fix fd
  show "interest b fd = m fd"
    using interest_Some_iff [OF assms(1), of fd] assms(2) [of fd] by (metis option.exhaust)
qed

lemma poll_inv_fd_unique:
  assumes "poll_inv b" "p \<in> set (pollfds b)" "q \<in> set (pollfds b)" "pf_fd p = pf_fd q"
  shows "p = q"
  using assms index_ok_distinct by (metis distinct_map inj_onD poll_inv_def)

lemma registerFd_new:
  assumes "poll_inv b" "fd_index b fd = None"
  shows "poll_inv (registerFd fd events b)" "interest (registerFd fd events b) = (interest b)(fd \<mapsto> events)"
proof -
  show inv: "poll_inv (registerFd fd events b)"
    using assms index_ok_append [of "map pf_fd (pollfds b)" "fd_index b" fd]
    by (simp add: poll_inv_def registerFd_def)
  have "fd \<notin> pf_fd ` set (pollfds b)"
    using index_ok_dom assms by (metis domIff list.set_map poll_inv_def)
  then show "interest (registerFd fd events b) = (interest b)(fd \<mapsto> events)"
    using assms by (intro interest_ext [OF inv])
      (auto simp: interest_Some_iff registerFd_def image_iff)
qed

lemma registerFd_old:
  assumes inv: "poll_inv b" and i: "fd_index b fd = Some i"
  shows "poll_inv (registerFd fd events b)" "interest (registerFd fd events b) = (interest b)(fd \<mapsto> events)"
proof -
  let ?ps = "pollfds b" and ?q = "(pollfds b ! i)\<lparr>pf_events := events\<rparr>"
  have il: "i < length ?ps" "pf_fd (?ps ! i) = fd"
    using index_okD [OF inv [unfolded poll_inv_def] i] by auto
  have keys: "map pf_fd (?ps[i := ?q]) = map pf_fd ?ps"
    using il by (simp add: map_update list_update_same_conv)
  show inv': "poll_inv (registerFd fd events b)"
    using inv i keys by (simp add: poll_inv_def registerFd_def)
  have "distinct ?ps" using inv index_ok_distinct by (metis distinct_map poll_inv_def)
  then have set': "set (?ps[i := ?q]) = insert ?q (set ?ps - {?ps ! i})"
    using il by (simp add: set_update_distinct)
  have "p = ?ps ! i" if "p \<in> set ?ps" "pf_fd p = fd" for p
    using poll_inv_fd_unique [OF inv that(1), of "?ps ! i"] that il by simp
  then show "interest (registerFd fd events b) = (interest b)(fd \<mapsto> events)"
    using i il inv by (intro interest_ext [OF inv'])
      (auto simp: interest_Some_iff registerFd_def set' split: if_splits)
qed

lemma registerFd_law:
  assumes "poll_inv b"
  shows "poll_inv (registerFd fd events b)" "interest (registerFd fd events b) = (interest b)(fd \<mapsto> events)"
  using registerFd_new [OF assms] registerFd_old [OF assms] by (metis option.exhaust)+

lemma unregisterFd_table:
  "table_remove pf_fd fd (pollfds b) (fd_index b) = (pollfds (unregisterFd fd b), fd_index (unregisterFd fd b))"
  by (simp add: table_remove_def unregisterFd_def Let_def split: option.split)

lemma unregisterFd_law:
  assumes "poll_inv b"
  shows "poll_inv (unregisterFd fd b)" "interest (unregisterFd fd b) = (interest b)(fd := None)"
proof -
  note rm = table_remove_ok [OF assms [unfolded poll_inv_def] unregisterFd_table]
  show inv: "poll_inv (unregisterFd fd b)" using rm(1) by (simp add: poll_inv_def)
  show "interest (unregisterFd fd b) = (interest b)(fd := None)"
    by (intro interest_ext [OF inv]) (auto simp: interest_Some_iff [OF assms] rm(2))
qed

section \<open>Waiting\<close>

lemma store_revents_keys:
  "map pf_fd (store_revents revs ps) = map pf_fd ps"
  "map (\<lambda>p. (pf_fd p, pf_events p)) (store_revents revs ps) = map (\<lambda>p. (pf_fd p, pf_events p)) ps"
  "length (store_revents revs ps) = length ps"
  by (auto simp: store_revents_def intro!: nth_equalityI)

lemma store_revents_law:
  "poll_inv (b\<lparr>pollfds := store_revents revs (pollfds b), ready_events := evs\<rparr>) = poll_inv b"
  "interest (b\<lparr>pollfds := store_revents revs (pollfds b), ready_events := evs\<rparr>) = interest b"
  by (simp_all add: poll_inv_def interest_def store_revents_keys)

lemma scan_sound: "scan ps n ret = Some evs \<Longrightarrow> ev \<in> set evs \<Longrightarrow> re_fd ev \<in> pf_fd ` set ps"
  by (induction ps arbitrary: n evs) (fastforce simp: Let_def split: if_splits)+

lemma wait_law:
  assumes "wait answers b = Some (b', rest)"
  shows "poll_inv b' = poll_inv b" "interest b' = interest b"
    and "\<forall>ev \<in> set (ready_events b'). interest b (re_fd ev) \<noteq> None"
proof -
  have "poll_inv b' = poll_inv b \<and> interest b' = interest b \<and>
        re_fd ` set (ready_events b') \<subseteq> pf_fd ` set (pollfds b')"
  proof (cases "poll_retry answers")
    case (Some r)
    obtain a rs where r: "r = (a, rs)" by fastforce
    show ?thesis
    proof (cases a)
      case (PollReturn ret revs)
      with Some r assms store_revents_law [where b = b and revs = revs] show ?thesis
        by (auto simp: wait_def Let_def poll_inv_def interest_def split: if_splits dest: scan_sound)
    qed (use Some r assms in \<open>auto simp: wait_def poll_inv_def interest_def\<close>)
  qed (use assms in \<open>simp add: wait_def\<close>)
  moreover have "interest b' fd \<noteq> None \<longleftrightarrow> fd \<in> pf_fd ` set (pollfds b')" for fd
    by (auto simp: interest_def map_of_eq_None_iff image_image)
  ultimately show "poll_inv b' = poll_inv b" "interest b' = interest b"
    "\<forall>ev \<in> set (ready_events b'). interest b (re_fd ev) \<noteq> None"
    by auto
qed

text \<open>When \<open>poll\<close> counts right, the scan finds every entry with something to report.\<close>

lemma scan_complete:
  "int (length (filter (\<lambda>p. pf_revents p \<noteq> 0) ps)) \<le> ret - n \<Longrightarrow> n < ret \<Longrightarrow>
   \<forall>p \<in> set ps. pf_revents p AND POLLNVAL = 0 \<Longrightarrow>
   scan ps n ret = Some (map (\<lambda>p. \<lparr>re_fd = pf_fd p, re_revents = pf_revents p\<rparr>)
                          (filter (\<lambda>p. pf_revents p \<noteq> 0) ps))"
proof (induction ps arbitrary: n)
  case (Cons p ps)
  show ?case
  proof (cases "pf_revents p \<noteq> 0 \<and> n + 1 \<ge> ret")
    case True
    with Cons.prems have "1 + int (length (filter (\<lambda>p. pf_revents p \<noteq> 0) ps)) \<le> ret - n" by simp
    then have "\<not> 0 < length (filter (\<lambda>p. pf_revents p \<noteq> 0) ps)" using True by linarith
    then have "filter (\<lambda>p. pf_revents p \<noteq> 0) ps = []" by simp
    with True Cons.prems show ?thesis by simp
  qed (use Cons in \<open>auto simp: Let_def\<close>)
qed simp

section \<open>The backend as a reactor\<close>

text \<open>
  \<open>fdof\<close> gives the descriptor each source was built with. The watched descriptors are those of the
  armed sources, each with the events of its source.
\<close>

definition poll_armed :: "('s, 'u) poll_world \<Rightarrow> 's set" where
  "poll_armed w = {s. ps_armed (pw_src w s)}"

definition poll_winv :: "BackendType \<Rightarrow> ('s \<Rightarrow> int) \<Rightarrow> ('s, 'u) poll_world \<Rightarrow> bool" where
  "poll_winv ty fdof w \<longleftrightarrow>
     poll_inv (pw_backend w) \<and> pw_type w = ty \<and>
     (\<forall>s. ps_type (pw_src w s) = ty \<and> ps_fd (pw_src w s) = fdof s \<and>
          ps_backend (pw_src w s) = ps_armed (pw_src w s)) \<and>
     inj_on fdof (poll_armed w) \<and>
     (\<forall>fd e. interest (pw_backend w) fd = Some e \<longleftrightarrow>
             (\<exists>s \<in> poll_armed w. fdof s = fd \<and> ps_events (pw_src w s) = e))"

lemma poll_arm_law:
  assumes "poll_winv ty fdof w" "\<forall>x \<in> poll_armed w. x \<noteq> s \<longrightarrow> fdof x \<noteq> fdof s"
  shows "poll_winv ty fdof (arm s w)" "poll_armed (arm s w) = insert s (poll_armed w)"
proof -
  have "poll_armed (arm s w) = insert s (poll_armed w)"
    using assms(1) by (auto simp: arm_def Let_def poll_armed_def poll_winv_def isSourceMatchBackend_def)
  moreover have "poll_winv ty fdof (arm s w)"
  proof (cases "ps_armed (pw_src w s)")
    case False
    with assms have "arm s w = w\<lparr>pw_backend := registerFd (fdof s) (ps_events (pw_src w s)) (pw_backend w),
             pw_src := (pw_src w)(s := (pw_src w s)\<lparr>ps_armed := True, ps_backend := True\<rparr>)\<rparr>"
      by (simp add: arm_def Let_def poll_winv_def isSourceMatchBackend_def)
    moreover have "inj_on fdof (insert s (poll_armed w))"
      using assms by (auto simp: poll_winv_def inj_on_def)
    ultimately show ?thesis
      using assms \<open>poll_armed (arm s w) = insert s (poll_armed w)\<close>
      by (auto simp: poll_winv_def registerFd_law split: if_splits)
  qed (use assms in \<open>simp add: arm_def Let_def\<close>)
  ultimately show "poll_winv ty fdof (arm s w)" "poll_armed (arm s w) = insert s (poll_armed w)" by auto
qed

lemma poll_disarm_law:
  assumes "poll_winv ty fdof w"
  shows "poll_winv ty fdof (disarm s w)" "poll_armed (disarm s w) = poll_armed w - {s}"
proof -
  have armed: "poll_armed (disarm s w) = poll_armed w - {s}"
    using assms by (auto simp: disarm_def Let_def poll_armed_def poll_winv_def isSourceMatchBackend_def)
  have "poll_winv ty fdof (disarm s w)"
  proof (cases "ps_armed (pw_src w s)")
    case True
    with assms have w': "disarm s w = w\<lparr>pw_backend := unregisterFd (fdof s) (pw_backend w),
             pw_src := (pw_src w)(s := (pw_src w s)\<lparr>ps_armed := False, ps_backend := False\<rparr>)\<rparr>"
      by (simp add: disarm_def Let_def poll_winv_def isSourceMatchBackend_def)
    have "s \<in> poll_armed w" using True by (simp add: poll_armed_def)
    then have "fdof x \<noteq> fdof s" if "x \<in> poll_armed w" "x \<noteq> s" for x
      using assms that by (auto simp: poll_winv_def inj_on_def)
    then show ?thesis
      using assms armed inj_on_subset [of fdof "poll_armed w" "poll_armed w - {s}"]
      by (auto simp: poll_winv_def unregisterFd_law w')
  qed (use assms in \<open>simp add: disarm_def Let_def\<close>)
  with armed show "poll_winv ty fdof (disarm s w)" "poll_armed (disarm s w) = poll_armed w - {s}" by auto
qed

lemma poll_setEvents_law:
  assumes "poll_winv ty fdof w"
  shows "poll_winv ty fdof (setEvents s e w)" "poll_armed (setEvents s e w) = poll_armed w"
    and "matches (setEvents s e w) = matches w"
proof -
  have armed: "poll_armed (setEvents s e w) = poll_armed w"
    by (auto simp: setEvents_def Let_def poll_armed_def)
  have "poll_winv ty fdof (setEvents s e w)"
  proof (cases "s \<in> poll_armed w")
    case True
    then have w': "setEvents s e w = w\<lparr>pw_src := (pw_src w)(s := (pw_src w s)\<lparr>ps_events := e\<rparr>),
        pw_backend := registerFd (fdof s) e (pw_backend w)\<rparr>"
      using assms by (auto simp: setEvents_def Let_def poll_winv_def poll_armed_def isSourceMatchBackend_def)
    have "fdof x \<noteq> fdof s" if "x \<in> poll_armed w" "x \<noteq> s" for x
      using assms that True by (auto simp: poll_winv_def inj_on_def)
    then have "((interest (pw_backend w))(fdof s \<mapsto> e)) fd = Some e' \<longleftrightarrow>
        (\<exists>x \<in> poll_armed w. fdof x = fd \<and> ps_events (pw_src (setEvents s e w) x) = e')" for fd e'
      using assms True by (cases "fd = fdof s") (auto simp: w' poll_winv_def, metis)
    then show ?thesis
      using assms armed by (auto simp: poll_winv_def registerFd_law w')
  qed (use assms armed in \<open>auto simp: poll_winv_def setEvents_def Let_def poll_armed_def\<close>)
  with armed show "poll_winv ty fdof (setEvents s e w)" "poll_armed (setEvents s e w) = poll_armed w"
    "matches (setEvents s e w) = matches w"
    by (auto simp: matches_def setEvents_def Let_def fun_eq_iff)
qed

lemma poll_src_calls_law:
  "poll_winv ty fdof w \<Longrightarrow> poll_winv ty fdof (fold do_src_call cs w) \<and>
   poll_armed (fold do_src_call cs w) = poll_armed w \<and> matches (fold do_src_call cs w) = matches w"
proof (induction cs arbitrary: w)
  case (Cons c cs)
  then show ?case using poll_setEvents_law [of ty fdof w] by (cases c) auto
qed simp

lemma poll_dispatch_law:
  assumes "poll_winv ty fdof w" "dispatch cbs s ev w = (w', calls)"
  shows "poll_winv ty fdof w' \<and> poll_armed w' = poll_armed w \<and> matches w' = matches w"
proof (cases "cbs s")
  case (Some cb)
  obtain u sc cc where cb: "cb (pw_user w) (re_revents ev) = (u, sc, cc)" by (metis prod_cases3)
  have "poll_winv ty fdof (w\<lparr>pw_user := u\<rparr>)" "poll_armed (w\<lparr>pw_user := u\<rparr>) = poll_armed w"
    "matches (w\<lparr>pw_user := u\<rparr>) = matches w"
    using assms(1) by (auto simp: poll_winv_def poll_armed_def matches_def fun_eq_iff)
  with poll_src_calls_law [of ty fdof "w\<lparr>pw_user := u\<rparr>" sc] assms(2) Some cb show ?thesis
    by (auto simp: dispatch_def)
qed (use assms in \<open>simp add: dispatch_def\<close>)

lemma poll_wait_law:
  assumes "poll_winv ty fdof w" "vt_wait (poll_vtable cbs) t w = Some w'"
  shows "poll_winv ty fdof w'" "poll_armed w' = poll_armed w"
    and "ev \<in> set (vt_rawEvents (poll_vtable cbs) w') \<Longrightarrow> \<exists>s \<in> poll_armed w'. matches w' s ev"
proof -
  obtain b rest where b: "wait (pw_answers w) (pw_backend w) = Some (b, rest)"
    and w': "w' = w\<lparr>pw_backend := b, pw_answers := rest\<rparr>"
    using assms(2) by (auto simp: poll_vtable_def)
  note law = wait_law [OF b]
  show "poll_winv ty fdof w'" "poll_armed w' = poll_armed w"
    using assms(1) law by (auto simp: w' poll_winv_def poll_armed_def)
  show "\<exists>s \<in> poll_armed w'. matches w' s ev" if "ev \<in> set (vt_rawEvents (poll_vtable cbs) w')"
  proof -
    have "interest (pw_backend w) (re_fd ev) \<noteq> None"
      using that law(3) by (simp add: w' poll_vtable_def rawEvents_def)
    then obtain s where "s \<in> poll_armed w" "fdof s = re_fd ev"
      using assms(1) by (auto simp: poll_winv_def)
    then show ?thesis using assms(1)
      by (auto simp: w' poll_winv_def matches_def poll_armed_def intro!: exI [of _ s])
  qed
qed

interpretation poll: reactor "poll_vtable cbs" "poll_winv ty fdof" poll_armed "\<lambda>x y. fdof x = fdof y"
  for cbs :: "'s \<Rightarrow> ('s, 'u) callback option" and ty fdof
proof (unfold_locales, goal_cases)
  case (3 w s)
  then show ?case using poll_arm_law [of ty fdof w s] by (simp add: poll_vtable_def)
next
  case (4 w s)
  then show ?case using poll_disarm_law [of ty fdof w s] by (simp add: poll_vtable_def)
next
  case (5 w t w')
  then show ?case using poll_wait_law(1,2) by blast
next
  case (7 w t w' ev)
  then show ?case using poll_wait_law(3) [of ty fdof w cbs t w' ev] by (simp add: poll_vtable_def)
next
  case (6 w s ev w' calls)
  then show ?case using poll_dispatch_law [of ty fdof w cbs s ev w' calls] by (simp add: poll_vtable_def)
qed (simp_all add: poll_vtable_def)

section \<open>Properties\<close>

datatype table_op = TRegister int short | TUnregister int

fun table_step :: "table_op \<Rightarrow> PollBackend \<Rightarrow> PollBackend" where
  "table_step (TRegister fd e) b = registerFd fd e b"
| "table_step (TUnregister fd) b = unregisterFd fd b"

fun map_step :: "table_op \<Rightarrow> (int \<rightharpoonup> short) \<Rightarrow> (int \<rightharpoonup> short)" where
  "map_step (TRegister fd e) m = m(fd \<mapsto> e)"
| "map_step (TUnregister fd) m = m(fd := None)"

lemma table_run:
  "poll_inv b \<Longrightarrow> poll_inv (fold table_step ops b) \<and>
   interest (fold table_step ops b) = fold map_step ops (interest b)"
proof (induction ops arbitrary: b)
  case (Cons k ops)
  have "poll_inv (table_step k b)" "interest (table_step k b) = map_step k (interest b)"
    using Cons.prems registerFd_law unregisterFd_law by (cases k; simp)+
  with Cons.IH [of "table_step k b"] show ?case by simp
qed simp

text \<open>
  After any sequence of registrations and removals the array handed to \<open>poll\<close> is a finite map
  from descriptors to events: one entry per registered descriptor, with the events registered
  last, and the hash index gives the position of every entry and of nothing else.
\<close>

lemma poll_table_is_map:
  "let b = fold table_step ops new_PollBackend in
   interest b = fold map_step ops Map.empty \<and> distinct (map pf_fd (pollfds b)) \<and>
   dom (fd_index b) = pf_fd ` set (pollfds b) \<and>
   (\<forall>i < length (pollfds b). fd_index b (pf_fd (pollfds b ! i)) = Some i)"
proof -
  let ?b = "fold table_step ops new_PollBackend"
  have "poll_inv ?b" "interest ?b = fold map_step ops Map.empty"
    using table_run [of new_PollBackend ops] by simp_all
  moreover from this(1) have "distinct (map pf_fd (pollfds ?b))"
    unfolding poll_inv_def by (rule index_ok_distinct)
  ultimately show ?thesis by (auto simp: Let_def poll_inv_def index_ok_def)
qed

definition poll_fresh ::
  "BackendType \<Rightarrow> ('s \<Rightarrow> int) \<Rightarrow> ('s \<Rightarrow> short) \<Rightarrow> 'u \<Rightarrow> poll_answer list \<Rightarrow> ('s, 'u) poll_world" where
  "poll_fresh ty fdof evof u answers =
     \<lparr>pw_type = ty, pw_backend = new_PollBackend, pw_src = (\<lambda>s. new_PollEventSource ty (fdof s) (evof s)),
      pw_user = u, pw_answers = answers\<rparr>"

lemma poll_fresh_law:
  "poll_winv ty fdof (poll_fresh ty fdof evof u answers)" "poll_armed (poll_fresh ty fdof evof u answers) = {}"
  by (auto simp: poll_winv_def poll_armed_def poll_fresh_def new_PollEventSource_def)



section \<open>A concrete run\<close>

text \<open>
  Two sources. The first one's callback asks for its own removal and changes the events of the
  second; \<open>poll\<close> is interrupted once and then reports the first descriptor.
\<close>

definition demo_cbs :: "nat \<Rightarrow> (nat, nat) callback option" where
  "demo_cbs s = (if s = 0 then Some (\<lambda>u r. (u + 1, [SetEvents 1 4], [CallRemove (Some 0)])) else None)"

definition demo_core :: "((nat, nat) poll_world, nat) IEventLoopCore" where
  "demo_core = new_core (poll_fresh LINUX_POLL (\<lambda>s. 10 + int s) (\<lambda>_. 1) 0
     [PollEINTR, PollReturn 1 (\<lambda>i. if i = 0 then 1 else 0), PollReturn 1 (\<lambda>i. 4)])"

definition demo_ops :: "nat loop_op list" where
  "demo_ops = [LAdd (Some 0), LAdd (Some 1), LApplyInitial, LRunOnce (-1)]"

definition demo_after :: "((nat, nat) poll_world, nat) IEventLoopCore" where
  "demo_after = the (loop_run (poll_vtable demo_cbs) demo_ops demo_core)"

lemma demo_run:
  "loop_run (poll_vtable demo_cbs) demo_ops demo_core = Some demo_after"
  "run_fits (poll_vtable demo_cbs) (\<lambda>x y. 10 + int x = 10 + int y) demo_ops demo_core"
proof -
  have "\<not> Option.is_none (loop_run (poll_vtable demo_cbs) demo_ops demo_core)" by code_simp
  then show "loop_run (poll_vtable demo_cbs) demo_ops demo_core = Some demo_after"
    unfolding demo_after_def by (rule some_the)
qed code_simp

lemma demo_after_facts:
  "core_sources demo_after = [Some 1]" "pending_ops demo_after = []"
  "interest (pw_backend (core_backend demo_after)) 11 = Some 4"
  "core_sources (applyPendingChanges (poll_vtable demo_cbs) demo_after) = [Some 1]"
  by code_simp+


definition demo_waited :: "(nat, nat) poll_world" where
  "demo_waited = the (vt_wait (poll_vtable demo_cbs) (-1) (core_backend demo_after))"

definition demo_round :: "(nat, nat) poll_world \<times> (nat \<times> PollRawEvent) list \<times> nat core_call list" where
  "demo_round = dispatch_round (poll_vtable demo_cbs) (rawEvents (pw_backend demo_waited))
     (map the (core_sources demo_after)) demo_waited"

lemma demo_wait: "vt_wait (poll_vtable demo_cbs) (-1) (core_backend demo_after) = Some demo_waited"
proof -
  have "\<not> Option.is_none (vt_wait (poll_vtable demo_cbs) (-1) (core_backend demo_after))" by code_simp
  then show ?thesis unfolding demo_waited_def by (rule some_the)
qed


theorem core_last_request_decides_witness:
  "distinct (core_sources (applyPendingChanges (poll_vtable demo_cbs) demo_after)) \<and>
   core_sources (applyPendingChanges (poll_vtable demo_cbs) demo_after) = [Some 1]"
  using core_last_request_decides [OF demo_run(1) [unfolded demo_core_def]] demo_after_facts(4)
  unfolding Let_def by blast

theorem dispatch_uses_snapshot_witness:
  "dispatchRawEvents (poll_vtable demo_cbs) demo_after =
     (case dispatch_round (poll_vtable demo_cbs) (vt_rawEvents (poll_vtable demo_cbs) (core_backend demo_after))
             (map the (core_sources demo_after)) (core_backend demo_after) of
        (w', log, calls) \<Rightarrow>
          demo_after\<lparr>core_backend := w', pending_ops := pending_ops demo_after @ concat (map call_ops calls)\<rparr>)"
  using dispatch_uses_snapshot [OF demo_run(1) [unfolded demo_core_def]] .

definition demo_table :: "table_op list" where
  "demo_table = [TRegister 5 1, TRegister 6 1, TRegister 7 4, TUnregister 5, TRegister 6 5]"

lemma poll_table_is_map_witness:
  "map pf_fd (pollfds (fold table_step demo_table new_PollBackend)) = [7, 6] \<and>
   fd_index (fold table_step demo_table new_PollBackend) 6 = Some 1"
proof -
  let ?b = "fold table_step demo_table new_PollBackend"
  have fds: "map pf_fd (pollfds ?b) = [7, 6]" by code_simp
  then have "length (pollfds ?b) = 2" "pf_fd (pollfds ?b ! 1) = 6"
    by (metis length_map length_Cons list.size(3) numeral_2_eq_2,
        metis (no_types, lifting) length_map length_Cons list.size(3) lessI nth_Cons_0 nth_Cons_Suc nth_map
          numeral_2_eq_2 One_nat_def)
  with fds poll_table_is_map [of demo_table] show ?thesis
    by (auto simp: Let_def dest: spec [of _ 1])
qed

end
