(* ===== verification/Timer_Queue.thy ===== *)
theory Timer_Queue
  imports Prelude
begin

text \<open>
  The timer queues of \<^verbatim>\<open>platform/schedule/eventloop.h\<close> and \<^verbatim>\<open>io_worker.h\<close>: a
  \<^verbatim>\<open>std::priority_queue\<close> of timer tasks ordered by deadline, earliest on top. The contract the
  clients rely on is the locale \<open>min_queue\<close>; it says nothing about the order of equal deadlines,
  which the standard library leaves open. Deadlines and the clock are nanoseconds.
\<close>

section \<open>The contract\<close>

text \<open>Pop from the top as long as the deadline has passed; the fuel bounds the number of pops.\<close>

fun drain_expired ::
  "('q \<Rightarrow> (int \<times> 'a) option) \<Rightarrow> ('q \<Rightarrow> 'q) \<Rightarrow> nat \<Rightarrow> int \<Rightarrow> 'q \<Rightarrow> (int \<times> 'a) list \<times> 'q" where
  "drain_expired peek pop 0 now q = ([], q)"
| "drain_expired peek pop (Suc n) now q =
     (case peek q of
        None \<Rightarrow> ([], q)
      | Some (d, t) \<Rightarrow>
          if d \<le> now then (let (ts, q') = drain_expired peek pop n now (pop q) in ((d, t) # ts, q'))
          else ([], q))"

locale min_queue =
  fixes inv :: "'q \<Rightarrow> bool"
    and elems :: "'q \<Rightarrow> (int \<times> 'a) multiset"
    and push :: "int \<times> 'a \<Rightarrow> 'q \<Rightarrow> 'q"
    and peek :: "'q \<Rightarrow> (int \<times> 'a) option"
    and pop :: "'q \<Rightarrow> 'q"
  assumes push_inv: "inv q \<Longrightarrow> inv (push x q)"
    and push_elems: "inv q \<Longrightarrow> elems (push x q) = add_mset x (elems q)"
    and top_None: "inv q \<Longrightarrow> peek q = None \<longleftrightarrow> elems q = {#}"
    and top_mem: "inv q \<Longrightarrow> peek q = Some x \<Longrightarrow> x \<in># elems q"
    and top_least: "inv q \<Longrightarrow> peek q = Some x \<Longrightarrow> y \<in># elems q \<Longrightarrow> fst x \<le> fst y"
    and pop_inv: "inv q \<Longrightarrow> peek q \<noteq> None \<Longrightarrow> inv (pop q)"
    and pop_elems: "inv q \<Longrightarrow> peek q = Some x \<Longrightarrow> elems (pop q) = elems q - {#x#}"
begin

lemma drain_law:
  "inv q \<Longrightarrow> size (elems q) \<le> n \<Longrightarrow> drain_expired peek pop n now q = (ts, q') \<Longrightarrow>
   inv q' \<and> elems q = mset ts + elems q' \<and> (\<forall>x \<in> set ts. fst x \<le> now) \<and>
   (\<forall>x \<in># elems q'. now < fst x) \<and> sorted (map fst ts) \<and>
   (\<forall>x \<in> set ts. \<forall>y \<in># elems q'. fst x \<le> fst y)"
proof (induction n arbitrary: q ts q')
  case 0
  then show ?case by auto
next
  case (Suc n)
  show ?case
  proof (cases "peek q")
    case None
    with Suc.prems top_None [of q] show ?thesis by auto
  next
    case (Some x)
    obtain d t where x: "x = (d, t)" by fastforce
    note mem = top_mem [OF Suc.prems(1) Some] and least = top_least [OF Suc.prems(1) Some]
    show ?thesis
    proof (cases "d \<le> now")
      case False
      with Suc.prems Some x least show ?thesis by force
    next
      case True
      obtain ts1 q1 where r: "drain_expired peek pop n now (pop q) = (ts1, q1)" by fastforce
      with Suc.prems(3) Some x True have eq: "ts = (d, t) # ts1" "q' = q1" by auto
      have e: "elems q = add_mset x (elems (pop q))"
        using pop_elems [OF Suc.prems(1) Some] mem by simp
      with Suc.prems(2) have "size (elems (pop q)) \<le> n" by simp
      moreover have "inv (pop q)" using pop_inv [OF Suc.prems(1)] Some by simp
      ultimately have IH: "inv q1 \<and> elems (pop q) = mset ts1 + elems q1 \<and> (\<forall>x \<in> set ts1. fst x \<le> now) \<and>
          (\<forall>x \<in># elems q1. now < fst x) \<and> sorted (map fst ts1) \<and>
          (\<forall>x \<in> set ts1. \<forall>y \<in># elems q1. fst x \<le> fst y)"
        using Suc.IH r by blast
      have "fst x \<le> fst y" if "y \<in># mset ts1 + elems q1" for y
        using least that IH e by auto
      with IH e eq x True show ?thesis by auto
    qed
  qed
qed

lemma drain_all_expired:
  assumes "inv q" "size (elems q) \<le> n" "drain_expired peek pop n now q = (ts, q')"
  shows "mset ts = filter_mset (\<lambda>x. fst x \<le> now) (elems q)" "elems q' = filter_mset (\<lambda>x. now < fst x) (elems q)"
proof -
  note law = drain_law [OF assms]
  then have "filter_mset (\<lambda>x. fst x \<le> now) (mset ts) = mset ts" "filter_mset (\<lambda>x. fst x \<le> now) (elems q') = {#}"
    "filter_mset (\<lambda>x. now < fst x) (mset ts) = {#}" "filter_mset (\<lambda>x. now < fst x) (elems q') = elems q'"
    by (auto simp: filter_mset_eq_conv filter_mset_False [symmetric] intro!: filter_mset_cong0)
  with law show "mset ts = filter_mset (\<lambda>x. fst x \<le> now) (elems q)"
    "elems q' = filter_mset (\<lambda>x. now < fst x) (elems q)" by auto
qed

end

section \<open>The queue\<close>

text \<open>A queue is the list of its timers in the order they would be popped.\<close>

type_synonym 't timers = "(int \<times> 't fn) list"

definition timers_push :: "int \<times> 't fn \<Rightarrow> 't timers \<Rightarrow> 't timers" where
  "timers_push x q = takeWhile (\<lambda>y. fst y \<le> fst x) q @ x # dropWhile (\<lambda>y. fst y \<le> fst x) q"

definition timers_top :: "'t timers \<Rightarrow> (int \<times> 't fn) option" where
  "timers_top q = (case q of [] \<Rightarrow> None | x # _ \<Rightarrow> Some x)"

definition timers_pop :: "'t timers \<Rightarrow> 't timers" where
  "timers_pop q = tl q"

lemma timers_simps [simp]:
  "timers_top [] = None" "timers_top (x # q) = Some x" "timers_pop (x # q) = q"
  by (simp_all add: timers_top_def timers_pop_def)

definition timers_inv :: "'t timers \<Rightarrow> bool" where
  "timers_inv q \<longleftrightarrow> sorted (map fst q)"

lemma timers_push_mset: "mset (timers_push x q) = add_mset x (mset q)"
  by (simp add: timers_push_def) (metis mset_append takeWhile_dropWhile_id)

lemma timers_push_inv: "timers_inv q \<Longrightarrow> timers_inv (timers_push x q)"
proof (induction q)
  case (Cons y q)
  then show ?case
    by (cases "fst y \<le> fst x")
      (auto simp: timers_push_def timers_inv_def dest: set_takeWhileD set_dropWhileD)
qed (simp add: timers_push_def timers_inv_def)

interpretation tq: min_queue timers_inv mset timers_push timers_top timers_pop
proof
  fix q x y assume "timers_inv q" "timers_top q = Some x" "y \<in># mset q"
  then show "fst x \<le> fst y" by (cases q) (auto simp: timers_inv_def timers_top_def)
qed (auto simp: timers_push_inv timers_push_mset timers_top_def timers_pop_def
      split: list.splits, auto simp: timers_inv_def)

lemma timers_inv_Nil [simp]: "timers_inv []"
  by (simp add: timers_inv_def)

lemma timers_top_first: "timers_inv q \<Longrightarrow> timers_top q = Some x \<Longrightarrow> y \<in> set q \<Longrightarrow> fst x \<le> fst y"
  using tq.top_least by fastforce

end
