(* ===== verification/Event_Loop.thy ===== *)
theory Event_Loop
  imports Poll_Backend Timer_Queue
begin

text \<open>
  \<^verbatim>\<open>platform/schedule/eventloop.h\<close> and \<^verbatim>\<open>.cc\<close>: the single-threaded \<^verbatim>\<open>EventLoop\<close> with its task
  queue, timers and wakeup watcher, on top of an event-loop core. A task is the user's code:
  \<open>prog t\<close> lists the calls task \<open>t\<close> makes on the loop, in order, and the time it takes. Running an
  empty \<^verbatim>\<open>std::function\<close> throws, which is the result \<open>None\<close>.
\<close>

section \<open>State\<close>

record ('t, 'w, 's) EventLoop =
  el_type :: BackendType
  el_core :: "('w, 's) IEventLoopCore"
  el_tasks :: "'t fn list"
  el_timers :: "'t timers"
  el_exit :: bool
  el_notified :: nat
  el_now :: int
  el_log :: "'t list"

datatype ('t, 's) el_call =
    ElPost "'t fn"
  | ElPostDelayed "'t fn" int
  | ElRequestExit
  | ElRequestWakeUp
  | ElAttach "'s option"
  | ElDetach "'s option"
  | ElElapse nat

text \<open>Delays are milliseconds, the clock counts nanoseconds.\<close>

definition ms :: int where
  "ms = 1000000"

section \<open>Which backends exist\<close>

datatype platform = Linux | MacOS | Windows

fun platform_types :: "platform \<Rightarrow> BackendType list" where
  "platform_types Linux = [LINUX_POLL, LINUX_EPOLL]"
| "platform_types MacOS = [MACOS_POLL, MACOS_KQUEUE, MACOS_COCOA]"
| "platform_types Windows = [WINDOWS_WIN32, WINDOWS_IOCP]"

text \<open>\<^verbatim>\<open>createEventLoopCore\<close> aborts (\<open>None\<close>) on a backend the platform does not have.\<close>

definition createEventLoopCore :: "platform \<Rightarrow> BackendType \<Rightarrow> BackendType option" where
  "createEventLoopCore p type = (if type \<in> set (platform_types p) then Some type else None)"

section \<open>Operations\<close>

definition notify :: "('t, 'w, 's) EventLoop \<Rightarrow> ('t, 'w, 's) EventLoop" where
  "notify l = l\<lparr>el_notified := el_notified l + 1\<rparr>"

text \<open>The constructor: the wakeup watcher attaches its source, then the initial changes are applied.\<close>

definition new_EventLoop ::
  "platform \<Rightarrow> ('w, 's, 'e) vtable \<Rightarrow> BackendType \<Rightarrow> 'w \<Rightarrow> 's \<Rightarrow> int \<Rightarrow> ('t, 'w, 's) EventLoop option" where
  "new_EventLoop p vt type w wakeup_source now =
     (case createEventLoopCore p type of
        None \<Rightarrow> None
      | Some ty \<Rightarrow>
          (let core = addSource (Some wakeup_source) (new_core w)
           in Some \<lparr>el_type = ty, el_core = applyInitialChanges vt core, el_tasks = [], el_timers = [],
                    el_exit = False, el_notified = 0, el_now = now, el_log = []\<rparr>))"

definition post :: "'t fn \<Rightarrow> ('t, 'w, 's) EventLoop \<Rightarrow> ('t, 'w, 's) EventLoop" where
  "post task l =
     (if task = None then l else notify (l\<lparr>el_tasks := el_tasks l @ [task]\<rparr>))"

definition postDelayed :: "'t fn \<Rightarrow> int \<Rightarrow> ('t, 'w, 's) EventLoop \<Rightarrow> ('t, 'w, 's) EventLoop" where
  "postDelayed task delay l =
     (if task = None then l
      else notify (l\<lparr>el_timers := timers_push (el_now l + delay * ms, task) (el_timers l)\<rparr>))"

definition requestExit :: "('t, 'w, 's) EventLoop \<Rightarrow> ('t, 'w, 's) EventLoop" where
  "requestExit l = notify (l\<lparr>el_exit := True\<rparr>)"

definition exitRequested :: "('t, 'w, 's) EventLoop \<Rightarrow> bool" where
  "exitRequested l = el_exit l"

definition requestWakeUp :: "('t, 'w, 's) EventLoop \<Rightarrow> ('t, 'w, 's) EventLoop" where
  "requestWakeUp l = notify l"

definition attachSource :: "'s option \<Rightarrow> ('t, 'w, 's) EventLoop \<Rightarrow> ('t, 'w, 's) EventLoop" where
  "attachSource source l = (if source = None then l else l\<lparr>el_core := addSource source (el_core l)\<rparr>)"

definition detachSource :: "'s option \<Rightarrow> ('t, 'w, 's) EventLoop \<Rightarrow> ('t, 'w, 's) EventLoop" where
  "detachSource source l = (if source = None then l else l\<lparr>el_core := removeSource source (el_core l)\<rparr>)"

fun do_el_call :: "('t, 's) el_call \<Rightarrow> ('t, 'w, 's) EventLoop \<Rightarrow> ('t, 'w, 's) EventLoop" where
  "do_el_call (ElPost t) l = post t l"
| "do_el_call (ElPostDelayed t d) l = postDelayed t d l"
| "do_el_call ElRequestExit l = requestExit l"
| "do_el_call ElRequestWakeUp l = requestWakeUp l"
| "do_el_call (ElAttach s) l = attachSource s l"
| "do_el_call (ElDetach s) l = detachSource s l"
| "do_el_call (ElElapse n) l = l\<lparr>el_now := el_now l + int n\<rparr>"

definition run_task ::
  "('t \<Rightarrow> ('t, 's) el_call list) \<Rightarrow> 't fn \<Rightarrow> ('t, 'w, 's) EventLoop \<Rightarrow> ('t, 'w, 's) EventLoop option" where
  "run_task prog task l =
     (case task of
        None \<Rightarrow> None
      | Some t \<Rightarrow> Some (fold do_el_call (prog t) (l\<lparr>el_log := el_log l @ [t]\<rparr>)))"

fun run_tasks ::
  "('t \<Rightarrow> ('t, 's) el_call list) \<Rightarrow> 't fn list \<Rightarrow> ('t, 'w, 's) EventLoop \<Rightarrow> ('t, 'w, 's) EventLoop option" where
  "run_tasks prog [] l = Some l"
| "run_tasks prog (t # ts) l = Option.bind (run_task prog t l) (run_tasks prog ts)"

definition runReadyTasks ::
  "('t \<Rightarrow> ('t, 's) el_call list) \<Rightarrow> ('t, 'w, 's) EventLoop \<Rightarrow> ('t, 'w, 's) EventLoop option" where
  "runReadyTasks prog l = run_tasks prog (el_tasks l) (l\<lparr>el_tasks := []\<rparr>)"

definition runExpiredTimers ::
  "('t \<Rightarrow> ('t, 's) el_call list) \<Rightarrow> ('t, 'w, 's) EventLoop \<Rightarrow> ('t, 'w, 's) EventLoop option" where
  "runExpiredTimers prog l =
     (let (expired, rest) = drain_expired timers_top timers_pop (length (el_timers l)) (el_now l) (el_timers l)
      in run_tasks prog (map snd expired) (l\<lparr>el_timers := rest\<rparr>))"

definition computeTimeoutMs :: "('t, 'w, 's) EventLoop \<Rightarrow> int" where
  "computeTimeoutMs l =
     (if exitRequested l then 0
      else if el_tasks l \<noteq> [] then 0
      else
        (case timers_top (el_timers l) of
           None \<Rightarrow> -1
         | Some (deadline, _) \<Rightarrow>
             (if deadline \<le> el_now l then 0
              else
                (let m = (deadline - el_now l) div ms
                 in if m > INT_MAX then INT_MAX else m))))"

text \<open>One turn of the loop; \<open>slept\<close> is the time the core spends waiting.\<close>

definition loop_turn ::
  "('w, 's, 'e) vtable \<Rightarrow> ('t \<Rightarrow> ('t, 's) el_call list) \<Rightarrow> nat \<Rightarrow> ('t, 'w, 's) EventLoop \<Rightarrow>
   ('t, 'w, 's) EventLoop option" where
  "loop_turn vt prog slept l =
     (let timeout_ms = computeTimeoutMs l in
      case runOnce vt timeout_ms (el_core l) of
        None \<Rightarrow> None
      | Some core \<Rightarrow>
          Option.bind (runExpiredTimers prog (l\<lparr>el_core := core, el_now := el_now l + int slept\<rparr>))
            (runReadyTasks prog))"

text \<open>\<^verbatim>\<open>run\<close>, for as many turns as there are entries in the list of sleeping times.\<close>

fun run_turns ::
  "('w, 's, 'e) vtable \<Rightarrow> ('t \<Rightarrow> ('t, 's) el_call list) \<Rightarrow> nat list \<Rightarrow> ('t, 'w, 's) EventLoop \<Rightarrow>
   ('t, 'w, 's) EventLoop option" where
  "run_turns vt prog [] l = Some l"
| "run_turns vt prog (slept # rest) l =
     (if exitRequested l then Some l
      else Option.bind (loop_turn vt prog slept l) (run_turns vt prog rest))"

definition run ::
  "('w, 's, 'e) vtable \<Rightarrow> ('t \<Rightarrow> ('t, 's) el_call list) \<Rightarrow> nat list \<Rightarrow> ('t, 'w, 's) EventLoop \<Rightarrow>
   ('t, 'w, 's) EventLoop option" where
  "run vt prog sleeps l = run_turns vt prog sleeps (l\<lparr>el_core := applyInitialChanges vt (el_core l)\<rparr>)"

section \<open>Tasks\<close>

text \<open>No queued task is an empty function, and the timers are in order.\<close>

definition el_ok :: "('t, 'w, 's) EventLoop \<Rightarrow> bool" where
  "el_ok l \<longleftrightarrow> None \<notin> set (el_tasks l) \<and> None \<notin> snd ` set (el_timers l) \<and> timers_inv (el_timers l)"

lemma timers_push_set: "set (timers_push x q) = insert x (set q)"
  using arg_cong [OF timers_push_mset [of x q], of set_mset] by simp

lemma do_el_call_ok: "el_ok l \<Longrightarrow> el_ok (do_el_call c l)"
  by (cases c) (auto simp: el_ok_def post_def postDelayed_def requestExit_def requestWakeUp_def notify_def
      attachSource_def detachSource_def timers_push_set timers_push_inv)

lemma do_el_calls_ok: "el_ok l \<Longrightarrow> el_ok (fold do_el_call cs l)"
  by (induction cs arbitrary: l) (simp_all add: do_el_call_ok)

text \<open>The tasks a list of calls posts, and the posts of all tasks of a list.\<close>

fun posted :: "('t, 's) el_call list \<Rightarrow> 't fn list" where
  "posted [] = []"
| "posted (ElPost (Some t) # cs) = Some t # posted cs"
| "posted (_ # cs) = posted cs"

lemma do_el_call_log [simp]: "el_log (do_el_call c l) = el_log l"
  by (cases c) (auto simp: post_def postDelayed_def requestExit_def requestWakeUp_def notify_def
      attachSource_def detachSource_def)

lemma do_el_calls_log [simp]: "el_log (fold do_el_call cs l) = el_log l"
  by (induction cs arbitrary: l) simp_all

lemma do_el_calls_tasks: "el_tasks (fold do_el_call cs l) = el_tasks l @ posted cs"
proof (induction cs arbitrary: l)
  case (Cons c cs)
  have "el_tasks (do_el_call c l) = el_tasks l @ posted [c]"
    by (cases c; cases "case c of ElPost t \<Rightarrow> t | _ \<Rightarrow> None")
      (auto simp: post_def postDelayed_def requestExit_def requestWakeUp_def notify_def
        attachSource_def detachSource_def)
  moreover have "posted (c # cs) = posted [c] @ posted cs"
    by (cases c; cases "case c of ElPost t \<Rightarrow> t | _ \<Rightarrow> None") auto
  ultimately show ?case by (simp add: Cons.IH)
qed simp

lemma run_tasks_law:
  "el_ok l \<Longrightarrow> \<exists>l'. run_tasks prog (map Some ts) l = Some l' \<and> el_ok l' \<and> el_log l' = el_log l @ ts \<and>
   el_tasks l' = el_tasks l @ concat (map (\<lambda>t. posted (prog t)) ts)"
proof (induction ts arbitrary: l)
  case (Cons t ts)
  let ?l = "fold do_el_call (prog t) (l\<lparr>el_log := el_log l @ [t]\<rparr>)"
  have "el_ok (l\<lparr>el_log := el_log l @ [t]\<rparr>)" using Cons.prems by (simp add: el_ok_def)
  then have "el_ok ?l" by (rule do_el_calls_ok)
  from Cons.IH [OF this] show ?case
    by (simp add: run_task_def do_el_calls_tasks)
qed simp

lemma map_Some_the: "None \<notin> set ts \<Longrightarrow> ts = map Some (map the ts)"
  by (induction ts) auto

lemma expired_law:
  assumes "el_ok l" "drain_expired timers_top timers_pop (length (el_timers l)) (el_now l) (el_timers l) = (expired, rest)"
  shows "None \<notin> snd ` set expired" "el_ok (l\<lparr>el_timers := rest\<rparr>)" "sorted (map fst expired)"
    and "mset expired = filter_mset (\<lambda>x. fst x \<le> el_now l) (mset (el_timers l))"
    and "mset rest = filter_mset (\<lambda>x. el_now l < fst x) (mset (el_timers l))"
proof -
  have inv: "timers_inv (el_timers l)" "size (mset (el_timers l)) \<le> length (el_timers l)"
    using assms(1) by (auto simp: el_ok_def)
  note law = tq.drain_law [OF inv assms(2)] and all = tq.drain_all_expired [OF inv assms(2)]
  show "sorted (map fst expired)" using law by blast
  show "mset expired = filter_mset (\<lambda>x. fst x \<le> el_now l) (mset (el_timers l))"
    "mset rest = filter_mset (\<lambda>x. el_now l < fst x) (mset (el_timers l))" using all by auto
  have "set_mset (mset expired) \<subseteq> set (el_timers l)" "set_mset (mset rest) \<subseteq> set (el_timers l)"
    using all by auto
  then show "None \<notin> snd ` set expired" "el_ok (l\<lparr>el_timers := rest\<rparr>)"
    using assms(1) law by (auto simp: el_ok_def)
qed

text \<open>A loop in use: before each turn other threads and callbacks make calls.\<close>

fun drive ::
  "('w, 's, 'e) vtable \<Rightarrow> ('t \<Rightarrow> ('t, 's) el_call list) \<Rightarrow> (('t, 's) el_call list \<times> nat) list \<Rightarrow>
   ('t, 'w, 's) EventLoop \<Rightarrow> ('t, 'w, 's) EventLoop option" where
  "drive vt prog [] l = Some l"
| "drive vt prog ((cs, slept) # rounds) l =
     Option.bind (loop_turn vt prog slept (fold do_el_call cs l)) (drive vt prog rounds)"

lemma el_ok_env: "el_ok l \<Longrightarrow> el_ok (l\<lparr>el_core := core, el_now := n\<rparr>)"
  by (simp add: el_ok_def)

text \<open>What a turn runs: the timers due after the wait, by deadline, then every queued task.\<close>

lemma loop_turn_law:
  assumes "el_ok l" "runOnce vt (computeTimeoutMs l) (el_core l) = Some core"
  obtains l' due where "loop_turn vt prog slept l = Some l'" "el_ok l'"
    and "sorted (map fst due)"
    and "mset due = filter_mset (\<lambda>x. fst x \<le> el_now l + int slept) (mset (el_timers l))"
    and "el_log l' = el_log l @ map (the \<circ> snd) due @ map the (el_tasks l) @
           concat (map (\<lambda>t. map the (posted (prog t))) (map (the \<circ> snd) due))"
    and "el_tasks l' = concat (map (\<lambda>t. posted (prog (the t)))
           (el_tasks l @ concat (map (\<lambda>t. posted (prog t)) (map (the \<circ> snd) due))))"
proof -
  let ?l = "l\<lparr>el_core := core, el_now := el_now l + int slept\<rparr>"
  have ok: "el_ok ?l" using assms(1) by (rule el_ok_env)
  obtain due rest where d: "drain_expired timers_top timers_pop (length (el_timers ?l)) (el_now ?l) (el_timers ?l) = (due, rest)"
    by fastforce
  note exp = expired_law [OF ok d]
  let ?ts = "map (the \<circ> snd) due"
  have sd: "map snd due = map Some ?ts" using exp(1) by (induction due) auto
  obtain l1 where l1: "run_tasks prog (map Some ?ts) (?l\<lparr>el_timers := rest\<rparr>) = Some l1" "el_ok l1"
    "el_log l1 = el_log l @ ?ts" "el_tasks l1 = el_tasks l @ concat (map (\<lambda>t. posted (prog t)) ?ts)"
    using run_tasks_law [OF exp(2), of prog ?ts] by auto
  let ?rs = "map the (el_tasks l1)"
  have "None \<notin> set (el_tasks l1)" using l1(2) by (simp add: el_ok_def)
  note rs = map_Some_the [OF this]
  have ok1: "el_ok (l1\<lparr>el_tasks := []\<rparr>)" using l1(2) by (simp add: el_ok_def)
  obtain l2 where l2: "run_tasks prog (map Some ?rs) (l1\<lparr>el_tasks := []\<rparr>) = Some l2" "el_ok l2"
    "el_log l2 = el_log l1 @ ?rs" "el_tasks l2 = concat (map (\<lambda>t. posted (prog t)) ?rs)"
    using run_tasks_law [OF ok1, of prog ?rs] by auto
  have "runExpiredTimers prog ?l = run_tasks prog (map snd due) (?l\<lparr>el_timers := rest\<rparr>)"
    unfolding runExpiredTimers_def d by simp
  also have "\<dots> = Some l1" unfolding sd by (rule l1(1))
  finally have "runExpiredTimers prog ?l = Some l1" .
  moreover have "runReadyTasks prog l1 = Some l2"
    using l2(1) rs unfolding runReadyTasks_def by metis
  ultimately have "loop_turn vt prog slept l = Some l2"
    by (simp add: loop_turn_def Let_def assms(2))
  moreover have "map the (concat xss) = concat (map (map the) xss)" for xss :: "'b option list list"
    by (induction xss) auto
  ultimately show ?thesis
    using that [of l2 due] l2 l1 exp(3,4) by (simp add: comp_def map_concat)
qed

lemma loop_turn_ok:
  assumes "el_ok l" "loop_turn vt prog slept l = Some l'"
  shows "el_ok l'"
proof -
  obtain core where c: "runOnce vt (computeTimeoutMs l) (el_core l) = Some core"
    using assms(2) by (auto simp: loop_turn_def Let_def split: option.splits)
  obtain l2 where "loop_turn vt prog slept l = Some l2" "el_ok l2"
    using loop_turn_law [OF assms(1) c, of prog slept] by metis
  with assms(2) show ?thesis by simp
qed

lemma drive_ok: "drive vt prog rounds l = Some l' \<Longrightarrow> el_ok l \<Longrightarrow> el_ok l'"
proof (induction rounds arbitrary: l)
  case (Cons r rounds)
  obtain cs slept where "r = (cs, slept)" by fastforce
  with Cons obtain l1 where "loop_turn vt prog slept (fold do_el_call cs l) = Some l1"
    "drive vt prog rounds l1 = Some l'" by (auto simp: bind_eq_Some_conv)
  with Cons do_el_calls_ok loop_turn_ok show ?case by metis
qed simp

lemma new_EventLoop_ok: "new_EventLoop p vt ty w s now = Some l \<Longrightarrow> el_ok l"
  by (auto simp: new_EventLoop_def el_ok_def Let_def split: option.splits)

section \<open>Properties\<close>

text \<open>
  C13. A turn of the event loop runs exactly what is due, in order, and never throws: however the loop
  was used before, if the wait returns, the turn runs first the timers whose deadline has passed,
  by deadline, then every task that was queued or that those timers posted, first come first
  served; only what these tasks post themselves is left for the next turn.
\<close>

theorem loop_turn_runs_what_is_due:
  assumes "new_EventLoop p vt ty w s now = Some l0" "drive vt prog rounds l0 = Some l"
    and "runOnce vt (computeTimeoutMs l) (el_core l) = Some core"
  shows "\<exists>l' due. loop_turn vt prog slept l = Some l' \<and> sorted (map fst due) \<and>
     mset due = filter_mset (\<lambda>x. fst x \<le> el_now l + int slept) (mset (el_timers l)) \<and>
     el_log l' = el_log l @ map (the \<circ> snd) due @ map the (el_tasks l) @
                 concat (map (\<lambda>t. map the (posted (prog t))) (map (the \<circ> snd) due)) \<and>
     el_tasks l' = concat (map (\<lambda>t. posted (prog (the t)))
                     (el_tasks l @ concat (map (\<lambda>t. posted (prog t)) (map (the \<circ> snd) due))))"
proof -
  have "el_ok l" using drive_ok [OF assms(2) new_EventLoop_ok [OF assms(1)]] .
  from loop_turn_law [OF this assms(3), of prog slept] show ?thesis by metis
qed

lemma timeout_first_deadline:
  assumes "el_ok l" "(d, t) \<in> set (el_timers l)"
  obtains d' t' where "timers_top (el_timers l) = Some (d', t')" "d' \<le> d"
  using assms timers_top_first [of "el_timers l" _ "(d, t)"]
  by (cases "el_timers l") (auto simp: el_ok_def timers_top_def)

text \<open>
  C23. The wait never makes a timer late: the timeout a loop hands to its backend is -1 only when no
  exit, no task and no timer is pending, otherwise between 0 and the largest \<^verbatim>\<open>int\<close>, zero while an
  exit or a task is pending, and so short that the first deadline is not passed.
\<close>

theorem timeout_respects_deadlines:
  assumes "new_EventLoop p vt ty w s now = Some l0" "drive vt prog rounds l0 = Some l"
  shows "(computeTimeoutMs l = -1 \<longleftrightarrow> \<not> el_exit l \<and> el_tasks l = [] \<and> el_timers l = []) \<and>
     -1 \<le> computeTimeoutMs l \<and> computeTimeoutMs l \<le> INT_MAX \<and>
     (el_exit l \<or> el_tasks l \<noteq> [] \<longrightarrow> computeTimeoutMs l = 0) \<and>
     (\<forall>(d, t) \<in> set (el_timers l). el_now l + computeTimeoutMs l * ms \<le> max d (el_now l))"
proof -
  have ok: "el_ok l" using drive_ok [OF assms(2) new_EventLoop_ok [OF assms(1)]] .
  have pos: "0 \<le> m div ms" "m div ms * ms \<le> m" if "0 < m" for m :: int
    using that by (auto simp: ms_def)
  have clamp: "x * ms \<le> y * ms" if "x \<le> y" for x y :: int using that by (simp add: ms_def)
  have timers: "el_now l + computeTimeoutMs l * ms \<le> max d (el_now l)" if dt: "(d, t) \<in> set (el_timers l)" for d t
  proof -
    obtain d' t' where top: "timers_top (el_timers l) = Some (d', t')" "d' \<le> d"
      using timeout_first_deadline [OF ok dt] .
    show ?thesis
      using top pos [of "d' - el_now l"] clamp [of INT_MAX "(d' - el_now l) div ms"]
      by (auto simp: computeTimeoutMs_def Let_def)
  qed
  have range: "-1 \<le> computeTimeoutMs l \<and> computeTimeoutMs l \<le> INT_MAX"
  proof (cases "timers_top (el_timers l)")
    case (Some x)
    with pos(1) [of "fst x - el_now l"] show ?thesis
      by (cases x) (auto simp: computeTimeoutMs_def Let_def INT_MAX_def)
  qed (auto simp: computeTimeoutMs_def INT_MAX_def)
  have top_Nil: "timers_top (el_timers l) = None \<longleftrightarrow> el_timers l = []"
    by (simp add: timers_top_def split: list.split)
  have minus: "computeTimeoutMs l = -1 \<longleftrightarrow> \<not> el_exit l \<and> el_tasks l = [] \<and> el_timers l = []"
  proof (cases "timers_top (el_timers l)")
    case (Some x)
    with pos(1) [of "fst x - el_now l"] top_Nil show ?thesis
      by (cases x) (auto simp: computeTimeoutMs_def Let_def INT_MAX_def)
  qed (use top_Nil in \<open>auto simp: computeTimeoutMs_def exitRequested_def\<close>)
  show ?thesis using timers range minus by (auto simp: computeTimeoutMs_def exitRequested_def)
qed

section \<open>A concrete run\<close>

text \<open>Task 0 posts task 1 and a timer for task 2 five milliseconds ahead; \<open>poll\<close> reports nothing.\<close>

definition demo_prog :: "nat \<Rightarrow> (nat, nat) el_call list" where
  "demo_prog t = (if t = 0 then [ElPost (Some 1), ElPostDelayed (Some 2) 5, ElElapse 7] else [])"

definition demo_vt :: "((nat, nat) poll_world, nat, PollRawEvent) vtable" where
  "demo_vt = poll_vtable (\<lambda>_. None)"

definition demo_world :: "(nat, nat) poll_world" where
  "demo_world = poll_fresh LINUX_POLL (\<lambda>s. 3 + int s) (\<lambda>_. 1) 0 (replicate 5 (PollReturn 0 (\<lambda>_. 0)))"

definition demo_loop :: "(nat, (nat, nat) poll_world, nat) EventLoop" where
  "demo_loop = the (new_EventLoop Linux demo_vt LINUX_POLL demo_world 0 1000)"

definition demo_rounds :: "((nat, nat) el_call list \<times> nat) list" where
  "demo_rounds = [([ElPost (Some 0), ElPostDelayed (Some 3) 1], 0)]"

definition demo_driven :: "(nat, (nat, nat) poll_world, nat) EventLoop" where
  "demo_driven = the (drive demo_vt demo_prog demo_rounds demo_loop)"

definition demo_once :: "((nat, nat) poll_world, nat) IEventLoopCore" where
  "demo_once = the (runOnce demo_vt (computeTimeoutMs demo_driven) (el_core demo_driven))"

lemma demo_loop_runs:
  "new_EventLoop Linux demo_vt LINUX_POLL demo_world 0 1000 = Some demo_loop"
  "drive demo_vt demo_prog demo_rounds demo_loop = Some demo_driven"
  "runOnce demo_vt (computeTimeoutMs demo_driven) (el_core demo_driven) = Some demo_once"
proof -
  have "\<not> Option.is_none (new_EventLoop Linux demo_vt LINUX_POLL demo_world 0 1000 ::
          (nat, (nat, nat) poll_world, nat) EventLoop option)" by code_simp
  then show "new_EventLoop Linux demo_vt LINUX_POLL demo_world 0 1000 = Some demo_loop"
    unfolding demo_loop_def by (rule some_the)
  have "\<not> Option.is_none (drive demo_vt demo_prog demo_rounds demo_loop)" by code_simp
  then show "drive demo_vt demo_prog demo_rounds demo_loop = Some demo_driven"
    unfolding demo_driven_def by (rule some_the)
  have "\<not> Option.is_none (runOnce demo_vt (computeTimeoutMs demo_driven) (el_core demo_driven))" by code_simp
  then show "runOnce demo_vt (computeTimeoutMs demo_driven) (el_core demo_driven) = Some demo_once"
    unfolding demo_once_def by (rule some_the)
qed

theorem loop_turn_runs_what_is_due_witness:
  "el_log demo_driven = [0] \<and> el_tasks demo_driven = [Some 1] \<and>
   map fst (el_timers demo_driven) = [1001000, 5001000] \<and>
   (\<exists>l'. loop_turn demo_vt demo_prog 2000000 demo_driven = Some l' \<and> el_log l' = [0, 3, 1])"
proof -
  have facts: "el_log demo_driven = [0]" "el_tasks demo_driven = [Some 1]"
    "el_timers demo_driven = [(1001000, Some 3), (5001000, Some 2)]" "el_now demo_driven = 1007"
    by code_simp+
  obtain l' due where l': "loop_turn demo_vt demo_prog 2000000 demo_driven = Some l'"
    and due: "mset due = filter_mset (\<lambda>x. fst x \<le> el_now demo_driven + int 2000000) (mset (el_timers demo_driven))"
    and log: "el_log l' = el_log demo_driven @ map (the \<circ> snd) due @ map the (el_tasks demo_driven) @
                 concat (map (\<lambda>t. map the (posted (demo_prog t))) (map (the \<circ> snd) due))"
    using loop_turn_runs_what_is_due [OF demo_loop_runs, of 2000000] by blast
  have "mset due = {#(1001000, Some 3)#}" using due facts by simp
  then have "due = [(1001000, Some 3)]"
    by (metis mset_single_iff)
  with l' log facts show ?thesis by (auto simp: demo_prog_def)
qed

theorem timeout_respects_deadlines_witness:
  "computeTimeoutMs demo_driven = 0 \<and> -1 \<le> computeTimeoutMs demo_driven \<and>
   computeTimeoutMs (demo_driven\<lparr>el_tasks := []\<rparr>) = 0"
proof -
  have "computeTimeoutMs (demo_driven\<lparr>el_tasks := []\<rparr>) = 0" "el_tasks demo_driven \<noteq> []" by code_simp+
  with timeout_respects_deadlines [OF demo_loop_runs(1,2)] show ?thesis by blast
qed

end
