(* ===== verification/Hive.thy ===== *)
theory Hive
  imports Task_Deque Event_Loop
begin

text \<open>
  \<^verbatim>\<open>platform/schedule/hive.h\<close>, \<^verbatim>\<open>hive.cc\<close> and the posting side of \<^verbatim>\<open>io_worker.h\<close> and \<^verbatim>\<open>io_worker.cc\<close>:
  the scheduler's state (workers, global pools, flags) and every call a user can make on it. Each
  critical section or atomic access is one operation, so calls of different threads are sequences
  of these operations in any order. The random choice of a worker reads a stream \<open>draw\<close>; the clock
  is a field. The fields \<open>h_posted\<close>, \<open>h_log\<close>, \<open>h_dropped\<close> and \<open>h_pushes\<close> are history.
\<close>

section \<open>Queues\<close>

text \<open>
  \<^verbatim>\<open>MPSCQueue\<close> and \<^verbatim>\<open>GlobalMicroPool\<close>, \<^verbatim>\<open>GlobalComputePool\<close>: a list under a mutex and an atomic
  count next to it.
\<close>

record 'a MPSCQueue =
  mq_items :: "'a list"
  mq_size :: size_t

definition mpsc_empty :: "'a MPSCQueue" where
  "mpsc_empty = \<lparr>mq_items = [], mq_size = 0\<rparr>"

definition mpsc_push :: "'a \<Rightarrow> 'a MPSCQueue \<Rightarrow> 'a MPSCQueue" where
  "mpsc_push v q = q\<lparr>mq_items := mq_items q @ [v], mq_size := mq_size q + 1\<rparr>"

definition mpsc_drain :: "'a MPSCQueue \<Rightarrow> 'a list \<times> 'a MPSCQueue" where
  "mpsc_drain q =
     (let local = mq_items q; q = q\<lparr>mq_items := []\<rparr> in
      if local = [] then ([], q)
      else (local, q\<lparr>mq_size := mq_size q - word_of_nat (length local)\<rparr>))"

definition mpsc_approxSize :: "'a MPSCQueue \<Rightarrow> size_t" where
  "mpsc_approxSize q = mq_size q"

type_synonym 't pool = "'t fn MPSCQueue"

definition micro_push :: "'t fn \<Rightarrow> 't pool \<Rightarrow> 't pool" where
  "micro_push task p =
     (if task = None then p else p\<lparr>mq_items := mq_items p @ [task], mq_size := mq_size p + 1\<rparr>)"

definition micro_tryPopBatch :: "size_t \<Rightarrow> 't pool \<Rightarrow> 't fn list \<times> 't pool" where
  "micro_tryPopBatch max_n p =
     (if max_n = 0 then ([], p)
      else if mq_items p = [] then ([], p)
      else
        (let n = min (unat max_n) (length (mq_items p));
             local = take n (mq_items p)
         in (local, p\<lparr>mq_items := drop n (mq_items p), mq_size := mq_size p - word_of_nat (length local)\<rparr>)))"

definition compute_push :: "'t fn \<Rightarrow> 't pool \<Rightarrow> 't pool" where
  "compute_push task p =
     (if task = None then p else p\<lparr>mq_items := mq_items p @ [task], mq_size := mq_size p + 1\<rparr>)"

text \<open>The wait on the condition variable does not return (\<open>None\<close>) while the pool is empty and no exit is requested.\<close>

definition compute_waitPopBatch :: "size_t \<Rightarrow> bool \<Rightarrow> 't pool \<Rightarrow> ('t fn list \<times> 't pool) option" where
  "compute_waitPopBatch max_n exit_requested p =
     (if max_n = 0 then Some ([], p)
      else if mq_items p = [] \<and> \<not> exit_requested then None
      else if mq_items p = [] then Some ([], p)
      else
        (let n = min (unat max_n) (length (mq_items p))
         in Some (take n (mq_items p),
                  p\<lparr>mq_items := drop n (mq_items p), mq_size := mq_size p - word_of_nat n\<rparr>)))"

section \<open>State\<close>

datatype Kind = PrivateTask | AddTimer | StopWorker

record 't InboundCommand =
  ic_kind :: Kind
  ic_task :: "'t fn"
  ic_deadline :: int

record Options =
  io_backend :: BackendType
  local_queue_capacity :: size_t
  global_batch_size :: size_t
  local_batch_size :: size_t
  victim_minimum_size :: size_t
  steal_batch_factor :: size_t
  compute_batch_size :: size_t
  ktries :: size_t
  will_steal :: bool

definition default_backend :: "platform \<Rightarrow> BackendType" where
  "default_backend p = (case p of Linux \<Rightarrow> LINUX_EPOLL | MacOS \<Rightarrow> MACOS_KQUEUE | Windows \<Rightarrow> WINDOWS_IOCP)"

definition default_options :: "platform \<Rightarrow> Options" where
  "default_options p =
     \<lparr>io_backend = default_backend p, local_queue_capacity = 256, global_batch_size = 16,
      local_batch_size = 64, victim_minimum_size = 32, steal_batch_factor = 2,
      compute_batch_size = 4, ktries = 4, will_steal = True\<rparr>"

text \<open>\<open>w_bound\<close>: \<open>hive_\<close> is set. \<open>w_wakeup\<close>: there is a wakeup watcher; \<open>w_notified\<close> counts its notifications.\<close>

record 't IOWorker =
  w_bound :: bool
  w_id :: nat
  w_options :: Options
  w_initialized :: bool
  w_wakeup :: bool
  w_inbound :: "'t InboundCommand MPSCQueue"
  w_private :: "'t fn list"
  w_local :: "'t task_deque"
  w_timers :: "'t timers"
  w_timer_count :: u32
  w_stop :: bool
  w_sleeping :: bool
  w_notified :: nat

record ComputeWorker =
  cw_bound :: bool
  cw_id :: nat
  cw_options :: Options
  cw_initialized :: bool
  cw_stop :: bool
  cw_sleeping :: bool

record 't Hive =
  h_options :: Options
  h_io :: "'t IOWorker list"
  h_compute_workers :: "ComputeWorker list"
  h_micro :: "'t pool"
  h_compute :: "'t pool"
  h_started :: bool
  h_exit :: bool
  h_now :: int
  h_rng :: nat
  h_posted :: "'t list"
  h_log :: "'t list"
  h_dropped :: "'t list"
  h_pushes :: nat

datatype hive_error =
    AttachAfterRun | WorkerNull | AlreadyBound | UnsupportedBackend | AlreadyStarted | NoWorker | NotBound

definition new_Hive :: "Options \<Rightarrow> int \<Rightarrow> 't Hive" where
  "new_Hive options now =
     \<lparr>h_options = options, h_io = [], h_compute_workers = [], h_micro = mpsc_empty, h_compute = mpsc_empty,
      h_started = False, h_exit = False, h_now = now, h_rng = 0, h_posted = [], h_log = [],
      h_dropped = [], h_pushes = 0\<rparr>"

text \<open>The constructor of a worker builds its deque, which may never return.\<close>

definition new_IOWorker :: "Options \<Rightarrow> 't IOWorker option" where
  "new_IOWorker options =
     map_option (\<lambda>dq. \<lparr>w_bound = False, w_id = 0, w_options = options, w_initialized = False, w_wakeup = False,
        w_inbound = mpsc_empty, w_private = [], w_local = dq, w_timers = [], w_timer_count = 0,
        w_stop = False, w_sleeping = False, w_notified = 0\<rparr>)
       (TaskDeque (local_queue_capacity options))"

definition new_ComputeWorker :: "Options \<Rightarrow> ComputeWorker" where
  "new_ComputeWorker options =
     \<lparr>cw_bound = False, cw_id = 0, cw_options = options, cw_initialized = False, cw_stop = False, cw_sleeping = False\<rparr>"

section \<open>Binding and attaching workers\<close>

definition bind_worker :: "platform \<Rightarrow> nat \<Rightarrow> 't IOWorker \<Rightarrow> hive_error + 't IOWorker" where
  "bind_worker p worker_id w =
     (if w_initialized w then Inl AlreadyBound
      else
        (case createEventLoopCore p (io_backend (w_options w)) of
           None \<Rightarrow> Inl UnsupportedBackend
         | Some _ \<Rightarrow>
             (let w = w\<lparr>w_bound := True, w_id := worker_id, w_initialized := True\<rparr> in
              case p of
                Linux \<Rightarrow>
                  (if io_backend (w_options w) = LINUX_EPOLL \<or> io_backend (w_options w) = LINUX_POLL
                   then Inr (w\<lparr>w_wakeup := True\<rparr>) else Inl UnsupportedBackend)
              | MacOS \<Rightarrow>
                  (if io_backend (w_options w) = MACOS_KQUEUE \<or> io_backend (w_options w) = MACOS_COCOA
                   then Inr (w\<lparr>w_wakeup := True\<rparr>)
                   else if io_backend (w_options w) = MACOS_POLL then Inr (w\<lparr>w_wakeup := False\<rparr>)
                   else Inl UnsupportedBackend)
              | Windows \<Rightarrow>
                  (if io_backend (w_options w) = WINDOWS_IOCP \<or> io_backend (w_options w) = WINDOWS_WIN32
                   then Inr (w\<lparr>w_wakeup := True\<rparr>) else Inl UnsupportedBackend))))"

definition bind_compute :: "nat \<Rightarrow> ComputeWorker \<Rightarrow> hive_error + ComputeWorker" where
  "bind_compute worker_id w =
     (if cw_initialized w then Inl AlreadyBound
      else Inr (w\<lparr>cw_bound := True, cw_id := worker_id, cw_initialized := True\<rparr>))"

definition attachIOWorker :: "platform \<Rightarrow> 't IOWorker option \<Rightarrow> 't Hive \<Rightarrow> hive_error + nat \<times> 't Hive" where
  "attachIOWorker p worker h =
     (if h_started h then Inl AttachAfterRun
      else
        (case worker of
           None \<Rightarrow> Inl WorkerNull
         | Some w \<Rightarrow>
             (let id = length (h_io h) in
              case bind_worker p id w of
                Inl e \<Rightarrow> Inl e
              | Inr w \<Rightarrow> Inr (id, h\<lparr>h_io := h_io h @ [w]\<rparr>))))"

definition attachComputeWorker :: "ComputeWorker option \<Rightarrow> 't Hive \<Rightarrow> hive_error + nat \<times> 't Hive" where
  "attachComputeWorker worker h =
     (if h_started h then Inl AttachAfterRun
      else
        (case worker of
           None \<Rightarrow> Inl WorkerNull
         | Some w \<Rightarrow>
             (let id = length (h_compute_workers h) in
              case bind_compute id w of
                Inl e \<Rightarrow> Inl e
              | Inr w \<Rightarrow> Inr (id, h\<lparr>h_compute_workers := h_compute_workers h @ [w]\<rparr>))))"

definition IOWorkerCount :: "'t Hive \<Rightarrow> nat" where
  "IOWorkerCount h = length (h_io h)"

definition workerAt :: "nat \<Rightarrow> 't Hive \<Rightarrow> 't IOWorker option" where
  "workerAt idx h = (if idx \<ge> length (h_io h) then None else Some (h_io h ! idx))"

section \<open>Posting\<close>

definition upd_worker :: "nat \<Rightarrow> ('t IOWorker \<Rightarrow> 't IOWorker) \<Rightarrow> 't Hive \<Rightarrow> 't Hive" where
  "upd_worker i f h = h\<lparr>h_io := (h_io h)[i := f (h_io h ! i)]\<rparr>"

definition requestStop :: "'t IOWorker \<Rightarrow> 't IOWorker" where
  "requestStop w = w\<lparr>w_stop := True\<rparr>"

definition wakeup :: "'t IOWorker \<Rightarrow> 't IOWorker" where
  "wakeup w = (if w_wakeup w then w\<lparr>w_notified := w_notified w + 1\<rparr> else w)"

definition postPrivate :: "'t fn \<Rightarrow> 't IOWorker \<Rightarrow> 't IOWorker" where
  "postPrivate task w =
     (if task = None then w
      else w\<lparr>w_inbound := mpsc_push \<lparr>ic_kind = PrivateTask, ic_task = task, ic_deadline = 0\<rparr> (w_inbound w)\<rparr>)"

definition addTimer :: "int \<Rightarrow> 't fn \<Rightarrow> 't IOWorker \<Rightarrow> 't IOWorker" where
  "addTimer deadline task w =
     (if task = None then w
      else w\<lparr>w_inbound := mpsc_push \<lparr>ic_kind = AddTimer, ic_task = task, ic_deadline = deadline\<rparr> (w_inbound w)\<rparr>)"

definition note_post :: "'t fn \<Rightarrow> 't Hive \<Rightarrow> 't Hive" where
  "note_post task h = (case task of None \<Rightarrow> h | Some t \<Rightarrow> h\<lparr>h_posted := h_posted h @ [t]\<rparr>)"

text \<open>The first sleeping worker of the list is notified.\<close>

definition wakeOneIdleIOWorker :: "'t Hive \<Rightarrow> 't Hive" where
  "wakeOneIdleIOWorker h =
     (case find (\<lambda>i. w_sleeping (h_io h ! i)) [0..<length (h_io h)] of
        None \<Rightarrow> h
      | Some i \<Rightarrow> upd_worker i wakeup h)"

text \<open>Two random workers, the one with fewer timers wins; the result is its index.\<close>

definition pickDelayedWorker :: "(nat \<Rightarrow> nat) \<Rightarrow> 't Hive \<Rightarrow> nat option \<times> 't Hive" where
  "pickDelayedWorker draw h =
     (let n = length (h_io h) in
      if n = 0 then (None, h)
      else if n = 1 then (Some 0, h)
      else
        (let pickA = draw (h_rng h) mod n;
             pickB = draw (h_rng h + 1) mod n;
             pickB = (if pickA = pickB then (pickB + 1) mod n else pickB);
             h = h\<lparr>h_rng := h_rng h + 2\<rparr>
         in (Some (if w_timer_count (h_io h ! pickA) \<le> w_timer_count (h_io h ! pickB) then pickA else pickB), h)))"

definition postIO :: "'t fn \<Rightarrow> 't Hive \<Rightarrow> 't Hive" where
  "postIO task h =
     (if task = None then h
      else wakeOneIdleIOWorker (note_post task (h\<lparr>h_micro := micro_push task (h_micro h)\<rparr>)))"

definition postDelayed :: "(nat \<Rightarrow> nat) \<Rightarrow> 't fn \<Rightarrow> int \<Rightarrow> 't Hive \<Rightarrow> 't Hive" where
  "postDelayed draw task delay h =
     (if task = None then h
      else
        (let delay = (if delay < 0 then 0 else delay);
             (worker, h) = pickDelayedWorker draw h
         in case worker of
              None \<Rightarrow> h
            | Some i \<Rightarrow>
                upd_worker i wakeup
                  (note_post task (upd_worker i (addTimer (h_now h + delay * ms) task) h))))"

definition postToWorker :: "nat \<Rightarrow> 't fn \<Rightarrow> 't Hive \<Rightarrow> 't Hive" where
  "postToWorker worker_id task h =
     (if task = None then h
      else
        (case workerAt worker_id h of
           None \<Rightarrow> h
         | Some _ \<Rightarrow>
             upd_worker worker_id wakeup (note_post task (upd_worker worker_id (postPrivate task) h))))"

definition postCompute :: "'t fn \<Rightarrow> 't Hive \<Rightarrow> 't Hive" where
  "postCompute task h =
     (if task = None then h else note_post task (h\<lparr>h_compute := compute_push task (h_compute h)\<rparr>))"

definition requestExit :: "'t Hive \<Rightarrow> 't Hive" where
  "requestExit h =
     (if h_exit h then h
      else
        h\<lparr>h_exit := True,
          h_io := map (\<lambda>w. wakeup (requestStop w)) (h_io h),
          h_compute_workers := map (\<lambda>w. w\<lparr>cw_stop := True\<rparr>) (h_compute_workers h)\<rparr>)"

definition getExitRequested :: "'t Hive \<Rightarrow> bool" where
  "getExitRequested h = h_exit h"

definition tryPopGlobalMicroBatch :: "size_t \<Rightarrow> 't Hive \<Rightarrow> 't fn list \<times> 't Hive" where
  "tryPopGlobalMicroBatch max_n h =
     (let (out, p) = micro_tryPopBatch max_n (h_micro h) in (out, h\<lparr>h_micro := p\<rparr>))"

definition tryPopGlobalComputeBatch :: "size_t \<Rightarrow> 't Hive \<Rightarrow> ('t fn list \<times> 't Hive) option" where
  "tryPopGlobalComputeBatch max_n h =
     map_option (\<lambda>(out, p). (out, h\<lparr>h_compute := p\<rparr>)) (compute_waitPopBatch max_n (h_exit h) (h_compute h))"

definition globalMicroApproxSize :: "'t Hive \<Rightarrow> size_t" where
  "globalMicroApproxSize h = mpsc_approxSize (h_micro h)"

text \<open>
  The start of \<^verbatim>\<open>Hive::run\<close>: the flag, the check for workers, and the indices of the workers that
  get a thread each; worker 0 runs on the caller's. After worker 0 returns the code calls
  \<^verbatim>\<open>requestExit\<close> and joins the threads.
\<close>

definition hive_start :: "'t Hive \<Rightarrow> hive_error + nat list \<times> nat list \<times> 't Hive" where
  "hive_start h =
     (if h_started h then Inl AlreadyStarted
      else
        (let h = h\<lparr>h_started := True\<rparr> in
         if h_io h = [] then Inl NoWorker
         else Inr ([1..<length (h_io h)], [0..<length (h_compute_workers h)], h)))"

section \<open>User code\<close>

text \<open>A task is the calls it makes on the hive and the time it takes.\<close>

datatype 't api =
    PostIO "'t fn"
  | PostDelayed "'t fn" int
  | PostToWorker nat "'t fn"
  | PostCompute "'t fn"
  | RequestExit
  | StopIOWorker nat
  | Elapse nat

fun do_api :: "(nat \<Rightarrow> nat) \<Rightarrow> 't api \<Rightarrow> 't Hive \<Rightarrow> 't Hive" where
  "do_api draw (PostIO t) h = postIO t h"
| "do_api draw (PostDelayed t d) h = postDelayed draw t d h"
| "do_api draw (PostToWorker i t) h = postToWorker i t h"
| "do_api draw (PostCompute t) h = postCompute t h"
| "do_api draw RequestExit h = requestExit h"
| "do_api draw (StopIOWorker i) h = (if i < length (h_io h) then upd_worker i requestStop h else h)"
| "do_api draw (Elapse n) h = h\<lparr>h_now := h_now h + int n\<rparr>"

definition call_task :: "('t \<Rightarrow> 't api list) \<Rightarrow> (nat \<Rightarrow> nat) \<Rightarrow> 't \<Rightarrow> 't Hive \<Rightarrow> 't Hive" where
  "call_task prog draw t h = fold (do_api draw) (prog t) (h\<lparr>h_log := h_log h @ [t]\<rparr>)"

lemmas hive_ops [sched_simps] = mpsc_push_def micro_push_def compute_push_def upd_worker_def requestStop_def
  wakeup_def postPrivate_def addTimer_def note_post_def postIO_def postToWorker_def postCompute_def
  requestExit_def

end
