(* ===== verification/Io_Worker.thy ===== *)
theory Io_Worker
  imports Hive
begin

text \<open>
  \<^verbatim>\<open>platform/schedule/io_worker.cc\<close>: the phases of a worker's loop on the hive's state, for the worker
  with index \<open>i\<close>. Callbacks that run inside \<^verbatim>\<open>core_->runOnce\<close> are given by the calls they make. The
  loops carry fuel equal to the length of the queue they empty; \<open>private_loop_done\<close> and
  \<open>timer_loop_done\<close> show that it is enough. \<^verbatim>\<open>stealOnce\<close> divides by an option that may be zero:
  undefined behaviour is the result \<open>None\<close>.
\<close>

section \<open>Definitions\<close>

abbreviation worker :: "'t Hive \<Rightarrow> nat \<Rightarrow> 't IOWorker" where
  "worker h i \<equiv> h_io h ! i"

definition stopping :: "nat \<Rightarrow> 't Hive \<Rightarrow> bool" where
  "stopping i h \<longleftrightarrow> w_stop (worker h i) \<or> (w_bound (worker h i) \<and> getExitRequested h)"

definition hasImmediateWork :: "nat \<Rightarrow> 't Hive \<Rightarrow> bool" where
  "hasImmediateWork i h =
     (if \<not> w_bound (worker h i) then True
      else if w_stop (worker h i) \<or> getExitRequested h then True
      else if mpsc_approxSize (w_inbound (worker h i)) \<noteq> 0 then True
      else if w_private (worker h i) \<noteq> [] then True
      else if approxSize (w_local (worker h i)) \<noteq> 0 then True
      else if globalMicroApproxSize h \<noteq> 0 then True
      else False)"

definition computeNextTimeoutMs :: "nat \<Rightarrow> 't Hive \<Rightarrow> int" where
  "computeNextTimeoutMs i h =
     (if \<not> w_bound (worker h i) then 0
      else if w_stop (worker h i) \<or> getExitRequested h then 0
      else if hasImmediateWork i h then 0
      else
        (case timers_top (w_timers (worker h i)) of
           None \<Rightarrow> -1
         | Some (deadline, _) \<Rightarrow>
             (if deadline \<le> h_now h then 0
              else
                (let m = (deadline - h_now h) div ms
                 in if m > INT_MAX then INT_MAX else m))))"

definition inbound_cmd :: "'t InboundCommand \<Rightarrow> 't IOWorker \<Rightarrow> 't IOWorker" where
  "inbound_cmd cmd w =
     (case ic_kind cmd of
        PrivateTask \<Rightarrow> (if ic_task cmd \<noteq> None then w\<lparr>w_private := w_private w @ [ic_task cmd]\<rparr> else w)
      | AddTimer \<Rightarrow>
          (if ic_task cmd \<noteq> None then
             w\<lparr>w_timers := timers_push (ic_deadline cmd, ic_task cmd) (w_timers w),
               w_timer_count := w_timer_count w + 1\<rparr>
           else w)
      | StopWorker \<Rightarrow> w\<lparr>w_stop := True\<rparr>)"

definition drainInbound :: "nat \<Rightarrow> 't Hive \<Rightarrow> 't Hive" where
  "drainInbound i h =
     (let (inbound_tmp, q) = mpsc_drain (w_inbound (worker h i));
          h = upd_worker i (\<lambda>w. w\<lparr>w_inbound := q\<rparr>) h
      in if inbound_tmp = [] then h else upd_worker i (fold inbound_cmd inbound_tmp) h)"

definition run_fn :: "('t \<Rightarrow> 't api list) \<Rightarrow> (nat \<Rightarrow> nat) \<Rightarrow> 't fn \<Rightarrow> 't Hive \<Rightarrow> 't Hive" where
  "run_fn prog draw task h = (case task of None \<Rightarrow> h | Some t \<Rightarrow> call_task prog draw t h)"

fun private_loop :: "('t \<Rightarrow> 't api list) \<Rightarrow> (nat \<Rightarrow> nat) \<Rightarrow> nat \<Rightarrow> nat \<Rightarrow> 't Hive \<Rightarrow> 't Hive" where
  "private_loop prog draw i 0 h = h"
| "private_loop prog draw i (Suc n) h =
     (case w_private (worker h i) of
        [] \<Rightarrow> h
      | task # rest \<Rightarrow>
          (let h = upd_worker i (\<lambda>w. w\<lparr>w_private := rest\<rparr>) h;
               h = run_fn prog draw task h
           in if stopping i h then h else private_loop prog draw i n h))"

definition runPrivateTasks :: "('t \<Rightarrow> 't api list) \<Rightarrow> (nat \<Rightarrow> nat) \<Rightarrow> nat \<Rightarrow> 't Hive \<Rightarrow> 't Hive" where
  "runPrivateTasks prog draw i h = private_loop prog draw i (length (w_private (worker h i))) h"

fun timer_loop :: "('t \<Rightarrow> 't api list) \<Rightarrow> (nat \<Rightarrow> nat) \<Rightarrow> nat \<Rightarrow> int \<Rightarrow> nat \<Rightarrow> 't Hive \<Rightarrow> 't Hive" where
  "timer_loop prog draw i now 0 h = h"
| "timer_loop prog draw i now (Suc n) h =
     (case timers_top (w_timers (worker h i)) of
        None \<Rightarrow> h
      | Some (deadline, task) \<Rightarrow>
          if deadline \<le> now then
            (let h = upd_worker i (\<lambda>w. w\<lparr>w_timers := timers_pop (w_timers w),
                                         w_timer_count := w_timer_count w - 1\<rparr>) h;
                 h = run_fn prog draw task h
             in if stopping i h then h else timer_loop prog draw i now n h)
          else h)"

definition runExpiredTimers :: "('t \<Rightarrow> 't api list) \<Rightarrow> (nat \<Rightarrow> nat) \<Rightarrow> nat \<Rightarrow> 't Hive \<Rightarrow> 't Hive" where
  "runExpiredTimers prog draw i h =
     timer_loop prog draw i (h_now h) (length (w_timers (worker h i))) h"

text \<open>The budget counts down; the flag says whether a task was taken.\<close>

fun local_loop :: "('t \<Rightarrow> 't api list) \<Rightarrow> (nat \<Rightarrow> nat) \<Rightarrow> nat \<Rightarrow> nat \<Rightarrow> bool \<Rightarrow> 't Hive \<Rightarrow> bool \<times> 't Hive" where
  "local_loop prog draw i 0 did h = (did, h)"
| "local_loop prog draw i (Suc n) did h =
     (let (opt, dq) = tryPopBottom (w_local (worker h i));
          h = upd_worker i (\<lambda>w. w\<lparr>w_local := dq\<rparr>) h
      in case opt of
           None \<Rightarrow> (did, h)
         | Some task \<Rightarrow>
             (let h = run_fn prog draw task h
              in if stopping i h then (True, h) else local_loop prog draw i n True h))"

definition runLocalBatch :: "('t \<Rightarrow> 't api list) \<Rightarrow> (nat \<Rightarrow> nat) \<Rightarrow> nat \<Rightarrow> 't Hive \<Rightarrow> bool \<times> 't Hive" where
  "runLocalBatch prog draw i h =
     local_loop prog draw i (unat (local_batch_size (w_options (worker h i)))) False h"

text \<open>
  \<^verbatim>\<open>local_dq_.remainingSpace() != 0 && local_dq_.tryPushBottom(std::move(task))\<close>; a rejected push
  leaves the task where it was.
\<close>

definition push_local :: "nat \<Rightarrow> 't \<Rightarrow> 't Hive \<Rightarrow> bool \<times> 't Hive" where
  "push_local i t h =
     (if remainingSpace (w_local (worker h i)) \<noteq> 0 then
        (let (ok, dq) = tryPushBottom (Some t) (w_local (worker h i))
         in (ok, upd_worker i (\<lambda>w. w\<lparr>w_local := dq\<rparr>) (if ok then h\<lparr>h_pushes := h_pushes h + 1\<rparr> else h)))
      else (False, h))"

definition drop_tasks :: "'t fn list \<Rightarrow> 't Hive \<Rightarrow> 't Hive" where
  "drop_tasks ts h = h\<lparr>h_dropped := h_dropped h @ List.map_filter (\<lambda>t. t) ts\<rparr>"

text \<open>When the worker is stopping, the tasks of the batch that are left go out of scope.\<close>

fun harvest_loop :: "('t \<Rightarrow> 't api list) \<Rightarrow> (nat \<Rightarrow> nat) \<Rightarrow> nat \<Rightarrow> 't fn list \<Rightarrow> bool \<Rightarrow> 't Hive \<Rightarrow> bool \<times> 't Hive" where
  "harvest_loop prog draw i [] moved h = (moved, h)"
| "harvest_loop prog draw i (None # batch) moved h = harvest_loop prog draw i batch moved h"
| "harvest_loop prog draw i (Some t # batch) moved h =
     (let (ok, h) = push_local i t h in
      if ok then harvest_loop prog draw i batch True h
      else
        (let h = call_task prog draw t h
         in if stopping i h then (True, drop_tasks batch h) else harvest_loop prog draw i batch True h))"

definition harvestGlobalBatch :: "('t \<Rightarrow> 't api list) \<Rightarrow> (nat \<Rightarrow> nat) \<Rightarrow> nat \<Rightarrow> 't Hive \<Rightarrow> bool \<times> 't Hive" where
  "harvestGlobalBatch prog draw i h =
     (if \<not> w_bound (worker h i) then (False, h)
      else
        (let (batch, h) = tryPopGlobalMicroBatch (global_batch_size (w_options (worker h i))) h
         in if batch = [] then (False, h) else harvest_loop prog draw i batch False h))"

fun steal_loop :: "('t \<Rightarrow> 't api list) \<Rightarrow> (nat \<Rightarrow> nat) \<Rightarrow> nat \<Rightarrow> nat \<Rightarrow> nat \<Rightarrow> bool \<Rightarrow> 't Hive \<Rightarrow> bool \<times> 't Hive" where
  "steal_loop prog draw i victim 0 stole h = (stole, h)"
| "steal_loop prog draw i victim (Suc n) stole h =
     (let (stolen, dq) = tryStealTop (w_local (worker h victim));
          h = upd_worker victim (\<lambda>w. w\<lparr>w_local := dq\<rparr>) h
      in case stolen of
           None \<Rightarrow> (stole, h)
         | Some None \<Rightarrow> steal_loop prog draw i victim n True h
         | Some (Some t) \<Rightarrow>
             (let (ok, h) = push_local i t h
              in if ok then steal_loop prog draw i victim n True h
                 else steal_loop prog draw i victim n True (call_task prog draw t h)))"

text \<open>How many tasks a thief goes for, from the victim's size; \<open>None\<close> is a division by zero.\<close>

definition steal_count :: "Options \<Rightarrow> size_t \<Rightarrow> nat option" where
  "steal_count options peer_size =
     (if peer_size > max 8 (victim_minimum_size options) then
        (if steal_batch_factor options = 0 then None
         else Some (unat (peer_size div steal_batch_factor options)))
      else Some 0)"

fun steal_tries :: "('t \<Rightarrow> 't api list) \<Rightarrow> (nat \<Rightarrow> nat) \<Rightarrow> nat \<Rightarrow> nat \<Rightarrow> nat \<Rightarrow> 't Hive \<Rightarrow> (bool \<times> 't Hive) option" where
  "steal_tries prog draw i n 0 h = Some (False, h)"
| "steal_tries prog draw i n (Suc k) h =
     (let victim_id = draw (h_rng h) mod n;
          h = h\<lparr>h_rng := h_rng h + 1\<rparr>
      in if victim_id = w_id (worker h i) then steal_tries prog draw i n k h
         else
           (case workerAt victim_id h of
              None \<Rightarrow> steal_tries prog draw i n k h
            | Some victim \<Rightarrow>
                (case steal_count (w_options (worker h i)) (approxSize (w_local victim)) of
                   None \<Rightarrow> None
                 | Some steal_n \<Rightarrow>
                     (let (stole, h) = steal_loop prog draw i victim_id steal_n False h
                      in if stole then Some (True, h) else steal_tries prog draw i n k h))))"

definition stealOnce :: "('t \<Rightarrow> 't api list) \<Rightarrow> (nat \<Rightarrow> nat) \<Rightarrow> nat \<Rightarrow> 't Hive \<Rightarrow> (bool \<times> 't Hive) option" where
  "stealOnce prog draw i h =
     (if \<not> w_bound (worker h i) then Some (False, h)
      else
        (let n = IOWorkerCount h in
         if n \<le> 1 then Some (False, h)
         else if \<not> will_steal (w_options (worker h i)) then Some (False, h)
         else steal_tries prog draw i n (unat (ktries (w_options (worker h i)))) h))"

text \<open>
  One turn of \<^verbatim>\<open>IOWorker::run\<close>: \<open>io\<close> are the calls made by the callbacks of \<^verbatim>\<open>runOnce\<close> and \<open>slept\<close> the
  time it takes; the wakeup source, if it fired, is drained by its own callback. The flag says
  whether the loop goes on.
\<close>

definition enter_wait :: "nat \<Rightarrow> 't Hive \<Rightarrow> 't Hive" where
  "enter_wait i h =
     (if computeNextTimeoutMs i h \<noteq> 0 then upd_worker i (\<lambda>w. w\<lparr>w_sleeping := True\<rparr>) h else h)"

definition leave_wait :: "bool \<Rightarrow> nat \<Rightarrow> 't Hive \<Rightarrow> 't Hive" where
  "leave_wait will_block i h =
     upd_worker i (\<lambda>w. (if will_block then w\<lparr>w_sleeping := False\<rparr> else w)\<lparr>w_notified := 0\<rparr>) h"

definition after_wait :: "('t \<Rightarrow> 't api list) \<Rightarrow> (nat \<Rightarrow> nat) \<Rightarrow> nat \<Rightarrow> 't Hive \<Rightarrow> (bool \<times> 't Hive) option" where
  "after_wait prog draw i h =
     (let h = drainInbound i h;
          h = runPrivateTasks prog draw i h;
          h = runExpiredTimers prog draw i h
      in if w_stop (worker h i) \<or> getExitRequested h then Some (False, h)
         else
           (let (did, h) = runLocalBatch prog draw i h in
            if did then Some (True, h)
            else
              (let (moved, h) = harvestGlobalBatch prog draw i h in
               if moved then Some (True, h)
               else if \<not> will_steal (w_options (worker h i)) then Some (True, h)
               else map_option (\<lambda>(_, h). (True, h)) (stealOnce prog draw i h))))"

definition worker_turn ::
  "('t \<Rightarrow> 't api list) \<Rightarrow> (nat \<Rightarrow> nat) \<Rightarrow> nat \<Rightarrow> 't api list \<Rightarrow> nat \<Rightarrow> 't Hive \<Rightarrow> (bool \<times> 't Hive) option" where
  "worker_turn prog draw i io slept h =
     (let will_block = (computeNextTimeoutMs i h \<noteq> 0);
          h = enter_wait i h;
          h = h\<lparr>h_now := h_now h + int slept\<rparr>;
          h = fold (do_api draw) io h;
          h = leave_wait will_block i h
      in after_wait prog draw i h)"

text \<open>\<^verbatim>\<open>IOWorker::run\<close>, one entry of the list for each turn of the loop.\<close>

fun worker_loop ::
  "('t \<Rightarrow> 't api list) \<Rightarrow> (nat \<Rightarrow> nat) \<Rightarrow> nat \<Rightarrow> ('t api list \<times> nat) list \<Rightarrow> 't Hive \<Rightarrow> 't Hive option" where
  "worker_loop prog draw i [] h = Some h"
| "worker_loop prog draw i ((io, slept) # turns) h =
     (if w_stop (worker h i) \<or> getExitRequested h then Some h
      else
        (case worker_turn prog draw i io slept h of
           None \<Rightarrow> None
         | Some (go, h) \<Rightarrow> if go then worker_loop prog draw i turns h else Some h))"

definition worker_run ::
  "('t \<Rightarrow> 't api list) \<Rightarrow> (nat \<Rightarrow> nat) \<Rightarrow> nat \<Rightarrow> ('t api list \<times> nat) list \<Rightarrow> 't Hive \<Rightarrow>
   hive_error + 't Hive option" where
  "worker_run prog draw i turns h =
     (if \<not> w_initialized (worker h i) then Inl NotBound else Inr (worker_loop prog draw i turns h))"

section \<open>Posting from the worker itself\<close>

text \<open>
  \<^verbatim>\<open>postToLocal\<close> on worker \<open>i\<close>, called on the thread of worker \<open>current\<close>, if any. The last component
  is the task the caller runs inline, when the worker has no hive.
\<close>

definition postToLocal :: "nat option \<Rightarrow> nat \<Rightarrow> 't fn \<Rightarrow> 't Hive \<Rightarrow> 't Hive \<times> 't fn" where
  "postToLocal current i task h =
     (case task of
        None \<Rightarrow> (h, None)
      | Some t \<Rightarrow>
          if current \<noteq> Some i then
            (if w_bound (worker h i) then (postIO task h, None) else (h, task))
          else
            (let (ok, h) = push_local i t h in
             if ok then (note_post task h, None)
             else if w_bound (worker h i) then (postIO task h, None)
             else (h, task)))"

section \<open>Compute workers\<close>

text \<open>\<^verbatim>\<open>ComputeWorker::run\<close>: a batch is run until a stop; the rest of it goes out of scope.\<close>

definition cw_stopping :: "nat \<Rightarrow> 't Hive \<Rightarrow> bool" where
  "cw_stopping c h \<longleftrightarrow> cw_stop (h_compute_workers h ! c) \<or> getExitRequested h"

fun compute_batch :: "('t \<Rightarrow> 't api list) \<Rightarrow> (nat \<Rightarrow> nat) \<Rightarrow> nat \<Rightarrow> 't fn list \<Rightarrow> 't Hive \<Rightarrow> 't Hive" where
  "compute_batch prog draw c [] h = h"
| "compute_batch prog draw c (task # batch) h =
     (if cw_stopping c h then drop_tasks (task # batch) h
      else compute_batch prog draw c batch (run_fn prog draw task h))"

definition compute_turn :: "('t \<Rightarrow> 't api list) \<Rightarrow> (nat \<Rightarrow> nat) \<Rightarrow> nat \<Rightarrow> 't Hive \<Rightarrow> 't Hive option" where
  "compute_turn prog draw c h =
     (if cw_stopping c h then Some h
      else
        (let set_sleeping = (\<lambda>b h. h\<lparr>h_compute_workers := (h_compute_workers h)[c := (h_compute_workers h ! c)\<lparr>cw_sleeping := b\<rparr>]\<rparr>);
             h = set_sleeping True h
         in case tryPopGlobalComputeBatch (compute_batch_size (cw_options (h_compute_workers h ! c))) h of
              None \<Rightarrow> None
            | Some (batch, h) \<Rightarrow>
                if batch = [] then Some h
                else Some (compute_batch prog draw c batch (set_sleeping False h))))"

end
