(* ===== verification/Hive_Accounting.thy ===== *)
theory Hive_Accounting
  imports Io_Worker
begin

text \<open>
  No task is lost or run twice: every operation of the hive and every phase of a worker keeps the
  balance between the tasks accepted so far and the tasks run, dropped at a stop, or still queued
  somewhere. \<open>good m h\<close> says so with the tasks \<open>m\<close> in the hands of the running code, as long as the
  counters of the deques have not wrapped, together with the invariants of the queues.
\<close>

section \<open>What is queued\<close>

definition fns :: "'t fn list \<Rightarrow> 't multiset" where
  "fns xs = mset (List.map_filter (\<lambda>x. x) xs)"

lemma fns_simps [simp]:
  "fns [] = {#}" "fns (None # xs) = fns xs" "fns (Some t # xs) = add_mset t (fns xs)"
  "fns (xs @ ys) = fns xs + fns ys"
  by (simp_all add: fns_def List.map_filter_def)

lemma fns_take_drop: "fns (take n xs) + fns (drop n xs) = fns xs"
  by (metis append_take_drop_id fns_simps(4))

lemma fns_mset_cong: "mset xs = mset ys \<Longrightarrow> fns xs = fns ys"
  by (simp add: fns_def List.map_filter_def mset_filter)

definition w_tasks :: "'t IOWorker \<Rightarrow> 't multiset" where
  "w_tasks w = fns (map ic_task (mq_items (w_inbound w))) + fns (w_private w) +
               fns (map snd (w_timers w)) + mset (dq_contents (w_local w))"

definition queued :: "'t Hive \<Rightarrow> 't multiset" where
  "queued h = (\<Sum>w\<leftarrow>h_io h. w_tasks w) + fns (mq_items (h_micro h)) + fns (mq_items (h_compute h))"

definition wok :: "nat \<Rightarrow> 't IOWorker \<Rightarrow> bool" where
  "wok pushes w \<longleftrightarrow> dq_inv (w_local w) \<and> unat (dq_bottom (w_local w)) \<le> pushes \<and> timers_inv (w_timers w) \<and>
     w_timer_count w = word_of_nat (length (w_timers w)) \<and>
     (\<forall>cmd \<in> set (mq_items (w_inbound w)). ic_kind cmd \<noteq> StopWorker)"

definition acc :: "'t multiset \<Rightarrow> 't Hive \<Rightarrow> bool" where
  "acc m h \<longleftrightarrow> mset (h_posted h) = m + queued h + mset (h_log h) + mset (h_dropped h)"

definition good :: "'t multiset \<Rightarrow> 't Hive \<Rightarrow> bool" where
  "good m h \<longleftrightarrow> (h_pushes h < 2 ^ 64 - 1 \<longrightarrow> (\<forall>w \<in> set (h_io h). wok (h_pushes h) w) \<and> acc m h)"

section \<open>Changing one worker\<close>

lemma sum_list_upd:
  fixes g :: "'a \<Rightarrow> 'b::comm_monoid_add"
  assumes "i < length xs"
  shows "(\<Sum>x\<leftarrow>xs[i := y]. g x) + g (xs ! i) = (\<Sum>x\<leftarrow>xs. g x) + g y"
proof -
  have eq: "xs = take i xs @ xs ! i # drop (Suc i) xs" using assms by (simp add: id_take_nth_drop)
  have "xs[i := y] = take i xs @ y # drop (Suc i) xs" using assms by (simp add: upd_conv_take_nth_drop)
  then show ?thesis by (subst (3) eq) (simp add: ac_simps)
qed

lemma upd_worker_sel [simp]:
  "h_posted (upd_worker i f h) = h_posted h" "h_log (upd_worker i f h) = h_log h"
  "h_dropped (upd_worker i f h) = h_dropped h" "h_pushes (upd_worker i f h) = h_pushes h"
  "h_micro (upd_worker i f h) = h_micro h" "h_compute (upd_worker i f h) = h_compute h"
  "h_exit (upd_worker i f h) = h_exit h" "h_now (upd_worker i f h) = h_now h"
  "h_rng (upd_worker i f h) = h_rng h" "h_started (upd_worker i f h) = h_started h"
  "length (h_io (upd_worker i f h)) = length (h_io h)"
  "h_compute_workers (upd_worker i f h) = h_compute_workers h"
  by (simp_all add: upd_worker_def)

lemma upd_worker_nth [simp]:
  "i < length (h_io h) \<Longrightarrow> h_io (upd_worker i f h) ! j = (if j = i then f (h_io h ! i) else h_io h ! j)"
  by (simp add: upd_worker_def nth_list_update)

lemma queued_upd:
  "i < length (h_io h) \<Longrightarrow>
   queued (upd_worker i f h) + w_tasks (worker h i) = queued h + w_tasks (f (worker h i))"
  using sum_list_upd [of i "h_io h" w_tasks "f (worker h i)"]
  by (simp add: queued_def upd_worker_def ac_simps)

lemma good_upd:
  assumes "good m h" "i < length (h_io h)"
    and step: "\<And>w. w = worker h i \<Longrightarrow> h_pushes h < 2 ^ 64 - 1 \<Longrightarrow> wok (h_pushes h) w \<Longrightarrow>
           wok (h_pushes h) (f w) \<and> w_tasks (f w) + m' = w_tasks w + m"
  shows "good m' (upd_worker i f h)"
proof (cases "h_pushes h < 2 ^ 64 - 1")
  case True
  let ?w = "worker h i"
  have all: "\<forall>w \<in> set (h_io h). wok (h_pushes h) w" and acc: "acc m h"
    using assms(1) True by (auto simp: good_def)
  then have s: "wok (h_pushes h) (f ?w)" "w_tasks (f ?w) + m' = w_tasks ?w + m"
    using step [OF refl True] assms(2) by auto
  have "\<forall>w \<in> set (h_io (upd_worker i f h)). wok (h_pushes h) w"
    using all s(1) set_update_subset_insert [of "h_io h" i "f ?w"] by (auto simp: upd_worker_def)
  moreover have "m' + queued (upd_worker i f h) + w_tasks ?w = m + queued h + w_tasks ?w"
    using queued_upd [OF assms(2), of f] s(2) by (metis (no_types, lifting) add.assoc add.commute)
  then have "m' + queued (upd_worker i f h) = m + queued h" by simp
  with acc have "acc m' (upd_worker i f h)" by (simp add: acc_def)
  ultimately show ?thesis by (simp add: good_def)
qed (simp add: good_def)

text \<open>Changes that touch no queue.\<close>

definition same_queues :: "'t IOWorker \<Rightarrow> 't IOWorker \<Rightarrow> bool" where
  "same_queues w w' \<longleftrightarrow> w_inbound w' = w_inbound w \<and> w_private w' = w_private w \<and> w_local w' = w_local w \<and>
     w_timers w' = w_timers w \<and> w_timer_count w' = w_timer_count w"

lemma same_queues_law: "same_queues w w' \<Longrightarrow> wok n w' = wok n w \<and> w_tasks w' = w_tasks w"
  by (simp add: same_queues_def wok_def w_tasks_def)

lemma good_quiet:
  assumes "good m h" "i < length (h_io h)" "\<And>w. same_queues w (f w)"
  shows "good m (upd_worker i f h)"
  by (rule good_upd [OF assms(1,2)]) (use same_queues_law [OF assms(3)] in auto)

lemma same_queues_wakeup [simp]: "same_queues w (wakeup w)" "same_queues w (requestStop w)"
  by (auto simp: same_queues_def wakeup_def requestStop_def)

section \<open>The calls of the hive\<close>

lemma good_note_post: "good m h \<Longrightarrow> good (add_mset t m) (note_post (Some t) h)"
  by (simp add: good_def acc_def note_post_def queued_def)

lemma note_post_sel [simp]:
  "h_io (note_post t h) = h_io h" "h_micro (note_post t h) = h_micro h"
  "h_pushes (note_post t h) = h_pushes h" "h_now (note_post t h) = h_now h"
  by (auto simp: note_post_def split: option.split)

lemma good_wakeOne: "good m h \<Longrightarrow> good m (wakeOneIdleIOWorker h)"
  by (auto simp: wakeOneIdleIOWorker_def find_Some_iff split: option.split intro!: good_quiet)

lemma good_micro_push:
  "good (add_mset t m) h \<Longrightarrow> good m (h\<lparr>h_micro := micro_push (Some t) (h_micro h)\<rparr>)"
  by (simp add: good_def acc_def queued_def micro_push_def)

lemma good_compute_push:
  "good (add_mset t m) h \<Longrightarrow> good m (h\<lparr>h_compute := compute_push (Some t) (h_compute h)\<rparr>)"
  by (simp add: good_def acc_def queued_def compute_push_def)

lemma note_post_micro:
  "note_post t (h\<lparr>h_micro := p\<rparr>) = (note_post t h)\<lparr>h_micro := p\<rparr>"
  "note_post t (h\<lparr>h_compute := p\<rparr>) = (note_post t h)\<lparr>h_compute := p\<rparr>"
  "note_post t (upd_worker i f h) = upd_worker i f (note_post t h)"
  by (auto simp: note_post_def upd_worker_def split: option.split)

lemma good_postIO: "good m h \<Longrightarrow> good m (postIO t h)"
proof (cases t)
  case (Some x)
  assume "good m h"
  then have "good m ((note_post t h)\<lparr>h_micro := micro_push (Some x) (h_micro (note_post t h))\<rparr>)"
    unfolding Some by (intro good_micro_push good_note_post)
  then show ?thesis using Some by (simp add: postIO_def note_post_micro good_wakeOne)
qed (simp add: postIO_def)

lemma good_postCompute: "good m h \<Longrightarrow> good m (postCompute t h)"
proof (cases t)
  case (Some x)
  assume "good m h"
  moreover have "h_compute (note_post t h) = h_compute h" by (simp add: note_post_def split: option.split)
  ultimately show ?thesis
    using Some good_compute_push [OF good_note_post, of m h x] by (simp add: postCompute_def note_post_micro)
qed (simp add: postCompute_def)

lemma inbound_push_law:
  assumes "wok n w" "k \<noteq> StopWorker"
  shows "wok n (w\<lparr>w_inbound := mpsc_push \<lparr>ic_kind = k, ic_task = Some t, ic_deadline = d\<rparr> (w_inbound w)\<rparr>) \<and>
         w_tasks (w\<lparr>w_inbound := mpsc_push \<lparr>ic_kind = k, ic_task = Some t, ic_deadline = d\<rparr> (w_inbound w)\<rparr>) =
         add_mset t (w_tasks w)"
  using assms by (auto simp: wok_def w_tasks_def mpsc_push_def)

lemma good_postPrivate:
  assumes "good (add_mset t m) h" "i < length (h_io h)"
  shows "good m (upd_worker i (postPrivate (Some t)) h)"
  by (rule good_upd [OF assms]) (auto simp: postPrivate_def inbound_push_law)

lemma good_addTimer:
  assumes "good (add_mset t m) h" "i < length (h_io h)"
  shows "good m (upd_worker i (addTimer d (Some t)) h)"
  by (rule good_upd [OF assms]) (auto simp: addTimer_def inbound_push_law)

lemma good_postToWorker: "good m h \<Longrightarrow> good m (postToWorker i t h)"
proof (cases t)
  case (Some x)
  assume "good m h"
  show ?thesis
  proof (cases "i < length (h_io h)")
    case True
    then have "good m (upd_worker i (postPrivate (Some x)) (note_post (Some x) h))"
      using \<open>good m h\<close> by (intro good_postPrivate good_note_post) simp_all
    with True Some show ?thesis
      by (simp add: postToWorker_def workerAt_def note_post_micro good_quiet)
  qed (use \<open>good m h\<close> in \<open>simp add: postToWorker_def workerAt_def\<close>)
qed (simp add: postToWorker_def)

lemma pickDelayedWorker_law:
  assumes "pickDelayedWorker draw h = (r, h')"
  shows "h' = h\<lparr>h_rng := h_rng h'\<rparr>" "r = Some i \<Longrightarrow> i < length (h_io h)" "r = None \<longleftrightarrow> h_io h = []"
  using assms by (auto simp: pickDelayedWorker_def Let_def split: if_splits)

lemma good_rng: "good m (h\<lparr>h_rng := r\<rparr>) = good m h"
  by (simp add: good_def acc_def queued_def)

lemma good_postDelayed:
  assumes "good m h"
  shows "good m (postDelayed draw t d h)"
proof (cases t)
  case (Some x)
  obtain r h' where p: "pickDelayedWorker draw h = (r, h')" by fastforce
  note law = pickDelayedWorker_law [OF p]
  have "good m h'" using law(1) assms good_rng by metis
  have len: "length (h_io h') = length (h_io h)" using law(1) by (metis Hive.select_convs(2) Hive.surjective Hive.update_convs(9))
  show ?thesis
  proof (cases r)
    case None
    with Some p \<open>good m h'\<close> show ?thesis by (simp add: postDelayed_def)
  next
    case (Some i)
    then have i: "i < length (h_io h')" using law(2) len by simp
    then have "good m (upd_worker i (addTimer e (Some x)) (note_post (Some x) h'))" for e
      using \<open>good m h'\<close> by (intro good_addTimer good_note_post) simp_all
    with \<open>t = Some x\<close> Some p i show ?thesis
      by (simp add: postDelayed_def Let_def note_post_micro good_quiet)
  qed
qed (use assms in \<open>simp add: postDelayed_def\<close>)

lemma good_requestExit:
  assumes "good m h"
  shows "good m (requestExit h)"
proof -
  have law: "wok n (wakeup (requestStop w)) = wok n w \<and> w_tasks (wakeup (requestStop w)) = w_tasks w"
    for n and w :: "'a IOWorker"
    using same_queues_law same_queues_wakeup by metis
  then have "queued (h\<lparr>h_exit := True, h_io := map (\<lambda>w. wakeup (requestStop w)) (h_io h),
      h_compute_workers := cs\<rparr>) = queued h" for cs
    by (simp add: queued_def comp_def)
  with law assms show ?thesis by (auto simp: requestExit_def good_def acc_def)
qed

lemma good_do_api: "good m h \<Longrightarrow> good m (do_api draw a h)"
  by (cases a) (auto simp: good_postIO good_postDelayed good_postToWorker good_postCompute good_requestExit
      intro!: good_quiet, simp add: good_def acc_def queued_def)

lemma good_do_apis: "good m h \<Longrightarrow> good m (fold (do_api draw) as h)"
  by (induction "as" arbitrary: h) (simp_all add: good_do_api)

lemma good_call_task: "good (add_mset t m) h \<Longrightarrow> good m (call_task prog draw t h)"
  unfolding call_task_def by (rule good_do_apis) (simp add: good_def acc_def queued_def)

section \<open>What calls leave alone\<close>

text \<open>
  A call may fill inbound queues and pools and set flags; it does not touch what a worker owns: its
  private queue, its timers and its deque, and it adds and removes no worker.
\<close>

definition owned :: "'t IOWorker \<Rightarrow> 't fn list \<times> 't timers \<times> 't task_deque" where
  "owned w = (w_private w, w_timers w, w_local w)"

definition leaves_owned :: "'t Hive \<Rightarrow> 't Hive \<Rightarrow> bool" where
  "leaves_owned h h' \<longleftrightarrow> map owned (h_io h') = map owned (h_io h)"

lemma leaves_owned_refl [simp]: "leaves_owned h h"
  by (simp add: leaves_owned_def)

lemma leaves_owned_trans: "leaves_owned h h' \<Longrightarrow> leaves_owned h' h'' \<Longrightarrow> leaves_owned h h''"
  by (simp add: leaves_owned_def)

lemma leaves_owned_length: "leaves_owned h h' \<Longrightarrow> length (h_io h') = length (h_io h)"
  by (metis leaves_owned_def length_map)

lemma leaves_owned_nth:
  assumes "leaves_owned h h'" "i < length (h_io h)"
  shows "w_private (worker h' i) = w_private (worker h i)" "w_timers (worker h' i) = w_timers (worker h i)"
    and "w_local (worker h' i) = w_local (worker h i)"
proof -
  have "owned (worker h' i) = owned (worker h i)"
    using assms leaves_owned_length [OF assms(1)] unfolding leaves_owned_def by (metis nth_map)
  then show "w_private (worker h' i) = w_private (worker h i)" "w_timers (worker h' i) = w_timers (worker h i)"
    "w_local (worker h' i) = w_local (worker h i)" by (auto simp: owned_def)
qed

lemma leaves_owned_io: "h_io h' = h_io h \<Longrightarrow> leaves_owned h h'"
  by (simp add: leaves_owned_def)

lemma owned_ops [simp]:
  "owned (wakeup w) = owned w" "owned (requestStop w) = owned w" "owned (postPrivate t w) = owned w"
  "owned (addTimer d t w) = owned w"
  by (simp_all add: owned_def wakeup_def requestStop_def postPrivate_def addTimer_def)

lemma owned_upd:
  assumes "\<And>w. owned (f w) = owned w"
  shows "map owned (h_io (upd_worker i f h)) = map owned (h_io h)"
proof (cases "i < length (h_io h)")
  case True
  then show ?thesis by (simp add: upd_worker_def map_update assms list_update_same_conv)
qed (simp add: upd_worker_def list_update_beyond)

lemmas owned_upds = owned_upd [of wakeup] owned_upd [of requestStop] owned_upd [of "postPrivate t" for t]
  owned_upd [of "addTimer d t" for d t]

lemma wakeOne_owned: "map owned (h_io (wakeOneIdleIOWorker h)) = map owned (h_io h)"
  by (simp add: wakeOneIdleIOWorker_def owned_upds split: option.split)

lemma pickDelayedWorker_io: "h_io (snd (pickDelayedWorker draw h)) = h_io h"
  by (simp add: pickDelayedWorker_def Let_def)

lemma do_api_owned: "map owned (h_io (do_api draw a h)) = map owned (h_io h)"
proof (cases a)
  case (PostDelayed t d)
  then show ?thesis
    using pickDelayedWorker_io [of draw h]
    by (simp add: postDelayed_def Let_def split_def note_post_micro owned_upds split: option.split)
qed (simp_all add: postIO_def postToWorker_def postCompute_def requestExit_def wakeOne_owned note_post_micro
       owned_upds comp_def split: option.split)

lemma do_apis_owned: "leaves_owned h (fold (do_api draw) as h)"
  by (induction "as" arbitrary: h) (simp_all add: leaves_owned_def do_api_owned)

lemma run_fn_owned: "leaves_owned h (run_fn prog draw t h)"
proof (cases t)
  case (Some x)
  have "leaves_owned h (h\<lparr>h_log := h_log h @ [x]\<rparr>)" by (rule leaves_owned_io) simp
  with Some show ?thesis using leaves_owned_trans [OF _ do_apis_owned] by (simp add: run_fn_def call_task_def)
qed (simp add: run_fn_def)

lemmas run_fn_length [simp] = leaves_owned_length [OF run_fn_owned]
lemmas call_task_length [simp] = leaves_owned_length [OF run_fn_owned [where t = "Some t" for t, unfolded run_fn_def option.case]]

section \<open>The phases of a worker\<close>

lemma good_run_fn: "good (fns [t] + m) h \<Longrightarrow> good m (run_fn prog draw t h)"
  by (cases t) (auto simp: run_fn_def intro: good_call_task)

lemma inbound_cmd_law:
  assumes "wok n w" "ic_kind cmd \<noteq> StopWorker"
  shows "wok n (inbound_cmd cmd w) \<and> w_tasks (inbound_cmd cmd w) = w_tasks w + fns [ic_task cmd] \<and>
         w_inbound (inbound_cmd cmd w) = w_inbound w"
proof (cases "ic_task cmd")
  case (Some t)
  have "fns (map snd (timers_push (d, Some t) q)) = add_mset t (fns (map snd q))" for d q
  proof -
    have "mset (map snd (timers_push (d, Some t) q)) = mset (Some t # map snd q)"
      by (simp add: timers_push_mset)
    then have "fns (map snd (timers_push (d, Some t) q)) = fns (Some t # map snd q)" by (rule fns_mset_cong)
    then show ?thesis by simp
  qed
  moreover have "length (timers_push x q) = Suc (length q)" for x :: "int \<times> 'a fn" and q
    using arg_cong [OF timers_push_mset [of x q], of size] by simp
  ultimately show ?thesis
    using assms Some by (cases "ic_kind cmd")
      (auto simp: inbound_cmd_def wok_def w_tasks_def timers_push_inv)
qed (use assms in \<open>auto simp: inbound_cmd_def split: Kind.split\<close>)

lemma inbound_cmds_law:
  "wok n w \<Longrightarrow> \<forall>cmd \<in> set cmds. ic_kind cmd \<noteq> StopWorker \<Longrightarrow>
   wok n (fold inbound_cmd cmds w) \<and> w_tasks (fold inbound_cmd cmds w) = w_tasks w + fns (map ic_task cmds)"
proof (induction cmds arbitrary: w)
  case (Cons cmd cmds)
  have "fns (map ic_task (cmd # cmds)) = fns [ic_task cmd] + fns (map ic_task cmds)"
    by (cases "ic_task cmd") auto
  with Cons inbound_cmd_law [of n w cmd] show ?case by (simp add: ac_simps)
qed simp

lemma drainInbound_upd:
  "drainInbound i h = upd_worker i (\<lambda>w. fold inbound_cmd (mq_items (w_inbound (worker h i)))
     (w\<lparr>w_inbound := snd (mpsc_drain (w_inbound (worker h i)))\<rparr>)) h" if "i < length (h_io h)"
  using that by (auto simp: drainInbound_def mpsc_drain_def Let_def upd_worker_def)

lemma good_drainInbound:
  assumes "good m h" "i < length (h_io h)"
  shows "good m (drainInbound i h)"
  unfolding drainInbound_upd [OF assms(2)]
proof (rule good_upd [OF assms], goal_cases)
  case (1 w)
  let ?w = "w\<lparr>w_inbound := snd (mpsc_drain (w_inbound w))\<rparr>"
  have "wok (h_pushes h) ?w" "\<forall>cmd \<in> set (mq_items (w_inbound w)). ic_kind cmd \<noteq> StopWorker"
    using 1 by (auto simp: wok_def mpsc_drain_def Let_def)
  from inbound_cmds_law [OF this] 1(1) show ?case
    by (auto simp: w_tasks_def mpsc_drain_def Let_def ac_simps)
qed

lemma good_private_loop:
  "good m h \<Longrightarrow> i < length (h_io h) \<Longrightarrow> good m (private_loop prog draw i n h)"
proof (induction n arbitrary: h)
  case (Suc n)
  show ?case
  proof (cases "w_private (worker h i)")
    case (Cons t ts)
    let ?h = "upd_worker i (\<lambda>w. w\<lparr>w_private := ts\<rparr>) h"
    have "fns (t # ts) = fns [t] + fns ts" by (cases t) auto
    then have "good (fns [t] + m) ?h"
      by (intro good_upd [OF Suc.prems]) (auto simp: wok_def w_tasks_def Cons ac_simps)
    then have "good m (run_fn prog draw t ?h)" by (rule good_run_fn)
    with Suc.IH Cons Suc.prems(2) show ?thesis by (simp add: Let_def)
  qed (use Suc in simp)
qed simp

lemma good_runPrivateTasks: "good m h \<Longrightarrow> i < length (h_io h) \<Longrightarrow> good m (runPrivateTasks prog draw i h)"
  by (simp add: runPrivateTasks_def good_private_loop)

lemma good_timer_loop:
  "good m h \<Longrightarrow> i < length (h_io h) \<Longrightarrow> good m (timer_loop prog draw i now n h)"
proof (induction n arbitrary: h)
  case (Suc n)
  show ?case
  proof (cases "w_timers (worker h i)")
    case (Cons x q)
    obtain d t where x: "x = (d, t)" by fastforce
    let ?h = "upd_worker i (\<lambda>w. w\<lparr>w_timers := timers_pop (w_timers w), w_timer_count := w_timer_count w - 1\<rparr>) h"
    have "fns (t # map snd q) = fns [t] + fns (map snd q)" by (cases t) auto
    then have "good (fns [t] + m) ?h"
      by (intro good_upd [OF Suc.prems])
        (auto simp: wok_def w_tasks_def Cons x timers_pop_def timers_inv_def ac_simps)
    then have "good m (run_fn prog draw t ?h)" by (rule good_run_fn)
    with Suc.IH Cons x Suc.prems show ?thesis by (simp add: Let_def timers_top_def)
  qed (use Suc in \<open>simp add: timers_top_def\<close>)
qed simp

lemma good_runExpiredTimers: "good m h \<Longrightarrow> i < length (h_io h) \<Longrightarrow> good m (runExpiredTimers prog draw i h)"
  by (simp add: runExpiredTimers_def good_timer_loop)

section \<open>The deques\<close>

lemma headroom_bottom: "dq_headroom d \<le> dq_headroom d' \<longleftrightarrow> unat (dq_bottom d') \<le> unat (dq_bottom d)"
  using unat_less_size [of "dq_bottom d"] unat_less_size [of "dq_bottom d'"] by (auto simp: dq_headroom_def)

lemma pop_law:
  assumes "dq_inv d" "tryPopBottom d = (r, d')"
  shows "dq_inv d'" "unat (dq_bottom d') \<le> unat (dq_bottom d)"
    and "mset (dq_contents d) = mset (dq_contents d') + (case r of None \<Rightarrow> {#} | Some t \<Rightarrow> fns [t])"
    and "r = None \<longleftrightarrow> dq_contents d = []"
proof -
  consider "dq_contents d = []" | xs x where "dq_contents d = xs @ [x]" by (cases "dq_contents d" rule: rev_cases) auto
  then show "dq_inv d'" "unat (dq_bottom d') \<le> unat (dq_bottom d)"
    "mset (dq_contents d) = mset (dq_contents d') + (case r of None \<Rightarrow> {#} | Some t \<Rightarrow> fns [t])"
    "r = None \<longleftrightarrow> dq_contents d = []"
    using assms td.pop_none [of d] td.pop_some [of d] headroom_bottom [of d d'] by (cases; auto)+
qed

lemma steal_law:
  assumes "dq_inv d" "tryStealTop d = (r, d')"
  shows "dq_inv d'" "unat (dq_bottom d') \<le> unat (dq_bottom d)"
    and "mset (dq_contents d) = mset (dq_contents d') + (case r of None \<Rightarrow> {#} | Some t \<Rightarrow> fns [t])"
proof -
  consider "dq_contents d = []" | x xs where "dq_contents d = x # xs" by (cases "dq_contents d") auto
  then show "dq_inv d'" "unat (dq_bottom d') \<le> unat (dq_bottom d)"
    "mset (dq_contents d) = mset (dq_contents d') + (case r of None \<Rightarrow> {#} | Some t \<Rightarrow> fns [t])"
    using assms td.steal_none [of d] td.steal_some [of d] headroom_bottom [of d d'] by (cases; auto)+
qed

lemma push_law:
  assumes "dq_inv d" "unat (dq_bottom d) < 2 ^ 64 - 1" "tryPushBottom (Some t) d = (ok, d')"
  shows "dq_inv d'" "unat (dq_bottom d') \<le> unat (dq_bottom d) + 1"
    and "dq_contents d' = (if ok then dq_contents d @ [t] else dq_contents d)" "\<not> ok \<Longrightarrow> d' = d"
proof -
  have room: "0 < dq_headroom d" using assms(2) by (simp add: dq_headroom_def)
  have b: "unat (dq_bottom d') \<le> unat (dq_bottom d) + 1" if "dq_headroom d' = dq_headroom d - 1"
    using that room unat_less_size [of "dq_bottom d'"] by (auto simp: dq_headroom_def)
  show "dq_inv d'" "unat (dq_bottom d') \<le> unat (dq_bottom d) + 1"
    "dq_contents d' = (if ok then dq_contents d @ [t] else dq_contents d)" "\<not> ok \<Longrightarrow> d' = d"
    using assms td.push_full [of d t] td.push_room [OF assms(1) _ room, of t] b
    by (cases "length (dq_contents d) < dq_bound d"; auto)+
qed

lemma push_local_length [simp]: "length (h_io (snd (push_local i t h))) = length (h_io h)"
  by (simp add: push_local_def split_def Let_def)

lemma good_push_local:
  assumes "good (add_mset t m) h" "i < length (h_io h)" "push_local i t h = (ok, h')"
  shows "good (if ok then m else add_mset t m) h'"
proof (cases "remainingSpace (w_local (worker h i)) \<noteq> 0")
  case True
  let ?w = "worker h i"
  obtain o' d where p: "tryPushBottom (Some t) (w_local ?w) = (o', d)" by fastforce
  with True assms(3) have ok: "ok = o'" and h': "h' = upd_worker i (\<lambda>w. w\<lparr>w_local := d\<rparr>)
      (if ok then h\<lparr>h_pushes := h_pushes h + 1\<rparr> else h)"
    by (auto simp: push_local_def)
  show ?thesis
  proof (cases ok)
    case okT: True
    let ?h = "h\<lparr>h_pushes := h_pushes h + 1\<rparr>"
    have up: "good (add_mset t m) ?h"
      using assms(1) by (auto simp: good_def acc_def queued_def wok_def)
    have "good m (upd_worker i (\<lambda>w. w\<lparr>w_local := d\<rparr>) ?h)"
    proof (rule good_upd [OF up], goal_cases)
      case (2 w)
      have b: "dq_inv (w_local ?w)" "unat (dq_bottom (w_local ?w)) \<le> h_pushes h"
        using assms(1,2) 2(2) by (auto simp: good_def wok_def)
      note law = push_law [OF b(1) _ p]
      from 2 b law okT ok show ?case by (auto simp: wok_def w_tasks_def)
    qed (use assms(2) in simp)
    with okT h' show ?thesis by simp
  next
    case okF: False
    have "good (add_mset t m) (upd_worker i (\<lambda>w. w\<lparr>w_local := d\<rparr>) h)"
    proof (rule good_upd [OF assms(1,2)], goal_cases)
      case (1 w)
      then have "dq_inv (w_local ?w)" "unat (dq_bottom (w_local ?w)) < 2 ^ 64 - 1" by (auto simp: wok_def)
      from push_law(4) [OF this p] okF ok 1(1) have "w\<lparr>w_local := d\<rparr> = w" by simp
      with 1 show ?case by simp
    qed
    with okF h' show ?thesis by simp
  qed
qed (use assms in \<open>auto simp: push_local_def\<close>)

lemma good_local_loop:
  "good m h \<Longrightarrow> i < length (h_io h) \<Longrightarrow> good m (snd (local_loop prog draw i n did h))"
proof (induction n arbitrary: h did)
  case (Suc n)
  obtain r d where p: "tryPopBottom (w_local (worker h i)) = (r, d)" by fastforce
  let ?h = "upd_worker i (\<lambda>w. w\<lparr>w_local := d\<rparr>) h"
  let ?m = "(case r of None \<Rightarrow> {#} | Some t \<Rightarrow> fns [t])"
  have "good (?m + m) ?h"
  proof (rule good_upd [OF Suc.prems], goal_cases)
    case (1 w)
    then have "dq_inv (w_local (worker h i))" by (simp add: wok_def)
    note law = pop_law [OF this p]
    from 1 law show ?case by (auto simp: wok_def w_tasks_def ac_simps)
  qed
  then show ?case
    using Suc p good_run_fn [of _ m ?h prog draw] by (cases r) (simp_all add: Let_def)
qed simp

lemma local_loop_length [simp]: "length (h_io (snd (local_loop prog draw i n did h))) = length (h_io h)"
  by (induction prog draw i n did h rule: local_loop.induct)
    (auto simp: Let_def split: prod.split option.split)

lemma good_runLocalBatch: "good m h \<Longrightarrow> i < length (h_io h) \<Longrightarrow> good m (snd (runLocalBatch prog draw i h))"
  by (simp add: runLocalBatch_def good_local_loop)

lemma good_drop: "good (fns ts + m) h \<Longrightarrow> good m (drop_tasks ts h)"
  by (simp add: good_def acc_def queued_def drop_tasks_def fns_def ac_simps)

lemma good_harvest_loop:
  "good (fns batch + m) h \<Longrightarrow> i < length (h_io h) \<Longrightarrow> good m (snd (harvest_loop prog draw i batch moved h))"
proof (induction prog draw i batch moved h rule: harvest_loop.induct)
  case (3 prog draw i t batch moved h)
  obtain ok h1 where p: "push_local i t h = (ok, h1)" by fastforce
  have "good (add_mset t (fns batch + m)) h" using "3.prems"(1) by simp
  from good_push_local [OF this "3.prems"(2) p]
  have g: "good (if ok then fns batch + m else add_mset t (fns batch + m)) h1" .
  have len: "length (h_io h1) = length (h_io h)" using push_local_length [of i t h] p by simp
  show ?case
  proof (cases ok)
    case True
    with "3.IH"(1) [OF p [symmetric] refl] g p len "3.prems" show ?thesis by simp
  next
    case False
    let ?h = "call_task prog draw t h1"
    have c: "good (fns batch + m) ?h" using g False good_call_task by auto
    with False p "3.IH"(2) [OF p [symmetric] refl _ refl] len "3.prems"(2) show ?thesis
      by (auto simp: Let_def good_drop)
  qed
qed simp_all

lemma harvest_loop_length [simp]: "length (h_io (snd (harvest_loop prog draw i batch moved h))) = length (h_io h)"
proof (induction prog draw i batch moved h rule: harvest_loop.induct)
  case (3 prog draw i t batch moved h)
  obtain ok h1 where p: "push_local i t h = (ok, h1)" by fastforce
  have "length (h_io h1) = length (h_io h)" using push_local_length [of i t h] p by simp
  with 3 p show ?case by (cases ok) (auto simp: Let_def drop_tasks_def)
qed simp_all

lemma good_popMicro:
  assumes "good m h" "tryPopGlobalMicroBatch n h = (batch, h')"
  shows "good (fns batch + m) h'" "h_io h' = h_io h"
proof -
  let ?k = "min (unat n) (length (mq_items (h_micro h)))"
  have "fns (take ?k (mq_items (h_micro h))) + fns (drop ?k (mq_items (h_micro h))) = fns (mq_items (h_micro h))"
    by (rule fns_take_drop)
  then show "good (fns batch + m) h'" "h_io h' = h_io h"
    using assms by (auto simp: tryPopGlobalMicroBatch_def micro_tryPopBatch_def Let_def good_def acc_def queued_def
        ac_simps split: if_splits)
qed

lemma good_harvest:
  assumes "good m h" "i < length (h_io h)"
  shows "good m (snd (harvestGlobalBatch prog draw i h))"
    "length (h_io (snd (harvestGlobalBatch prog draw i h))) = length (h_io h)"
proof -
  obtain batch h' where p: "tryPopGlobalMicroBatch (global_batch_size (w_options (worker h i))) h = (batch, h')"
    by fastforce
  note law = good_popMicro [OF assms(1) p]
  show "good m (snd (harvestGlobalBatch prog draw i h))"
    using law p assms good_harvest_loop [of batch m h' i] by (auto simp: harvestGlobalBatch_def)
  show "length (h_io (snd (harvestGlobalBatch prog draw i h))) = length (h_io h)"
    using law p by (auto simp: harvestGlobalBatch_def)
qed

lemma steal_loop_length [simp]:
  "length (h_io (snd (steal_loop prog draw i v n stole h))) = length (h_io h)"
proof (induction prog draw i v n stole h rule: steal_loop.induct)
  case (2 prog draw i v n stole h)
  obtain r d where s: "tryStealTop (w_local (worker h v)) = (r, d)" by fastforce
  let ?h = "upd_worker v (\<lambda>w. w\<lparr>w_local := d\<rparr>) h"
  show ?case
  proof (cases "case r of Some (Some t) \<Rightarrow> Some t | _ \<Rightarrow> None")
    case None
    with 2 s show ?thesis by (auto simp: Let_def split: option.splits)
  next
    case (Some t)
    then have r: "r = Some (Some t)" by (auto split: option.splits)
    obtain ok h1 where p: "push_local i t ?h = (ok, h1)" by fastforce
    have "length (h_io h1) = length (h_io h)" using push_local_length [of i t ?h] p by simp
    with 2 s r p show ?thesis by (cases ok) (auto simp: Let_def)
  qed
qed simp

lemma good_steal_loop:
  "good m h \<Longrightarrow> i < length (h_io h) \<Longrightarrow> v < length (h_io h) \<Longrightarrow> good m (snd (steal_loop prog draw i v n stole h))"
proof (induction n arbitrary: stole h)
  case (Suc n)
  obtain r d where s: "tryStealTop (w_local (worker h v)) = (r, d)" by fastforce
  let ?h = "upd_worker v (\<lambda>w. w\<lparr>w_local := d\<rparr>) h"
  have g: "good ((case r of None \<Rightarrow> {#} | Some t \<Rightarrow> fns [t]) + m) ?h"
  proof (rule good_upd [OF Suc.prems(1,3)], goal_cases)
    case (1 w)
    then have "dq_inv (w_local (worker h v))" by (simp add: wok_def)
    note law = steal_law [OF this s]
    from 1 law show ?case by (auto simp: wok_def w_tasks_def ac_simps)
  qed
  show ?case
  proof (cases "case r of Some (Some t) \<Rightarrow> Some t | _ \<Rightarrow> None")
    case None
    with Suc g s show ?thesis by (auto simp: Let_def split: option.splits)
  next
    case (Some t)
    then have r: "r = Some (Some t)" by (auto split: option.splits)
    obtain ok h1 where p: "push_local i t ?h = (ok, h1)" by fastforce
    have len: "length (h_io h1) = length (h_io h)" using push_local_length [of i t ?h] p by simp
    have "good (if ok then m else add_mset t m) h1"
      using good_push_local [OF _ _ p, of m] g r Suc.prems(2) by simp
    then have "good m (if ok then h1 else call_task prog draw t h1)" using good_call_task by auto
    with Suc s r p len show ?thesis by (cases ok) (auto simp: Let_def)
  qed
qed simp

lemma steal_tries_law:
  "good m h \<Longrightarrow> i < length (h_io h) \<Longrightarrow> steal_tries prog draw i n k h = Some (b, h') \<Longrightarrow>
   good m h' \<and> length (h_io h') = length (h_io h)"
proof (induction k arbitrary: h)
  case (Suc k)
  let ?h = "h\<lparr>h_rng := h_rng h + 1\<rparr>" and ?v = "draw (h_rng h) mod n"
  have g: "good m ?h" using Suc.prems(1) unfolding good_rng .
  show ?case
  proof (cases "?v = w_id (worker h i) \<or> workerAt ?v ?h = None")
    case True
    with Suc.prems Suc.IH [OF g] show ?thesis by (auto simp: Let_def split: option.splits if_splits)
  next
    case False
    then have v: "?v < length (h_io h)" by (auto simp: workerAt_def split: if_splits)
    then obtain c where c: "steal_count (w_options (worker h i)) (approxSize (w_local (worker h ?v))) = Some c"
      using False Suc.prems(3) by (auto simp: Let_def workerAt_def split: option.splits)
    obtain st h1 where l: "steal_loop prog draw i ?v c False ?h = (st, h1)" by fastforce
    have "good m h1"
      using good_steal_loop [OF g, of i ?v prog draw c False] v Suc.prems(2) unfolding l by simp
    moreover have "length (h_io h1) = length (h_io h)"
      using steal_loop_length [of prog draw i ?v c False ?h] unfolding l by simp
    ultimately show ?thesis using Suc.prems Suc.IH [of h1] False c l v
      by (auto simp: Let_def workerAt_def split: if_splits)
  qed
qed simp

lemma stealOnce_law:
  "good m h \<Longrightarrow> i < length (h_io h) \<Longrightarrow> stealOnce prog draw i h = Some (b, h') \<Longrightarrow>
   good m h' \<and> length (h_io h') = length (h_io h)"
  using steal_tries_law [of m h i prog draw "IOWorkerCount h" "unat (ktries (w_options (worker h i)))" b h']
  by (simp add: stealOnce_def Let_def split: if_splits)

section \<open>Turns\<close>

lemma private_loop_length [simp]: "length (h_io (private_loop prog draw i n h)) = length (h_io h)"
  by (induction prog draw i n h rule: private_loop.induct) (auto simp: Let_def split: list.split)

lemma timer_loop_length [simp]: "length (h_io (timer_loop prog draw i now n h)) = length (h_io h)"
  by (induction prog draw i now n h rule: timer_loop.induct) (auto simp: Let_def split: option.split)

lemma phase_lengths [simp]:
  "length (h_io (drainInbound i h)) = length (h_io h)"
  "length (h_io (runPrivateTasks prog draw i h)) = length (h_io h)"
  "length (h_io (runExpiredTimers prog draw i h)) = length (h_io h)"
  "length (h_io (snd (runLocalBatch prog draw i h))) = length (h_io h)"
  by (auto simp: drainInbound_def Let_def runPrivateTasks_def runExpiredTimers_def runLocalBatch_def
      split: prod.split)

lemma after_wait_law:
  assumes "good m h" "i < length (h_io h)" "after_wait prog draw i h = Some (go, h')"
  shows "good m h' \<and> length (h_io h') = length (h_io h)"
proof -
  let ?h = "runExpiredTimers prog draw i (runPrivateTasks prog draw i (drainInbound i h))"
  have g: "good m ?h" "length (h_io ?h) = length (h_io h)"
    using assms(1,2) by (simp_all add: good_runExpiredTimers good_runPrivateTasks good_drainInbound)
  obtain did h1 where l: "runLocalBatch prog draw i ?h = (did, h1)" by fastforce
  have g1: "good m h1" "length (h_io h1) = length (h_io h)"
    using good_runLocalBatch [OF g(1), of i prog draw] phase_lengths(4) [of prog draw i ?h] g(2) assms(2) l by auto
  obtain mv h2 where hv: "harvestGlobalBatch prog draw i h1 = (mv, h2)" by fastforce
  have g2: "good m h2" "length (h_io h2) = length (h_io h)"
    using good_harvest [OF g1(1), of i prog draw] g1(2) assms(2) hv by auto
  have st: "good m h3 \<and> length (h_io h3) = length (h_io h)" if "stealOnce prog draw i h2 = Some (b, h3)" for b h3
    using stealOnce_law [OF g2(1) _ that] g2(2) assms(2) by simp
  show ?thesis
    using assms(3) g g1 g2 l hv st unfolding after_wait_def Let_def
    by (auto split: if_splits)
qed

lemma good_now: "good m (h\<lparr>h_now := n\<rparr>) = good m h"
  by (simp add: good_def acc_def queued_def)

lemma worker_turn_law:
  assumes "good m h" "i < length (h_io h)" "worker_turn prog draw i io slept h = Some (go, h')"
  shows "good m h' \<and> length (h_io h') = length (h_io h)"
proof -
  let ?h1 = "enter_wait i h"
  let ?h2 = "fold (do_api draw) io (?h1\<lparr>h_now := h_now ?h1 + int slept\<rparr>)"
  let ?h3 = "leave_wait (computeNextTimeoutMs i h \<noteq> 0) i ?h2"
  have g1: "good m ?h1" "length (h_io ?h1) = length (h_io h)"
    using assms(1,2) by (auto simp: enter_wait_def same_queues_def intro!: good_quiet)
  have g2: "good m ?h2" "length (h_io ?h2) = length (h_io h)"
    using good_do_apis g1(1) good_now leaves_owned_length [OF do_apis_owned] g1(2)
    by (metis, metis (no_types, lifting) Hive.ext_inject Hive.surjective Hive.update_convs(8))
  have g3: "good m ?h3" "length (h_io ?h3) = length (h_io h)"
    using g2 assms(2) by (auto simp: leave_wait_def same_queues_def intro!: good_quiet)
  show ?thesis
    using after_wait_law [OF g3(1), of i prog draw go h'] g3(2) assms(2,3)
    by (simp add: worker_turn_def Let_def)
qed

lemma good_compute_workers: "good m (h\<lparr>h_compute_workers := cs\<rparr>) = good m h"
  by (simp add: good_def acc_def queued_def)

lemma good_compute_batch: "good (fns batch + m) h \<Longrightarrow> good m (compute_batch prog draw c batch h)"
proof (induction batch arbitrary: h)
  case (Cons t batch)
  have "fns (t # batch) = fns [t] + fns batch" by (cases t) auto
  with Cons show ?case
    using good_drop [of "t # batch" m h] good_run_fn [of t "fns batch + m" h]
    by (simp add: ac_simps)
qed simp

lemma compute_batch_length [simp]: "length (h_io (compute_batch prog draw c batch h)) = length (h_io h)"
  by (induction batch arbitrary: h) (simp_all add: drop_tasks_def)

lemma compute_pop_split:
  "compute_waitPopBatch n e p = Some (out, p') \<Longrightarrow> fns (mq_items p) = fns out + fns (mq_items p')"
  by (auto simp: compute_waitPopBatch_def Let_def fns_take_drop split: if_splits)

lemma good_popCompute:
  assumes "good m h" "tryPopGlobalComputeBatch n h = Some (batch, h')"
  shows "good (fns batch + m) h'" "h_io h' = h_io h"
proof -
  obtain p' where p: "compute_waitPopBatch n (h_exit h) (h_compute h) = Some (batch, p')"
    and h': "h' = h\<lparr>h_compute := p'\<rparr>"
    using assms(2) by (auto simp: tryPopGlobalComputeBatch_def)
  from compute_pop_split [OF p] assms(1) show "good (fns batch + m) h'" "h_io h' = h_io h"
    by (simp_all add: h' good_def acc_def queued_def ac_simps)
qed

lemma compute_turn_law:
  assumes "good m h" "compute_turn prog draw c h = Some h'"
  shows "good m h' \<and> length (h_io h') = length (h_io h)"
proof (cases "cw_stopping c h")
  case False
  let ?set = "\<lambda>b h. h\<lparr>h_compute_workers := (h_compute_workers h)[c := (h_compute_workers h ! c)\<lparr>cw_sleeping := b\<rparr>]\<rparr>"
  let ?h = "?set True h" and ?n = "compute_batch_size (cw_options (h_compute_workers (?set True h) ! c))"
  obtain batch h1 where p: "tryPopGlobalComputeBatch ?n ?h = Some (batch, h1)"
    and h': "h' = (if batch = [] then h1 else compute_batch prog draw c batch (?set False h1))"
    using assms(2) False by (auto simp: compute_turn_def Let_def split: option.splits if_splits)
  have "good m ?h" unfolding good_compute_workers by (rule assms(1))
  from good_popCompute [OF this p] have "good (fns batch + m) h1" "h_io h1 = h_io h" by simp_all
  with h' show ?thesis
    using good_compute_batch [of batch m "?set False h1"] good_compute_workers by (auto simp: good_compute_workers)
qed (use assms in \<open>simp add: compute_turn_def\<close>)

section \<open>Interleaved runs\<close>

text \<open>
  What can happen to a started hive: a call from any thread, a turn of a worker's loop, a turn of a
  compute worker. A schedule is any sequence of these.
\<close>

datatype 't event =
    Call "'t api"
  | Turn nat "'t api list" nat
  | ComputeTurn nat

fun hive_event :: "('t \<Rightarrow> 't api list) \<Rightarrow> (nat \<Rightarrow> nat) \<Rightarrow> 't event \<Rightarrow> 't Hive \<Rightarrow> 't Hive option" where
  "hive_event prog draw (Call a) h = Some (do_api draw a h)"
| "hive_event prog draw (Turn i io slept) h =
     (if i < length (h_io h) then map_option snd (worker_turn prog draw i io slept h) else Some h)"
| "hive_event prog draw (ComputeTurn c) h =
     (if c < length (h_compute_workers h) then compute_turn prog draw c h else Some h)"

fun hive_run :: "('t \<Rightarrow> 't api list) \<Rightarrow> (nat \<Rightarrow> nat) \<Rightarrow> 't event list \<Rightarrow> 't Hive \<Rightarrow> 't Hive option" where
  "hive_run prog draw [] h = Some h"
| "hive_run prog draw (e # es) h = Option.bind (hive_event prog draw e h) (hive_run prog draw es)"

lemma hive_event_good: "good m h \<Longrightarrow> hive_event prog draw e h = Some h' \<Longrightarrow> good m h'"
  by (cases e) (auto simp: good_do_api split: if_splits dest: worker_turn_law compute_turn_law)

lemma hive_run_good: "hive_run prog draw es h = Some h' \<Longrightarrow> good m h \<Longrightarrow> good m h'"
  by (induction es arbitrary: h) (auto simp: bind_eq_Some_conv dest: hive_event_good)

text \<open>Attaching any number of fresh workers to a new hive.\<close>

fun attach_all :: "platform \<Rightarrow> Options list \<Rightarrow> Options list \<Rightarrow> 't Hive \<Rightarrow> 't Hive option" where
  "attach_all p [] [] h = Some h"
| "attach_all p (io # ios) cs h =
     (case new_IOWorker io of
        None \<Rightarrow> None
      | Some w \<Rightarrow> (case attachIOWorker p (Some w) h of
                    Inl _ \<Rightarrow> None
                  | Inr (_, h) \<Rightarrow> attach_all p ios cs h))"
| "attach_all p [] (c # cs) h =
     (case attachComputeWorker (Some (new_ComputeWorker c)) h of
        Inl _ \<Rightarrow> None
      | Inr (_, h) \<Rightarrow> attach_all p [] cs h)"

lemma bind_worker_queues: "bind_worker p k w = Inr w' \<Longrightarrow> same_queues w w'"
  by (auto simp: bind_worker_def Let_def same_queues_def split: if_splits option.splits platform.splits)

lemma new_IOWorker_law:
  fixes w :: "'t IOWorker"
  assumes "new_IOWorker o' = Some w"
  shows "wok n w" "w_tasks w = {#}"
proof -
  obtain d :: "'t task_deque" where d: "TaskDeque (local_queue_capacity o') = Some d"
    using assms by (auto simp: new_IOWorker_def)
  note law = TaskDeque_inv [OF d]
  have "unat (dq_bottom d) = 0" using law(3) unat_less_size [of "dq_bottom d"] by (simp add: dq_headroom_def)
  with law d assms show "wok n w" "w_tasks w = {#}"
    by (auto simp: new_IOWorker_def wok_def w_tasks_def mpsc_empty_def)
qed

lemma attach_good:
  assumes "good m h" "wok (h_pushes h) w" "w_tasks w = {#}" "attachIOWorker p (Some w) h = Inr (k, h')"
  shows "good m h'"
proof -
  obtain w' where w': "bind_worker p (length (h_io h)) w = Inr w'" "h' = h\<lparr>h_io := h_io h @ [w']\<rparr>"
    using assms(4) by (auto simp: attachIOWorker_def Let_def split: if_splits sum.splits)
  with assms(1-3) same_queues_law [OF bind_worker_queues [OF w'(1)]] show ?thesis
    by (auto simp: good_def acc_def queued_def)
qed

lemma attach_all_good: "attach_all p ios cs h = Some h' \<Longrightarrow> good m h \<Longrightarrow> good m h'"
proof (induction p ios cs h rule: attach_all.induct)
  case (2 p io ios cs h)
  then show ?case
    using new_IOWorker_law attach_good by (fastforce split: option.splits sum.splits)
next
  case (3 p c cs h)
  then show ?case
    by (auto simp: attachComputeWorker_def Let_def good_compute_workers split: sum.splits if_splits)
qed simp

lemma new_Hive_good: "good {#} (new_Hive options now)"
  by (simp add: good_def acc_def queued_def new_Hive_def mpsc_empty_def)

text \<open>
  C1. The scheduler neither loses nor duplicates a task. Whatever workers are attached, in any
  interleaving of calls from any thread with turns of workers and compute workers, the tasks
  accepted so far are, counted with multiplicity, exactly the tasks that have been run, the
  tasks that a stopping worker threw away, and the tasks still waiting in an inbound queue, a private
  queue, a timer queue, a deque or a global pool, as long as fewer than 2^64 - 1 tasks went through
  the deques.
\<close>

theorem hive_conserves_tasks:
  assumes "attach_all p ios cs (new_Hive options now) = Some h0" "hive_run prog draw es h0 = Some h"
    and "h_pushes h < 2 ^ 64 - 1"
  shows "mset (h_posted h) = mset (h_log h) + mset (h_dropped h) + queued h"
proof -
  have "good {#} h" using hive_run_good [OF assms(2)] attach_all_good [OF assms(1) new_Hive_good] by blast
  with assms(3) show ?thesis by (simp add: good_def acc_def ac_simps)
qed

section \<open>A concrete run\<close>

text \<open>
  Two workers and a compute worker. Task 0, posted to the pool, posts task 1 to worker 1, task 2 with
  no delay and task 3 for computing; an exit is requested while a batch is waiting.
\<close>

definition hive_prog :: "nat \<Rightarrow> nat api list" where
  "hive_prog t = (if t = 0 then [PostToWorker 1 (Some 1), PostDelayed (Some 2) 0, PostCompute (Some 3)] else [])"

definition small_options :: Options where
  "small_options = (default_options Linux)\<lparr>local_queue_capacity := 4, global_batch_size := 2,
     local_batch_size := 2, will_steal := False\<rparr>"

definition demo_hive :: "nat Hive" where
  "demo_hive = the (attach_all Linux [small_options, small_options] [small_options] (new_Hive small_options 0))"

definition demo_events :: "nat event list" where
  "demo_events = [Call (PostIO (Some 0)), Turn 0 [] 0, Turn 0 [] 0, Turn 1 [PostIO (Some 4)] 5, ComputeTurn 0,
     Turn 0 [] 0, Call (PostIO (Some 5)), Call RequestExit, Turn 1 [] 0]"

definition demo_final :: "nat Hive" where
  "demo_final = the (hive_run hive_prog (\<lambda>n. n) demo_events demo_hive)"

lemma demo_hive_run:
  "attach_all Linux [small_options, small_options] [small_options] (new_Hive small_options 0) = Some demo_hive"
  "hive_run hive_prog (\<lambda>n. n) demo_events demo_hive = Some demo_final"
  "h_pushes demo_final < 2 ^ 64 - 1"
proof -
  have "\<not> Option.is_none (attach_all Linux [small_options, small_options] [small_options]
           (new_Hive small_options 0 :: nat Hive))" by code_simp
  then show "attach_all Linux [small_options, small_options] [small_options] (new_Hive small_options 0) = Some demo_hive"
    unfolding demo_hive_def by (rule some_the)
  have "\<not> Option.is_none (hive_run hive_prog (\<lambda>n. n) demo_events demo_hive)" by code_simp
  then show "hive_run hive_prog (\<lambda>n. n) demo_events demo_hive = Some demo_final"
    unfolding demo_final_def by (rule some_the)
  have "h_pushes demo_final \<le> 5" by code_simp
  then show "h_pushes demo_final < 2 ^ 64 - 1" by simp
qed

theorem hive_conserves_tasks_witness:
  "mset (h_posted demo_final) = mset (h_log demo_final) + mset (h_dropped demo_final) + queued demo_final \<and>
   h_posted demo_final = [0, 1, 2, 3, 4, 5] \<and> h_log demo_final = [0, 1, 3, 2]"
proof -
  have "h_posted demo_final = [0, 1, 2, 3, 4, 5]" "h_log demo_final = [0, 1, 3, 2]" by code_simp+
  with hive_conserves_tasks [OF demo_hive_run] show ?thesis by blast
qed

end
