(* ===== verification/Worker_Phases.thy ===== *)
theory Worker_Phases
  imports Hive_Accounting
begin

text \<open>
  What a turn of an I/O worker runs and in which order, how it stops, how long it sleeps, and how
  the hive chooses and wakes workers.
\<close>

section \<open>What a call changes\<close>

text \<open>A call runs no task, and stop flags are only ever set.\<close>

definition keeps :: "'t IOWorker \<Rightarrow> 't IOWorker \<Rightarrow> bool" where
  "keeps w w' \<longleftrightarrow> w_bound w' = w_bound w \<and> w_options w' = w_options w \<and> w_id w' = w_id w \<and>
                  w_wakeup w' = w_wakeup w \<and> (w_stop w \<longrightarrow> w_stop w')"

definition call_effect :: "'t Hive \<Rightarrow> 't Hive \<Rightarrow> bool" where
  "call_effect h h' \<longleftrightarrow> list_all2 keeps (h_io h) (h_io h') \<and> (h_exit h \<longrightarrow> h_exit h') \<and>
     length (h_compute_workers h') = length (h_compute_workers h)"

lemma keeps_refl [simp]: "keeps w w"
  by (simp add: keeps_def)

lemma keeps_trans: "keeps a b \<Longrightarrow> keeps b c \<Longrightarrow> keeps a c"
  by (auto simp: keeps_def)

lemma keeps_ops [simp]: "keeps w (wakeup w)" "keeps w (requestStop w)" "keeps w (postPrivate t w)"
  "keeps w (addTimer d t w)"
  by (simp_all add: keeps_def wakeup_def requestStop_def postPrivate_def addTimer_def)

lemma call_effect_refl [simp]: "call_effect h h"
  by (simp add: call_effect_def list_all2_refl)

lemma call_effect_trans: "call_effect a b \<Longrightarrow> call_effect b c \<Longrightarrow> call_effect a c"
  by (auto simp: call_effect_def intro: list_all2_trans [OF keeps_trans])

lemma call_effect_io: "h_io h' = h_io h \<Longrightarrow> h_exit h' = h_exit h \<Longrightarrow>
    h_compute_workers h' = h_compute_workers h \<Longrightarrow> call_effect h h'"
  by (simp add: call_effect_def list_all2_refl)

lemma call_effect_upd: "(\<And>w. keeps w (f w)) \<Longrightarrow> call_effect h (upd_worker i f h)"
  by (cases "i < length (h_io h)")
    (auto simp: call_effect_def upd_worker_def list_all2_conv_all_nth nth_list_update list_update_beyond)

lemma note_post_effect [simp]:
  "h_exit (note_post t h) = h_exit h" "h_log (note_post t h) = h_log h"
  "h_compute_workers (note_post t h) = h_compute_workers h" "h_compute (note_post t h) = h_compute h"
  by (auto simp: note_post_def split: option.split)

lemma wakeOne_effect:
  "call_effect h (wakeOneIdleIOWorker h)" "h_log (wakeOneIdleIOWorker h) = h_log h"
  by (auto simp: wakeOneIdleIOWorker_def split: option.split intro: call_effect_upd)

lemma pick_effect:
  "h_exit (snd (pickDelayedWorker draw h)) = h_exit h" "h_log (snd (pickDelayedWorker draw h)) = h_log h"
  "h_compute_workers (snd (pickDelayedWorker draw h)) = h_compute_workers h"
  by (simp_all add: pickDelayedWorker_def Let_def)

lemma upd_upd_effect:
  assumes "\<And>w. keeps w (f w)" "\<And>w. keeps w (g w)" "h_io h' = h_io h" "h_exit h' = h_exit h"
    "h_compute_workers h' = h_compute_workers h"
  shows "call_effect h (upd_worker i f (upd_worker j g h'))"
  using call_effect_trans [OF call_effect_trans [OF call_effect_io [OF assms(3-5)] call_effect_upd [OF assms(2)]]
      call_effect_upd [OF assms(1)]] .

lemma do_api_effect: "call_effect h (do_api draw a h)"
proof (cases a)
  case (PostIO t)
  have "call_effect h (note_post t (h\<lparr>h_micro := p\<rparr>))" for p by (rule call_effect_io) simp_all
  with PostIO show ?thesis using call_effect_trans wakeOne_effect(1) by (simp add: postIO_def) blast
next
  case (PostDelayed t d)
  show ?thesis
  proof (cases "t = None \<or> fst (pickDelayedWorker draw h) = None")
    case True
    then show ?thesis
      using PostDelayed pickDelayedWorker_io [of draw h] pick_effect [of draw h]
      by (auto simp: postDelayed_def Let_def split_def intro!: call_effect_io)
  next
    case False
    then show ?thesis
      using PostDelayed pickDelayedWorker_io [of draw h] pick_effect [of draw h]
      by (auto simp: postDelayed_def Let_def split_def note_post_micro intro!: upd_upd_effect)
  qed
next
  case (PostToWorker i t)
  then show ?thesis
    by (auto simp: postToWorker_def note_post_micro split: option.split intro!: upd_upd_effect)
next
  case RequestExit
  have "keeps w (wakeup (requestStop w))" for w :: "'a IOWorker"
    using keeps_trans keeps_ops by blast
  with RequestExit show ?thesis
    by (auto simp: requestExit_def call_effect_def list_all2_map2 list_all2_same)
next
  case (StopIOWorker i)
  then show ?thesis by (auto intro: call_effect_upd)
qed (auto simp: postCompute_def intro!: call_effect_io)

lemma do_api_log [simp]: "h_log (do_api draw a h) = h_log h"
  by (cases a) (auto simp: postIO_def postDelayed_def postToWorker_def postCompute_def requestExit_def Let_def
      split_def wakeOne_effect pick_effect split: option.split)

lemma do_apis_log [simp]: "h_log (fold (do_api draw) as h) = h_log h"
  by (induction "as" arbitrary: h) simp_all

lemma do_apis_effect: "call_effect h (fold (do_api draw) as h)"
proof (induction "as" arbitrary: h)
  case (Cons a "as")
  then show ?case using call_effect_trans [OF do_api_effect] by (metis fold_simps(2))
qed simp

lemma run_fn_effect: "call_effect h (run_fn prog draw t h)"
proof (cases t)
  case (Some x)
  have "call_effect h (h\<lparr>h_log := h_log h @ [x]\<rparr>)" by (rule call_effect_io) simp_all
  with Some show ?thesis
    using call_effect_trans [OF _ do_apis_effect] by (simp add: run_fn_def call_task_def)
qed (simp add: run_fn_def)

lemma run_fn_log: "h_log (run_fn prog draw t h) = h_log h @ (case t of None \<Rightarrow> [] | Some x \<Rightarrow> [x])"
  by (simp add: run_fn_def call_task_def split: option.split)

lemma effect_stopping: "call_effect h h' \<Longrightarrow> i < length (h_io h) \<Longrightarrow> stopping i h \<Longrightarrow> stopping i h'"
  by (auto simp: call_effect_def stopping_def list_all2_conv_all_nth keeps_def getExitRequested_def)

lemma effect_length: "call_effect h h' \<Longrightarrow> length (h_io h') = length (h_io h)"
  by (auto simp: call_effect_def dest: list_all2_lengthD)

section \<open>The private queue and the timers\<close>

lemma private_loop_done:
  "i < length (h_io h) \<Longrightarrow> length (w_private (worker h i)) \<le> n \<Longrightarrow> None \<notin> set (w_private (worker h i)) \<Longrightarrow>
   h' = private_loop prog draw i n h \<Longrightarrow>
   call_effect h h' \<and> w_timers (worker h' i) = w_timers (worker h i) \<and>
   (stopping i h' \<or> w_private (worker h' i) = [] \<and> h_log h' = h_log h @ map the (w_private (worker h i)))"
proof (induction n arbitrary: h)
  case (Suc n)
  show ?case
  proof (cases "w_private (worker h i)")
    case (Cons t ts)
    let ?h = "upd_worker i (\<lambda>w. w\<lparr>w_private := ts\<rparr>) h"
    let ?g = "run_fn prog draw t ?h"
    have e: "call_effect h ?g"
      by (rule call_effect_trans [OF call_effect_upd run_fn_effect]) (simp add: keeps_def)
    note own = leaves_owned_nth [OF run_fn_owned [of ?h prog draw t], of i]
    have g: "w_private (worker ?g i) = ts" "w_timers (worker ?g i) = w_timers (worker h i)"
      using own Suc.prems(1) by simp_all
    have log: "h_log ?g = h_log h @ [the t]" using Suc.prems(3) Cons by (cases t) (auto simp: run_fn_log)
    show ?thesis
    proof (cases "stopping i ?g")
      case True
      then have "h' = ?g" using Suc.prems(4) Cons by (simp add: Let_def)
      with True e g show ?thesis by simp
    next
      case False
      then have h': "h' = private_loop prog draw i n ?g" using Suc.prems(4) Cons by (simp add: Let_def)
      have "call_effect ?g h' \<and> w_timers (worker h' i) = w_timers (worker ?g i) \<and>
        (stopping i h' \<or> w_private (worker h' i) = [] \<and> h_log h' = h_log ?g @ map the (w_private (worker ?g i)))"
        by (rule Suc.IH [OF _ _ _ h']) (use Suc.prems Cons g in simp_all)
      with e g log Cons show ?thesis using call_effect_trans by auto
    qed
  qed (use Suc.prems in simp)
qed simp

lemma timer_loop_done:
  "i < length (h_io h) \<Longrightarrow> drain_expired timers_top timers_pop n now (w_timers (worker h i)) = (due, rest) \<Longrightarrow>
   None \<notin> snd ` set (w_timers (worker h i)) \<Longrightarrow> h' = timer_loop prog draw i now n h \<Longrightarrow>
   call_effect h h' \<and>
   (stopping i h' \<or> w_timers (worker h' i) = rest \<and> h_log h' = h_log h @ map (the \<circ> snd) due)"
proof (induction n arbitrary: h due)
  case (Suc n)
  show ?case
  proof (cases "w_timers (worker h i)")
    case (Cons x q)
    obtain d t where x: "x = (d, t)" by fastforce
    show ?thesis
    proof (cases "d \<le> now")
      case True
      let ?h = "upd_worker i (\<lambda>w. w\<lparr>w_timers := timers_pop (w_timers w), w_timer_count := w_timer_count w - 1\<rparr>) h"
      let ?g = "run_fn prog draw t ?h"
      have e: "call_effect h ?g"
        by (rule call_effect_trans [OF call_effect_upd run_fn_effect]) (simp add: keeps_def)
      note own = leaves_owned_nth [OF run_fn_owned [of ?h prog draw t], of i]
      have g: "w_timers (worker ?g i) = q" using own Suc.prems(1) Cons by (simp add: timers_pop_def)
      have log: "h_log ?g = h_log h @ [the t]" using Suc.prems(3) Cons x by (cases t) (auto simp: run_fn_log)
      obtain due1 where due: "due = (d, t) # due1" "drain_expired timers_top timers_pop n now q = (due1, rest)"
        using Suc.prems(2) Cons x True by (auto split: prod.splits)
      show ?thesis
      proof (cases "stopping i ?g")
        case st: True
        then have "h' = ?g" using Suc.prems(4) Cons x True by (simp add: Let_def timers_top_def)
        with st e show ?thesis by simp
      next
        case False
        then have h': "h' = timer_loop prog draw i now n ?g"
          using Suc.prems(4) Cons x True by (simp add: Let_def timers_top_def)
        have "call_effect ?g h' \<and>
          (stopping i h' \<or> w_timers (worker h' i) = rest \<and> h_log h' = h_log ?g @ map (the \<circ> snd) due1)"
          by (rule Suc.IH [OF _ _ _ h']) (use Suc.prems Cons g due(2) in simp_all)
        with e due log show ?thesis using call_effect_trans by auto
      qed
    next
      case False
      then have "h' = h" using Suc.prems(4) by (simp add: Cons x)
      moreover have "due = []" "rest = w_timers (worker h i)"
        using Suc.prems(2) False by (auto simp: Cons x)
      ultimately show ?thesis by simp
    qed
  qed (use Suc.prems in simp)
qed auto

section \<open>Properties of a turn\<close>

text \<open>The tasks a worker finds in its inbound queue, as it will append them.\<close>

definition inbound_private :: "'t IOWorker \<Rightarrow> 't fn list" where
  "inbound_private w = map ic_task (filter (\<lambda>cmd. ic_kind cmd = PrivateTask \<and> ic_task cmd \<noteq> None) (mq_items (w_inbound w)))"

definition no_empty :: "'t IOWorker \<Rightarrow> bool" where
  "no_empty w \<longleftrightarrow> None \<notin> set (w_private w) \<and> None \<notin> snd ` set (w_timers w) \<and> timers_inv (w_timers w)"

lemma inbound_cmds_private:
  "no_empty w \<Longrightarrow> no_empty (fold inbound_cmd cmds w) \<and>
   w_private (fold inbound_cmd cmds w) =
   w_private w @ map ic_task (filter (\<lambda>cmd. ic_kind cmd = PrivateTask \<and> ic_task cmd \<noteq> None) cmds)"
proof (induction cmds arbitrary: w)
  case (Cons cmd cmds)
  have "no_empty (inbound_cmd cmd w)"
    using Cons.prems by (cases "ic_kind cmd")
      (auto simp: inbound_cmd_def no_empty_def timers_push_set timers_push_inv)
  from Cons.IH [OF this] show ?case
    by (cases "ic_kind cmd") (auto simp: inbound_cmd_def)
qed simp

lemma drainInbound_law:
  assumes "i < length (h_io h)" "no_empty (worker h i)"
  shows "no_empty (worker (drainInbound i h) i)" "h_log (drainInbound i h) = h_log h"
    and "w_private (worker (drainInbound i h) i) = w_private (worker h i) @ inbound_private (worker h i)"
proof -
  let ?w = "(worker h i)\<lparr>w_inbound := snd (mpsc_drain (w_inbound (worker h i)))\<rparr>"
  have "no_empty ?w" using assms(2) by (simp add: no_empty_def)
  from inbound_cmds_private [OF this, of "mq_items (w_inbound (worker h i))"] assms(1)
  show "no_empty (worker (drainInbound i h) i)" "h_log (drainInbound i h) = h_log h"
    "w_private (worker (drainInbound i h) i) = w_private (worker h i) @ inbound_private (worker h i)"
    by (simp_all add: drainInbound_upd inbound_private_def)
qed


lemma timer_loop_stop: "i < length (h_io h) \<Longrightarrow> call_effect h (timer_loop prog draw i now n h)"
proof (induction n arbitrary: h)
  case (Suc n)
  show ?case
  proof (cases "timers_top (w_timers (worker h i))")
    case (Some x)
    obtain d t where x: "x = (d, t)" by fastforce
    let ?h = "upd_worker i (\<lambda>w. w\<lparr>w_timers := timers_pop (w_timers w), w_timer_count := w_timer_count w - 1\<rparr>) h"
    have e: "call_effect h (run_fn prog draw t ?h)"
      by (rule call_effect_trans [OF call_effect_upd run_fn_effect]) (simp add: keeps_def)
    with Suc.IH [of "run_fn prog draw t ?h"] Suc.prems Some x show ?thesis
      using call_effect_trans by (auto simp: Let_def)
  qed simp
qed simp

lemma private_loop_stop: "i < length (h_io h) \<Longrightarrow> call_effect h (private_loop prog draw i n h)"
proof (induction n arbitrary: h)
  case (Suc n)
  show ?case
  proof (cases "w_private (worker h i)")
    case (Cons t ts)
    let ?h = "upd_worker i (\<lambda>w. w\<lparr>w_private := ts\<rparr>) h"
    have e: "call_effect h (run_fn prog draw t ?h)"
      by (rule call_effect_trans [OF call_effect_upd run_fn_effect]) (simp add: keeps_def)
    with Suc.IH [of "run_fn prog draw t ?h"] Suc.prems Cons show ?thesis
      using call_effect_trans by (auto simp: Let_def)
  qed simp
qed simp

lemma keeps_inbound: "keeps w (inbound_cmd cmd w)"
  by (simp add: keeps_def inbound_cmd_def split: Kind.split)

lemma keeps_inbounds: "keeps w (fold inbound_cmd cmds w)"
  by (induction cmds arbitrary: w) (auto intro: keeps_trans [OF keeps_inbound])

lemma drainInbound_effect:
  assumes "i < length (h_io h)"
  shows "call_effect h (drainInbound i h)"
  unfolding drainInbound_upd [OF assms]
proof (rule call_effect_upd)
  fix w
  have "keeps w (w\<lparr>w_inbound := q\<rparr>)" for q by (simp add: keeps_def)
  then show "keeps w (fold inbound_cmd cs (w\<lparr>w_inbound := q\<rparr>))" for cs q
    using keeps_trans keeps_inbounds by blast
qed

lemma phases_effect:
  assumes "i < length (h_io h)"
  shows "call_effect h (runExpiredTimers prog draw i (runPrivateTasks prog draw i (drainInbound i h)))"
proof -
  have "call_effect h (runPrivateTasks prog draw i (drainInbound i h))"
    unfolding runPrivateTasks_def using assms
    by (intro call_effect_trans [OF drainInbound_effect private_loop_stop]) simp_all
  then show ?thesis
    unfolding runExpiredTimers_def using assms by (elim call_effect_trans) (simp add: timer_loop_stop)
qed


section \<open>Sleeping\<close>

lemma hasImmediateWork_stop: "w_stop (worker h i) \<or> h_exit h \<or> \<not> w_bound (worker h i) \<Longrightarrow> hasImmediateWork i h"
  by (auto simp: hasImmediateWork_def getExitRequested_def)


section \<open>Choosing and stealing\<close>

text \<open>
  A delayed task goes to an attached worker if there is one, and with at least two workers the
  hive compares two different ones and takes one with no more timers than the other.
\<close>

lemma delayed_worker_choice:
  assumes "pickDelayedWorker draw h = (r, h')"
  shows "(r = None \<longleftrightarrow> h_io h = []) \<and>
     (\<forall>k. r = Some k \<longrightarrow> k < length (h_io h)) \<and>
     (2 \<le> length (h_io h) \<longrightarrow>
        (\<exists>k j. r = Some k \<and> j < length (h_io h) \<and> j \<noteq> k \<and>
               w_timer_count (worker h k) \<le> w_timer_count (worker h j)))"
proof -
  have two: "\<exists>k j. r = Some k \<and> j < length (h_io h) \<and> j \<noteq> k \<and> w_timer_count (worker h k) \<le> w_timer_count (worker h j)"
    if n: "2 \<le> length (h_io h)"
  proof -
    define n a b0 where "n = length (h_io h)" and "a = draw (h_rng h) mod n" and "b0 = draw (h_rng h + 1) mod n"
    define b where "b = (if a = b0 then (b0 + 1) mod n else b0)"
    have lt: "a < n" "b0 < n" "b < n" using n by (auto simp: n_def a_def b0_def b_def intro!: mod_less_divisor)
    have "(b0 + 1) mod n \<noteq> b0"
    proof (cases "b0 + 1 < n")
      case False
      then have eq: "b0 + 1 = n" using lt by simp
      then have "(b0 + 1) mod n = 0" by simp
      moreover have "b0 \<noteq> 0" using eq n n_def by linarith
      ultimately show ?thesis by simp
    qed simp
    then have ne: "a \<noteq> b" by (auto simp: b_def)
    have "r = Some (if w_timer_count (worker h a) \<le> w_timer_count (worker h b) then a else b)"
    proof -
      have ne: "h_io h \<noteq> []" "length (h_io h) \<noteq> 1" using n by auto
      have "fst (pickDelayedWorker draw h) =
          Some (if w_timer_count (worker h a) \<le> w_timer_count (worker h b) then a else b)"
        unfolding pickDelayedWorker_def Let_def b_def b0_def a_def n_def using ne by simp
      then show ?thesis using assms by simp
    qed
    with lt ne show ?thesis
      unfolding n_def by (cases "w_timer_count (worker h a) \<le> w_timer_count (worker h b)") (auto simp: not_le)
  qed
  with pickDelayedWorker_law(2,3) [OF assms] show ?thesis by blast
qed

lemma steal_tries_defined:
  "steal_batch_factor (w_options (worker h i)) \<noteq> 0 \<Longrightarrow> i < length (h_io h) \<Longrightarrow> steal_tries prog draw i n k h \<noteq> None"
  if keep: "\<And>v c st h h1. i < length (h_io h) \<Longrightarrow> steal_loop prog draw i v c False h = (st, h1) \<Longrightarrow>
       w_options (worker h1 i) = w_options (worker h i)"
proof (induction k arbitrary: h)
  case (Suc k)
  let ?h = "h\<lparr>h_rng := h_rng h + 1\<rparr>" and ?v = "draw (h_rng h) mod n"
  have IH: "steal_tries prog draw i n k ?h \<noteq> None" using Suc by simp
  show ?case
  proof (cases "?v = w_id (worker h i) \<or> workerAt ?v ?h = None")
    case True
    with IH show ?thesis by (auto simp: Let_def split: option.splits)
  next
    case False
    have "steal_count (w_options (worker h i)) (approxSize (w_local (worker h ?v))) \<noteq> None"
      using Suc.prems(1) by (simp add: steal_count_def)
    then obtain c where c: "steal_count (w_options (worker h i)) (approxSize (w_local (worker h ?v))) = Some c"
      by auto
    obtain st h1 where l: "steal_loop prog draw i ?v c False ?h = (st, h1)" by fastforce
    have "w_options (worker h1 i) = w_options (worker h i)" using keep [of ?h ?v c st h1] l Suc.prems(2) by simp
    moreover have "length (h_io h1) = length (h_io h)"
      using steal_loop_length [of prog draw i ?v c False ?h] unfolding l by simp
    ultimately have "steal_tries prog draw i n k h1 \<noteq> None" using Suc by simp
    with False c l show ?thesis by (auto simp: Let_def workerAt_def split: if_splits)
  qed
qed simp

lemma effect_options: "call_effect h h' \<Longrightarrow> i < length (h_io h) \<Longrightarrow> w_options (worker h' i) = w_options (worker h i)"
  by (auto simp: call_effect_def list_all2_conv_all_nth keeps_def)

lemma push_local_effect: "call_effect h (snd (push_local i t h))"
proof -
  have "call_effect h (upd_worker i (w_local_update (\<lambda>_. d)) (h\<lparr>h_pushes := p\<rparr>))" for d p
    by (rule call_effect_trans [OF call_effect_io call_effect_upd]) (simp_all add: keeps_def)
  moreover have "call_effect h (upd_worker i (w_local_update (\<lambda>_. d)) h)" for d
    by (rule call_effect_upd) (simp add: keeps_def)
  ultimately show ?thesis by (simp add: push_local_def Let_def split_def)
qed

lemma call_task_effect: "call_effect h (call_task prog draw t h)"
  using run_fn_effect [of h prog draw "Some t"] by (simp add: run_fn_def)

lemma steal_loop_effect: "call_effect h (snd (steal_loop prog draw i v n stole h))"
proof (induction n arbitrary: stole h)
  case (Suc n)
  obtain r d where s: "tryStealTop (w_local (worker h v)) = (r, d)" by fastforce
  let ?h = "upd_worker v (\<lambda>w. w\<lparr>w_local := d\<rparr>) h"
  have e: "call_effect h ?h" by (rule call_effect_upd) (simp add: keeps_def)
  show ?case
  proof (cases "case r of Some (Some t) \<Rightarrow> Some t | _ \<Rightarrow> None")
    case None
    with e s Suc show ?thesis
      by (auto simp: Let_def split: option.splits intro: call_effect_trans)
  next
    case (Some t)
    then have r: "r = Some (Some t)" by (auto split: option.splits)
    obtain ok h1 where p: "push_local i t ?h = (ok, h1)" by fastforce
    then have "call_effect ?h h1" using push_local_effect [of ?h i t] by simp
    then have e1: "call_effect h h1" by (rule call_effect_trans [OF e])
    then have "call_effect h (call_task prog draw t h1)" by (rule call_effect_trans [OF _ call_task_effect])
    with e1 have "call_effect h (if ok then h1 else call_task prog draw t h1)" by simp
    moreover have "steal_loop prog draw i v (Suc n) stole h =
        steal_loop prog draw i v n True (if ok then h1 else call_task prog draw t h1)"
      using s r p by (simp add: Let_def)
    ultimately show ?thesis using call_effect_trans [OF _ Suc.IH] by simp
  qed
qed simp

text \<open>
  A thief divides the victim's size by \<^verbatim>\<open>steal_batch_factor\<close> without looking at it: with a factor
  other than zero stealing is always defined, and with the factor zero it is undefined as soon as
  a victim has more than \<^verbatim>\<open>max(8, victim_minimum_size)\<close> tasks.
\<close>

lemma steal_defined_iff_factor:
  assumes "i < length (h_io h)"
  shows "(steal_batch_factor (w_options (worker h i)) \<noteq> 0 \<longrightarrow> stealOnce prog draw i h \<noteq> None) \<and>
     (steal_batch_factor (w_options (worker h i)) = 0 \<and> w_bound (worker h i) \<and> will_steal (w_options (worker h i)) \<and>
      2 \<le> length (h_io h) \<and> 0 < unat (ktries (w_options (worker h i))) \<and>
      (let v = draw (h_rng h) mod length (h_io h) in v \<noteq> w_id (worker h i) \<and>
         approxSize (w_local (worker h v)) > max 8 (victim_minimum_size (w_options (worker h i)))) \<longrightarrow>
      stealOnce prog draw i h = None)"
proof -
  have "steal_tries prog draw i n k h \<noteq> None" if "steal_batch_factor (w_options (worker h i)) \<noteq> 0" for n k
    by (rule steal_tries_defined [OF _ that assms])
      (metis effect_options steal_loop_effect snd_conv)
  then have one: "steal_batch_factor (w_options (worker h i)) \<noteq> 0 \<longrightarrow> stealOnce prog draw i h \<noteq> None"
    by (auto simp: stealOnce_def Let_def)
  have two: "steal_tries prog draw i (length (h_io h)) k h = None"
    if f0: "steal_batch_factor (w_options (worker h i)) = 0" and kp: "0 < k"
      and v: "let v = draw (h_rng h) mod length (h_io h) in v \<noteq> w_id (worker h i) \<and>
         approxSize (w_local (worker h v)) > max 8 (victim_minimum_size (w_options (worker h i)))" for k
  proof -
    obtain k' where k: "k = Suc k'" using kp by (cases k) auto
    have "draw (h_rng h) mod length (h_io h) < length (h_io h)" using assms by (intro mod_less_divisor) auto
    with f0 v k show ?thesis by (simp add: Let_def workerAt_def steal_count_def)
  qed
  with one show ?thesis by (auto simp: stealOnce_def Let_def IOWorkerCount_def)
qed

section \<open>Concrete states\<close>

definition posted_hive :: "nat Hive" where
  "posted_hive = do_api (\<lambda>n. n) (PostToWorker 1 (Some 7)) demo_hive"

definition ran_private :: "nat Hive" where
  "ran_private = runPrivateTasks hive_prog (\<lambda>n. n) 1 (drainInbound 1 posted_hive)"

definition ran_timers :: "nat Hive" where
  "ran_timers = runExpiredTimers hive_prog (\<lambda>n. n) 1 ran_private"

lemma posted_hive_facts:
  "1 < length (h_io posted_hive)" "\<not> stopping 1 ran_timers" "h_log posted_hive = []"
  "w_private (worker posted_hive 1) = []" "inbound_private (worker posted_hive 1) = [Some 7]"
  "w_timers (worker (drainInbound 1 posted_hive) 1) = []" "w_timers (worker posted_hive 1) = []"
  by code_simp+



definition timed_hive :: "nat Hive" where
  "timed_hive = drainInbound 0 (upd_worker 0 (addTimer 2500000 (Some 1)) demo_hive)"


lemma delayed_worker_choice_witness:
  "2 \<le> length (h_io timed_hive) \<and> fst (pickDelayedWorker (\<lambda>n. n) timed_hive) = Some 1 \<and>
   (\<exists>k j. fst (pickDelayedWorker (\<lambda>n. n) timed_hive) = Some k \<and> j \<noteq> k)"
proof -
  have "2 \<le> length (h_io timed_hive)" "fst (pickDelayedWorker (\<lambda>n. n) timed_hive) = Some 1" by code_simp+
  with delayed_worker_choice [of "\<lambda>n. n" timed_hive, OF prod.collapse [symmetric]] show ?thesis by blast
qed

definition factor_zero :: Options where
  "factor_zero = small_options\<lparr>local_queue_capacity := 16, victim_minimum_size := 0, steal_batch_factor := 0,
     will_steal := True, ktries := 1\<rparr>"

definition crowded_hive :: "nat Hive" where
  "crowded_hive = fold (\<lambda>t h. snd (push_local 1 t h)) [0, 1, 2, 3, 4, 5, 6, 7, 8]
     (the (attach_all Linux [factor_zero, factor_zero] [] (new_Hive factor_zero 0)))"

lemma steal_defined_iff_factor_witness:
  "length (dq_contents (w_local (worker crowded_hive 1))) = 9 \<and>
   stealOnce hive_prog (\<lambda>n. 1) 0 crowded_hive = None"
proof -
  have "length (dq_contents (w_local (worker crowded_hive 1))) = 9" by code_simp
  moreover have "0 < length (h_io crowded_hive)" by code_simp
  moreover have "steal_batch_factor (w_options (worker crowded_hive 0)) = 0 \<and> w_bound (worker crowded_hive 0) \<and>
      will_steal (w_options (worker crowded_hive 0)) \<and> 2 \<le> length (h_io crowded_hive) \<and>
      0 < unat (ktries (w_options (worker crowded_hive 0))) \<and>
      (let v = 1 mod length (h_io crowded_hive) in v \<noteq> w_id (worker crowded_hive 0) \<and>
         approxSize (w_local (worker crowded_hive v)) > max 8 (victim_minimum_size (w_options (worker crowded_hive 0))))"
    by code_simp
  ultimately show ?thesis
    using steal_defined_iff_factor [of 0 crowded_hive hive_prog "\<lambda>n. 1"] by blast
qed

end
