(* ===== verification/Sleep_Protocol.thy ===== *)
theory Sleep_Protocol
  imports Io_Worker
begin

text \<open>
  How a worker of \<^verbatim>\<open>io_worker.cc\<close> goes to sleep while other threads post work and request the exit:
  the same code as in \<open>Hive\<close> and \<open>Io_Worker\<close>, cut into its single accesses of shared memory. A
  schedule says which thread makes the next access. The calls that a running task makes are calls
  of a caller: a caller may start any call at any time, so the phases of a worker only move tasks
  here. The wakeup source is level triggered: the wait can return while a notification is unread.
\<close>

section \<open>Control points\<close>

text \<open>One for each load of the loop condition, \<open>computeNextTimeoutMs\<close> and \<open>hasImmediateWork\<close>.\<close>

datatype worker_pc =
    LoopStop | LoopExit
  | TimeoutStop | TimeoutExit
  | WorkStop | WorkExit | WorkInbound | WorkPrivate | WorkLocal | WorkGlobal
  | TimeoutTimers
  | MarkSleeping int | Waiting int | Draining int | Unmark int
  | PhaseInbound | PhasePrivate | PhaseTimers | PhaseStop | PhaseExit | PhaseLocal | PhaseHarvest | PhaseSteal
  | Ended

text \<open>Why the wait of \<^verbatim>\<open>runOnce\<close> returns: the wakeup source, the timeout, another source.\<close>

datatype wait_end = Notified | TimedOut | OtherSource

datatype 't call_pc =
    PushInbound nat "'t InboundCommand" | CountInbound nat | NotifyWorker nat
  | PushGlobal "'t fn" | CountGlobal | ScanSleeping nat | NotifyIdle nat
  | SetExit | StopWorkerAt nat | NotifyStop nat
  | Returned

record 't sleep_world =
  sw_hive :: "'t Hive"
  sw_pc :: "nat \<Rightarrow> worker_pc"
  sw_calls :: "'t call_pc list"

section \<open>Steps of a worker\<close>

definition no_calls :: "'t \<Rightarrow> 't api list" where
  "no_calls t = []"

text \<open>The timeout of \<open>computeNextTimeoutMs\<close> once no work is in sight.\<close>

definition timers_timeout :: "nat \<Rightarrow> 't Hive \<Rightarrow> int" where
  "timers_timeout i h =
     (case timers_top (w_timers (worker h i)) of
        None \<Rightarrow> -1
      | Some (deadline, _) \<Rightarrow>
          (if deadline \<le> h_now h then 0
           else
             (let m = (deadline - h_now h) div ms
              in if m > INT_MAX then INT_MAX else m)))"

definition sleep_as :: "int \<Rightarrow> worker_pc" where
  "sleep_as timeout = (if timeout \<noteq> 0 then MarkSleeping timeout else Waiting timeout)"

text \<open>The reads before the wait: what the worker sees and where it goes next.\<close>

fun read_step :: "nat \<Rightarrow> 't Hive \<Rightarrow> worker_pc \<Rightarrow> worker_pc option" where
  "read_step i h LoopStop = Some (if w_stop (worker h i) then Ended else LoopExit)"
| "read_step i h LoopExit = Some (if getExitRequested h then Ended else TimeoutStop)"
| "read_step i h TimeoutStop = Some (if w_stop (worker h i) then sleep_as 0 else TimeoutExit)"
| "read_step i h TimeoutExit = Some (if getExitRequested h then sleep_as 0 else WorkStop)"
| "read_step i h WorkStop = Some (if w_stop (worker h i) then sleep_as 0 else WorkExit)"
| "read_step i h WorkExit = Some (if getExitRequested h then sleep_as 0 else WorkInbound)"
| "read_step i h WorkInbound =
     Some (if mpsc_approxSize (w_inbound (worker h i)) \<noteq> 0 then sleep_as 0 else WorkPrivate)"
| "read_step i h WorkPrivate = Some (if w_private (worker h i) \<noteq> [] then sleep_as 0 else WorkLocal)"
| "read_step i h WorkLocal = Some (if approxSize (w_local (worker h i)) \<noteq> 0 then sleep_as 0 else WorkGlobal)"
| "read_step i h WorkGlobal = Some (if globalMicroApproxSize h \<noteq> 0 then sleep_as 0 else TimeoutTimers)"
| "read_step i h TimeoutTimers = Some (sleep_as (timers_timeout i h))"
| "read_step i h pc = None"

text \<open>Around the wait. The callback of the wakeup source reads until nothing is left.\<close>

fun wait_step :: "wait_end \<Rightarrow> nat \<Rightarrow> 't Hive \<Rightarrow> worker_pc \<Rightarrow> (worker_pc \<times> 't Hive) option" where
  "wait_step e i h (MarkSleeping timeout) =
     Some (Waiting timeout, upd_worker i (\<lambda>w. w\<lparr>w_sleeping := True\<rparr>) h)"
| "wait_step e i h (Waiting timeout) =
     (case e of
        Notified \<Rightarrow> (if w_notified (worker h i) > 0 then Some (Draining timeout, h) else None)
      | TimedOut \<Rightarrow> (if timeout \<ge> 0 then Some (Unmark timeout, h) else None)
      | OtherSource \<Rightarrow> Some (Unmark timeout, h))"
| "wait_step e i h (Draining timeout) =
     Some (Unmark timeout, upd_worker i (\<lambda>w. w\<lparr>w_notified := 0\<rparr>) h)"
| "wait_step e i h (Unmark timeout) =
     Some (PhaseInbound, if timeout \<noteq> 0 then upd_worker i (\<lambda>w. w\<lparr>w_sleeping := False\<rparr>) h else h)"
| "wait_step e i h pc = None"

fun phase_step :: "(nat \<Rightarrow> nat) \<Rightarrow> nat \<Rightarrow> 't Hive \<Rightarrow> worker_pc \<Rightarrow> (worker_pc \<times> 't Hive) option" where
  "phase_step draw i h PhaseInbound = Some (PhasePrivate, drainInbound i h)"
| "phase_step draw i h PhasePrivate = Some (PhaseTimers, runPrivateTasks no_calls draw i h)"
| "phase_step draw i h PhaseTimers = Some (PhaseStop, runExpiredTimers no_calls draw i h)"
| "phase_step draw i h PhaseStop = Some (if w_stop (worker h i) then Ended else PhaseExit, h)"
| "phase_step draw i h PhaseExit = Some (if getExitRequested h then Ended else PhaseLocal, h)"
| "phase_step draw i h PhaseLocal =
     (let (did, h) = runLocalBatch no_calls draw i h in Some (if did then LoopStop else PhaseHarvest, h))"
| "phase_step draw i h PhaseHarvest =
     (let (moved, h) = harvestGlobalBatch no_calls draw i h
      in Some (if moved \<or> \<not> will_steal (w_options (worker h i)) then LoopStop else PhaseSteal, h))"
| "phase_step draw i h PhaseSteal = map_option (\<lambda>(_, h). (LoopStop, h)) (stealOnce no_calls draw i h)"
| "phase_step draw i h pc = None"

definition sleep_worker_step ::
  "(nat \<Rightarrow> nat) \<Rightarrow> wait_end \<Rightarrow> nat \<Rightarrow> 't sleep_world \<Rightarrow> 't sleep_world option" where
  "sleep_worker_step draw e i s =
     (let pc = sw_pc s i; h = sw_hive s;
          go = (\<lambda>(pc, h). s\<lparr>sw_hive := h, sw_pc := (sw_pc s)(i := pc)\<rparr>)
      in case read_step i h pc of
           Some pc \<Rightarrow> Some (go (pc, h))
         | None \<Rightarrow>
             (case wait_step e i h pc of
                Some r \<Rightarrow> Some (go r)
              | None \<Rightarrow> map_option go (phase_step draw i h pc)))"

section \<open>Steps of a caller\<close>

text \<open>
  \<open>PushInbound\<close> is the call of \<open>postPrivate\<close> in \<^verbatim>\<open>postToWorker\<close> and of \<open>addTimer\<close> in
  \<^verbatim>\<open>postDelayed\<close>, for any worker it may have picked. A push is the insertion under the lock, then
  the count.
\<close>

fun call_step :: "'t Hive \<Rightarrow> 't call_pc \<Rightarrow> ('t call_pc \<times> 't Hive) option" where
  "call_step h (PushInbound i cmd) =
     Some (CountInbound i, upd_worker i (\<lambda>w. w\<lparr>w_inbound := (w_inbound w)\<lparr>mq_items := mq_items (w_inbound w) @ [cmd]\<rparr>\<rparr>) h)"
| "call_step h (CountInbound i) =
     Some (NotifyWorker i, upd_worker i (\<lambda>w. w\<lparr>w_inbound := (w_inbound w)\<lparr>mq_size := mq_size (w_inbound w) + 1\<rparr>\<rparr>) h)"
| "call_step h (NotifyWorker i) = Some (Returned, upd_worker i wakeup h)"
| "call_step h (PushGlobal task) =
     Some (CountGlobal, h\<lparr>h_micro := (h_micro h)\<lparr>mq_items := mq_items (h_micro h) @ [task]\<rparr>\<rparr>)"
| "call_step h CountGlobal =
     Some (ScanSleeping 0, h\<lparr>h_micro := (h_micro h)\<lparr>mq_size := mq_size (h_micro h) + 1\<rparr>\<rparr>)"
| "call_step h (ScanSleeping j) =
     (if j \<ge> length (h_io h) then Some (Returned, h)
      else Some (if w_sleeping (worker h j) then NotifyIdle j else ScanSleeping (Suc j), h))"
| "call_step h (NotifyIdle j) = Some (Returned, upd_worker j wakeup h)"
| "call_step h SetExit = Some (if h_exit h then Returned else StopWorkerAt 0, h\<lparr>h_exit := True\<rparr>)"
| "call_step h (StopWorkerAt j) =
     (if j \<ge> length (h_io h) then Some (Returned, h) else Some (NotifyStop j, upd_worker j requestStop h))"
| "call_step h (NotifyStop j) = Some (StopWorkerAt (Suc j), upd_worker j wakeup h)"
| "call_step h Returned = None"

definition sleep_caller_step :: "nat \<Rightarrow> 't sleep_world \<Rightarrow> 't sleep_world option" where
  "sleep_caller_step c s =
     (if c < length (sw_calls s) then
        map_option (\<lambda>(pc, h). s\<lparr>sw_hive := h, sw_calls := (sw_calls s)[c := pc]\<rparr>)
          (call_step (sw_hive s) (sw_calls s ! c))
      else None)"

text \<open>The calls: a task or a timer for a worker, \<^verbatim>\<open>postIO\<close>, \<^verbatim>\<open>requestExit\<close>.\<close>

datatype 't client_call = ToWorker nat "'t InboundCommand" | ToPool 't | Exit

fun start_call :: "'t Hive \<Rightarrow> 't client_call \<Rightarrow> 't call_pc" where
  "start_call h (ToWorker i cmd) = (if i < length (h_io h) then PushInbound i cmd else Returned)"
| "start_call h (ToPool t) = PushGlobal (Some t)"
| "start_call h Exit = SetExit"

datatype 't sched = Worker nat wait_end | Caller nat | Start "'t client_call"

fun sleep_step :: "(nat \<Rightarrow> nat) \<Rightarrow> 't sched \<Rightarrow> 't sleep_world \<Rightarrow> 't sleep_world option" where
  "sleep_step draw (Worker i e) s =
     (if i < length (h_io (sw_hive s)) then sleep_worker_step draw e i s else None)"
| "sleep_step draw (Caller c) s = sleep_caller_step c s"
| "sleep_step draw (Start call) s =
     Some (s\<lparr>sw_calls := sw_calls s @ [start_call (sw_hive s) call]\<rparr>)"

fun sleep_run :: "(nat \<Rightarrow> nat) \<Rightarrow> 't sched list \<Rightarrow> 't sleep_world \<Rightarrow> 't sleep_world option" where
  "sleep_run draw [] s = Some s"
| "sleep_run draw (x # xs) s = Option.bind (sleep_step draw x s) (sleep_run draw xs)"

text \<open>The workers are bound and about to run, and nothing has been posted yet.\<close>

definition sleep_start :: "'t Hive \<Rightarrow> bool" where
  "sleep_start h \<longleftrightarrow> \<not> h_exit h \<and> (\<forall>w \<in> set (h_io h). w_inbound w = mpsc_empty \<and> \<not> w_stop w)"

definition sleep_init :: "'t Hive \<Rightarrow> 't sleep_world" where
  "sleep_init h = \<lparr>sw_hive = h, sw_pc = (\<lambda>_. LoopStop), sw_calls = []\<rparr>"


section \<open>What the phases leave alone\<close>

definition signals :: "'t IOWorker \<Rightarrow> 't InboundCommand MPSCQueue \<times> bool \<times> nat \<times> bool" where
  "signals w = (w_inbound w, w_stop w, w_notified w, w_wakeup w)"

definition phase_frame :: "nat \<Rightarrow> 't Hive \<Rightarrow> 't Hive \<Rightarrow> bool" where
  "phase_frame i h h' \<longleftrightarrow>
     h_exit h' = h_exit h \<and> length (h_io h') = length (h_io h) \<and>
     (\<forall>k < length (h_io h). signals (worker h' k) = signals (worker h k) \<and>
        (k \<noteq> i \<longrightarrow> w_private (worker h' k) = w_private (worker h k)))"

lemma phase_frame_refl [simp]: "phase_frame i h h"
  by (simp add: phase_frame_def)

lemma phase_frame_trans [trans]: "phase_frame i a b \<Longrightarrow> phase_frame i b c \<Longrightarrow> phase_frame i a c"
  by (simp add: phase_frame_def)

lemma frame_io:
  "phase_frame i a h \<Longrightarrow> h_io h' = h_io h \<Longrightarrow> h_exit h' = h_exit h \<Longrightarrow> phase_frame i a h'"
  by (simp add: phase_frame_def)

lemma frame_upd:
  assumes "phase_frame i a h" "\<And>w. signals (f w) = signals w" "\<And>w. j \<noteq> i \<Longrightarrow> w_private (f w) = w_private w"
  shows "phase_frame i a (upd_worker j f h)"
proof -
  have "worker (upd_worker j f h) k = (if k = j then f (worker h k) else worker h k)" if "k < length (h_io h)" for k
    using that by (simp add: upd_worker_def nth_list_update)
  then show ?thesis using assms by (simp add: phase_frame_def) (simp add: upd_worker_def)
qed

text \<open>Each phase keeps a frame that holds when it begins.\<close>

named_theorems frames

lemma frame_set_local [frames]:
  "phase_frame i a h \<Longrightarrow> phase_frame i a (upd_worker j (\<lambda>w. w\<lparr>w_local := dq\<rparr>) h)"
  by (erule frame_upd) (simp_all add: signals_def)

lemma frame_call_task [frames]: "phase_frame i a h \<Longrightarrow> phase_frame i a (call_task no_calls draw t h)"
  by (erule frame_io) (simp_all add: call_task_def no_calls_def)

lemma frame_run_fn [frames]: "phase_frame i a h \<Longrightarrow> phase_frame i a (run_fn no_calls draw t h)"
  by (simp add: run_fn_def frame_call_task split: option.split)

lemma frame_push_local [frames]:
  assumes "phase_frame i a h"
  shows "phase_frame i a (snd (push_local j t h))"
proof -
  have "phase_frame i a (h\<lparr>h_pushes := n\<rparr>)" for n using assms by (rule frame_io) simp_all
  then show ?thesis using assms by (simp add: push_local_def split_def Let_def frames)
qed

lemma frame_private_loop: "phase_frame i a h \<Longrightarrow> phase_frame i a (private_loop no_calls draw i n h)"
proof (induction n arbitrary: h)
  case (Suc n)
  have "phase_frame i a (upd_worker i (\<lambda>w. w\<lparr>w_private := ts\<rparr>) h)" for ts
    using Suc.prems by (rule frame_upd) (simp_all add: signals_def)
  then show ?case using Suc by (simp add: Let_def frames split: list.split)
qed simp

lemma frame_timer_loop: "phase_frame i a h \<Longrightarrow> phase_frame i a (timer_loop no_calls draw i now n h)"
proof (induction n arbitrary: h)
  case (Suc n)
  have "phase_frame i a (upd_worker i (\<lambda>w. w\<lparr>w_timers := timers_pop (w_timers w),
          w_timer_count := w_timer_count w - 1\<rparr>) h)"
    using Suc.prems by (rule frame_upd) (simp_all add: signals_def)
  then show ?case using Suc by (auto simp: Let_def frames split: option.split)
qed simp

lemma frame_local_loop: "phase_frame i a h \<Longrightarrow> phase_frame i a (snd (local_loop no_calls draw i n did h))"
  by (induction n arbitrary: did h) (simp_all add: Let_def split_def frames split: option.split)

lemma frame_harvest_loop:
  "phase_frame i a h \<Longrightarrow> phase_frame i a (snd (harvest_loop no_calls draw i batch moved h))"
proof (induction batch arbitrary: moved h)
  case (Cons t batch)
  have "phase_frame i a (drop_tasks ts h')" if "phase_frame i a h'" for ts h'
    using that by (rule frame_io) (simp_all add: drop_tasks_def)
  then show ?case using Cons by (cases t) (simp_all add: Let_def split_def frames)
qed simp

lemma frame_steal_loop:
  "phase_frame i a h \<Longrightarrow> phase_frame i a (snd (steal_loop no_calls draw i v n stole h))"
  by (induction n arbitrary: stole h) (simp_all add: Let_def split_def frames split: option.split)

lemma frame_steal_tries:
  "steal_tries no_calls draw i n k h = Some (b, h') \<Longrightarrow> phase_frame i a h \<Longrightarrow> phase_frame i a h'"
proof (induction k arbitrary: h)
  case (Suc k)
  have 0: "phase_frame i a (h\<lparr>h_rng := h_rng h + 1\<rparr>)" using Suc.prems(2) by (rule frame_io) simp_all
  have 1: "phase_frame i a h''" if "steal_loop no_calls draw i v m False (h\<lparr>h_rng := h_rng h + 1\<rparr>) = (s, h'')"
    for v m s h''
    using frame_steal_loop [OF 0, of draw v m False] that by simp
  show ?case
    using Suc.prems(1) Suc.IH [OF _ 0] Suc.IH [OF _ 1] 1
    by (auto simp: Let_def split: if_splits option.splits prod.splits)
qed simp

lemma phase_step_frame:
  assumes "phase_step draw i h pc = Some (pc', h')" "pc \<noteq> PhaseInbound"
  shows "phase_frame i h h'"
proof (cases pc)
  case PhaseHarvest
  have "phase_frame i h (snd (tryPopGlobalMicroBatch m h))" for m
    by (rule frame_io [OF phase_frame_refl]) (simp_all add: tryPopGlobalMicroBatch_def split_def Let_def)
  then have "phase_frame i h (snd (harvestGlobalBatch no_calls draw i h))"
    by (auto simp: harvestGlobalBatch_def split_def Let_def intro: frame_harvest_loop)
  with PhaseHarvest assms show ?thesis by (auto simp: split_def Let_def)
next
  case PhaseSteal
  with assms show ?thesis
    by (auto simp: stealOnce_def Let_def split: if_splits dest: frame_steal_tries [OF _ phase_frame_refl])
next
  case PhaseLocal
  with assms show ?thesis using frame_local_loop [OF phase_frame_refl]
    by (auto simp: runLocalBatch_def split_def Let_def)
qed (use assms in \<open>auto simp: runPrivateTasks_def runExpiredTimers_def
      intro: frame_private_loop frame_timer_loop\<close>)

section \<open>No wakeup is lost\<close>

text \<open>
  After the wakeup source has been read the worker still has to look at what the notification was
  about: the inbound queue, the stop flag, the exit flag.
\<close>

fun looks_inbound :: "worker_pc \<Rightarrow> bool" where
  "looks_inbound (Unmark _) = True"
| "looks_inbound PhaseInbound = True"
| "looks_inbound pc = False"

fun looks_stop :: "worker_pc \<Rightarrow> bool" where
  "looks_stop PhasePrivate = True"
| "looks_stop PhaseTimers = True"
| "looks_stop PhaseStop = True"
| "looks_stop Ended = True"
| "looks_stop pc = looks_inbound pc"

definition looks_exit :: "worker_pc \<Rightarrow> bool" where
  "looks_exit pc \<longleftrightarrow> looks_stop pc \<or> pc = PhaseExit"

fun saw_private :: "worker_pc \<Rightarrow> bool" where
  "saw_private WorkLocal = True"
| "saw_private WorkGlobal = True"
| "saw_private TimeoutTimers = True"
| "saw_private (MarkSleeping t) = True"
| "saw_private (Waiting t) = (t \<noteq> 0)"
| "saw_private pc = False"

definition tells_exit :: "nat \<Rightarrow> 't call_pc set \<Rightarrow> bool" where
  "tells_exit i C \<longleftrightarrow> (\<exists>j \<le> i. StopWorkerAt j \<in> C \<or> NotifyStop j \<in> C)"

definition deaf :: "'t IOWorker \<Rightarrow> bool" where
  "deaf w \<longleftrightarrow> w_wakeup w \<and> w_notified w = 0"

definition inbound_ok :: "nat \<Rightarrow> worker_pc \<Rightarrow> 't IOWorker \<Rightarrow> 't call_pc set \<Rightarrow> bool" where
  "inbound_ok i pc w C \<longleftrightarrow>
     (deaf w \<and> mq_items (w_inbound w) \<noteq> [] \<longrightarrow> looks_inbound pc \<or> CountInbound i \<in> C \<or> NotifyWorker i \<in> C)"

definition stop_ok :: "nat \<Rightarrow> worker_pc \<Rightarrow> 't IOWorker \<Rightarrow> 't call_pc set \<Rightarrow> bool" where
  "stop_ok i pc w C \<longleftrightarrow> (deaf w \<and> w_stop w \<longrightarrow> looks_stop pc \<or> NotifyStop i \<in> C)"

definition exit_ok :: "nat \<Rightarrow> worker_pc \<Rightarrow> 't IOWorker \<Rightarrow> bool \<Rightarrow> 't call_pc set \<Rightarrow> bool" where
  "exit_ok i pc w ex C \<longleftrightarrow> (deaf w \<and> ex \<longrightarrow> looks_exit pc \<or> tells_exit i C)"

definition sleep_ok :: "nat \<Rightarrow> worker_pc \<Rightarrow> 't IOWorker \<Rightarrow> bool \<Rightarrow> 't call_pc set \<Rightarrow> bool" where
  "sleep_ok i pc w ex C \<longleftrightarrow>
     inbound_ok i pc w C \<and> stop_ok i pc w C \<and> exit_ok i pc w ex C \<and> (saw_private pc \<longrightarrow> w_private w = [])"

lemmas sleep_defs = sleep_ok_def inbound_ok_def stop_ok_def exit_ok_def deaf_def

lemma sleep_ok_mono: "sleep_ok i pc w ex C \<Longrightarrow> C \<subseteq> C' \<Longrightarrow> sleep_ok i pc w ex C'"
  unfolding sleep_defs tells_exit_def by blast

lemma sleep_ok_signals:
  assumes "sleep_ok i pc w ex C" "signals w' = signals w" "w_private w' = w_private w"
  shows "sleep_ok i pc w' ex C"
  using assms by (simp add: sleep_defs signals_def)

lemma worker_upd:
  "i < length (h_io h) \<Longrightarrow> worker (upd_worker j f h) i = (if i = j then f (worker h i) else worker h i)"
  "h_exit (upd_worker j f h) = h_exit h" "length (h_io (upd_worker j f h)) = length (h_io h)"
  by (simp_all add: upd_worker_def nth_list_update)

lemma call_inbound_ok:
  assumes "inbound_ok i pc (worker h i) C" "i < length (h_io h)" "call_step h old = Some (new, h')"
  shows "inbound_ok i pc (worker h' i) (insert new (C - {old}))"
  using assms
  by (cases old) (auto simp: inbound_ok_def deaf_def worker_upd wakeup_def requestStop_def split: if_splits)

lemma call_stop_ok:
  assumes "stop_ok i pc (worker h i) C" "i < length (h_io h)" "call_step h old = Some (new, h')"
  shows "stop_ok i pc (worker h' i) (insert new (C - {old}))"
  using assms
  by (cases old) (auto simp: stop_ok_def deaf_def worker_upd wakeup_def requestStop_def split: if_splits)

lemma deaf_wakeup: "\<not> deaf (wakeup w)"
  by (simp add: deaf_def wakeup_def)

lemma tells_exit_step:
  assumes "tells_exit i C" "i < length (h_io h)" "call_step h old = Some (new, h')"
    and "deaf (worker h' i)"
  shows "tells_exit i (insert new (C - {old}))"
proof -
  obtain j where j: "j \<le> i" "StopWorkerAt j \<in> C \<or> NotifyStop j \<in> C"
    using assms(1) by (auto simp: tells_exit_def)
  show ?thesis
  proof (cases "old = StopWorkerAt j \<or> old = NotifyStop j")
    case False
    with j show ?thesis by (auto simp: tells_exit_def)
  next
    case True
    then have "new = NotifyStop j \<or> new = StopWorkerAt (Suc j) \<and> j \<noteq> i"
      using assms j(1) by (auto simp: worker_upd deaf_wakeup)
    then show ?thesis
      using j(1) unfolding tells_exit_def by (metis insertCI le_neq_implies_less Suc_leI)
  qed
qed

lemma call_exit_ok:
  assumes ok: "exit_ok i pc (worker h i) (h_exit h) C" and i: "i < length (h_io h)"
    and st: "call_step h old = Some (new, h')"
  shows "exit_ok i pc (worker h' i) (h_exit h') (insert new (C - {old}))"
proof -
  have deaf: "deaf (worker h' i) \<Longrightarrow> deaf (worker h i)"
    using i st by (cases old) (auto simp: deaf_def worker_upd wakeup_def requestStop_def split: if_splits)
  have "h_exit h' = h_exit h \<or> new = StopWorkerAt 0 \<and> \<not> h_exit h"
    using st by (cases old) (auto simp: worker_upd split: if_splits)
  then show ?thesis
    using ok deaf tells_exit_step [OF _ i st] by (auto simp: exit_ok_def tells_exit_def)
qed

lemma call_step_ok:
  assumes "sleep_ok i pc (worker h i) (h_exit h) C" "i < length (h_io h)"
    and "call_step h old = Some (new, h')"
  shows "sleep_ok i pc (worker h' i) (h_exit h') (insert new (C - {old}))"
proof -
  have "w_private (worker h' i) = w_private (worker h i)"
    using assms(2,3) by (cases old) (auto simp: worker_upd wakeup_def requestStop_def split: if_splits)
  then show ?thesis
    using assms call_inbound_ok [OF _ assms(2,3)] call_stop_ok [OF _ assms(2,3)]
      call_exit_ok [OF _ assms(2,3)] by (simp add: sleep_ok_def)
qed

lemma read_step_ok:
  assumes "sleep_ok i pc (worker h i) (h_exit h) C" "read_step i h pc = Some pc'"
  shows "sleep_ok i pc' (worker h i) (h_exit h) C"
  using assms
  by (cases pc) (auto simp: sleep_defs looks_exit_def sleep_as_def getExitRequested_def split: if_splits)

lemma wait_step_ok:
  assumes "sleep_ok i pc (worker h i) (h_exit h) C" "wait_step e i h pc = Some (pc', h')" "i < length (h_io h)"
  shows "sleep_ok i pc' (worker h' i) (h_exit h') C"
proof (cases pc)
  case (Waiting t)
  with assms have "h' = h" "pc' = Draining t \<and> \<not> deaf (worker h i) \<or> pc' = Unmark t"
    by (auto simp: deaf_def split: wait_end.splits if_splits)
  with assms(1) Waiting show ?thesis by (auto simp: sleep_defs looks_exit_def)
qed (use assms in \<open>auto simp: sleep_defs looks_exit_def worker_upd\<close>)

lemma drainInbound_items: "i < length (h_io h) \<Longrightarrow> mq_items (w_inbound (worker (drainInbound i h) i)) = []"
proof -
  have "w_inbound (inbound_cmd c w) = w_inbound w" for c and w :: "'a IOWorker"
    by (simp add: inbound_cmd_def split: Kind.split)
  then have "w_inbound (fold inbound_cmd cs w) = w_inbound w" for cs and w :: "'a IOWorker"
    by (induction cs arbitrary: w) simp_all
  then show "i < length (h_io h) \<Longrightarrow> ?thesis"
    by (simp add: drainInbound_def mpsc_drain_def worker_upd Let_def split_def)
qed

lemma phase_step_ok:
  assumes ok: "sleep_ok i pc (worker h i) (h_exit h) C" and st: "phase_step draw i h pc = Some (pc', h')"
    and i: "i < length (h_io h)"
  shows "sleep_ok i pc' (worker h' i) (h_exit h') C"
proof (cases "pc = PhaseInbound")
  case True
  with st have h': "pc' = PhasePrivate" "h' = drainInbound i h" by simp_all
  then show ?thesis using drainInbound_items [OF i] by (simp add: sleep_defs looks_exit_def)
next
  case False
  have fr: "signals (worker h' i) = signals (worker h i)" "h_exit h' = h_exit h"
    using phase_step_frame [OF st False] i by (simp_all add: phase_frame_def)
  have pc': "\<not> saw_private pc'" using st by (cases pc) (auto simp: split_def Let_def split: if_splits)
  have "\<not> looks_inbound pc" using st False by (cases pc) simp_all
  moreover have "\<not> looks_stop pc' \<Longrightarrow> looks_stop pc \<Longrightarrow> \<not> w_stop (worker h' i)"
    using st by (cases pc) (simp_all split: if_splits)
  moreover have "\<not> looks_exit pc' \<Longrightarrow> looks_exit pc \<Longrightarrow> \<not> h_exit h'"
    using st by (cases pc) (simp_all add: looks_exit_def getExitRequested_def split: if_splits)
  ultimately show ?thesis using ok fr pc' by (simp add: sleep_defs signals_def) blast
qed

definition world_ok :: "'t sleep_world \<Rightarrow> bool" where
  "world_ok s \<longleftrightarrow> (\<forall>i < length (h_io (sw_hive s)).
     sleep_ok i (sw_pc s i) (worker (sw_hive s) i) (h_exit (sw_hive s)) (set (sw_calls s)))"

lemma own_step_ok:
  assumes st: "sleep_worker_step draw e i s = Some s'" and i: "i < length (h_io (sw_hive s))"
    and ok: "sleep_ok i (sw_pc s i) (worker (sw_hive s) i) (h_exit (sw_hive s)) C"
  shows "sleep_ok i (sw_pc s' i) (worker (sw_hive s') i) (h_exit (sw_hive s')) C"
proof -
  let ?h = "sw_hive s" and ?pc = "sw_pc s i"
  consider pc' where "read_step i ?h ?pc = Some pc'" "sw_pc s' i = pc'" "sw_hive s' = ?h"
    | pc' h' where "wait_step e i ?h ?pc = Some (pc', h')" "sw_pc s' i = pc'" "sw_hive s' = h'"
    | pc' h' where "phase_step draw i ?h ?pc = Some (pc', h')" "sw_pc s' i = pc'" "sw_hive s' = h'"
    using st by (auto simp: sleep_worker_step_def Let_def split: option.splits prod.splits)
  then show ?thesis
    using read_step_ok [OF ok] wait_step_ok [OF ok _ i] phase_step_ok [OF ok _ i] by cases auto
qed

text \<open>What a step of worker \<open>i\<close> leaves to the others.\<close>

definition others_kept :: "nat \<Rightarrow> 't Hive \<Rightarrow> 't Hive \<Rightarrow> bool" where
  "others_kept i h h' \<longleftrightarrow>
     h_exit h' = h_exit h \<and> length (h_io h') = length (h_io h) \<and>
     (\<forall>k < length (h_io h). w_wakeup (worker h' k) = w_wakeup (worker h k) \<and>
        (k \<noteq> i \<longrightarrow> signals (worker h' k) = signals (worker h k) \<and>
                 w_private (worker h' k) = w_private (worker h k)))"

lemma others_kept_frame: "phase_frame i h h' \<Longrightarrow> others_kept i h h'"
  by (simp add: phase_frame_def others_kept_def signals_def)

lemma others_kept_upd:
  "others_kept i h h' \<Longrightarrow> (\<And>w. w_wakeup (f w) = w_wakeup w) \<Longrightarrow> others_kept i h (upd_worker i f h')"
  by (simp add: others_kept_def worker_upd)

lemma others_kept_refl: "others_kept i h h"
  by (simp add: others_kept_def)

lemma others_kept_drain: "others_kept i h (drainInbound i h)"
proof -
  have 1: "w_wakeup (inbound_cmd c w) = w_wakeup w" for c and w :: "'a IOWorker"
    by (simp add: inbound_cmd_def split: Kind.split)
  have "w_wakeup (fold inbound_cmd cs w) = w_wakeup w" for cs and w :: "'a IOWorker"
    by (induction cs arbitrary: w) (simp_all add: 1)
  then show ?thesis
    by (simp add: drainInbound_def split_def Let_def others_kept_upd others_kept_refl)
qed

lemma others_kept_step:
  assumes st: "sleep_worker_step draw e i s = Some s'"
  shows "others_kept i (sw_hive s) (sw_hive s')" "sw_calls s' = sw_calls s"
    and "k \<noteq> i \<Longrightarrow> sw_pc s' k = sw_pc s k"
proof -
  let ?h = "sw_hive s" and ?pc = "sw_pc s i"
  consider "sw_hive s' = ?h"
    | pc' h' where "wait_step e i ?h ?pc = Some (pc', h')" "sw_hive s' = h'"
    | pc' h' where "phase_step draw i ?h ?pc = Some (pc', h')" "sw_hive s' = h'"
    using st by (auto simp: sleep_worker_step_def Let_def split: option.splits prod.splits)
  then show "others_kept i ?h (sw_hive s')"
  proof cases
    case 2
    from 2(1) have "others_kept i ?h h'"
      by (cases ?pc) (auto simp: others_kept_upd others_kept_refl split: wait_end.splits if_splits)
    with 2(2) show ?thesis by simp
  next
    case 3
    then show ?thesis
      using others_kept_drain [of i ?h] others_kept_frame [OF phase_step_frame, of draw i ?h ?pc pc' h']
      by (cases "?pc = PhaseInbound") auto
  qed (simp add: others_kept_refl)
qed (use st in \<open>auto simp: sleep_worker_step_def Let_def split: option.splits\<close>)

lemma call_step_keeps:
  assumes "call_step h old = Some (new, h')"
  shows "length (h_io h') = length (h_io h)"
    and "k < length (h_io h) \<Longrightarrow> w_wakeup (worker h' k) = w_wakeup (worker h k)"
  using assms by (cases old; auto simp: worker_upd wakeup_def requestStop_def split: if_splits)+

lemma sleep_step_ok:
  assumes st: "sleep_step draw x s = Some s'" and ok: "world_ok s"
  shows "world_ok s' \<and> length (h_io (sw_hive s')) = length (h_io (sw_hive s)) \<and>
    (\<forall>k < length (h_io (sw_hive s)). w_wakeup (worker (sw_hive s') k) = w_wakeup (worker (sw_hive s) k))"
proof (cases x)
  case (Worker i e)
  with st have i: "i < length (h_io (sw_hive s))" and st': "sleep_worker_step draw e i s = Some s'"
    by (simp_all split: if_splits)
  note k = others_kept_step [OF st']
  have "sleep_ok j (sw_pc s' j) (worker (sw_hive s') j) (h_exit (sw_hive s')) (set (sw_calls s'))"
    if j: "j < length (h_io (sw_hive s))" for j
  proof (cases "j = i")
    case True
    then show ?thesis using own_step_ok [OF st' i] ok i k(2) by (simp add: world_ok_def)
  next
    case False
    have "sleep_ok j (sw_pc s j) (worker (sw_hive s) j) (h_exit (sw_hive s)) (set (sw_calls s))"
      using ok j by (simp add: world_ok_def)
    with False j k show ?thesis by (auto simp: others_kept_def intro: sleep_ok_signals)
  qed
  with k(1) show ?thesis by (simp add: world_ok_def others_kept_def)
next
  case (Caller c)
  then obtain new h' where c: "c < length (sw_calls s)"
    and cs: "call_step (sw_hive s) (sw_calls s ! c) = Some (new, h')"
    and s': "s' = s\<lparr>sw_hive := h', sw_calls := (sw_calls s)[c := new]\<rparr>"
    using st by (auto simp: sleep_caller_step_def split: if_splits)
  have "insert new (set (sw_calls s) - {sw_calls s ! c}) \<subseteq> set ((sw_calls s)[c := new])"
    using c by (auto simp: in_set_conv_nth nth_list_update) (metis nth_list_update_neq)
  then show ?thesis
    using ok call_step_ok [OF _ _ cs] call_step_keeps [OF cs] sleep_ok_mono
    unfolding world_ok_def s' by (auto; blast)
next
  case (Start call)
  then have s': "s' = s\<lparr>sw_calls := sw_calls s @ [start_call (sw_hive s) call]\<rparr>" using st by simp
  show ?thesis
    using ok by (simp add: world_ok_def s' sleep_ok_mono [OF _ subset_insertI])
qed

lemma sleep_run_ok:
  "sleep_run draw xs s = Some s' \<Longrightarrow> world_ok s \<Longrightarrow>
   world_ok s' \<and> length (h_io (sw_hive s')) = length (h_io (sw_hive s)) \<and>
   (\<forall>k < length (h_io (sw_hive s)). w_wakeup (worker (sw_hive s') k) = w_wakeup (worker (sw_hive s) k))"
proof (induction xs arbitrary: s)
  case (Cons x xs)
  then obtain t where "sleep_step draw x s = Some t" "sleep_run draw xs t = Some s'"
    by (auto split: Option.bind_splits)
  with sleep_step_ok [OF this(1) Cons.prems(2)] Cons.IH [of t] show ?case by auto
qed simp

lemma sleep_init_ok: "sleep_start h \<Longrightarrow> world_ok (sleep_init h)"
  by (auto simp: sleep_start_def sleep_init_def world_ok_def sleep_defs mpsc_empty_def)

section \<open>Properties\<close>


text \<open>One worker on epoll that has not started yet.\<close>

definition demo_hive :: "nat Hive" where
  "demo_hive =
     (case new_IOWorker (default_options Linux) of
        None \<Rightarrow> new_Hive (default_options Linux) 0
      | Some w \<Rightarrow>
          (case attachIOWorker Linux (Some w) (new_Hive (default_options Linux) 0) of
             Inl _ \<Rightarrow> new_Hive (default_options Linux) 0
           | Inr (_, h) \<Rightarrow> h))"

definition demo_cmd :: "nat InboundCommand" where
  "demo_cmd = \<lparr>ic_kind = PrivateTask, ic_task = Some 7, ic_deadline = 0\<rparr>"

text \<open>
  The post falls between the look at the queue and the wait; the notification then ends the wait,
  the task is run, and the worker waits again.
\<close>

definition demo_posts :: "nat sched list" where
  "demo_posts = replicate 7 (Worker 0 TimedOut) @ [Start (ToWorker 0 demo_cmd), Caller 0] @
     replicate 5 (Worker 0 TimedOut) @ [Caller 0, Caller 0] @ replicate 23 (Worker 0 Notified)"

definition demo_slept :: "nat sleep_world" where
  "demo_slept = the (sleep_run (\<lambda>_. 0) demo_posts (sleep_init demo_hive))"


definition lost_schedule :: "nat sched list" where
  "lost_schedule = replicate 10 (Worker 0 TimedOut) @ [Start (ToPool 7)] @ replicate 4 (Caller 0) @
     replicate 2 (Worker 0 TimedOut)"

lemma lost_run:
  "(case sleep_run (\<lambda>_. 0) lost_schedule (sleep_init demo_hive) of
     None \<Rightarrow> False
   | Some s \<Rightarrow> sw_pc s 0 = Waiting (-1) \<and> w_notified (worker (sw_hive s) 0) = 0 \<and> sw_calls s = [Returned] \<and>
       length (h_io (sw_hive s)) = 1 \<and> mq_items (h_micro (sw_hive s)) = [Some 7])"
  by code_simp

lemma asleep_stuck:
  assumes "sw_pc s 0 = Waiting (-1)" "w_notified (worker (sw_hive s) 0) = 0" "sw_calls s = [Returned]"
    and "length (h_io (sw_hive s)) = 1"
  shows "sleep_step draw (Worker i Notified) s = None" "sleep_step draw (Worker i TimedOut) s = None"
    "sleep_step draw (Caller c) s = None"
  using assms by (auto simp: sleep_worker_step_def sleep_caller_step_def)

text \<open>
  \<^verbatim>\<open>postIO\<close> has no such guarantee. On one worker there is an order of events after which the
  posted task lies in the pool, the call has returned, and the worker waits without a timeout and
  without a notification: no thread can take a step, and only another call or another source gets
  the task run.
\<close>

lemma postIO_wakeup_lost:
  "\<exists>xs s. sleep_run (\<lambda>_. 0) xs (sleep_init demo_hive) = Some s \<and> mq_items (h_micro (sw_hive s)) = [Some 7] \<and>
     (\<forall>i. sleep_step draw (Worker i Notified) s = None \<and> sleep_step draw (Worker i TimedOut) s = None) \<and>
     (\<forall>c. sleep_step draw (Caller c) s = None)"
proof -
  from lost_run obtain s where s: "sleep_run (\<lambda>_. 0) lost_schedule (sleep_init demo_hive) = Some s"
    and asleep: "sw_pc s 0 = Waiting (-1)" "w_notified (worker (sw_hive s) 0) = 0" "sw_calls s = [Returned]"
      "length (h_io (sw_hive s)) = 1"
    and pool: "mq_items (h_micro (sw_hive s)) = [Some 7]"
    by (auto split: option.splits)
  from s pool asleep_stuck [OF asleep] show ?thesis by blast
qed

end
