(* ===== verification/Ip_Endpoint.thy ===== *)
theory Ip_Endpoint
  imports Prelude
begin

text \<open>
  The platform-neutral IP endpoint of \<^verbatim>\<open>platform/network/ip_endpoint.h\<close> and
  \<^verbatim>\<open>ip_endpoint.cc\<close>: the tagged union, its accessors, the textual form and the parser.

  The parts of the C++ library the code calls are modelled on strings: \<^verbatim>\<open>string_view\<close>'s \<open>find\<close>,
  \<open>rfind\<close> and \<open>substr\<close>, \<^verbatim>\<open>std::from_chars\<close> for an unsigned 32-bit number, \<^verbatim>\<open>std::to_string\<close>
  and the cut at the first NUL byte that \<^verbatim>\<open>c_str()\<close> makes. The address conversions
  \<^verbatim>\<open>inet_pton\<close> and \<^verbatim>\<open>inet_ntop\<close> (\<^verbatim>\<open>InetPtonA\<close>, \<^verbatim>\<open>InetNtopA\<close>) belong to the system: they are a record of
  functions, and \<open>inet_documented\<close> states what POSIX says of them.
\<close>

section \<open>String views and numbers\<close>

text \<open>\<^verbatim>\<open>string_view::find\<close>, \<^verbatim>\<open>rfind\<close> and \<^verbatim>\<open>substr\<close>; \<open>None\<close> is \<^verbatim>\<open>npos\<close>.\<close>

fun sv_find :: "char \<Rightarrow> string \<Rightarrow> nat option" where
  "sv_find c [] = None"
| "sv_find c (x # xs) = (if x = c then Some 0 else map_option Suc (sv_find c xs))"

fun sv_rfind :: "char \<Rightarrow> string \<Rightarrow> nat option" where
  "sv_rfind c [] = None"
| "sv_rfind c (x # xs) =
    (case sv_rfind c xs of
       Some i \<Rightarrow> Some (Suc i)
     | None \<Rightarrow> if x = c then Some 0 else None)"

definition sv_substr :: "string \<Rightarrow> nat \<Rightarrow> nat \<Rightarrow> string" where
  "sv_substr s pos n = take n (drop pos s)"

text \<open>The C string a function that expects a terminated one sees of a \<^verbatim>\<open>std::string\<close>.\<close>

definition c_str :: "string \<Rightarrow> string" where
  "c_str s = takeWhile (\<lambda>c. c \<noteq> CHR 0x00) s"

definition is_digit :: "char \<Rightarrow> bool" where
  "is_digit c \<longleftrightarrow> of_char c \<ge> (48::nat) \<and> of_char c \<le> (57::nat)"

definition digit_value :: "char \<Rightarrow> nat" where
  "digit_value c = of_char c - 48"

definition digit_char :: "nat \<Rightarrow> char" where
  "digit_char d = char_of (48 + d)"

definition decimal_value :: "string \<Rightarrow> nat" where
  "decimal_value s = foldl (\<lambda>n c. 10 * n + digit_value c) 0 s"

datatype errc = errc_ok | invalid_argument | result_out_of_range

text \<open>
  \<^verbatim>\<open>std::from_chars\<close> on an unsigned 32-bit number: the longest prefix of digits, no sign and no
  blank; the remaining characters stand for the returned pointer.
\<close>

definition from_chars :: "string \<Rightarrow> u32 \<Rightarrow> u32 \<times> string \<times> errc" where
  "from_chars s v =
    (let ds = takeWhile is_digit s; rest = dropWhile is_digit s in
     if ds = [] then (v, s, invalid_argument)
     else if decimal_value ds \<ge> 2 ^ 32 then (v, rest, result_out_of_range)
     else (word_of_nat (decimal_value ds), rest, errc_ok))"

fun to_string_nat :: "nat \<Rightarrow> string" where
  "to_string_nat n =
    (if n < 10 then [digit_char n] else to_string_nat (n div 10) @ [digit_char (n mod 10)])"

declare to_string_nat.simps [simp del]

text \<open>\<^verbatim>\<open>std::to_string\<close> on an unsigned number.\<close>

definition to_string :: "'a::len word \<Rightarrow> string" where
  "to_string w = to_string_nat (unat w)"

section \<open>Endpoints\<close>

text \<open>\<^verbatim>\<open>std::array<uint8_t, n>\<close> is a list of bytes; \<open>endpoint_ok\<close> fixes its length.\<close>

record IpEndpointV4 =
  ip4 :: "u8 list"
  port4 :: u16

record IpEndpointV6 =
  ip6 :: "u8 list"
  port6 :: u16
  scope_id :: u32

datatype IpEndpoint = V4 IpEndpointV4 | V6 IpEndpointV6

definition endpoint_ok :: "IpEndpoint \<Rightarrow> bool" where
  "endpoint_ok ep =
    (case ep of V4 a \<Rightarrow> length (ip4 a) = 4 | V6 a \<Rightarrow> length (ip6 a) = 16)"

definition makeIpEndpointV4 :: "u8 list \<Rightarrow> u16 \<Rightarrow> IpEndpoint" where
  "makeIpEndpointV4 ip p = V4 \<lparr>ip4 = ip, port4 = p\<rparr>"

definition makeIpEndpointV6 :: "u8 list \<Rightarrow> u16 \<Rightarrow> u32 \<Rightarrow> IpEndpoint" where
  "makeIpEndpointV6 ip p scope = V6 \<lparr>ip6 = ip, port6 = p, scope_id = scope\<rparr>"

definition isV4 :: "IpEndpoint \<Rightarrow> bool" where
  "isV4 ep = (case ep of V4 _ \<Rightarrow> True | V6 _ \<Rightarrow> False)"

definition isV6 :: "IpEndpoint \<Rightarrow> bool" where
  "isV6 ep = (case ep of V6 _ \<Rightarrow> True | V4 _ \<Rightarrow> False)"

definition portOf :: "IpEndpoint \<Rightarrow> u16" where
  "portOf ep = (case ep of V4 a \<Rightarrow> port4 a | V6 a \<Rightarrow> port6 a)"

definition setPort :: "IpEndpoint \<Rightarrow> u16 \<Rightarrow> IpEndpoint" where
  "setPort ep p = (case ep of V4 a \<Rightarrow> V4 (a\<lparr>port4 := p\<rparr>) | V6 a \<Rightarrow> V6 (a\<lparr>port6 := p\<rparr>))"

section \<open>Address conversions of the system\<close>

text \<open>
  The conversion to text takes the size of the buffer and fails when the text and its terminator
  do not fit.
\<close>

record inet_api =
  pton4 :: "string \<Rightarrow> u8 list option"
  pton6 :: "string \<Rightarrow> u8 list option"
  ntop4 :: "u8 list \<Rightarrow> nat \<Rightarrow> string option"
  ntop6 :: "u8 list \<Rightarrow> nat \<Rightarrow> string option"

definition INET_ADDRSTRLEN :: nat where "INET_ADDRSTRLEN = 16"
definition INET6_ADDRSTRLEN :: nat where "INET6_ADDRSTRLEN = 46"

definition hex_char :: "char \<Rightarrow> bool" where
  "hex_char c \<longleftrightarrow> c \<in> set ''0123456789abcdef''"

definition inet_documented :: "inet_api \<Rightarrow> bool" where
  "inet_documented I \<longleftrightarrow>
    (\<forall>s a. pton4 I s = Some a \<longrightarrow> length a = 4 \<and> list_all (\<lambda>c. is_digit c \<or> c = CHR ''.'') s) \<and>
    (\<forall>s a. pton6 I s = Some a \<longrightarrow> length a = 16) \<and>
    (\<forall>a. length a = 4 \<longrightarrow>
      (\<exists>s. ntop4 I a INET_ADDRSTRLEN = Some s \<and> pton4 I s = Some a \<and> CHR ''.'' \<in> set s \<and>
           (\<forall>c\<in>set s. is_digit c \<or> c = CHR ''.''))) \<and>
    (\<forall>a. length a = 16 \<longrightarrow>
      (\<exists>s. ntop6 I a INET6_ADDRSTRLEN = Some s \<and> pton6 I s = Some a \<and>
           2 \<le> length (filter (\<lambda>c. c = CHR '':'') s) \<and>
           (\<forall>c\<in>set s. hex_char c \<or> c = CHR '':'' \<or> c = CHR ''.'')))"

text \<open>
  The documented behaviour: a presentation text of an IPv4 address has digits and dots only and
  \<^verbatim>\<open>inet_pton\<close> accepts no other character; a printed IPv6 address has hexadecimal digits, at least
  two colons and possibly dots (the mixed form of mapped addresses); printing an address into a
  buffer of the documented size succeeds and converts back.
\<close>

section \<open>Formatting\<close>

definition ipToString :: "inet_api \<Rightarrow> IpEndpoint \<Rightarrow> string" where
  "ipToString I ep =
    (case ep of
       V4 v4 \<Rightarrow>
         (case ntop4 I (ip4 v4) INET_ADDRSTRLEN of
            None \<Rightarrow> ''invalid''
          | Some buf \<Rightarrow> buf)
     | V6 v6 \<Rightarrow>
         (case ntop6 I (ip6 v6) INET6_ADDRSTRLEN of
            None \<Rightarrow> ''invalid''
          | Some s \<Rightarrow>
              if scope_id v6 \<noteq> 0 then s @ ''%'' @ to_string (scope_id v6) else s))"

definition ipPortToString :: "inet_api \<Rightarrow> IpEndpoint \<Rightarrow> string" where
  "ipPortToString I ep =
    (case ep of
       V4 v4 \<Rightarrow> ipToString I ep @ '':'' @ to_string (port4 v4)
     | V6 v6 \<Rightarrow> ''['' @ ipToString I ep @ '']:'' @ to_string (port6 v6))"

definition ipPortToString_opt :: "inet_api \<Rightarrow> IpEndpoint option \<Rightarrow> string" where
  "ipPortToString_opt I ep =
    (case ep of None \<Rightarrow> ''empty'' | Some e \<Rightarrow> ipPortToString I e)"

section \<open>Parsing\<close>

definition parsePort :: "string \<Rightarrow> u16 option" where
  "parsePort s =
    (if s = [] then None
     else
       let (v, p, ec) = from_chars s 0 in
       if ec \<noteq> errc_ok \<or> p \<noteq> [] \<or> v > 65535 then None
       else Some (ucast v))"

text \<open>The out parameter keeps its value when the function returns \<open>false\<close>.\<close>

definition parseScopeIdNumeric :: "string \<Rightarrow> u32 \<Rightarrow> bool \<times> u32" where
  "parseScopeIdNumeric s out =
    (if s = [] then (False, out)
     else
       let (v, p, ec) = from_chars s 0 in
       if ec \<noteq> errc_ok \<or> p \<noteq> [] then (False, out) else (True, v))"

definition parseIpv6WithOptionalScope :: "inet_api \<Rightarrow> string \<Rightarrow> u16 \<Rightarrow> IpEndpointV6 option" where
  "parseIpv6WithOptionalScope I ip_text p =
    (let (addr_part, ok, scope) =
       (case sv_find (CHR ''%'') ip_text of
          None \<Rightarrow> (ip_text, True, 0)
        | Some pct \<Rightarrow>
            (sv_substr ip_text 0 pct,
             parseScopeIdNumeric (sv_substr ip_text (pct + 1) (length ip_text)) 0))
     in
     if \<not> ok then None
     else
       (case pton6 I (c_str addr_part) of
          None \<Rightarrow> None
        | Some a6 \<Rightarrow> Some \<lparr>ip6 = a6, port6 = p, scope_id = scope\<rparr>))"

definition parseIpv4 :: "inet_api \<Rightarrow> string \<Rightarrow> u16 \<Rightarrow> IpEndpointV4 option" where
  "parseIpv4 I ip_text p =
    (case pton4 I (c_str ip_text) of
       None \<Rightarrow> None
     | Some a4 \<Rightarrow> Some \<lparr>ip4 = a4, port4 = p\<rparr>)"

definition is_blank :: "char \<Rightarrow> bool" where
  "is_blank c \<longleftrightarrow> c = CHR '' '' \<or> c = CHR 0x09 \<or> c = CHR 0x0A \<or> c = CHR 0x0D"

fun trim_front :: "string \<Rightarrow> string" where
  "trim_front [] = []"
| "trim_front (c # s) = (if is_blank c then trim_front s else c # s)"

function trim_back :: "string \<Rightarrow> string" where
  "trim_back s = (if s \<noteq> [] \<and> is_blank (last s) then trim_back (butlast s) else s)"
  by auto
termination by (relation "measure length") (auto simp: length_greater_0_conv [symmetric] simp del: length_greater_0_conv)

declare trim_back.simps [simp del]

definition parseBracketed :: "inet_api \<Rightarrow> string \<Rightarrow> IpEndpoint option" where
  "parseBracketed I text =
    (case sv_find (CHR '']'') text of
       None \<Rightarrow> None
     | Some rbr \<Rightarrow>
         let inside = sv_substr text 1 (rbr - 1);
             rest = sv_substr text (rbr + 1) (length text);
             port = (if rest = [] then Some 0
                     else if hd rest \<noteq> CHR '':'' then None
                     else parsePort (sv_substr rest 1 (length rest)))
         in
         (case port of
            None \<Rightarrow> None
          | Some p \<Rightarrow> map_option V6 (parseIpv6WithOptionalScope I inside p)))"

definition parseDotted :: "inet_api \<Rightarrow> string \<Rightarrow> IpEndpoint option" where
  "parseDotted I text =
    (case sv_rfind (CHR '':'') text of
       Some colon \<Rightarrow>
         let ip_part = sv_substr text 0 colon;
             port_part = sv_substr text (colon + 1) (length text)
         in
         (case parsePort port_part of
            None \<Rightarrow> None
          | Some p \<Rightarrow> map_option V4 (parseIpv4 I ip_part p))
     | None \<Rightarrow> map_option V4 (parseIpv4 I text 0))"

definition parseIpEndpoint :: "inet_api \<Rightarrow> string \<Rightarrow> IpEndpoint option" where
  "parseIpEndpoint I text0 =
    (let text = trim_back (trim_front text0) in
     if text = [] then None
     else if hd text = CHR ''['' then parseBracketed I text
     else if sv_find (CHR ''.'') text \<noteq> None then parseDotted I text
     else map_option V6 (parseIpv6WithOptionalScope I text 0))"

section \<open>Strings: search, trimming, numbers\<close>

lemma sv_find_None [simp]: "sv_find c s = None \<longleftrightarrow> c \<notin> set s"
  by (induction s) auto

lemma sv_rfind_None [simp]: "sv_rfind c s = None \<longleftrightarrow> c \<notin> set s"
  by (induction s) (auto split: option.splits)

lemma sv_find_at: "c \<notin> set s \<Longrightarrow> sv_find c (s @ c # t) = Some (length s)"
  by (induction s) auto

lemma sv_rfind_at: "c \<notin> set t \<Longrightarrow> sv_rfind c (s @ c # t) = Some (length s)"
proof (induction s)
  case Nil
  then show ?case by (simp add: sv_rfind_None [THEN iffD2])
qed auto

lemma sv_substr_simps [net_simps]:
  "sv_substr (s @ c # t) 0 (length s) = s"
  "n \<ge> length t \<Longrightarrow> sv_substr (s @ c # t) (Suc (length s)) n = t"
  "sv_substr (d # s @ c # t) (Suc 0) (length s) = s"
  "n \<ge> length t \<Longrightarrow> sv_substr (d # s @ c # t) (Suc (Suc (length s))) n = t"
  "n \<ge> length s \<Longrightarrow> sv_substr (c # s) (Suc 0) n = s"
  by (simp_all add: sv_substr_def)

lemma c_str_id: "CHR 0x00 \<notin> set s \<Longrightarrow> c_str s = s"
  unfolding c_str_def takeWhile_eq_all_conv by auto

lemma trim_front_id: "s \<noteq> [] \<Longrightarrow> \<not> is_blank (hd s) \<Longrightarrow> trim_front s = s"
  by (cases s) auto

lemma trim_back_id: "\<not> is_blank (last s) \<Longrightarrow> trim_back s = s"
  by (subst trim_back.simps) simp

lemma digit_char_facts:
  assumes "d < 10"
  shows "is_digit (digit_char d)" "digit_value (digit_char d) = d"
  using assms by (simp_all add: is_digit_def digit_char_def digit_value_def)

lemma decimal_value_snoc: "decimal_value (s @ [c]) = 10 * decimal_value s + digit_value c"
  by (simp add: decimal_value_def)

lemma decimal_value_to_string_nat: "decimal_value (to_string_nat n) = n"
proof (induction n rule: to_string_nat.induct)
  case (1 n)
  show ?case
  proof (cases "n < 10")
    case True
    then show ?thesis
      using digit_char_facts(2) [of n]
      by (simp add: to_string_nat.simps [of n] decimal_value_def)
  next
    case False
    with 1 have "decimal_value (to_string_nat (n div 10)) = n div 10" by blast
    with False show ?thesis
      by (simp add: to_string_nat.simps [of n] decimal_value_snoc digit_char_facts)
  qed
qed

lemma to_string_nat_digits: "to_string_nat n \<noteq> [] \<and> (\<forall>c\<in>set (to_string_nat n). is_digit c)"
proof (induction n rule: to_string_nat.induct)
  case (1 n)
  then show ?case
    by (subst (1 2) to_string_nat.simps) (auto simp: digit_char_facts)
qed

lemma to_string_facts [net_simps]:
  "to_string w \<noteq> []"
  "c \<in> set (to_string w) \<Longrightarrow> is_digit c"
  "decimal_value (to_string w) = unat w"
  using to_string_nat_digits [of "unat w"]
  by (auto simp: to_string_def decimal_value_to_string_nat)

lemma not_digits:
  "\<not> is_digit (CHR '':'')" "\<not> is_digit (CHR ''%'')" "\<not> is_digit (CHR '']'')"
  "\<not> is_digit (CHR '' '')" "\<not> is_digit (CHR ''['')" "\<not> is_digit (CHR 0x00)"
  "\<not> is_digit (CHR ''.'')"
  by (simp_all add: is_digit_def)

lemma blank_not_digit: "is_blank c \<Longrightarrow> \<not> is_digit c"
  by (auto simp: is_blank_def is_digit_def)

lemma from_chars_digits:
  assumes "s \<noteq> []" "\<forall>c\<in>set s. is_digit c" "decimal_value s < 2 ^ 32"
  shows "from_chars s v = (word_of_nat (decimal_value s), [], errc_ok)"
proof -
  from assms(2) have t: "takeWhile is_digit s = s" and d: "dropWhile is_digit s = []"
    by (simp_all add: takeWhile_eq_all_conv)
  show ?thesis using assms unfolding from_chars_def Let_def t d by simp
qed

lemma from_chars_ok:
  "from_chars s v = (w, [], errc_ok) \<longleftrightarrow>
    s \<noteq> [] \<and> (\<forall>c\<in>set s. is_digit c) \<and> decimal_value s < 2 ^ 32 \<and> w = word_of_nat (decimal_value s)"
  (is "?l \<longleftrightarrow> ?r")
proof
  assume ?r
  then show ?l using from_chars_digits by simp
next
  assume l: ?l
  then have "dropWhile is_digit s = []"
    by (auto simp: from_chars_def Let_def split: if_splits)
  then have d: "\<forall>c\<in>set s. is_digit c" by (simp add: dropWhile_eq_Nil_conv)
  then have t: "takeWhile is_digit s = s" by (simp add: takeWhile_eq_all_conv)
  from l d show ?r
    unfolding from_chars_def Let_def t by (auto split: if_splits)
qed

section \<open>Parsing what was printed\<close>

lemma ucast_of_nat_u16: "(ucast (word_of_nat n :: u32) :: u16) = word_of_nat n"
  by transfer simp

lemma u32_above_port: "n < 2 ^ 32 \<Longrightarrow> (word_of_nat n :: u32) > 65535 \<longleftrightarrow> n > 65535"
  by (simp add: word_less_nat_alt unat_of_nat)

lemma parsePort_iff:
  "parsePort s = Some w \<longleftrightarrow>
    s \<noteq> [] \<and> (\<forall>c\<in>set s. is_digit c) \<and> decimal_value s \<le> 65535 \<and> w = word_of_nat (decimal_value s)"
  (is "?l \<longleftrightarrow> ?r")
proof
  assume l: ?l
  obtain v p e where f: "from_chars s 0 = (v, p, e)" by (cases "from_chars s 0")
  with l have e: "e = errc_ok" "p = []" "\<not> v > 65535" "w = ucast v"
    by (auto simp: parsePort_def split: if_splits)
  with f have "from_chars s 0 = (v, [], errc_ok)" by simp
  then have "s \<noteq> [] \<and> (\<forall>c\<in>set s. is_digit c) \<and> decimal_value s < 2 ^ 32 \<and>
    v = word_of_nat (decimal_value s)"
    unfolding from_chars_ok .
  moreover from this e(3) have "decimal_value s \<le> 65535"
    using u32_above_port [of "decimal_value s"] by (metis not_less)
  ultimately show ?r using e(4) ucast_of_nat_u16 by simp
next
  assume r: ?r
  then have "from_chars s 0 = (word_of_nat (decimal_value s), [], errc_ok)"
    using from_chars_digits [of s 0] by simp
  with r show ?l
    by (simp add: parsePort_def u32_above_port ucast_of_nat_u16)
qed

lemma parsePort_to_string: "parsePort (to_string (w :: u16)) = Some w"
proof -
  have "unat w < 65536" using unsigned_less [of w] by simp
  then show ?thesis
    unfolding parsePort_iff by (simp add: to_string_facts)
qed

lemma parseScope_to_string: "parseScopeIdNumeric (to_string w) out = (True, w)"
proof -
  have "unat w < 2 ^ 32" using unsigned_less [of w] by simp
  then have "from_chars (to_string w) 0 = (w, [], errc_ok)"
    using from_chars_digits [of "to_string w" 0] by (simp add: to_string_facts)
  then show ?thesis by (simp add: parseScopeIdNumeric_def to_string_facts)
qed

lemma inet_v4:
  assumes "inet_documented I" "length a = 4"
  shows "\<exists>s. ntop4 I a INET_ADDRSTRLEN = Some s \<and> pton4 I s = Some a \<and>
    CHR ''.'' \<in> set s \<and> (\<forall>c\<in>set s. is_digit c \<or> c = CHR ''.'')"
  using assms by (simp add: inet_documented_def)

lemma inet_v6:
  assumes "inet_documented I" "length a = 16"
  shows "\<exists>s. ntop6 I a INET6_ADDRSTRLEN = Some s \<and> pton6 I s = Some a \<and>
    2 \<le> length (filter (\<lambda>c. c = CHR '':'') s) \<and> (\<forall>c\<in>set s. hex_char c \<or> c = CHR '':'' \<or> c = CHR ''.'')"
  using assms by (simp add: inet_documented_def)

lemma parseIpv4_printed:
  assumes "pton4 I s = Some a" "\<And>c. c \<in> set s \<Longrightarrow> is_digit c \<or> c = CHR ''.''"
  shows "parseIpv4 I s p = Some \<lparr>ip4 = a, port4 = p\<rparr>"
proof -
  have "CHR 0x00 \<notin> set s" using assms(2) [of "CHR 0x00"] not_digits(6) by auto
  then show ?thesis using assms(1) by (simp add: parseIpv4_def c_str_id)
qed

text \<open>No character that structures an endpoint occurs in a printed IPv6 address.\<close>

lemma v6_chars:
  assumes "\<And>c. c \<in> set s \<Longrightarrow> hex_char c \<or> c = CHR '':'' \<or> c = CHR ''.''"
  shows "CHR 0x00 \<notin> set s" "CHR ''%'' \<notin> set s" "CHR '']'' \<notin> set s"
  using assms [of "CHR 0x00"] assms [of "CHR ''%''"] assms [of "CHR '']''"]
  by (auto simp: hex_char_def)

lemma parseIpv6_printed:
  assumes "pton6 I s = Some a" "\<And>c. c \<in> set s \<Longrightarrow> hex_char c \<or> c = CHR '':'' \<or> c = CHR ''.''"
  shows "parseIpv6WithOptionalScope I (if sc \<noteq> 0 then s @ ''%'' @ to_string sc else s) p =
    Some \<lparr>ip6 = a, port6 = p, scope_id = sc\<rparr>"
proof (cases "sc = 0")
  case True
  then show ?thesis
    using assms(1) v6_chars(1,2) [OF assms(2)]
    by (simp add: parseIpv6WithOptionalScope_def sv_find_None [THEN iffD2] c_str_id)
next
  case False
  have "sv_find (CHR ''%'') (s @ ''%'' @ to_string sc) = Some (length s)"
    using sv_find_at v6_chars(2) [OF assms(2)] by simp
  then show ?thesis
    using False assms(1) v6_chars(1) [OF assms(2)]
    by (simp add: parseIpv6WithOptionalScope_def sv_substr_simps parseScope_to_string c_str_id)
qed

lemma to_string_no_colon: "CHR '':'' \<notin> set (to_string w)"
  using to_string_facts(2) [of "CHR '':''" w] not_digits(1) by blast

lemma last_to_string: "\<not> is_blank (last (s @ to_string w))"
proof -
  have "last (s @ to_string w) \<in> set (to_string w)"
    by (simp add: to_string_facts)
  then show ?thesis using to_string_facts(2) blank_not_digit by blast
qed

lemma parse_untrimmed:
  assumes "s \<noteq> []" "\<not> is_blank (hd s)" "\<not> is_blank (last s)"
  shows "trim_back (trim_front s) = s"
  using assms by (simp add: trim_front_id trim_back_id)

lemma parse_printed_v4:
  assumes "inet_documented I" "length (ip4 v) = 4"
  shows "parseIpEndpoint I (ipPortToString I (V4 v)) = Some (V4 v)"
proof -
  obtain s where s: "ntop4 I (ip4 v) INET_ADDRSTRLEN = Some s" "pton4 I s = Some (ip4 v)"
    "CHR ''.'' \<in> set s" "\<And>c. c \<in> set s \<Longrightarrow> is_digit c \<or> c = CHR ''.''"
    using inet_v4 [OF assms] by auto
  let ?t = "s @ CHR '':'' # to_string (port4 v)"
  have t: "ipPortToString I (V4 v) = ?t"
    by (simp add: ipPortToString_def ipToString_def s(1))
  from s(3) obtain x xs where x: "s = x # xs" by (cases s) auto
  then have "is_digit x \<or> x = CHR ''.''" using s(4) [of x] by simp
  then have h: "\<not> is_blank (hd ?t)" "hd ?t \<noteq> CHR ''[''"
    using x blank_not_digit not_digits(5) by (auto simp: is_blank_def)
  have l: "\<not> is_blank (last ?t)"
    using last_to_string [of "s @ '':''" "port4 v"] by simp
  have "parseDotted I ?t = Some (V4 v)"
    unfolding parseDotted_def
    using sv_rfind_at [OF to_string_no_colon, of s "port4 v"] parseIpv4_printed [OF s(2,4)]
    by (simp add: sv_substr_simps parsePort_to_string)
  then show ?thesis
    using h l s(3) unfolding parseIpEndpoint_def t
    by (simp add: parse_untrimmed)
qed

lemma parse_printed_v6:
  assumes "inet_documented I" "length (ip6 v) = 16"
  shows "parseIpEndpoint I (ipPortToString I (V6 v)) = Some (V6 v)"
proof -
  obtain s where s: "ntop6 I (ip6 v) INET6_ADDRSTRLEN = Some s" "pton6 I s = Some (ip6 v)"
    "\<And>c. c \<in> set s \<Longrightarrow> hex_char c \<or> c = CHR '':'' \<or> c = CHR ''.''"
    using inet_v6 [OF assms] by auto
  let ?i = "if scope_id v \<noteq> 0 then s @ ''%'' @ to_string (scope_id v) else s"
  let ?t = "CHR ''['' # ?i @ CHR '']'' # CHR '':'' # to_string (port6 v)"
  have t: "ipPortToString I (V6 v) = ?t"
    by (simp add: ipPortToString_def ipToString_def s(1))
  have "CHR '']'' \<notin> set (to_string (scope_id v))"
    using to_string_facts(2) [of "CHR '']''" "scope_id v"] not_digits(3) by blast
  then have f: "sv_find (CHR '']'') ?t = Some (Suc (length ?i))"
    using sv_find_at [of "CHR '']''" "CHR ''['' # ?i"] v6_chars(3) [OF s(3)] by simp
  have l: "\<not> is_blank (last ?t)"
    using last_to_string [of "CHR ''['' # ?i @ '']:''" "port6 v"] by simp
  have "parseBracketed I ?t = Some (V6 v)"
    unfolding parseBracketed_def f using parseIpv6_printed [OF s(2,3), of "scope_id v" "port6 v"]
    by (simp add: sv_substr_simps parsePort_to_string split del: if_split)
  moreover have "trim_back (trim_front ?t) = ?t"
    by (rule parse_untrimmed) (use l in \<open>simp_all add: is_blank_def\<close>)
  ultimately show ?thesis
    unfolding parseIpEndpoint_def t by (simp split del: if_split)
qed

section \<open>Addresses without a port\<close>

lemma trim_front_blanks:
  "list_all is_blank b \<Longrightarrow> trim_front (b @ s) = trim_front s"
  by (induction b) auto

lemma trim_back_blanks:
  "list_all is_blank b \<Longrightarrow> trim_back (s @ b) = trim_back s"
proof (induction b rule: rev_induct)
  case (snoc x b)
  then show ?case
    by (subst trim_back.simps) (simp add: butlast_append flip: append_assoc)
qed simp

lemma trim_surrounded:
  assumes "list_all is_blank p" "list_all is_blank q" "s \<noteq> []" "\<not> is_blank (hd s)"
  shows "trim_back (trim_front (p @ s @ q)) = trim_back (trim_front s)"
proof -
  have "trim_front (s @ q) = s @ q" using assms(3,4) by (simp add: trim_front_id)
  moreover have "trim_front s = s" using assms(3,4) by (rule trim_front_id)
  ultimately show ?thesis using assms(1,2) by (simp add: trim_front_blanks trim_back_blanks)
qed

lemma printed_starts:
  assumes "inet_documented I" "endpoint_ok ep"
  shows "ipPortToString I ep \<noteq> []" "\<not> is_blank (hd (ipPortToString I ep))"
proof -
  have "ipPortToString I ep \<noteq> [] \<and> \<not> is_blank (hd (ipPortToString I ep))"
  proof (cases ep)
    case (V4 v)
    with assms(2) have l: "length (ip4 v) = 4" by (simp add: endpoint_ok_def)
    obtain s where s: "ntop4 I (ip4 v) INET_ADDRSTRLEN = Some s" "CHR ''.'' \<in> set s"
      "\<forall>c\<in>set s. is_digit c \<or> c = CHR ''.''"
      using inet_v4 [OF assms(1) l] by auto
    then obtain x xs where x: "s = x # xs" by (cases s) auto
    with s(3) have "is_digit x \<or> x = CHR ''.''" by simp
    then have "\<not> is_blank x" using blank_not_digit by (auto simp: is_blank_def)
    with s(1) x V4 show ?thesis by (simp add: ipPortToString_def ipToString_def)
  next
    case (V6 v)
    then show ?thesis by (simp add: ipPortToString_def is_blank_def)
  qed
  then show "ipPortToString I ep \<noteq> []" "\<not> is_blank (hd (ipPortToString I ep))" by auto
qed

text \<open>
  C21. Every endpoint is read back from its text: parsing the text of an endpoint, with any blanks,
  tabs and line ends around it, gives the endpoint again, address, port and scope included.
\<close>

theorem endpoint_roundtrip:
  assumes "inet_documented I" "endpoint_ok ep" "list_all is_blank p" "list_all is_blank q"
  shows "parseIpEndpoint I (p @ ipPortToString I ep @ q) = Some ep"
proof -
  have "parseIpEndpoint I (p @ ipPortToString I ep @ q) = parseIpEndpoint I (ipPortToString I ep)"
    unfolding parseIpEndpoint_def
    using trim_surrounded [OF assms(3,4) printed_starts [OF assms(1,2)]] by simp
  also have "\<dots> = Some ep"
    using assms(1,2) parse_printed_v4 parse_printed_v6
    by (cases ep) (simp_all add: endpoint_ok_def)
  finally show ?thesis .
qed

lemma bare_v4:
  assumes "inet_documented I" "length (ip4 v) = 4"
  shows "parseIpEndpoint I (ipToString I (V4 v)) = Some (V4 (v\<lparr>port4 := 0\<rparr>))"
proof -
  obtain s where s: "ntop4 I (ip4 v) INET_ADDRSTRLEN = Some s" "pton4 I s = Some (ip4 v)"
    "CHR ''.'' \<in> set s" "\<And>c. c \<in> set s \<Longrightarrow> is_digit c \<or> c = CHR ''.''"
    using inet_v4 [OF assms] by auto
  have t: "ipToString I (V4 v) = s" by (simp add: ipToString_def s(1))
  have n: "s \<noteq> []" using s(3) by auto
  have b: "\<not> is_blank c" if "c \<in> set s" for c
    using s(4) [OF that] blank_not_digit by (auto simp: is_blank_def)
  have h: "hd s \<noteq> CHR ''[''" "CHR '':'' \<notin> set s"
    using s(4) [of "CHR ''[''"] s(4) [of "CHR '':''"] n not_digits hd_in_set by fastforce+
  have "parseDotted I s = Some (V4 (v\<lparr>port4 := 0\<rparr>))"
    using h(2) parseIpv4_printed [OF s(2,4)]
    by (simp add: parseDotted_def sv_rfind_None [THEN iffD2])
  then show ?thesis
    using n b h(1) s(3) by (simp add: parseIpEndpoint_def t parse_untrimmed)
qed

lemma bare_v6_dotted:
  assumes doc: "inet_documented I" and k: "2 \<le> length (filter (\<lambda>c. c = CHR '':'') s)"
    and nul: "CHR 0x00 \<notin> set s"
  shows "parseDotted I s = None"
proof -
  from k have "filter (\<lambda>c. c = CHR '':'') s \<noteq> []" by auto
  then have "CHR '':'' \<in> set s" by (auto simp: filter_empty_conv)
  then obtain p q where s: "s = p @ CHR '':'' # q" "CHR '':'' \<notin> set q"
    by (metis split_list_last)
  then have "filter (\<lambda>c. c = CHR '':'') q = []" by (auto simp: filter_empty_conv)
  with k s(1) have "filter (\<lambda>c. c = CHR '':'') p \<noteq> []" by auto
  then have p: "CHR '':'' \<in> set p" by (auto simp: filter_empty_conv)
  have "pton4 I (c_str p) = None"
  proof (rule ccontr)
    assume "pton4 I (c_str p) \<noteq> None"
    then have "list_all (\<lambda>c. is_digit c \<or> c = CHR ''.'') (c_str p)"
      using doc by (auto simp: inet_documented_def)
    with p nul s(1) show False using not_digits(1) by (auto simp: c_str_id list_all_iff)
  qed
  then show ?thesis
    using s sv_rfind_at [OF s(2), of p]
    by (auto simp: parseDotted_def parseIpv4_def sv_substr_simps split: option.splits)
qed

lemma bare_v6_chars:
  assumes "\<And>c. c \<in> set s \<Longrightarrow> hex_char c \<or> c = CHR '':'' \<or> c = CHR ''.''"
    and "c \<in> set (if sc \<noteq> 0 then s @ ''%'' @ to_string sc else s)"
  shows "\<not> is_blank c" "c \<noteq> CHR ''[''" "c \<noteq> CHR 0x00"
proof -
  from assms(2) have "c \<in> set s \<or> c = CHR ''%'' \<or> is_digit c"
    using to_string_facts(2) [of c sc] by (auto split: if_splits)
  then have "hex_char c \<or> c = CHR '':'' \<or> c = CHR ''.'' \<or> c = CHR ''%'' \<or> is_digit c"
    using assms(1) by blast
  then show "\<not> is_blank c" "c \<noteq> CHR ''[''" "c \<noteq> CHR 0x00"
    using blank_not_digit not_digits by (auto simp: hex_char_def is_blank_def)
qed

lemma bare_v6:
  assumes "inet_documented I" "length (ip6 v) = 16"
  shows "parseIpEndpoint I (ipToString I (V6 v)) =
    (if CHR ''.'' \<in> set (ipToString I (V6 v)) then None else Some (V6 (v\<lparr>port6 := 0\<rparr>)))"
proof -
  obtain s where s: "ntop6 I (ip6 v) INET6_ADDRSTRLEN = Some s" "pton6 I s = Some (ip6 v)"
    "2 \<le> length (filter (\<lambda>c. c = CHR '':'') s)"
    "\<And>c. c \<in> set s \<Longrightarrow> hex_char c \<or> c = CHR '':'' \<or> c = CHR ''.''"
    using inet_v6 [OF assms] by auto
  define t where "t = (if scope_id v \<noteq> 0 then s @ ''%'' @ to_string (scope_id v) else s)"
  have pt: "ipToString I (V6 v) = t" by (simp add: ipToString_def s(1) t_def)
  have n: "t \<noteq> []" using s(3) by (auto simp: t_def)
  note ch = bare_v6_chars [where s = s and sc = "scope_id v", OF s(4), folded t_def]
  have u: "trim_back (trim_front t) = t" "hd t \<noteq> CHR ''[''"
    using n ch by (simp_all add: parse_untrimmed)
  have k: "2 \<le> length (filter (\<lambda>c. c = CHR '':'') t)" using s(3) by (simp add: t_def)
  have "parseDotted I t = None" using bare_v6_dotted [OF assms(1) k] ch(3) by blast
  moreover have "parseIpv6WithOptionalScope I t 0 = Some (v\<lparr>port6 := 0\<rparr>)"
    unfolding t_def using parseIpv6_printed [OF s(2,4)] by simp
  ultimately show ?thesis
    using n u by (simp add: parseIpEndpoint_def pt)
qed

text \<open>
  The text of the address alone is read back with port 0, except that an IPv6 address whose
  text contains a dot (the mixed form printed for mapped addresses) is rejected without brackets:
  the parser takes every text with a dot for IPv4.
\<close>

lemma bare_address_roundtrip:
  assumes "inet_documented I" "endpoint_ok ep"
  shows "parseIpEndpoint I (ipToString I ep) =
    (if isV6 ep \<and> CHR ''.'' \<in> set (ipToString I ep) then None else Some (setPort ep 0))"
  using assms bare_v4 bare_v6
  by (cases ep) (simp_all add: endpoint_ok_def isV6_def setPort_def)

lemma parse_ok_aux:
  assumes "inet_documented I"
  shows "parseIpv4 I s p = Some a \<Longrightarrow> length (ip4 a) = 4"
    and "parseIpv6WithOptionalScope I s p = Some b \<Longrightarrow> length (ip6 b) = 16"
  using assms
  by (auto simp: inet_documented_def parseIpv4_def parseIpv6WithOptionalScope_def Let_def
      split: option.splits prod.splits if_splits)


section \<open>A conforming conversion\<close>

text \<open>
  Address conversions for which the documented behaviour holds: dotted decimal without leading
  zeros, and IPv6 as eight groups of four hexadecimal digits.
\<close>

fun join_on :: "char \<Rightarrow> string list \<Rightarrow> string" where
  "join_on c [] = []"
| "join_on c [g] = g"
| "join_on c (g # h # gs) = g @ c # join_on c (h # gs)"

fun split_on :: "char \<Rightarrow> string \<Rightarrow> string list" where
  "split_on c [] = [[]]"
| "split_on c (x # xs) =
    (if x = c then [] # split_on c xs else (x # hd (split_on c xs)) # tl (split_on c xs))"

definition hex_digit :: "nat \<Rightarrow> char" where
  "hex_digit d = ''0123456789abcdef'' ! d"

definition hex_value :: "char \<Rightarrow> nat" where
  "hex_value c = the (sv_find c ''0123456789abcdef'')"

definition hex_byte :: "u8 \<Rightarrow> string" where
  "hex_byte b = [hex_digit (unat b div 16), hex_digit (unat b mod 16)]"

fun hex_groups :: "u8 list \<Rightarrow> string list" where
  "hex_groups (a # b # r) = (hex_byte a @ hex_byte b) # hex_groups r"
| "hex_groups _ = []"

fun hex_group_bytes :: "string \<Rightarrow> u8 list" where
  "hex_group_bytes [a, b, c, d] =
    [word_of_nat (16 * hex_value a + hex_value b), word_of_nat (16 * hex_value c + hex_value d)]"
| "hex_group_bytes _ = []"

definition dotted_group :: "string \<Rightarrow> bool" where
  "dotted_group g \<longleftrightarrow> decimal_value g \<le> 255 \<and> g = to_string_nat (decimal_value g)"

definition hex_group :: "string \<Rightarrow> bool" where
  "hex_group g \<longleftrightarrow> length g = 4 \<and> list_all hex_char g"

definition fits_buf :: "nat \<Rightarrow> string \<Rightarrow> string option" where
  "fits_buf n s = (if length s < n then Some s else None)"

definition plain_inet :: inet_api where
  "plain_inet =
    \<lparr>pton4 = (\<lambda>s. let gs = split_on (CHR ''.'') s in
       if length gs = 4 \<and> list_all dotted_group gs
       then Some (map (\<lambda>g. word_of_nat (decimal_value g)) gs) else None),
     pton6 = (\<lambda>s. let gs = split_on (CHR '':'') s in
       if length gs = 8 \<and> list_all hex_group gs
       then Some (concat (map hex_group_bytes gs)) else None),
     ntop4 = (\<lambda>a n. fits_buf n (join_on (CHR ''.'') (map to_string a))),
     ntop6 = (\<lambda>a n. fits_buf n (join_on (CHR '':'') (hex_groups a)))\<rparr>"

lemma split_on_nonempty [simp]: "split_on c s \<noteq> []"
  by (cases s) auto

lemma split_on_no: "c \<notin> set g \<Longrightarrow> split_on c g = [g]"
  by (induction g) auto

lemma split_on_app: "c \<notin> set g \<Longrightarrow> split_on c (g @ c # s) = g # split_on c s"
  by (induction g) auto

lemma split_join:
  "gs \<noteq> [] \<Longrightarrow> \<forall>g\<in>set gs. c \<notin> set g \<Longrightarrow> split_on c (join_on c gs) = gs"
  by (induction c gs rule: join_on.induct) (auto simp: split_on_app split_on_no)

lemma set_split_on: "x \<in> set s \<Longrightarrow> x \<noteq> c \<Longrightarrow> \<exists>g\<in>set (split_on c s). x \<in> set g"
proof (induction s)
  case (Cons y s)
  obtain h t where h: "split_on c s = h # t" by (cases "split_on c s") simp_all
  show ?case
  proof (cases "x \<in> set s")
    case True
    with Cons obtain g where "g \<in> set (split_on c s)" "x \<in> set g" by auto
    then show ?thesis using h by (cases "y = c") auto
  next
    case False
    with Cons show ?thesis by auto
  qed
qed simp

lemma set_join_on: "x \<in> set (join_on c gs) \<Longrightarrow> x = c \<or> (\<exists>g\<in>set gs. x \<in> set g)"
  by (induction c gs rule: join_on.induct) auto

lemma unat_u8: "unat (w :: u8) < 256"
proof -
  have "unat w < 2 ^ LENGTH(8)" by (rule unsigned_less)
  then show ?thesis by simp
qed

lemma dotted_groups:
  fixes a :: "u8 list"
  shows "list_all dotted_group (map to_string a)"
    and "map (\<lambda>g. word_of_nat (decimal_value g)) (map to_string a) = a"
proof -
  have "unat (w :: u8) \<le> 255" for w using unat_u8 [of w] by simp
  then have "dotted_group (to_string w)" for w :: u8
    by (simp add: dotted_group_def to_string_facts) (simp add: to_string_def)
  then show "list_all dotted_group (map to_string a)" by (simp add: list_all_iff)
  show "map (\<lambda>g. word_of_nat (decimal_value g)) (map to_string a) = a"
    by (simp add: to_string_facts o_def)
qed

lemma length_to_string_u8: "length (to_string (w :: u8)) \<le> 3"
proof -
  have "unat w < 256" by (rule unat_u8)
  then have "unat w div 10 div 10 < 10" by simp
  then show ?thesis
    unfolding to_string_def
    by (simp add: to_string_nat.simps [of "unat w"] to_string_nat.simps [of "unat w div 10"]
        to_string_nat.simps [of "unat w div 10 div 10"])
qed

lemma hex_value_digit: "d < 16 \<Longrightarrow> hex_value (hex_digit d) = d \<and> hex_char (hex_digit d)"
proof -
  assume "d < 16"
  then have "d \<in> set [0..<16]" by simp
  moreover have "list_all (\<lambda>d. hex_value (hex_digit d) = d \<and> hex_char (hex_digit d)) [0..<16]"
    by code_simp
  ultimately show ?thesis by (simp only: list_all_iff)
qed

lemma hex_byte_facts:
  "hex_group (hex_byte a @ hex_byte b)" "hex_group_bytes (hex_byte a @ hex_byte b) = [a, b]"
proof -
  have "unat w div 16 < 16" "unat w mod 16 < 16" for w :: u8
    using unat_u8 [of w] by (simp_all add: less_mult_imp_div_less)
  then show "hex_group (hex_byte a @ hex_byte b)"
    "hex_group_bytes (hex_byte a @ hex_byte b) = [a, b]"
    using hex_value_digit by (simp_all add: hex_group_def hex_byte_def flip: unat_of_nat)
qed

lemma hex_groups_facts:
  "even (length a) \<Longrightarrow> concat (map hex_group_bytes (hex_groups a)) = a \<and>
    list_all hex_group (hex_groups a) \<and> length (hex_groups a) = length a div 2"
  by (induction a rule: hex_groups.induct) (auto simp: hex_byte_facts)

lemma hex_group_no_colon: "hex_group g \<Longrightarrow> CHR '':'' \<notin> set g"
proof
  assume "hex_group g" "CHR '':'' \<in> set g"
  then have "hex_char (CHR '':'')" unfolding hex_group_def list_all_iff by blast
  then show False by (simp add: hex_char_def)
qed

lemma dotted_group_chars:
  assumes "dotted_group g" "c \<in> set g"
  shows "is_digit c"
proof -
  from assms(1) have "set g = set (to_string_nat (decimal_value g))"
    unfolding dotted_group_def by (intro arg_cong [where f = set]) (rule conjunct2)
  with assms(2) show ?thesis using to_string_nat_digits [of "decimal_value g"] by simp
qed

lemma length_join:
  "gs \<noteq> [] \<Longrightarrow> length (join_on c gs) + 1 = sum_list (map length gs) + length gs"
  by (induction c gs rule: join_on.induct) auto

lemma filter_join:
  "gs \<noteq> [] \<Longrightarrow> \<forall>g\<in>set gs. c \<notin> set g \<Longrightarrow>
    length (filter (\<lambda>x. x = c) (join_on c gs)) + 1 = length gs"
  by (induction c gs rule: join_on.induct) (auto simp: filter_empty_conv)

lemma plain_inet_v4:
  fixes a :: "u8 list"
  assumes "length a = 4"
  shows "\<exists>s. ntop4 plain_inet a INET_ADDRSTRLEN = Some s \<and> pton4 plain_inet s = Some a \<and>
    CHR ''.'' \<in> set s \<and> (\<forall>c\<in>set s. is_digit c \<or> c = CHR ''.'')"
proof -
  let ?g = "map to_string a" let ?s = "join_on (CHR ''.'') ?g"
  have ne: "?g \<noteq> []" and l: "length ?g = 4" using assms by auto
  have dig: "\<forall>g\<in>set ?g. \<forall>c\<in>set g. is_digit c" using to_string_facts(2) by auto
  then have nd: "\<forall>g\<in>set ?g. CHR ''.'' \<notin> set g" using not_digits(7) by blast
  have "sum_list (map length ?g) \<le> 3 * length a"
    using length_to_string_u8 by (induction a) (auto simp: add_mono intro: le_trans)
  with length_join [OF ne, of "CHR ''.''"] l assms have "length ?s < INET_ADDRSTRLEN"
    by (simp add: INET_ADDRSTRLEN_def)
  moreover have "length (filter (\<lambda>x. x = CHR ''.'') ?s) = 3"
    using filter_join [OF ne nd] l by simp
  then have "CHR ''.'' \<in> set ?s" by (metis (full_types) filter_False list.size(3) zero_neq_numeral)
  moreover have "\<forall>c\<in>set ?s. is_digit c \<or> c = CHR ''.''"
    using set_join_on dig by fastforce
  ultimately show ?thesis
    using l dotted_groups [of a] split_join [OF ne nd]
    by (simp add: plain_inet_def fits_buf_def Let_def)
qed

lemma plain_inet_v6:
  fixes a :: "u8 list"
  assumes "length a = 16"
  shows "\<exists>s. ntop6 plain_inet a INET6_ADDRSTRLEN = Some s \<and> pton6 plain_inet s = Some a \<and>
    2 \<le> length (filter (\<lambda>c. c = CHR '':'') s) \<and>
    (\<forall>c\<in>set s. hex_char c \<or> c = CHR '':'' \<or> c = CHR ''.'')"
proof -
  let ?g = "hex_groups a" let ?s = "join_on (CHR '':'') ?g"
  have f: "concat (map hex_group_bytes ?g) = a" "list_all hex_group ?g" "length ?g = 8"
    using hex_groups_facts [of a] assms by simp_all
  then have ne: "?g \<noteq> []" by auto
  have nc: "\<forall>g\<in>set ?g. CHR '':'' \<notin> set g"
    using f(2) hex_group_no_colon by (auto simp: list_all_iff)
  have "map length ?g = replicate 8 4"
    using f(2,3) by (intro replicate_eqI) (auto simp: list_all_iff hex_group_def)
  with length_join [OF ne, of "CHR '':''"] f(3) have "length ?s < INET6_ADDRSTRLEN"
    by (simp add: INET6_ADDRSTRLEN_def sum_list_replicate)
  moreover have "2 \<le> length (filter (\<lambda>c. c = CHR '':'') ?s)"
    using filter_join [OF ne nc] f(3) by simp
  moreover have "\<forall>c\<in>set ?s. hex_char c \<or> c = CHR '':'' \<or> c = CHR ''.''"
    using set_join_on f(2) by (fastforce simp: list_all_iff hex_group_def)
  ultimately show ?thesis
    using f split_join [OF ne nc] by (simp add: plain_inet_def fits_buf_def Let_def)
qed

lemma length_hex_group_bytes: "hex_group g \<Longrightarrow> length (hex_group_bytes g) = 2"
  by (auto simp: hex_group_def length_Suc_conv numeral_eq_Suc)

lemma plain_inet_pton4:
  assumes "pton4 plain_inet s = Some a"
  shows "length a = 4 \<and> list_all (\<lambda>c. is_digit c \<or> c = CHR ''.'') s"
proof -
  from assms have "length a = 4" and d: "list_all dotted_group (split_on (CHR ''.'') s)"
    by (auto simp: plain_inet_def Let_def split: if_splits)
  moreover have "is_digit c \<or> c = CHR ''.''" if c: "c \<in> set s" for c
    using set_split_on [OF c, of "CHR ''.''"] d dotted_group_chars by (auto simp: list_all_iff)
  ultimately show ?thesis by (simp add: list_all_iff)
qed

lemma plain_inet_pton6: "pton6 plain_inet s = Some a \<Longrightarrow> length a = 16"
proof -
  assume "pton6 plain_inet s = Some a"
  then have g: "length (split_on (CHR '':'') s) = 8" "list_all hex_group (split_on (CHR '':'') s)"
    "a = concat (map hex_group_bytes (split_on (CHR '':'') s))"
    by (auto simp: plain_inet_def Let_def split: if_splits)
  then have "map (length \<circ> hex_group_bytes) (split_on (CHR '':'') s) = replicate 8 2"
    using length_hex_group_bytes by (intro replicate_eqI) (auto simp: list_all_iff)
  then show ?thesis using g(3) by (simp add: length_concat sum_list_replicate)
qed

lemma plain_inet_documented: "inet_documented plain_inet"
  unfolding inet_documented_def
  using plain_inet_pton4 plain_inet_pton6 plain_inet_v4 plain_inet_v6 by blast

definition loopback :: IpEndpoint where
  "loopback = makeIpEndpointV6 (replicate 15 0 @ [1]) 8080 3"

lemma endpoint_roundtrip_witness:
  "parseIpEndpoint plain_inet ('' '' @ ipPortToString plain_inet loopback @ '' '') = Some loopback"
  by (rule endpoint_roundtrip [OF plain_inet_documented])
    (simp_all add: loopback_def makeIpEndpointV6_def endpoint_ok_def is_blank_def)

lemma bare_address_roundtrip_witness:
  "parseIpEndpoint plain_inet (ipToString plain_inet loopback) =
    (if isV6 loopback \<and> CHR ''.'' \<in> set (ipToString plain_inet loopback) then None
     else Some (setPort loopback 0)) \<and>
   parseIpEndpoint plain_inet (ipToString plain_inet (makeIpEndpointV4 [127, 0, 0, 1] 80)) =
    Some (makeIpEndpointV4 [127, 0, 0, 1] 0)"
  using bare_address_roundtrip [OF plain_inet_documented, of loopback]
    bare_address_roundtrip [OF plain_inet_documented, of "makeIpEndpointV4 [127, 0, 0, 1] 80"]
  by (simp add: loopback_def makeIpEndpointV6_def makeIpEndpointV4_def endpoint_ok_def isV6_def
      setPort_def)


end
