(* ===== verification/Tcp_Socket.thy ===== *)
theory Tcp_Socket
  imports Ip_Endpoint Event_Core
begin

text \<open>
  What the TCP watchers share: the option structures and the factory dispatch of
  \<^verbatim>\<open>platform/network/watcher/tcp_watchers.h\<close> and \<^verbatim>\<open>.cc\<close>, and the socket helpers of
  \<^verbatim>\<open>platform/linux/network/watcher/tcp_socket_common.h\<close>.

  A watcher talks to the kernel through system calls, to the event core through
  \<open>attachSource\<close>/\<open>detachSource\<close>/\<open>setEvents\<close> and to its user through callbacks. All three are
  written down in one log, in the order in which they happen. The kernel is a parameter: a
  function from its state and a call to an answer and its next state, so nothing is assumed of
  what it answers unless a theorem says so.
\<close>

section \<open>System calls and the log\<close>

text \<open>\<^verbatim>\<open>sockaddr_storage\<close> by the structure stored in it; ports are in network byte order.\<close>

datatype sockaddr =
    Sa_in u16 "u8 list"          \<comment> \<open>\<open>sin_port\<close>, \<open>sin_addr\<close>\<close>
  | Sa_in6 u16 "u8 list" u32     \<comment> \<open>\<open>sin6_port\<close>, \<open>sin6_addr\<close>, \<open>sin6_scope_id\<close>\<close>
  | Sa_other int                 \<comment> \<open>any other family\<close>

datatype sockopt =
    SO_KEEPALIVE | TCP_NODELAY | TCP_KEEPIDLE | TCP_KEEPINTVL | TCP_KEEPCNT | TCP_KEEPALIVE
  | SO_RCVBUF | SO_SNDBUF | SO_REUSEADDR | SO_REUSEPORT | IPV6_V6ONLY | SO_NOSIGPIPE

datatype syscall =
    SysSocket int int
  | SysGetFl int | SysSetFl int "32 word"
  | SysGetFd int | SysSetFd int "32 word"
  | SysSetOpt int sockopt int
  | SysLinger int int int
  | SysGetError int
  | SysBind int sockaddr
  | SysListen int int
  | SysConnect int sockaddr
  | SysAccept int "32 word"
  | SysPeername int | SysSockname int
  | SysRecv int nat
  | SysSend int "u8 list"
  | SysShutdown int
  | SysClose int

text \<open>
  An answer carries the return value, the value of \<open>errno\<close> after the call, what the call wrote to
  an \<open>int\<close> out parameter, the bytes received and the address written with its length.
\<close>

record answer =
  ret :: int
  eno :: int
  out_int :: int
  out_bytes :: "u8 list"
  out_addr :: "sockaddr option"
  out_len :: nat

type_synonym 'k os = "'k \<Rightarrow> syscall \<Rightarrow> answer \<times> 'k"

datatype TcpStreamKind = LinuxEpoll | LinuxPoll | MacKqueue | MacPoll | WindowsIocp

text \<open>\<^verbatim>\<open>ITcpStream\<close> and \<^verbatim>\<open>LinuxTcpStream\<close>.\<close>

record TcpStream =
  skind :: TcpStreamKind
  peer :: "IpEndpoint option"
  local :: "IpEndpoint option"
  sfd :: int

datatype callback =
    OnAccept TcpStream | OnConnected TcpStream | OnError int | OnRecv "u8 list" | OnClose
  | OnSendReady

text \<open>\<open>AttachWrite\<close> and \<open>DetachWrite\<close> are for the second source of a watcher that has two.\<close>

datatype event =
    Sys syscall answer | Cb callback | Attach int | Detach int | SetEvents int u32
  | AttachWrite int | DetachWrite int

record 'k net =
  kern :: 'k
  log :: "event list"

definition emit :: "event \<Rightarrow> 'k net \<Rightarrow> 'k net" where
  "emit e w = w\<lparr>log := log w @ [e]\<rparr>"

definition sys :: "'k os \<Rightarrow> syscall \<Rightarrow> 'k net \<Rightarrow> answer \<times> 'k net" where
  "sys os c w =
    (let (a, k) = os (kern w) c in (a, (emit (Sys c a) w)\<lparr>kern := k\<rparr>))"

text \<open>A call whose result the source ignores.\<close>

definition sys_void :: "'k os \<Rightarrow> syscall \<Rightarrow> 'k net \<Rightarrow> 'k net" where
  "sys_void os c w = snd (sys os c w)"

section \<open>Options\<close>

text \<open>\<open>None\<close> means that the option is not touched.\<close>

record sock_options =
  set_close_on_exec :: "bool option"
  tcp_no_delay :: "bool option"
  keep_alive :: "bool option"
  keep_alive_idle_sec :: "int option"
  keep_alive_interval_sec :: "int option"
  keep_alive_count :: "int option"
  recv_buf_bytes :: "int option"
  send_buf_bytes :: "int option"

record TcpAcceptOption = sock_options +
  local_ep :: IpEndpoint
  backlog :: int
  max_accept_per_tick :: nat
  fill_endpoints :: bool
  reuse_addr :: "bool option"
  reuse_port :: "bool option"
  ipv6_only :: "bool option"

record TcpConnectOption = sock_options +
  local_bind :: "IpEndpoint option"
  local_port :: u16
  cfill_endpoints :: bool
  connected_queue_capacity :: nat

record TcpConnectionOption = sock_options +
  max_read_bytes_per_tick :: nat
  max_write_bytes_per_tick :: nat
  linger_sec :: "int option"

definition default_sock_options :: sock_options where
  "default_sock_options =
    \<lparr>set_close_on_exec = None, tcp_no_delay = None, keep_alive = None,
     keep_alive_idle_sec = None, keep_alive_interval_sec = None, keep_alive_count = None,
     recv_buf_bytes = None, send_buf_bytes = None\<rparr>"

definition default_accept_option :: TcpAcceptOption where
  "default_accept_option = sock_options.extend default_sock_options
    (TcpAcceptOption.fields (makeIpEndpointV4 [0, 0, 0, 0] 0) 128 64 True None None None)"

definition default_connect_option :: TcpConnectOption where
  "default_connect_option = sock_options.extend default_sock_options
    (TcpConnectOption.fields None 0 True 1024)"

definition default_connection_option :: TcpConnectionOption where
  "default_connection_option = sock_options.extend default_sock_options
    (TcpConnectionOption.fields (256 * 1024) (256 * 1024) None)"

text \<open>What a connection tells a sender, and the calls its user may make from a callback.\<close>

record TrySendResult =
  sent :: nat
  would_block :: bool
  send_err :: int

datatype act = UClose | UTrySend "u8 list" | UShutdown | UStop | UStart

section \<open>Factories\<close>

datatype tcp_error = Unsupported | NullStream | StreamMismatch

text \<open>The watcher class a factory instantiates on a platform, by the worker's backend.\<close>

datatype build = Build_Linux | Build_Windows | Build_Apple

definition createTcpAcceptWatcher :: "build \<Rightarrow> BackendType \<Rightarrow> tcp_error + TcpStreamKind" where
  "createTcpAcceptWatcher b bt =
    (case b of
       Build_Linux \<Rightarrow>
         (if bt = LINUX_EPOLL then Inr LinuxEpoll
          else if bt = LINUX_POLL then Inr LinuxPoll else Inl Unsupported)
     | Build_Windows \<Rightarrow> (if bt = WINDOWS_IOCP then Inr WindowsIocp else Inl Unsupported)
     | Build_Apple \<Rightarrow>
         (if bt = MACOS_KQUEUE then Inr MacKqueue
          else if bt = MACOS_POLL then Inr MacPoll else Inl Unsupported))"

definition createTcpConnectWatcher :: "build \<Rightarrow> BackendType \<Rightarrow> tcp_error + TcpStreamKind" where
  "createTcpConnectWatcher b bt =
    (case b of
       Build_Linux \<Rightarrow>
         (if bt = LINUX_EPOLL then Inr LinuxEpoll
          else if bt = LINUX_POLL then Inr LinuxPoll else Inl Unsupported)
     | Build_Windows \<Rightarrow> (if bt = WINDOWS_IOCP then Inr WindowsIocp else Inl Unsupported)
     | Build_Apple \<Rightarrow>
         (if bt = MACOS_KQUEUE then Inr MacKqueue
          else if bt = MACOS_POLL then Inr MacPoll else Inl Unsupported))"

definition createTcpConnectionWatcher ::
    "build \<Rightarrow> BackendType \<Rightarrow> TcpStream option \<Rightarrow> tcp_error + TcpStreamKind" where
  "createTcpConnectionWatcher b bt stream =
    (if stream = None then Inl NullStream
     else
       case b of
         Build_Linux \<Rightarrow>
           (if bt = LINUX_EPOLL then Inr LinuxEpoll
            else if bt = LINUX_POLL then Inr LinuxPoll else Inl Unsupported)
       | Build_Apple \<Rightarrow>
           (if bt = MACOS_KQUEUE then Inr MacKqueue
            else if bt = MACOS_POLL then Inr MacPoll else Inl Unsupported)
       | Build_Windows \<Rightarrow> (if bt = WINDOWS_IOCP then Inr WindowsIocp else Inl Unsupported))"

section \<open>Descriptor helpers\<close>

definition closeFd :: "'k os \<Rightarrow> int \<Rightarrow> 'k net \<Rightarrow> int \<times> 'k net" where
  "closeFd os fd w = (if fd \<ge> 0 then (-1, sys_void os (SysClose fd) w) else (fd, w))"

definition O_NONBLOCK :: "32 word" where "O_NONBLOCK = 0x800"
definition FD_CLOEXEC :: "32 word" where "FD_CLOEXEC = 1"

text \<open>The second component is the value of \<open>errno\<close> that a caller reads after a failure.\<close>

definition setNonBlocking :: "'k os \<Rightarrow> int \<Rightarrow> 'k net \<Rightarrow> bool \<times> int \<times> 'k net" where
  "setNonBlocking os fd w =
    (let (a, w) = sys os (SysGetFl fd) w in
     if ret a < 0 then (False, eno a, w)
     else
       let (b, w) = sys os (SysSetFl fd (word_of_int (ret a) OR O_NONBLOCK)) w in
       if ret b \<noteq> 0 then (False, eno b, w) else (True, eno b, w))"

definition applyCloseOnExecIfConfigured :: "'k os \<Rightarrow> int \<Rightarrow> bool option \<Rightarrow> 'k net \<Rightarrow> 'k net" where
  "applyCloseOnExecIfConfigured os fd v w =
    (case v of
       None \<Rightarrow> w
     | Some b \<Rightarrow>
         let (a, w) = sys os (SysGetFd fd) w in
         if ret a < 0 then w
         else
           let flags = word_of_int (ret a) in
           sys_void os
             (SysSetFd fd (if b then flags OR FD_CLOEXEC else flags AND NOT FD_CLOEXEC)) w)"

definition applyTcpNoDelayIfConfigured :: "'k os \<Rightarrow> int \<Rightarrow> bool option \<Rightarrow> 'k net \<Rightarrow> 'k net" where
  "applyTcpNoDelayIfConfigured os fd v w =
    (case v of
       None \<Rightarrow> w
     | Some b \<Rightarrow> sys_void os (SysSetOpt fd TCP_NODELAY (if b then 1 else 0)) w)"

definition set_int :: "'k os \<Rightarrow> int \<Rightarrow> sockopt \<Rightarrow> int option \<Rightarrow> 'k net \<Rightarrow> 'k net" where
  "set_int os fd opt v w =
    (case v of None \<Rightarrow> w | Some i \<Rightarrow> sys_void os (SysSetOpt fd opt i) w)"

definition applyKeepAliveIfConfigured ::
    "'k os \<Rightarrow> int \<Rightarrow> bool option \<Rightarrow> int option \<Rightarrow> int option \<Rightarrow> int option \<Rightarrow> 'k net \<Rightarrow> 'k net" where
  "applyKeepAliveIfConfigured os fd enable idle_sec interval_sec cnt w =
    (case enable of
       None \<Rightarrow> w
     | Some b \<Rightarrow>
         let w = sys_void os (SysSetOpt fd SO_KEEPALIVE (if b then 1 else 0)) w in
         if \<not> b then w
         else
           let w = set_int os fd TCP_KEEPIDLE idle_sec w;
               w = set_int os fd TCP_KEEPINTVL interval_sec w
           in set_int os fd TCP_KEEPCNT cnt w)"

definition applyBufSizeIfConfigured ::
    "'k os \<Rightarrow> int \<Rightarrow> int option \<Rightarrow> int option \<Rightarrow> 'k net \<Rightarrow> 'k net" where
  "applyBufSizeIfConfigured os fd rcv sndb w =
    set_int os fd SO_SNDBUF sndb (set_int os fd SO_RCVBUF rcv w)"

definition applyLingerIfConfigured :: "'k os \<Rightarrow> int \<Rightarrow> int option \<Rightarrow> 'k net \<Rightarrow> 'k net" where
  "applyLingerIfConfigured os fd v w =
    (case v of
       None \<Rightarrow> w
     | Some s \<Rightarrow> sys_void os (if s < 0 then SysLinger fd 0 0 else SysLinger fd 1 s) w)"

definition applyReuseAddrIfConfigured :: "'k os \<Rightarrow> int \<Rightarrow> bool option \<Rightarrow> 'k net \<Rightarrow> 'k net" where
  "applyReuseAddrIfConfigured os fd v w =
    (case v of
       None \<Rightarrow> w
     | Some b \<Rightarrow> sys_void os (SysSetOpt fd SO_REUSEADDR (if b then 1 else 0)) w)"

definition applyReusePortIfConfigured :: "'k os \<Rightarrow> int \<Rightarrow> bool option \<Rightarrow> 'k net \<Rightarrow> 'k net" where
  "applyReusePortIfConfigured os fd v w =
    (case v of
       None \<Rightarrow> w
     | Some b \<Rightarrow> sys_void os (SysSetOpt fd SO_REUSEPORT (if b then 1 else 0)) w)"

definition applyIpv6OnlyIfConfigured :: "'k os \<Rightarrow> int \<Rightarrow> bool option \<Rightarrow> 'k net \<Rightarrow> 'k net" where
  "applyIpv6OnlyIfConfigured os fd v w =
    (case v of
       None \<Rightarrow> w
     | Some b \<Rightarrow> sys_void os (SysSetOpt fd IPV6_V6ONLY (if b then 1 else 0)) w)"

section \<open>Socket addresses\<close>

definition AF_INET :: int where "AF_INET = 2"
definition AF_INET6 :: int where "AF_INET6 = 10"

definition sa_family :: "sockaddr \<Rightarrow> int" where
  "sa_family s = (case s of Sa_in _ _ \<Rightarrow> AF_INET | Sa_in6 _ _ _ \<Rightarrow> AF_INET6 | Sa_other f \<Rightarrow> f)"

definition sizeof_sockaddr_in :: nat where "sizeof_sockaddr_in = 16"
definition sizeof_sockaddr_in6 :: nat where "sizeof_sockaddr_in6 = 28"

text \<open>All targets are little endian: \<open>htons\<close> and \<open>ntohs\<close> swap the two bytes.\<close>

definition htons :: "u16 \<Rightarrow> u16" where
  "htons w = (push_bit 8 w) OR (drop_bit 8 w)"

definition ntohs :: "u16 \<Rightarrow> u16" where
  "ntohs w = (push_bit 8 w) OR (drop_bit 8 w)"

text \<open>The result is \<open>(true, out, out_len)\<close>; the variant has no third alternative.\<close>

definition toSockaddr :: "IpEndpoint \<Rightarrow> sockaddr \<times> nat" where
  "toSockaddr ep =
    (case ep of
       V4 v4 \<Rightarrow> (Sa_in (htons (port4 v4)) (ip4 v4), sizeof_sockaddr_in)
     | V6 v6 \<Rightarrow> (Sa_in6 (htons (port6 v6)) (ip6 v6) (scope_id v6), sizeof_sockaddr_in6))"

definition fromSockaddr :: "sockaddr option \<Rightarrow> nat \<Rightarrow> IpEndpoint option" where
  "fromSockaddr sa len =
    (case sa of
       None \<Rightarrow> None
     | Some (Sa_in p a) \<Rightarrow>
         if len < sizeof_sockaddr_in then None else Some (V4 \<lparr>ip4 = a, port4 = ntohs p\<rparr>)
     | Some (Sa_in6 p a sc) \<Rightarrow>
         if len < sizeof_sockaddr_in6 then None
         else Some (V6 \<lparr>ip6 = a, port6 = ntohs p, scope_id = sc\<rparr>)
     | Some (Sa_other f) \<Rightarrow> None)"

definition bestEffortFillEndpoints ::
    "'k os \<Rightarrow> int \<Rightarrow> TcpStream \<Rightarrow> 'k net \<Rightarrow> TcpStream \<times> 'k net" where
  "bestEffortFillEndpoints os fd stream w =
    (let (stream, w) =
       (if peer stream = None then
          let (a, w) = sys os (SysPeername fd) w in
          (if ret a = 0 then stream\<lparr>peer := fromSockaddr (out_addr a) (out_len a)\<rparr> else stream, w)
        else (stream, w));
       (stream, w) =
       (if local stream = None then
          let (a, w) = sys os (SysSockname fd) w in
          (if ret a = 0 then stream\<lparr>local := fromSockaddr (out_addr a) (out_len a)\<rparr> else stream, w)
        else (stream, w))
     in (stream, w))"

section \<open>Streams\<close>

definition new_stream :: "TcpStreamKind \<Rightarrow> int \<Rightarrow> TcpStream" where
  "new_stream k fd = \<lparr>skind = k, peer = None, local = None, sfd = fd\<rparr>"

definition releaseFd :: "TcpStream \<Rightarrow> int \<times> TcpStream" where
  "releaseFd s = (sfd s, s\<lparr>sfd := -1\<rparr>)"

definition destroy_stream :: "'k os \<Rightarrow> TcpStream \<Rightarrow> 'k net \<Rightarrow> 'k net" where
  "destroy_stream os s w = snd (closeFd os (sfd s) w)"

section \<open>Addresses round trip\<close>

lemma ntohs_htons: "ntohs (htons p) = p"
  unfolding ntohs_def htons_def
  by (rule bit_word_eqI) (auto simp: bit_simps)

text \<open>
  The address handed to the kernel describes the endpoint: reading back the address built for
  an endpoint gives the endpoint again, and a length shorter than the structure of its family is
  rejected.
\<close>

lemma sockaddr_roundtrip:
  "fromSockaddr (Some (fst (toSockaddr ep))) n =
    (if n < snd (toSockaddr ep) then None else Some ep)"
  by (cases ep) (simp_all add: fromSockaddr_def toSockaddr_def ntohs_htons)

section \<open>What a step adds to the log\<close>

text \<open>\<open>adds P w w'\<close>: the log grew by events that satisfy \<open>P\<close>.\<close>

definition adds :: "(event \<Rightarrow> bool) \<Rightarrow> 'k net \<Rightarrow> 'k net \<Rightarrow> bool" where
  "adds P w w' \<longleftrightarrow> (\<exists>es. log w' = log w @ es \<and> list_all P es)"

lemma adds_refl [simp]: "adds P w w"
  by (simp add: adds_def)

lemma adds_trans: "adds P u v \<Longrightarrow> adds P v w \<Longrightarrow> adds P u w"
  unfolding adds_def by (metis append.assoc list_all_append)

lemma adds_mono: "adds P v w \<Longrightarrow> (\<And>e. P e \<Longrightarrow> Q e) \<Longrightarrow> adds Q v w"
  unfolding adds_def by (metis (mono_tags, lifting) list.pred_mono_strong)

lemma log_emit [simp]: "log (emit e w) = log w @ [e]"
  by (simp add: emit_def)

lemma adds_emit: "P e \<Longrightarrow> adds P w (emit e w)"
  by (simp add: adds_def)

lemma log_sys: "sys os c w = (a, w') \<Longrightarrow> log w' = log w @ [Sys c a]"
  by (auto simp: sys_def split: prod.splits)

lemma log_sys_snd [simp]: "log (snd (sys os c w)) = log w @ [Sys c (fst (sys os c w))]"
  by (simp add: sys_def split: prod.splits)

lemma adds_sys: "sys os c w = (a, w') \<Longrightarrow> P (Sys c a) \<Longrightarrow> adds P w w'"
  using log_sys [of os c w a w'] by (simp add: adds_def)

lemma log_sys_void [simp]: "log (sys_void os c w) = log w @ [Sys c (fst (sys os c w))]"
  by (simp add: sys_void_def)

lemma adds_sys_void: "(\<And>a. P (Sys c a)) \<Longrightarrow> adds P w (sys_void os c w)"
  by (simp add: adds_def sys_void_def)

text \<open>The calls that configure a descriptor or ask for its addresses.\<close>

fun config_call :: "int \<Rightarrow> syscall \<Rightarrow> bool" where
  "config_call fd (SysGetFl f) = (f = fd)"
| "config_call fd (SysSetFl f _) = (f = fd)"
| "config_call fd (SysGetFd f) = (f = fd)"
| "config_call fd (SysSetFd f _) = (f = fd)"
| "config_call fd (SysSetOpt f _ _) = (f = fd)"
| "config_call fd (SysLinger f _ _) = (f = fd)"
| "config_call fd (SysPeername f) = (f = fd)"
| "config_call fd (SysSockname f) = (f = fd)"
| "config_call fd _ = False"

fun config_event :: "int \<Rightarrow> event \<Rightarrow> bool" where
  "config_event fd (Sys c _) = config_call fd c"
| "config_event fd _ = False"

lemma adds_set_int: "adds (config_event fd) w (set_int os fd opt v w)"
  by (auto simp: set_int_def intro: adds_sys_void split: option.split)

lemma adds_config [intro]:
  "adds (config_event fd) w (applyCloseOnExecIfConfigured os fd v w)"
  "adds (config_event fd) w (applyTcpNoDelayIfConfigured os fd v w)"
  "adds (config_event fd) w (applyBufSizeIfConfigured os fd i j w)"
  "adds (config_event fd) w (applyLingerIfConfigured os fd i w)"
  "adds (config_event fd) w (applyReuseAddrIfConfigured os fd v w)"
  "adds (config_event fd) w (applyReusePortIfConfigured os fd v w)"
  "adds (config_event fd) w (applyIpv6OnlyIfConfigured os fd v w)"
proof -
  show "adds (config_event fd) w (applyCloseOnExecIfConfigured os fd v w)"
    by (auto simp: applyCloseOnExecIfConfigured_def Let_def adds_def dest!: log_sys
        split: option.split prod.split)
  show "adds (config_event fd) w (applyBufSizeIfConfigured os fd i j w)"
    unfolding applyBufSizeIfConfigured_def by (blast intro: adds_trans adds_set_int)
qed (auto simp: applyTcpNoDelayIfConfigured_def applyLingerIfConfigured_def
    applyReuseAddrIfConfigured_def applyReusePortIfConfigured_def applyIpv6OnlyIfConfigured_def
    intro: adds_sys_void split: option.split)

lemma adds_keepalive [intro]:
  "adds (config_event fd) w (applyKeepAliveIfConfigured os fd b i j k w)"
proof -
  let ?k = "\<lambda>x. sys_void os (SysSetOpt fd SO_KEEPALIVE x) w"
  have 1: "adds (config_event fd) w (?k x)" for x by (rule adds_sys_void) simp
  have "adds (config_event fd) w
    (set_int os fd TCP_KEEPCNT k (set_int os fd TCP_KEEPINTVL j (set_int os fd TCP_KEEPIDLE i (?k x))))" for x
    by (intro adds_trans [OF adds_trans [OF adds_trans [OF 1 adds_set_int] adds_set_int] adds_set_int])
  with 1 show ?thesis
    by (simp add: applyKeepAliveIfConfigured_def Let_def split: option.split)
qed

lemma adds_nonblocking:
  "setNonBlocking os fd w = (ok, e, w') \<Longrightarrow> adds (config_event fd) w w'"
  by (auto simp: setNonBlocking_def Let_def adds_def dest!: log_sys split: prod.splits if_splits)

lemma adds_fill:
  assumes "bestEffortFillEndpoints os fd s w = (s', w')"
  shows "adds (config_event fd) w w'" "sfd s' = sfd s" "skind s' = skind s"
proof -
  obtain s1 w1 where 1: "(if peer s = None then
          let (a, w) = sys os (SysPeername fd) w in
          (if ret a = 0 then s\<lparr>peer := fromSockaddr (out_addr a) (out_len a)\<rparr> else s, w)
        else (s, w)) = (s1, w1)" by (rule prod.exhaust)
  then have a: "adds (config_event fd) w w1 \<and> sfd s1 = sfd s \<and> skind s1 = skind s"
    by (auto simp: Let_def intro: adds_sys split: prod.splits if_splits)
  from assms have "(if local s1 = None then
          let (a, w) = sys os (SysSockname fd) w1 in
          (if ret a = 0 then s1\<lparr>local := fromSockaddr (out_addr a) (out_len a)\<rparr> else s1, w)
        else (s1, w1)) = (s', w')"
    unfolding bestEffortFillEndpoints_def 1 by (simp add: Let_def)
  then have "adds (config_event fd) w1 w' \<and> sfd s' = sfd s1 \<and> skind s' = skind s1"
    by (auto simp: Let_def intro: adds_sys split: prod.splits if_splits)
  with a show "adds (config_event fd) w w'" "sfd s' = sfd s" "skind s' = skind s"
    by (auto intro: adds_trans)
qed

end
