(* ===== verification/Tcp_Connection.thy ===== *)
theory Tcp_Connection
  imports Tcp_Socket "HOL-Library.Monad_Syntax"
begin

text \<open>
  The connection watchers of \<^verbatim>\<open>platform/linux/network/watcher/tcp_connection_watcher.cc\<close>. The file
  has the same class twice, for epoll and for poll; the two differ in the event masks only, which
  are a parameter here.

  Callbacks are user code and may call the watcher again (\<open>close()\<close> or \<open>trySend()\<close> from
  \<open>on_recv\<close>, say): the user is a function from the log so far and the callback to the calls it
  makes. The calls nest, so the operations take a bound on the number of nested calls and loop
  rounds; \<open>None\<close> means that the bound was too small. Destroying the watcher from inside one of its
  own callbacks is not modelled.
\<close>

section \<open>Constants\<close>

definition EINTR :: int where "EINTR = 4"
definition EIO :: int where "EIO = 5"
definition EBADF :: int where "EBADF = 9"
definition EAGAIN :: int where "EAGAIN = 11"
definition EWOULDBLOCK :: int where "EWOULDBLOCK = 11"

definition EV_IN :: u32 where "EV_IN = 0x001"
definition EV_OUT :: u32 where "EV_OUT = 0x004"
definition EV_ERR :: u32 where "EV_ERR = 0x008"
definition EV_HUP :: u32 where "EV_HUP = 0x010"
definition EV_RDHUP :: u32 where "EV_RDHUP = 0x2000"

text \<open>The masks by which the epoll and the poll class differ.\<close>

record flavour =
  f_kind :: TcpStreamKind
  f_hup :: u32
  f_base :: u32

definition epoll_flavour :: flavour where
  "epoll_flavour =
    \<lparr>f_kind = LinuxEpoll, f_hup = EV_HUP OR EV_RDHUP,
     f_base = EV_IN OR EV_ERR OR EV_HUP OR EV_RDHUP\<rparr>"

definition poll_flavour :: flavour where
  "poll_flavour =
    \<lparr>f_kind = LinuxPoll, f_hup = EV_HUP, f_base = EV_IN OR EV_ERR OR EV_HUP\<rparr>"

section \<open>State\<close>

text \<open>
  The four flags say which callbacks are callable; \<open>src_fd\<close> is the descriptor the event source was
  built with and \<open>source\<close> whether the pointer to it is set.
\<close>

record 'k conn =
  opts :: TcpConnectionOption
  cfd :: int
  has_recv :: bool
  has_close :: bool
  has_error :: bool
  has_send_ready :: bool
  attached :: bool
  peer_closed :: bool
  want_send_ready :: bool
  closed :: bool
  armed_events :: u32
  in_buf_size :: nat
  source :: bool
  src_fd :: int
  net :: "'k net"

type_synonym user = "event list \<Rightarrow> callback \<Rightarrow> act list"

definition conn_note :: "event \<Rightarrow> 'k conn \<Rightarrow> 'k conn" where
  "conn_note e st = st\<lparr>net := emit e (net st)\<rparr>"

definition conn_sys :: "'k os \<Rightarrow> syscall \<Rightarrow> 'k conn \<Rightarrow> answer \<times> 'k conn" where
  "conn_sys os c st = (let (a, w) = sys os c (net st) in (a, st\<lparr>net := w\<rparr>))"

section \<open>Operations that do not run callbacks\<close>

definition consumeLinuxStream :: "TcpStream \<Rightarrow> tcp_error + int" where
  "consumeLinuxStream s =
    (if skind s = LinuxEpoll \<or> skind s = LinuxPoll then Inr (fst (releaseFd s))
     else Inl StreamMismatch)"

definition new_conn ::
    "'k os \<Rightarrow> flavour \<Rightarrow> TcpConnectionOption \<Rightarrow> int \<Rightarrow> bool \<Rightarrow> bool \<Rightarrow> bool \<Rightarrow> bool \<Rightarrow> 'k net \<Rightarrow> 'k conn" where
  "new_conn os fl o' fd r c e s w =
    (let w = applyTcpNoDelayIfConfigured os fd (tcp_no_delay o') w;
         w = applyKeepAliveIfConfigured os fd (keep_alive o') (keep_alive_idle_sec o')
               (keep_alive_interval_sec o') (keep_alive_count o') w;
         w = applyBufSizeIfConfigured os fd (recv_buf_bytes o') (send_buf_bytes o') w;
         w = applyLingerIfConfigured os fd (linger_sec o') w
     in
     \<lparr>opts = o', cfd = fd, has_recv = r, has_close = c, has_error = e, has_send_ready = s,
      attached = False, peer_closed = False, want_send_ready = False, closed = False,
      armed_events = f_base fl, in_buf_size = 64 * 1024, source = True, src_fd = fd, net = w\<rparr>)"

definition start :: "'k conn \<Rightarrow> 'k conn" where
  "start st =
    (if attached st then st else (conn_note (Attach (src_fd st)) st)\<lparr>attached := True\<rparr>)"

definition stop :: "'k conn \<Rightarrow> 'k conn" where
  "stop st =
    (if \<not> attached st then st else (conn_note (Detach (src_fd st)) st)\<lparr>attached := False\<rparr>)"

definition shutdownWrite :: "'k os \<Rightarrow> 'k conn \<Rightarrow> 'k conn" where
  "shutdownWrite os st =
    (if cfd st < 0 then st else snd (conn_sys os (SysShutdown (cfd st)) st))"

definition conn_closeFd :: "'k os \<Rightarrow> 'k conn \<Rightarrow> 'k conn" where
  "conn_closeFd os st = (let (fd, w) = closeFd os (cfd st) (net st) in st\<lparr>cfd := fd, net := w\<rparr>)"

definition set_armed :: "u32 \<Rightarrow> 'k conn \<Rightarrow> 'k conn" where
  "set_armed want st =
    (if want = armed_events st then st
     else conn_note (SetEvents (src_fd st) want) (st\<lparr>armed_events := want\<rparr>))"

definition armWritable :: "flavour \<Rightarrow> 'k conn \<Rightarrow> 'k conn" where
  "armWritable fl st =
    (if \<not> source st then st else set_armed (armed_events st OR EV_OUT OR f_base fl) st)"

definition disarmWritable :: "flavour \<Rightarrow> 'k conn \<Rightarrow> 'k conn" where
  "disarmWritable fl st =
    (if \<not> source st then st else set_armed ((armed_events st AND NOT EV_OUT) OR f_base fl) st)"

definition destroy_conn :: "'k os \<Rightarrow> 'k conn \<Rightarrow> 'k conn" where
  "destroy_conn os st = conn_closeFd os ((stop st)\<lparr>source := False\<rparr>)"

section \<open>Operations that run callbacks\<close>

text \<open>
  The operations take \<open>run\<close>, which executes one callback; \<open>callback\<close> below closes the circle: the
  user code of a callback makes its calls with the callbacks of one nesting level less.
\<close>

type_synonym 'k runner = "callback \<Rightarrow> 'k conn \<Rightarrow> 'k conn option"

definition closeNow :: "'k os \<Rightarrow> 'k runner \<Rightarrow> 'k conn \<Rightarrow> 'k conn option" where
  "closeNow os run st =
    (if closed st then Some st
     else
       let st = conn_closeFd os (stop (st\<lparr>closed := True\<rparr>)) in
       if has_close st then run OnClose st else Some st)"

fun send_loop :: "'k os \<Rightarrow> flavour \<Rightarrow> 'k runner \<Rightarrow> nat \<Rightarrow> u8 list \<Rightarrow> nat \<Rightarrow> nat \<Rightarrow> 'k conn \<Rightarrow>
    (TrySendResult \<times> 'k conn) option" where
  "send_loop os fl run 0 d limit tot st = None"
| "send_loop os fl run (Suc n) d limit tot st =
    (if tot < limit then
       let (a, st) = conn_sys os (SysSend (cfd st) (take (limit - tot) (drop tot d))) st in
       if ret a > 0 then send_loop os fl run n d limit (tot + nat (ret a)) st
       else if ret a < 0 \<and> eno a = EINTR then send_loop os fl run n d limit tot st
       else if ret a < 0 \<and> (eno a = EAGAIN \<or> eno a = EWOULDBLOCK) then
         Some (\<lparr>sent = tot, would_block = True, send_err = 0\<rparr>,
               armWritable fl (st\<lparr>want_send_ready := True\<rparr>))
       else
         let e = (if ret a < 0 then eno a else EIO) in
         do {
           st \<leftarrow> (if has_error st then run (OnError e) st else Some st);
           st \<leftarrow> closeNow os run st;
           Some (\<lparr>sent = tot, would_block = False, send_err = e\<rparr>, st)
         }
     else Some (\<lparr>sent = tot, would_block = False, send_err = 0\<rparr>, st))"

definition trySend :: "'k os \<Rightarrow> flavour \<Rightarrow> 'k runner \<Rightarrow> nat \<Rightarrow> u8 list \<Rightarrow> 'k conn \<Rightarrow>
    (TrySendResult \<times> 'k conn) option" where
  "trySend os fl run n d st =
    (if cfd st < 0 then Some (\<lparr>sent = 0, would_block = False, send_err = EBADF\<rparr>, st)
     else if d = [] then Some (\<lparr>sent = 0, would_block = False, send_err = 0\<rparr>, st)
     else send_loop os fl run n d (min (max_write_bytes_per_tick (opts st)) (length d)) 0 st)"

fun do_act :: "'k os \<Rightarrow> flavour \<Rightarrow> 'k runner \<Rightarrow> nat \<Rightarrow> act \<Rightarrow> 'k conn \<Rightarrow> 'k conn option" where
  "do_act os fl run n UClose st = closeNow os run st"
| "do_act os fl run n (UTrySend d) st = map_option snd (trySend os fl run n d st)"
| "do_act os fl run n UShutdown st = Some (shutdownWrite os st)"
| "do_act os fl run n UStop st = Some (stop st)"
| "do_act os fl run n UStart st = Some (start st)"

fun do_acts :: "'k os \<Rightarrow> flavour \<Rightarrow> 'k runner \<Rightarrow> nat \<Rightarrow> act list \<Rightarrow> 'k conn \<Rightarrow> 'k conn option" where
  "do_acts os fl run n [] st = Some st"
| "do_acts os fl run n (a # as) st = do { st \<leftarrow> do_act os fl run n a st; do_acts os fl run n as st }"

fun callback :: "'k os \<Rightarrow> user \<Rightarrow> flavour \<Rightarrow> nat \<Rightarrow> 'k runner" where
  "callback os user fl 0 cb st = None"
| "callback os user fl (Suc n) cb st =
    do_acts os fl (callback os user fl n) n (user (log (net st)) cb) (conn_note (Cb cb) st)"

fun handleRead_loop :: "'k os \<Rightarrow> 'k runner \<Rightarrow> nat \<Rightarrow> nat \<Rightarrow> 'k conn \<Rightarrow> 'k conn option" where
  "handleRead_loop os run 0 remaining st = None"
| "handleRead_loop os run (Suc n) remaining st =
    (if remaining > 0 then
       let (a, st) = conn_sys os (SysRecv (cfd st) (min remaining (in_buf_size st))) st in
       if ret a > 0 then
         do {
           st \<leftarrow> (if has_recv st then run (OnRecv (out_bytes a)) st else Some st);
           handleRead_loop os run n (remaining - nat (ret a)) st
         }
       else if ret a = 0 then Some (st\<lparr>peer_closed := True\<rparr>)
       else if eno a = EINTR then handleRead_loop os run n remaining st
       else if eno a = EAGAIN \<or> eno a = EWOULDBLOCK then Some st
       else
         do {
           st \<leftarrow> (if has_error st then run (OnError (eno a)) st else Some st);
           closeNow os run st
         }
     else Some st)"

definition handleRead :: "'k os \<Rightarrow> 'k runner \<Rightarrow> nat \<Rightarrow> 'k conn \<Rightarrow> 'k conn option" where
  "handleRead os run n st = handleRead_loop os run n (max_read_bytes_per_tick (opts st)) st"

definition ready_error :: "'k os \<Rightarrow> 'k runner \<Rightarrow> 'k conn \<Rightarrow> 'k conn option" where
  "ready_error os run st =
    (let (a, st) = conn_sys os (SysGetError (cfd st)) st;
         err = (if ret a \<noteq> 0 then eno a else out_int a)
     in
     do {
       st \<leftarrow> (if has_error st then run (OnError (if err \<noteq> 0 then err else EIO)) st else Some st);
       closeNow os run st
     })"

definition ready_write :: "flavour \<Rightarrow> 'k runner \<Rightarrow> 'k conn \<Rightarrow> 'k conn option" where
  "ready_write fl run st =
    (let st = disarmWritable fl (st\<lparr>want_send_ready := False\<rparr>) in
     if has_send_ready st then run OnSendReady st else Some st)"

definition onReady :: "'k os \<Rightarrow> flavour \<Rightarrow> 'k runner \<Rightarrow> nat \<Rightarrow> u32 \<Rightarrow> 'k conn \<Rightarrow> 'k conn option" where
  "onReady os fl run n events st =
    (if cfd st < 0 then Some st
     else if events AND EV_ERR \<noteq> 0 then ready_error os run st
     else
       let st = (if events AND f_hup fl \<noteq> 0 then st\<lparr>peer_closed := True\<rparr> else st) in
       do {
         st \<leftarrow> (if events AND EV_IN \<noteq> 0 \<or> peer_closed st then handleRead os run n st else Some st);
         if peer_closed st then closeNow os run st
         else if events AND EV_OUT \<noteq> 0 \<and> want_send_ready st then ready_write fl run st
         else Some st
       })"

section \<open>Runs\<close>

text \<open>The calls from outside: the event core reports readiness, the owner calls the interface.\<close>

datatype conn_op = Start | Stop | Ready u32 | TrySend "u8 list" | Shutdown | CloseConn

fun conn_step :: "'k os \<Rightarrow> user \<Rightarrow> flavour \<Rightarrow> nat \<Rightarrow> conn_op \<Rightarrow> 'k conn \<Rightarrow> 'k conn option" where
  "conn_step os user fl n Start st = Some (start st)"
| "conn_step os user fl n Stop st = Some (stop st)"
| "conn_step os user fl n (Ready ev) st = onReady os fl (callback os user fl n) n ev st"
| "conn_step os user fl n (TrySend d) st =
    map_option snd (trySend os fl (callback os user fl n) n d st)"
| "conn_step os user fl n Shutdown st = Some (shutdownWrite os st)"
| "conn_step os user fl n CloseConn st = closeNow os (callback os user fl n) st"

fun conn_run :: "'k os \<Rightarrow> user \<Rightarrow> flavour \<Rightarrow> nat \<Rightarrow> conn_op list \<Rightarrow> 'k conn \<Rightarrow> 'k conn option" where
  "conn_run os user fl n [] st = Some st"
| "conn_run os user fl n (p # ps) st =
    do { st \<leftarrow> conn_step os user fl n p st; conn_run os user fl n ps st }"

text \<open>
  The two factories take the descriptor out of the stream; a stream of another platform makes
  them throw. The classes they instantiate are the operations above with their masks.
\<close>

definition createEpollTcpConnectionWatcher ::
    "'k os \<Rightarrow> TcpConnectionOption \<Rightarrow> TcpStream \<Rightarrow> bool \<Rightarrow> bool \<Rightarrow> bool \<Rightarrow> bool \<Rightarrow> 'k net \<Rightarrow>
      tcp_error + 'k conn" where
  "createEpollTcpConnectionWatcher os o' s r c e sr w =
    (case consumeLinuxStream s of
       Inl err \<Rightarrow> Inl err
     | Inr fd \<Rightarrow> Inr (new_conn os epoll_flavour o' fd r c e sr w))"

definition createPollTcpConnectionWatcher ::
    "'k os \<Rightarrow> TcpConnectionOption \<Rightarrow> TcpStream \<Rightarrow> bool \<Rightarrow> bool \<Rightarrow> bool \<Rightarrow> bool \<Rightarrow> 'k net \<Rightarrow>
      tcp_error + 'k conn" where
  "createPollTcpConnectionWatcher os o' s r c e sr w =
    (case consumeLinuxStream s of
       Inl err \<Rightarrow> Inl err
     | Inr fd \<Rightarrow> Inr (new_conn os poll_flavour o' fd r c e sr w))"

definition poll_trySend :: "'k os \<Rightarrow> 'k runner \<Rightarrow> nat \<Rightarrow> u8 list \<Rightarrow> 'k conn \<Rightarrow> (TrySendResult \<times> 'k conn) option" where
  "poll_trySend os = trySend os poll_flavour"

definition poll_armWritable :: "'k conn \<Rightarrow> 'k conn" where
  "poll_armWritable = armWritable poll_flavour"

definition poll_disarmWritable :: "'k conn \<Rightarrow> 'k conn" where
  "poll_disarmWritable = disarmWritable poll_flavour"

definition poll_onReady :: "'k os \<Rightarrow> 'k runner \<Rightarrow> nat \<Rightarrow> u32 \<Rightarrow> 'k conn \<Rightarrow> 'k conn option" where
  "poll_onReady os = onReady os poll_flavour"

definition poll_conn_step :: "'k os \<Rightarrow> user \<Rightarrow> nat \<Rightarrow> conn_op \<Rightarrow> 'k conn \<Rightarrow> 'k conn option" where
  "poll_conn_step os user = conn_step os user poll_flavour"

section \<open>The ways a handler can go\<close>

lemma onReadyE:
  assumes "onReady os fl run n ev st = Some st'"
  obtains (gone) "cfd st < 0" "st' = st"
  | (failed) "cfd st \<ge> 0" "ready_error os run st = Some st'"
  | (io) s1 s2 where "s1 = (if ev AND f_hup fl \<noteq> 0 then st\<lparr>peer_closed := True\<rparr> else st)"
      "s2 = s1 \<or> handleRead os run n s1 = Some s2"
      "st' = s2 \<or> closeNow os run s2 = Some st' \<or> ready_write fl run s2 = Some st'"
proof (cases "cfd st < 0 \<or> ev AND EV_ERR \<noteq> 0")
  case True
  with assms gone failed show ?thesis by (auto simp: onReady_def split: if_splits)
next
  case False
  define s1 where "s1 = (if ev AND f_hup fl \<noteq> 0 then st\<lparr>peer_closed := True\<rparr> else st)"
  have "onReady os fl run n ev st =
    do {
      st \<leftarrow> (if ev AND EV_IN \<noteq> 0 \<or> peer_closed s1 then handleRead os run n s1 else Some s1);
      if peer_closed st then closeNow os run st
      else if ev AND EV_OUT \<noteq> 0 \<and> want_send_ready st then ready_write fl run st
      else Some st
    }"
    using False unfolding onReady_def Let_def s1_def by simp
  from trans [OF sym [OF this] assms] obtain s2 where
    2: "(if ev AND EV_IN \<noteq> 0 \<or> peer_closed s1 then handleRead os run n s1 else Some s1) = Some s2"
    and 3: "(if peer_closed s2 then closeNow os run s2
      else if ev AND EV_OUT \<noteq> 0 \<and> want_send_ready s2 then ready_write fl run s2
      else Some s2) = Some st'"
    unfolding bind_eq_Some_conv by blast
  from 2 have "s2 = s1 \<or> handleRead os run n s1 = Some s2"
    by (cases "ev AND EV_IN \<noteq> 0 \<or> peer_closed s1")
      (simp_all only: if_True if_False option.inject simp_thms)
  moreover from 3 have "st' = s2 \<or> closeNow os run s2 = Some st' \<or> ready_write fl run s2 = Some st'"
    by (cases "peer_closed s2"; cases "ev AND EV_OUT \<noteq> 0 \<and> want_send_ready s2")
      (simp_all only: if_True if_False option.inject simp_thms)
  ultimately show ?thesis using io s1_def by blast
qed

section \<open>Invariants of the watcher\<close>

text \<open>
  What every primitive step keeps, every operation keeps, however the callbacks nest. \<open>Pre\<close> is
  what holds when \<open>closeNow\<close> has closed the descriptor and is about to report it.
\<close>

locale conn_keeps =
  fixes os :: "'k os" and fl :: flavour and I Pre :: "'k conn \<Rightarrow> bool" and ok :: "callback \<Rightarrow> bool"
  assumes ok_error: "ok (OnError e)"
    and start: "I st \<Longrightarrow> I (start st)"
    and stop: "I st \<Longrightarrow> I (stop st)"
    and shutdown: "I st \<Longrightarrow> I (shutdownWrite os st)"
    and arm: "I st \<Longrightarrow> I (armWritable fl (st\<lparr>want_send_ready := True\<rparr>))"
    and send: "I st \<Longrightarrow> conn_sys os (SysSend (cfd st) d) st = (a, st') \<Longrightarrow> I st'"
    and note_cb: "I st \<Longrightarrow> ok c \<Longrightarrow> c \<noteq> OnClose \<Longrightarrow> I (conn_note (Cb c) st)"
    and note_close: "Pre st \<Longrightarrow> has_close st \<Longrightarrow> I (conn_note (Cb OnClose) st)"
    and closing: "I st \<Longrightarrow> \<not> closed st \<Longrightarrow> Pre (conn_closeFd os (stop (st\<lparr>closed := True\<rparr>)))"
    and pre: "Pre st \<Longrightarrow> \<not> has_close st \<Longrightarrow> I st"
begin

definition runner_ok :: "'k runner \<Rightarrow> bool" where
  "runner_ok run \<longleftrightarrow>
    (\<forall>c st st'. run c st = Some st' \<longrightarrow> 
      (if c = OnClose then Pre st \<and> has_close st else ok c \<and> I st) \<longrightarrow> I st')"

lemma runner_okD:
  "runner_ok run \<Longrightarrow> run c st = Some st' \<Longrightarrow> ok c \<Longrightarrow> c \<noteq> OnClose \<Longrightarrow> I st \<Longrightarrow> I st'"
  "runner_ok run \<Longrightarrow> run OnClose st = Some st' \<Longrightarrow> Pre st \<Longrightarrow> has_close st \<Longrightarrow> I st'"
  by (auto simp: runner_ok_def)

lemma optional_keeps:
  assumes "runner_ok run" "I st" "ok c" "c \<noteq> OnClose" "(if b then run c st else Some st) = Some st'"
  shows "I st'"
  using assms by (cases b) (auto dest: runner_okD)

lemma closeNow_keeps:
  assumes "runner_ok run" "I st" "closeNow os run st = Some st'"
  shows "I st'"
  using assms closing [OF assms(2)] pre runner_okD(2)
  by (auto simp: closeNow_def Let_def split: if_splits)

lemma send_loop_keeps:
  "runner_ok run \<Longrightarrow> I st \<Longrightarrow> send_loop os fl run n d l k st = Some (r, st') \<Longrightarrow> I st'"
proof (induction n arbitrary: k st)
  case (Suc n)
  show ?case
  proof (cases "k < l")
    case False
    with Suc.prems show ?thesis by simp
  next
    case True
    obtain a s1 where c: "conn_sys os (SysSend (cfd st) (take (l - k) (drop k d))) st = (a, s1)"
      by fastforce
    with Suc.prems have i: "I s1" using send by blast
    let ?fin = "\<lambda>e. do { st \<leftarrow> (if has_error s1 then run (OnError e) s1 else Some s1);
      st \<leftarrow> closeNow os run st;
      Some (\<lparr>sent = k, would_block = False, send_err = e\<rparr>, st) }"
    have "I st'" if "?fin e = Some (r, st')" for e
      using that optional_keeps [OF Suc.prems(1) i ok_error, of e] closeNow_keeps [OF Suc.prems(1)]
      by (auto simp: bind_eq_Some_conv)
    then show ?thesis
      using Suc.prems(3) Suc.IH [OF Suc.prems(1) i] arm [OF i] True
      by (auto simp: c Let_def split: if_splits)
  qed
qed simp

lemma trySend_keeps:
  assumes "runner_ok run" "I st" "trySend os fl run n d st = Some (r, st')"
  shows "I st'"
  using assms send_loop_keeps by (auto simp: trySend_def split: if_splits)

lemma do_act_keeps:
  assumes "runner_ok run" "I st" "do_act os fl run n a st = Some st'"
  shows "I st'"
proof (cases a)
  case UClose
  with assms show ?thesis using closeNow_keeps by simp
next
  case (UTrySend d)
  with assms show ?thesis using trySend_keeps by fastforce
qed (use assms(2,3) shutdown [OF assms(2)] start [OF assms(2)] stop [OF assms(2)] in simp_all)

lemma do_acts_keeps:
  "runner_ok run \<Longrightarrow> I st \<Longrightarrow> do_acts os fl run n as st = Some st' \<Longrightarrow> I st'"
  by (induction as arbitrary: st) (auto simp: bind_eq_Some_conv dest: do_act_keeps)

lemma callback_keeps: "runner_ok (callback os user fl n)"
proof (induction n)
  case 0
  then show ?case by (simp add: runner_ok_def)
next
  case (Suc n)
  note acts = do_acts_keeps [OF Suc.IH]
  show ?case
    unfolding runner_ok_def
  proof (intro allI impI)
    fix c st st'
    assume r: "callback os user fl (Suc n) c st = Some st'"
      and i: "if c = OnClose then Pre st \<and> has_close st else ok c \<and> I st"
    from i have "I (conn_note (Cb c) st)" by (cases "c = OnClose") (auto intro: note_cb note_close)
    with r acts show "I st'" by simp
  qed
qed

end

text \<open>The same for the handlers the event core calls.\<close>

locale conn_handler_keeps = conn_keeps +
  assumes ok_handlers: "ok (OnRecv d)" "ok OnSendReady"
    and recv: "I st \<Longrightarrow> conn_sys os (SysRecv (cfd st) k) st = (a, st') \<Longrightarrow> I st'"
    and so_error: "I st \<Longrightarrow> conn_sys os (SysGetError (cfd st)) st = (a, st') \<Longrightarrow> I st'"
    and hup: "I st \<Longrightarrow> I (st\<lparr>peer_closed := True\<rparr>)"
    and disarm: "I st \<Longrightarrow> I (disarmWritable fl (st\<lparr>want_send_ready := False\<rparr>))"
begin

lemma handleRead_loop_keeps:
  "runner_ok run \<Longrightarrow> I st \<Longrightarrow> handleRead_loop os run n k st = Some st' \<Longrightarrow> I st'"
proof (induction n arbitrary: k st)
  case (Suc n)
  show ?case
  proof (cases "k > 0")
    case False
    with Suc.prems show ?thesis by simp
  next
    case True
    obtain a s1 where c: "conn_sys os (SysRecv (cfd st) (min k (in_buf_size st))) st = (a, s1)"
      by fastforce
    with Suc.prems have i: "I s1" using recv by blast
    have e: "I s2" if "(if has_error s1 then run (OnError x) s1 else Some s1) = Some s2" for x s2
      using optional_keeps [OF Suc.prems(1) i ok_error _ that] by simp
    have l: "handleRead_loop os run (Suc n) k st =
      (if ret a > 0 then
         do { st \<leftarrow> (if has_recv s1 then run (OnRecv (out_bytes a)) s1 else Some s1);
              handleRead_loop os run n (k - nat (ret a)) st }
       else if ret a = 0 then Some (s1\<lparr>peer_closed := True\<rparr>)
       else if eno a = EINTR then handleRead_loop os run n k s1
       else if eno a = EAGAIN \<or> eno a = EWOULDBLOCK then Some s1
       else do { st \<leftarrow> (if has_error s1 then run (OnError (eno a)) s1 else Some s1);
                 closeNow os run st })"
      using True by (simp add: c)
    consider "ret a > 0" | "ret a = 0" | "ret a < 0" "eno a = EINTR"
      | "ret a < 0" "eno a \<noteq> EINTR" "eno a = EAGAIN \<or> eno a = EWOULDBLOCK"
      | "ret a < 0" "eno a \<noteq> EINTR" "\<not> (eno a = EAGAIN \<or> eno a = EWOULDBLOCK)"
      by linarith
    then show ?thesis
    proof cases
      case 1
      then obtain s2
        where 2: "(if has_recv s1 then run (OnRecv (out_bytes a)) s1 else Some s1) = Some s2"
          and 3: "handleRead_loop os run n (k - nat (ret a)) s2 = Some st'"
        using Suc.prems(3) [unfolded l] by (simp only: if_True bind_eq_Some_conv) blast
      have "I s2" using optional_keeps [OF Suc.prems(1) i ok_handlers(1) _ 2] by simp
      then show ?thesis using Suc.IH [OF Suc.prems(1)] 3 by blast
    next
      case 2
      with Suc.prems(3) l hup [OF i] show ?thesis by simp
    next
      case 3
      with Suc.prems(3) l Suc.IH [OF Suc.prems(1) i] show ?thesis by simp
    next
      case 4
      with Suc.prems(3) l i show ?thesis by simp
    next
      case 5
      then have "do { st \<leftarrow> (if has_error s1 then run (OnError (eno a)) s1 else Some s1);
          closeNow os run st } = Some st'"
        using Suc.prems(3) [unfolded l] by simp
      then obtain s2
        where 2: "(if has_error s1 then run (OnError (eno a)) s1 else Some s1) = Some s2"
          and 3: "closeNow os run s2 = Some st'"
        unfolding bind_eq_Some_conv by blast
      show ?thesis using closeNow_keeps [OF Suc.prems(1) e [OF 2] 3] .
    qed
  qed
qed simp

lemma ready_error_keeps:
  assumes "runner_ok run" "I st" "ready_error os run st = Some st'"
  shows "I st'"
proof -
  obtain a s1 where c: "conn_sys os (SysGetError (cfd st)) st = (a, s1)" by fastforce
  with assms have "I s1" using so_error by blast
  moreover from assms(3) obtain x s2 where 2: "(if has_error s1 then run (OnError x) s1 else Some s1) = Some s2"
    and 3: "closeNow os run s2 = Some st'"
    unfolding ready_error_def c Let_def prod.case bind_eq_Some_conv by blast
  ultimately have "I s2" using optional_keeps [OF assms(1) _ ok_error _ 2] by simp
  then show ?thesis using closeNow_keeps [OF assms(1) _ 3] by blast
qed

lemma ready_write_keeps:
  assumes "runner_ok run" "I st" "ready_write fl run st = Some st'"
  shows "I st'"
  using assms optional_keeps [OF assms(1) disarm [OF assms(2)] ok_handlers(2)]
  by (auto simp: ready_write_def Let_def)

lemma onReady_keeps:
  assumes "runner_ok run" "I st" "onReady os fl run n ev st = Some st'"
  shows "I st'"
  using assms(3)
proof (cases rule: onReadyE)
  case (io s1 s2)
  have "I s1" unfolding io(1) using assms(2) hup by simp
  then have "I s2" using io(2) handleRead_loop_keeps [OF assms(1)] by (auto simp: handleRead_def)
  then show ?thesis
    using io(3) closeNow_keeps [OF assms(1)] ready_write_keeps [OF assms(1)] by blast
qed (use assms ready_error_keeps in blast)+

lemma conn_step_keeps: "I st \<Longrightarrow> conn_step os user fl n p st = Some st' \<Longrightarrow> I st'"
proof (cases p)
  case (Ready ev)
  moreover assume "I st" "conn_step os user fl n p st = Some st'"
  ultimately show ?thesis using onReady_keeps [OF callback_keeps] by simp
next
  case (TrySend d)
  moreover assume "I st" "conn_step os user fl n p st = Some st'"
  ultimately show ?thesis using trySend_keeps [OF callback_keeps] by fastforce
next
  case CloseConn
  moreover assume "I st" "conn_step os user fl n p st = Some st'"
  ultimately show ?thesis using closeNow_keeps [OF callback_keeps] by simp
qed (use start [of st] stop [of st] shutdown [of st] in auto)

lemma conn_run_keeps: "I st \<Longrightarrow> conn_run os user fl n ps st = Some st' \<Longrightarrow> I st'"
  by (induction ps arbitrary: st) (auto simp: bind_eq_Some_conv dest: conn_step_keeps)

end

section \<open>The descriptor and the callbacks over a whole life\<close>

fun call_fd :: "syscall \<Rightarrow> int option" where
  "call_fd (SysSocket _ _) = None"
| "call_fd (SysGetFl f) = Some f"
| "call_fd (SysSetFl f _) = Some f"
| "call_fd (SysGetFd f) = Some f"
| "call_fd (SysSetFd f _) = Some f"
| "call_fd (SysSetOpt f _ _) = Some f"
| "call_fd (SysLinger f _ _) = Some f"
| "call_fd (SysGetError f) = Some f"
| "call_fd (SysBind f _) = Some f"
| "call_fd (SysListen f _) = Some f"
| "call_fd (SysConnect f _) = Some f"
| "call_fd (SysAccept f _) = Some f"
| "call_fd (SysPeername f) = Some f"
| "call_fd (SysSockname f) = Some f"
| "call_fd (SysRecv f _) = Some f"
| "call_fd (SysSend f _) = Some f"
| "call_fd (SysShutdown f) = Some f"
| "call_fd (SysClose f) = Some f"

text \<open>
  \<open>life F True es\<close> follows an open descriptor \<open>F\<close> through a log. It is \<open>None\<close> when \<open>F\<close> is used after
  it was closed or a call names a descriptor other than \<open>F\<close> and \<open>-1\<close>; otherwise it says whether \<open>F\<close>
  is still open at the end.
\<close>

fun life1 :: "int \<Rightarrow> bool \<Rightarrow> event \<Rightarrow> bool option" where
  "life1 F op (Sys (SysClose f) a) = (if op \<and> f = F then Some False else None)"
| "life1 F op (Sys c a) =
    (if call_fd c = Some F \<and> op \<or> call_fd c = Some (-1) then Some op else None)"
| "life1 F op _ = Some op"

fun life :: "int \<Rightarrow> bool \<Rightarrow> event list \<Rightarrow> bool option" where
  "life F op [] = Some op"
| "life F op (e # es) = do { op \<leftarrow> life1 F op e; life F op es }"

lemma life_append: "life F op (xs @ ys) = do { op \<leftarrow> life F op xs; life F op ys }"
  by (induction xs arbitrary: op) (auto split: bind_split)

lemma life1_sys:
  "(\<And>f. c \<noteq> SysClose f) \<Longrightarrow> life1 F op (Sys c a) =
    (if call_fd c = Some F \<and> op \<or> call_fd c = Some (-1) then Some op else None)"
  by (cases c) simp_all

definition closes :: "event list \<Rightarrow> nat" where
  "closes es = length (filter (\<lambda>e. e = Cb OnClose) es)"

definition life_inv :: "int \<Rightarrow> 'k conn \<Rightarrow> bool" where
  "life_inv F st \<longleftrightarrow>
    F \<ge> 0 \<and> cfd st = (if closed st then -1 else F) \<and>
    life F True (log (net st)) = Some (\<not> closed st) \<and>
    closes (log (net st)) = (if closed st \<and> has_close st then 1 else 0)"

definition life_pre :: "int \<Rightarrow> 'k conn \<Rightarrow> bool" where
  "life_pre F st \<longleftrightarrow>
    F \<ge> 0 \<and> cfd st = -1 \<and> closed st \<and> life F True (log (net st)) = Some False \<and>
    closes (log (net st)) = 0"

lemma net_conn_note [simp]: "net (conn_note e st) = emit e (net st)"
  by (simp add: conn_note_def)

lemma conn_note_fields [simp]:
  "cfd (conn_note e st) = cfd st" "closed (conn_note e st) = closed st"
  "has_close (conn_note e st) = has_close st"
  by (simp_all add: conn_note_def)

lemma life_inv_note:
  assumes "life_inv F st" "\<And>op. life1 F op e = Some op" "e \<noteq> Cb OnClose"
  shows "life_inv F (conn_note e st)"
  using assms by (simp add: life_inv_def life_append closes_def)

lemma life_inv_sys:
  assumes "life_inv F st" "conn_sys os c st = (a, st')" "call_fd c = Some (cfd st)"
    "\<And>f. c \<noteq> SysClose f"
  shows "life_inv F st'"
proof -
  from assms(2) obtain w where w: "sys os c (net st) = (a, w)" "st' = st\<lparr>net := w\<rparr>"
    by (auto simp: conn_sys_def split: prod.splits)
  have "life1 F (\<not> closed st) (Sys c a) = Some (\<not> closed st)"
    using assms(1,3) life1_sys [OF assms(4)] by (simp add: life_inv_def)
  with w assms(1) log_sys [OF w(1)] show ?thesis
    by (simp add: life_inv_def life_append closes_def)
qed

lemma life_inv_fields:
  "life_inv F (st\<lparr>want_send_ready := b\<rparr>) = life_inv F st"
  "life_inv F (st\<lparr>peer_closed := b\<rparr>) = life_inv F st"
  "life_inv F (st\<lparr>attached := b\<rparr>) = life_inv F st"
  "life_inv F (st\<lparr>armed_events := u\<rparr>) = life_inv F st"
  "life_inv F (st\<lparr>source := b\<rparr>) = life_inv F st"
  by (simp_all add: life_inv_def)

lemma life_inv_steps:
  assumes "life_inv F st"
  shows "life_inv F (start st)" "life_inv F (stop st)" "life_inv F (shutdownWrite os st)"
    "life_inv F (set_armed u st)" "life_inv F (armWritable fl st)" "life_inv F (disarmWritable fl st)"
proof -
  show a: "life_inv F (set_armed u st)" for u
    using life_inv_note [of F "st\<lparr>armed_events := u\<rparr>"] assms
    by (simp add: set_armed_def life_inv_fields)
  show "life_inv F (shutdownWrite os st)"
    using life_inv_sys [OF assms, of os "SysShutdown (cfd st)"] assms
    by (cases "conn_sys os (SysShutdown (cfd st)) st") (simp add: shutdownWrite_def)
  show "life_inv F (start st)" "life_inv F (stop st)"
    using life_inv_note [OF assms] assms by (simp_all add: start_def stop_def life_inv_fields)
  show "life_inv F (armWritable fl st)" "life_inv F (disarmWritable fl st)"
    using a assms by (simp_all add: armWritable_def disarmWritable_def)
qed

lemma stop_fields [simp]:
  "cfd (stop st) = cfd st" "closed (stop st) = closed st"
  by (simp_all add: stop_def)

lemma life_pre_closing:
  assumes "life_inv F st" "\<not> closed st"
  shows "life_pre F (conn_closeFd os (stop (st\<lparr>closed := True\<rparr>)))"
proof -
  let ?s = "stop (st\<lparr>closed := True\<rparr>)"
  have n: "net ?s = net (stop st)" "cfd ?s = cfd st" by (simp_all add: stop_def)
  from life_inv_steps(2) [OF assms(1)] assms
  have "life F True (log (net ?s)) = Some True" "cfd ?s = F" "F \<ge> 0" "closes (log (net ?s)) = 0"
    unfolding n by (simp_all add: life_inv_def)
  then show ?thesis
    by (simp add: life_pre_def conn_closeFd_def closeFd_def life_append closes_def)
qed

interpretation conn_life: conn_handler_keeps os fl "life_inv F" "life_pre F" "\<lambda>_. True"
  for os :: "'k os" and fl and F
proof unfold_locales
  fix st :: "'k conn" and d a st' c k
  show "life_pre F st \<Longrightarrow> \<not> has_close st \<Longrightarrow> life_inv F st"
    by (simp add: life_pre_def life_inv_def)
  show "life_pre F st \<Longrightarrow> has_close st \<Longrightarrow> life_inv F (conn_note (Cb OnClose) st)"
    by (simp add: life_pre_def life_inv_def life_append closes_def)
  show "life_inv F st \<Longrightarrow> c \<noteq> OnClose \<Longrightarrow> life_inv F (conn_note (Cb c) st)"
    by (rule life_inv_note) simp_all
qed (auto simp: life_inv_fields intro: life_inv_steps life_inv_sys life_pre_closing)

lemma life_config:
  "list_all (config_event F) es \<Longrightarrow> life F True es = Some True \<and> closes es = 0"
proof (induction es)
  case (Cons e es)
  then obtain c a where e: "e = Sys c a" "config_call F c" by (cases e) auto
  then have "life1 F True e = Some True" by (cases c) auto
  with Cons e show ?case by (auto simp: closes_def)
qed (simp add: closes_def)

lemma new_conn_log:
  "adds (config_event fd) w (net (new_conn os fl o' fd r c e s w))"
  unfolding new_conn_def Let_def conn.simps
  by (rule adds_trans [OF adds_trans [OF adds_trans [OF adds_config(2) adds_keepalive]
        adds_config(3)] adds_config(4)])

lemma life_new_conn:
  assumes "F \<ge> 0" "log w = []"
  shows "life_inv F (new_conn os fl o' F r c e s w)"
proof -
  from new_conn_log [of F w os fl o' r c e s] assms(2)
  have "list_all (config_event F) (log (net (new_conn os fl o' F r c e s w)))"
    by (auto simp: adds_def)
  from life_config [OF this] assms(1) show ?thesis
    by (simp add: life_inv_def) (simp add: new_conn_def Let_def)
qed


section \<open>Sending\<close>

text \<open>The bytes the kernel accepted and the bytes it delivered, in the order of the log.\<close>

fun accepted :: "event list \<Rightarrow> u8 list" where
  "accepted [] = []"
| "accepted (Sys (SysSend f d) a # es) = take (nat (ret a)) d @ accepted es"
| "accepted (e # es) = accepted es"

fun received :: "event list \<Rightarrow> u8 list" where
  "received [] = []"
| "received (Sys (SysRecv f k) a # es) = (if ret a > 0 then out_bytes a else []) @ received es"
| "received (e # es) = received es"

fun delivered :: "event list \<Rightarrow> u8 list" where
  "delivered [] = []"
| "delivered (Cb (OnRecv d) # es) = d @ delivered es"
| "delivered (e # es) = delivered es"

text \<open>
  What \<^verbatim>\<open>send(2)\<close> and \<^verbatim>\<open>recv(2)\<close> document: no more bytes are accepted or delivered than asked for,
  and a negative result comes with an error number.
\<close>

definition counts_ok :: "'k os \<Rightarrow> bool" where
  "counts_ok os \<longleftrightarrow>
    (\<forall>k f d. let a = fst (os k (SysSend f d)) in ret a \<le> int (length d) \<and> (ret a < 0 \<longrightarrow> eno a \<noteq> 0)) \<and>
    (\<forall>k f n. let a = fst (os k (SysRecv f n)) in
      ret a \<le> int n \<and> (ret a > 0 \<longrightarrow> length (out_bytes a) = nat (ret a)))"

lemma accepted_append [simp]: "accepted (xs @ ys) = accepted xs @ accepted ys"
  by (induction xs rule: accepted.induct) auto

lemma received_append [simp]: "received (xs @ ys) = received xs @ received ys"
  by (induction xs rule: received.induct) auto

lemma delivered_append [simp]: "delivered (xs @ ys) = delivered xs @ delivered ys"
  by (induction xs rule: delivered.induct) auto

lemma conn_sysD:
  assumes "conn_sys os c st = (a, st')"
  shows "log (net st') = log (net st) @ [Sys c a]" "a = fst (os (kern (net st)) c)"
  using assms by (auto simp: conn_sys_def sys_def split: prod.splits)

lemma conn_sys_fields:
  assumes "conn_sys os c st = (a, st')"
  shows "source st' = source st" "opts st' = opts st" "has_recv st' = has_recv st"
    "has_error st' = has_error st" "cfd st' = cfd st" "closed st' = closed st"
    "has_close st' = has_close st" "in_buf_size st' = in_buf_size st"
  using assms by (auto simp: conn_sys_def split: prod.splits)

lemma take_drop_continue:
  assumes "n \<le> l - k" "k + n \<le> m"
  shows "take n (take (l - k) (drop k d)) @ take (m - (k + n)) (drop (k + n) d) = take (m - k) (drop k d)"
proof -
  have "take (m - k) (drop k d) = take (n + (m - (k + n))) (drop k d)" using assms(2) by simp
  also have "\<dots> = take n (drop k d) @ take (m - (k + n)) (drop n (drop k d))" by (rule take_add)
  finally show ?thesis using assms(1) by (simp add: min_absorb1 add.commute)
qed

lemma counts_send:
  assumes "counts_ok os" "conn_sys os (SysSend f d) st = (a, st')"
  shows "ret a \<le> int (length d)" "ret a < 0 \<Longrightarrow> eno a \<noteq> 0"
  using assms(1) conn_sysD(2) [OF assms(2)] unfolding counts_ok_def Let_def by auto

lemma counts_recv:
  assumes "counts_ok os" "conn_sys os (SysRecv f n) st = (a, st')"
  shows "ret a \<le> int n" "ret a > 0 \<Longrightarrow> length (out_bytes a) = nat (ret a)"
  using assms(1) conn_sysD(2) [OF assms(2)] unfolding counts_ok_def Let_def by auto

lemma set_armed_effect:
  "accepted (log (net (set_armed u st))) = accepted (log (net st))"
  "armed_events (set_armed u st) = u"
  "want_send_ready (set_armed u st) = want_send_ready st"
  by (simp_all add: set_armed_def) (simp_all add: conn_note_def)

lemma armWritable_effect:
  assumes "source st"
  shows "accepted (log (net (armWritable fl st))) = accepted (log (net st))"
    "armed_events (armWritable fl st) AND EV_OUT = EV_OUT"
    "want_send_ready (armWritable fl st) = want_send_ready st"
  using assms
  by (simp_all add: armWritable_def set_armed_effect bit_eq_iff bit_simps) auto

text \<open>A run of the loop that ends without an error has called nobody.\<close>

lemma send_loop_effect:
  assumes "counts_ok os" "source st" "k \<le> l" "l \<le> length d"
    and "send_loop os fl run n d l k st = Some (r, st')" "send_err r = 0"
  shows "k \<le> sent r \<and> sent r \<le> l \<and> (\<not> would_block r \<longrightarrow> sent r = l) \<and>
    (would_block r \<longrightarrow> want_send_ready st' \<and> armed_events st' AND EV_OUT = EV_OUT) \<and>
    accepted (log (net st')) = accepted (log (net st)) @ take (sent r - k) (drop k d)"
  using assms(2-6)
proof (induction n arbitrary: k st)
  case (Suc n)
  show ?case
  proof (cases "k < l")
    case False
    with Suc.prems show ?thesis by auto
  next
    case True
    let ?d = "take (l - k) (drop k d)"
    obtain a s1 where c: "conn_sys os (SysSend (cfd st) ?d) st = (a, s1)" by fastforce
    note lg = conn_sysD(1) [OF c] and cnt = counts_send [OF assms(1) c]
    have src: "source s1" using conn_sys_fields(1) [OF c] Suc.prems(1) by simp
    have len: "length ?d = l - k" using Suc.prems(3) by simp
    consider "ret a > 0" | "ret a < 0" "eno a = EINTR"
      | "ret a < 0" "eno a \<noteq> EINTR" "eno a = EAGAIN \<or> eno a = EWOULDBLOCK"
      | "ret a = 0 \<or> ret a < 0 \<and> eno a \<noteq> EINTR \<and> \<not> (eno a = EAGAIN \<or> eno a = EWOULDBLOCK)"
      by linarith
    then show ?thesis
    proof cases
      case 1
      define m where "m = nat (ret a)"
      have m: "m \<le> l - k" "k + m \<le> l" using cnt(1) len True 1 by (auto simp: m_def)
      have "send_loop os fl run n d l (k + m) s1 = Some (r, st')"
        using Suc.prems(4) True 1 by (simp add: c m_def)
      from Suc.IH [OF src m(2) Suc.prems(3) this Suc.prems(5)]
      show ?thesis using take_drop_continue [OF m(1), of "sent r" d] lg by (simp add: m_def)
    next
      case 2
      then have "send_loop os fl run n d l k s1 = Some (r, st')"
        using Suc.prems(4) True by (simp add: c)
      from Suc.IH [OF src Suc.prems(2,3) this Suc.prems(5)] show ?thesis using lg 2 by simp
    next
      case 3
      then have "r = \<lparr>sent = k, would_block = True, send_err = 0\<rparr>"
        "st' = armWritable fl (s1\<lparr>want_send_ready := True\<rparr>)"
        using Suc.prems(4) True by (simp_all add: c)
      then show ?thesis using armWritable_effect [of "s1\<lparr>want_send_ready := True\<rparr>" fl] src lg 3 True by simp
    next
      case 4
      define e where "e = (if ret a < 0 then eno a else EIO)"
      have "e \<noteq> 0" using cnt(2) by (simp add: e_def EIO_def)
      moreover have "do { st \<leftarrow> (if has_error s1 then run (OnError e) s1 else Some s1);
          st \<leftarrow> closeNow os run st;
          Some (\<lparr>sent = k, would_block = False, send_err = e\<rparr>, st) } = Some (r, st')"
        using Suc.prems(4) True 4 by (auto simp: c e_def Let_def)
      then have "send_err r = e" by (auto simp: bind_eq_Some_conv)
      ultimately show ?thesis using Suc.prems(5) by simp
    qed
  qed
qed simp

text \<open>
  C19. What \<open>trySend\<close> reports is what was sent: when it reports no error, the kernel has accepted
  exactly the first \<open>n\<close> bytes of the data, in order and once, \<open>n\<close> respects the limit per call, all
  of the permitted bytes were accepted unless it reports \<open>would_block\<close>, and in that case the
  watcher waits for writability and will report it.
\<close>

theorem trySend_sends_prefix:
  assumes "counts_ok os" "source st" "cfd st \<ge> 0"
    and "trySend os fl run n d st = Some (r, st')" "send_err r = 0"
  shows "accepted (log (net st')) = accepted (log (net st)) @ take (sent r) d \<and>
    sent r \<le> min (max_write_bytes_per_tick (opts st)) (length d) \<and>
    (\<not> would_block r \<longrightarrow> sent r = min (max_write_bytes_per_tick (opts st)) (length d)) \<and>
    (would_block r \<longrightarrow> want_send_ready st' \<and> armed_events st' AND EV_OUT = EV_OUT)"
proof (cases "d = []")
  case True
  with assms show ?thesis by (auto simp: trySend_def)
next
  case False
  with assms(3,4) have
    "send_loop os fl run n d (min (max_write_bytes_per_tick (opts st)) (length d)) 0 st = Some (r, st')"
    by (simp add: trySend_def)
  from send_loop_effect [OF assms(1,2) _ _ this assms(5)] show ?thesis by simp
qed

end
