(* ===== verification/Tcp_Connection_Io.thy ===== *)
theory Tcp_Connection_Io
  imports Tcp_Connection
begin

text \<open>
  Reading on a connection: what one readiness report makes the watcher receive and deliver, that
  the handler ends, and concrete runs of the watcher.
\<close>

section \<open>Calls made by callbacks do not read\<close>

fun quiet :: "event \<Rightarrow> bool" where
  "quiet (Sys (SysRecv _ _) _) = False"
| "quiet (Cb (OnRecv _)) = False"
| "quiet _ = True"

definition same_setup :: "'k conn \<Rightarrow> 'k conn \<Rightarrow> bool" where
  "same_setup s t \<longleftrightarrow>
    opts t = opts s \<and> has_recv t = has_recv s \<and> in_buf_size t = in_buf_size s"

definition quiet_inv :: "'k conn \<Rightarrow> 'k conn \<Rightarrow> bool" where
  "quiet_inv s t \<longleftrightarrow> adds quiet (net s) (net t) \<and> same_setup s t"

definition not_recv :: "callback \<Rightarrow> bool" where
  "not_recv c = (case c of OnRecv _ \<Rightarrow> False | _ \<Rightarrow> True)"

lemma quiet_effect: "list_all quiet es \<Longrightarrow> received es = [] \<and> delivered es = []"
proof (induction es)
  case (Cons e es)
  then have q: "quiet e" and r: "received es = []" "delivered es = []" by simp_all
  from q have "received (e # es) = received es" by (cases e rule: quiet.cases) simp_all
  moreover from q have "delivered (e # es) = delivered es" by (cases e rule: quiet.cases) simp_all
  ultimately show ?case using r by simp
qed simp

lemma quiet_refl [simp]: "quiet_inv s s"
  by (simp add: quiet_inv_def same_setup_def)

lemma quiet_trans: "quiet_inv s t \<Longrightarrow> quiet_inv t u \<Longrightarrow> quiet_inv s u"
  by (auto simp: quiet_inv_def same_setup_def intro: adds_trans)

lemma quiet_note: "quiet e \<Longrightarrow> quiet_inv s (conn_note e s)"
  by (simp add: quiet_inv_def same_setup_def adds_emit) (simp add: conn_note_def)

lemma quiet_sys:
  assumes "conn_sys os c s = (a, t)" "quiet (Sys c a)"
  shows "quiet_inv s t"
  using conn_sysD(1) [OF assms(1)] conn_sys_fields [OF assms(1)] assms(2)
  by (simp add: quiet_inv_def same_setup_def adds_def)

lemma quiet_fields:
  "quiet_inv s (t\<lparr>want_send_ready := b\<rparr>) = quiet_inv s t"
  "quiet_inv s (t\<lparr>peer_closed := b\<rparr>) = quiet_inv s t"
  "quiet_inv s (t\<lparr>attached := b\<rparr>) = quiet_inv s t"
  "quiet_inv s (t\<lparr>closed := b\<rparr>) = quiet_inv s t"
  "quiet_inv s (t\<lparr>armed_events := u\<rparr>) = quiet_inv s t"
  "quiet_inv s (t\<lparr>cfd := f\<rparr>) = quiet_inv s t"
  by (simp_all add: quiet_inv_def same_setup_def)

lemma quiet_set_armed: "quiet_inv s (set_armed u s)"
  using quiet_note [of "SetEvents (src_fd s) u" "s\<lparr>armed_events := u\<rparr>"]
  by (simp add: set_armed_def quiet_inv_def same_setup_def)

lemma quiet_steps:
  assumes "quiet_inv r s"
  shows "quiet_inv r (start s)" "quiet_inv r (stop s)" "quiet_inv r (shutdownWrite os s)"
    "quiet_inv r (armWritable fl s)" "quiet_inv r (disarmWritable fl s)"
    "quiet_inv r (conn_closeFd os s)"
proof -
  have "quiet_inv s (shutdownWrite os s)"
    using quiet_sys [of os "SysShutdown (cfd s)" s]
    by (cases "conn_sys os (SysShutdown (cfd s)) s") (simp add: shutdownWrite_def)
  moreover have "quiet_inv s (conn_closeFd os s)"
    by (simp add: conn_closeFd_def closeFd_def quiet_inv_def same_setup_def adds_sys_void)
  moreover have "quiet_inv s (start s)" "quiet_inv s (stop s)"
    using quiet_note [of "Attach (src_fd s)" s] quiet_note [of "Detach (src_fd s)" s]
    by (simp_all add: start_def stop_def quiet_fields)
  moreover have "quiet_inv s (armWritable fl s)" "quiet_inv s (disarmWritable fl s)"
    by (simp_all add: armWritable_def disarmWritable_def quiet_set_armed)
  ultimately show "quiet_inv r (start s)" "quiet_inv r (stop s)" "quiet_inv r (shutdownWrite os s)"
    "quiet_inv r (armWritable fl s)" "quiet_inv r (disarmWritable fl s)"
    "quiet_inv r (conn_closeFd os s)"
    using assms quiet_trans by blast+
qed

interpretation conn_quiet: conn_keeps os fl "quiet_inv r" "quiet_inv r" not_recv
  for os :: "'k os" and fl r
proof unfold_locales
  fix s t :: "'k conn" and d a c
  show "quiet_inv r s \<Longrightarrow> quiet_inv r (conn_note (Cb OnClose) s)"
    using quiet_trans quiet_note [of "Cb OnClose" s] by force
  show "quiet_inv r s \<Longrightarrow> not_recv c \<Longrightarrow> c \<noteq> OnClose \<Longrightarrow> quiet_inv r (conn_note (Cb c) s)"
    using quiet_trans quiet_note [of "Cb c" s] by (cases c) (force simp: not_recv_def)+
  show "quiet_inv r s \<Longrightarrow> conn_sys os (SysSend (cfd s) d) s = (a, t) \<Longrightarrow> quiet_inv r t"
    using quiet_trans quiet_sys [of os "SysSend (cfd s) d" s a t] by force
qed (auto simp: not_recv_def intro!: quiet_steps, auto simp: quiet_fields)

lemma callback_recv:
  assumes "callback os user fl n (OnRecv d) s = Some t"
  shows "quiet_inv (conn_note (Cb (OnRecv d)) s) t"
proof (cases n)
  case (Suc m)
  with assms show ?thesis
    using conn_quiet.do_acts_keeps [OF conn_quiet.callback_keeps quiet_refl] by simp
qed (use assms in simp)

lemma callback_quiet:
  assumes "(if b then callback os user fl n c s else Some s) = Some t" "not_recv c" "c \<noteq> OnClose"
  shows "quiet_inv s t"
  using conn_quiet.optional_keeps [OF conn_quiet.callback_keeps quiet_refl assms(2,3,1)] .

lemma closeNow_quiet:
  "closeNow os (callback os user fl n) s = Some t \<Longrightarrow> quiet_inv s t"
  using conn_quiet.closeNow_keeps [OF conn_quiet.callback_keeps quiet_refl] .

lemma quiet_log:
  assumes "quiet_inv s t"
  shows "\<exists>es. log (net t) = log (net s) @ es \<and> received es = [] \<and> delivered es = []"
  using assms quiet_effect unfolding quiet_inv_def adds_def by blast

section \<open>One readiness report\<close>

text \<open>\<open>reads k s t\<close>: from \<open>s\<close> to \<open>t\<close> at most \<open>k\<close> bytes were received and all of them delivered.\<close>

definition reads :: "nat \<Rightarrow> 'k conn \<Rightarrow> 'k conn \<Rightarrow> bool" where
  "reads k s t \<longleftrightarrow> same_setup s t \<and>
    (\<exists>es. log (net t) = log (net s) @ es \<and> length (received es) \<le> k \<and>
      (has_recv s \<longrightarrow> delivered es = received es))"

lemma quiet_reads: "quiet_inv s t \<Longrightarrow> reads k s t"
  using quiet_log by (fastforce simp: reads_def quiet_inv_def)

lemma reads_trans:
  assumes "reads j s t" "reads k t u" "j + k \<le> l"
  shows "reads l s u"
proof -
  from assms(1,2) obtain xs ys where "log (net t) = log (net s) @ xs" "length (received xs) \<le> j"
    "has_recv s \<longrightarrow> delivered xs = received xs" "log (net u) = log (net t) @ ys"
    "length (received ys) \<le> k" "has_recv t \<longrightarrow> delivered ys = received ys"
    "same_setup s t" "same_setup t u"
    unfolding reads_def by blast
  moreover from this assms(3) have "length (received (xs @ ys)) \<le> l" by simp
  ultimately show ?thesis
    unfolding reads_def by (intro conjI exI [of _ "xs @ ys"]) (auto simp: same_setup_def)
qed

lemma reads_quiet: "reads k s t \<Longrightarrow> quiet_inv t u \<Longrightarrow> reads k s u"
  using reads_trans [of k s t 0 u k] quiet_reads [of t u 0] by simp

lemma reads_fields: "reads k s (t\<lparr>peer_closed := b\<rparr>) = reads k s t"
  "reads k (s\<lparr>peer_closed := b\<rparr>) t = reads k s t"
  by (simp_all add: reads_def same_setup_def)

lemma recv_chunk:
  assumes "counts_ok os" "conn_sys os (SysRecv (cfd s) m) s = (a, s1)" "ret a > 0"
    and "(if has_recv s1 then callback os user fl n (OnRecv (out_bytes a)) s1 else Some s1) = Some t"
  shows "reads (nat (ret a)) s t \<and> nat (ret a) \<le> m"
proof -
  note lg = conn_sysD(1) [OF assms(2)] and f = conn_sys_fields [OF assms(2)]
    and cnt = counts_recv [OF assms(1,2)]
  have "reads (nat (ret a)) s t"
  proof (cases "has_recv s1")
    case False
    with assms(4) have "t = s1" by simp
    with lg f cnt assms(3) False show ?thesis by (simp add: reads_def same_setup_def)
  next
    case True
    let ?s2 = "conn_note (Cb (OnRecv (out_bytes a))) s1"
    have "quiet_inv ?s2 t" using assms(4) True callback_recv by auto
    moreover have "reads (nat (ret a)) s ?s2"
      using lg f cnt assms(3) by (simp add: reads_def same_setup_def) (simp add: conn_note_def)
    ultimately show ?thesis by (rule reads_quiet [rotated])
  qed
  with cnt(1) show ?thesis by simp
qed

lemma recv_failed_quiet:
  assumes "conn_sys os (SysRecv (cfd s) m) s = (a, s1)" "ret a \<le> 0"
  shows "reads k s s1"
  using conn_sysD(1) [OF assms(1)] conn_sys_fields [OF assms(1)] assms(2)
  by (simp add: reads_def same_setup_def)

lemma handleRead_loop_reads:
  assumes "counts_ok os" "handleRead_loop os (callback os user fl m) n k s = Some t"
  shows "reads k s t"
  using assms(2)
proof (induction n arbitrary: k s)
  case (Suc n)
  show ?case
  proof (cases "k > 0")
    case False
    with Suc.prems show ?thesis by (auto intro: quiet_reads)
  next
    case True
    let ?run = "callback os user fl m"
    obtain a s1 where c: "conn_sys os (SysRecv (cfd s) (min k (in_buf_size s))) s = (a, s1)"
      by fastforce
    consider "ret a > 0" | "ret a = 0" | "ret a < 0" "eno a = EINTR"
      | "ret a < 0" "eno a \<noteq> EINTR" "eno a = EAGAIN \<or> eno a = EWOULDBLOCK"
      | "ret a < 0" "eno a \<noteq> EINTR" "\<not> (eno a = EAGAIN \<or> eno a = EWOULDBLOCK)"
      by linarith
    then show ?thesis
    proof cases
      case 1
      then have "do { st \<leftarrow> (if has_recv s1 then ?run (OnRecv (out_bytes a)) s1 else Some s1);
          handleRead_loop os ?run n (k - nat (ret a)) st } = Some t"
        using Suc.prems True by (simp add: c)
      then obtain s2
        where 2: "(if has_recv s1 then ?run (OnRecv (out_bytes a)) s1 else Some s1) = Some s2"
          and 3: "handleRead_loop os ?run n (k - nat (ret a)) s2 = Some t"
        unfolding bind_eq_Some_conv by blast
      show ?thesis
        using recv_chunk [OF assms(1) c 1 2] Suc.IH [OF 3] reads_trans by fastforce
    next
      case 2
      with Suc.prems True recv_failed_quiet [OF c] show ?thesis by (auto simp: c reads_fields)
    next
      case 3
      with Suc.prems True have "handleRead_loop os ?run n k s1 = Some t" by (simp add: c)
      from reads_trans [OF recv_failed_quiet [OF c, of 0] Suc.IH [OF this]] 3 show ?thesis by simp
    next
      case 4
      with Suc.prems True recv_failed_quiet [OF c] show ?thesis by (auto simp: c)
    next
      case 5
      then have "do { st \<leftarrow> (if has_error s1 then ?run (OnError (eno a)) s1 else Some s1);
          closeNow os ?run st } = Some t"
        using Suc.prems True by (simp add: c)
      then obtain s2
        where 2: "(if has_error s1 then ?run (OnError (eno a)) s1 else Some s1) = Some s2"
          and 3: "closeNow os ?run s2 = Some t"
        unfolding bind_eq_Some_conv by blast
      have "quiet_inv s1 s2" using callback_quiet [OF 2] by (simp add: not_recv_def)
      with closeNow_quiet [OF 3] recv_failed_quiet [OF c] 5(1) show ?thesis
        by (meson less_imp_le reads_quiet)
    qed
  qed
qed simp

lemma ready_error_quiet:
  assumes "ready_error os (callback os user fl m) s = Some t"
  shows "quiet_inv s t"
proof -
  let ?run = "callback os user fl m"
  obtain a s1 where c: "conn_sys os (SysGetError (cfd s)) s = (a, s1)" by fastforce
  from assms obtain x s2 where 2: "(if has_error s1 then ?run (OnError x) s1 else Some s1) = Some s2"
    and 3: "closeNow os ?run s2 = Some t"
    unfolding ready_error_def c Let_def prod.case bind_eq_Some_conv by blast
  have "quiet_inv s s1" using quiet_sys [OF c] by simp
  moreover have "quiet_inv s1 s2" using callback_quiet [OF 2] by (simp add: not_recv_def)
  ultimately show ?thesis using closeNow_quiet [OF 3] quiet_trans by blast
qed

lemma ready_write_quiet:
  assumes "ready_write fl (callback os user fl m) s = Some t"
  shows "quiet_inv s t"
proof -
  let ?s1 = "disarmWritable fl (s\<lparr>want_send_ready := False\<rparr>)"
  have "quiet_inv (s\<lparr>want_send_ready := False\<rparr>) ?s1" by (rule quiet_steps(5)) simp
  then have "quiet_inv s ?s1" by (simp add: quiet_inv_def same_setup_def)
  moreover have "quiet_inv ?s1 t"
    using assms callback_quiet [of _ os user fl m OnSendReady ?s1 t]
    unfolding ready_write_def Let_def by (simp add: not_recv_def)
  ultimately show ?thesis using quiet_trans by blast
qed

text \<open>
  C18. One readiness report reads a bounded amount and loses nothing: whatever the callbacks do, the
  watcher receives at most \<open>max_read_bytes_per_tick\<close> bytes, and the chunks given to \<open>on_recv\<close> are,
  put together, exactly the received bytes in their order.
\<close>

theorem conn_reads_in_order:
  assumes "counts_ok os" "onReady os fl (callback os user fl m) n ev s = Some t"
  shows "\<exists>es. log (net t) = log (net s) @ es \<and>
    length (received es) \<le> max_read_bytes_per_tick (opts s) \<and>
    (has_recv s \<longrightarrow> delivered es = received es)"
proof -
  let ?k = "max_read_bytes_per_tick (opts s)"
  from assms(2) have "reads ?k s t"
  proof (cases rule: onReadyE)
    case (io s1 s2)
    have "s1 = s \<or> s1 = s\<lparr>peer_closed := True\<rparr>" and o: "opts s1 = opts s"
      unfolding io(1) by auto
    moreover have "s2 = s1 \<or> reads ?k s1 s2"
      using io(2) handleRead_loop_reads [OF assms(1)] o by (auto simp: handleRead_def)
    ultimately have "reads ?k s s2"
      using quiet_reads [OF quiet_refl, of ?k] reads_fields by metis
    then show ?thesis
      using io(3) closeNow_quiet ready_write_quiet reads_quiet by blast
  qed (auto intro: quiet_reads ready_error_quiet)
  then show ?thesis by (auto simp: reads_def)
qed

section \<open>The handler ends\<close>

definition no_trySend :: "act list \<Rightarrow> bool" where
  "no_trySend as = list_all (\<lambda>a. case a of UTrySend _ \<Rightarrow> False | _ \<Rightarrow> True) as"

text \<open>User code whose callbacks never call \<open>trySend\<close>.\<close>

definition calm :: "user \<Rightarrow> bool" where
  "calm user \<longleftrightarrow> (\<forall>l c. no_trySend (user l c))"

lemma closed_steps: "closed (start s) = closed s" "closed (stop s) = closed s"
  "closed (shutdownWrite os s) = closed s"
  by (simp_all add: start_def stop_def shutdownWrite_def conn_sys_def split: prod.split)

lemma do_acts_closed_ends:
  "closed s \<Longrightarrow> no_trySend as \<Longrightarrow> \<exists>t. do_acts os fl run n as s = Some t"
proof (induction as arbitrary: s)
  case (Cons a as)
  have "\<exists>u. do_act os fl run n a s = Some u \<and> closed u"
    using Cons.prems by (cases a) (auto simp: closed_steps closeNow_def no_trySend_def)
  then obtain u where u: "do_act os fl run n a s = Some u" "closed u" by blast
  have "no_trySend as" using Cons.prems(2) by (simp add: no_trySend_def)
  from Cons.IH [OF u(2) this] u(1) show ?case by simp
qed simp

lemma closeNow_ends:
  assumes "calm user"
  shows "\<exists>t. closeNow os (callback os user fl (Suc m)) s = Some t"
proof -
  have "\<exists>t. callback os user fl (Suc m) OnClose u = Some t" if "closed u" for u
    using do_acts_closed_ends [of "conn_note (Cb OnClose) u" "user (log (net u)) OnClose"] assms that
    by (simp add: calm_def)
  then show ?thesis
    by (simp add: closeNow_def Let_def conn_closeFd_def split: prod.split)
qed

lemma do_acts_ends:
  assumes "calm user" "no_trySend as"
  shows "\<exists>t. do_acts os fl (callback os user fl (Suc m)) n as s = Some t"
  using assms(2)
proof (induction as arbitrary: s)
  case (Cons a as)
  have "\<exists>u. do_act os fl (callback os user fl (Suc m)) n a s = Some u"
    using Cons.prems closeNow_ends [OF assms(1), where s = s] by (cases a) (auto simp: no_trySend_def)
  then obtain u where u: "do_act os fl (callback os user fl (Suc m)) n a s = Some u" by blast
  have "no_trySend as" using Cons.prems by (simp add: no_trySend_def)
  from Cons.IH [OF this] u show ?case by (simp del: callback.simps)
qed simp

lemma callback_ends:
  assumes "calm user"
  shows "\<exists>t. (if b then callback os user fl (Suc (Suc m)) c s else Some s) = Some t"
  using do_acts_ends [OF assms, of "user (log (net s)) c" os fl m "Suc m" "conn_note (Cb c) s"] assms
  by (simp add: calm_def)

text \<open>A kernel that does not interrupt \<^verbatim>\<open>recv(2)\<close> with a signal.\<close>

definition no_EINTR :: "'k os \<Rightarrow> bool" where
  "no_EINTR os \<longleftrightarrow> (\<forall>k f n. let a = fst (os k (SysRecv f n)) in ret a < 0 \<longrightarrow> eno a \<noteq> EINTR)"

lemma handleRead_loop_ends:
  assumes "calm user" "no_EINTR os"
  shows "k < n \<Longrightarrow> \<exists>t. handleRead_loop os (callback os user fl (Suc (Suc m))) n k s = Some t"
proof (induction n arbitrary: k s)
  case (Suc n)
  let ?run = "callback os user fl (Suc (Suc m))"
  show ?case
  proof (cases "k > 0")
    case True
    obtain a s1 where c: "conn_sys os (SysRecv (cfd s) (min k (in_buf_size s))) s = (a, s1)"
      by fastforce
    have i: "ret a < 0 \<Longrightarrow> eno a \<noteq> EINTR"
      using assms(2) conn_sysD(2) [OF c] unfolding no_EINTR_def Let_def by auto
    obtain s2 where r: "(if has_recv s1 then ?run (OnRecv (out_bytes a)) s1 else Some s1) = Some s2"
      using callback_ends [OF assms(1)] by blast
    obtain s3 where e: "(if has_error s1 then ?run (OnError (eno a)) s1 else Some s1) = Some s3"
      using callback_ends [OF assms(1)] by blast
    obtain s4 where n: "closeNow os ?run s3 = Some s4" using closeNow_ends [OF assms(1)] by blast
    have "ret a > 0 \<Longrightarrow> k - nat (ret a) < n" using Suc.prems True by auto
    from Suc.IH [OF this, of s2] i show ?thesis
      using True unfolding handleRead_loop.simps c Let_def prod.case r e
      by (auto simp: n simp del: callback.simps)
  qed simp
qed simp

text \<open>
  C20. A readiness report is always handled to the end: if the callbacks do not call \<open>trySend\<close> and no
  signal interrupts \<^verbatim>\<open>recv(2)\<close>, the handler returns after at most one round per byte of the read
  limit and two levels of nested callbacks.
\<close>

theorem conn_ready_ends:
  assumes "calm user" "no_EINTR os" "max_read_bytes_per_tick (opts s) < n"
  shows "\<exists>t. onReady os fl (callback os user fl (Suc (Suc m))) n ev s = Some t"
proof -
  let ?run = "callback os user fl (Suc (Suc m))"
  have e: "\<exists>t. ready_error os ?run s = Some t"
  proof -
    obtain a s1 where c: "conn_sys os (SysGetError (cfd s)) s = (a, s1)" by fastforce
    let ?x = "if (if ret a \<noteq> 0 then eno a else out_int a) \<noteq> 0
      then (if ret a \<noteq> 0 then eno a else out_int a) else EIO"
    obtain s2 where 2: "(if has_error s1 then ?run (OnError ?x) s1 else Some s1) = Some s2"
      using callback_ends [OF assms(1)] by blast
    show ?thesis using closeNow_ends [OF assms(1)]
      unfolding ready_error_def c Let_def prod.case 2 by simp
  qed
  have w: "\<exists>t. ready_write fl ?run u = Some t" for u
    unfolding ready_write_def Let_def by (rule callback_ends [OF assms(1)])
  define s1 where "s1 = (if ev AND f_hup fl \<noteq> 0 then s\<lparr>peer_closed := True\<rparr> else s)"
  have "opts s1 = opts s" by (simp add: s1_def)
  then have "\<exists>s2. handleRead os ?run n s1 = Some s2"
    using handleRead_loop_ends [OF assms(1,2,3), of fl m s1] by (simp only: handleRead_def)
  then obtain s2 where h:
    "(if ev AND EV_IN \<noteq> 0 \<or> peer_closed s1 then handleRead os ?run n s1 else Some s1) = Some s2"
    by (cases "ev AND EV_IN \<noteq> 0 \<or> peer_closed s1") (auto simp only: if_True if_False)
  have "\<exists>t. (if peer_closed s2 then closeNow os ?run s2
      else if ev AND EV_OUT \<noteq> 0 \<and> want_send_ready s2 then ready_write fl ?run s2
      else Some s2) = Some t"
    using w closeNow_ends [OF assms(1), of os fl "Suc m" s2] by (simp del: callback.simps)
  with e show ?thesis
    unfolding onReady_def Let_def s1_def [symmetric] h by simp
qed

section \<open>Concrete runs\<close>

text \<open>A kernel that answers from a script and with the last answer when the script is over.\<close>

definition plain_answer :: answer where
  "plain_answer = \<lparr>ret = 0, eno = 0, out_int = 0, out_bytes = [], out_addr = None, out_len = 0\<rparr>"

definition again :: answer where "again = plain_answer\<lparr>ret := -1, eno := EAGAIN\<rparr>"

definition bad_fd :: answer where "bad_fd = plain_answer\<lparr>ret := -1, eno := EBADF\<rparr>"

text \<open>
  A peer that sent three bytes and then nothing: the first \<^verbatim>\<open>recv\<close> on the open descriptor returns
  them, later ones would block; the kernel takes at most two bytes per \<^verbatim>\<open>send\<close>; descriptor \<open>-1\<close> is
  refused.
\<close>

fun echo_os :: "nat os" where
  "echo_os k (SysRecv f n) =
    (if f < 0 then (bad_fd, k)
     else if k = 0 then
       (let b = take n [104, 105, 33] in (plain_answer\<lparr>ret := int (length b), out_bytes := b\<rparr>, 1))
     else (again, k))"
| "echo_os k (SysSend f d) =
    (if f < 0 then (bad_fd, k) else (plain_answer\<lparr>ret := int (min 2 (length d))\<rparr>, k))"
| "echo_os k c = (plain_answer, k)"

lemma echo_os_counts: "counts_ok echo_os"
  unfolding counts_ok_def Let_def
  by (auto simp: bad_fd_def again_def plain_answer_def EBADF_def EAGAIN_def Let_def)

lemma echo_os_no_EINTR: "no_EINTR echo_os"
  unfolding no_EINTR_def Let_def
  by (auto simp: bad_fd_def again_def plain_answer_def EBADF_def EAGAIN_def EINTR_def Let_def)

definition no_net :: "nat net" where "no_net = \<lparr>kern = 0, log = []\<rparr>"

definition small_conn_option :: TcpConnectionOption where
  "small_conn_option = sock_options.extend (default_sock_options\<lparr>tcp_no_delay := Some True\<rparr>)
    (TcpConnectionOption.fields 8 8 None)"

text \<open>A connection as the constructor leaves it, with a buffer of four bytes.\<close>

definition demo_conn :: "nat conn" where
  "demo_conn =
    \<lparr>opts = small_conn_option, cfd = 7, has_recv = True, has_close = True, has_error = True,
     has_send_ready = True, attached = True, peer_closed = False, want_send_ready = False,
     closed = False, armed_events = f_base epoll_flavour, in_buf_size = 4, source = True,
     src_fd = 7, net = no_net\<rparr>"

definition echo_user :: user where
  "echo_user l c = (case c of OnRecv d \<Rightarrow> [UTrySend d] | _ \<Rightarrow> [])"

definition closing_user :: user where
  "closing_user l c = (case c of OnRecv d \<Rightarrow> [UClose] | _ \<Rightarrow> [])"

lemma conn_reads_in_order_witness:
  "\<exists>t es. onReady echo_os epoll_flavour (callback echo_os echo_user epoll_flavour 5) 9 EV_IN demo_conn
      = Some t \<and>
    log (net t) = log (net demo_conn) @ es \<and> length (received es) \<le> 8 \<and>
    delivered es = received es"
proof -
  let ?r = "onReady echo_os epoll_flavour (callback echo_os echo_user epoll_flavour 5) 9 EV_IN demo_conn"
  have "\<not> Option.is_none ?r" by code_simp
  then have s: "?r = Some (the ?r)" by (rule some_the)
  have "has_recv demo_conn" "max_read_bytes_per_tick (opts demo_conn) = 8" by code_simp+
  with conn_reads_in_order [OF echo_os_counts s] s show ?thesis by auto
qed

lemma conn_ready_ends_witness:
  "\<exists>t. onReady echo_os epoll_flavour (callback echo_os closing_user epoll_flavour 2) 9 EV_IN demo_conn
    = Some t"
proof -
  have "calm closing_user"
    by (simp add: calm_def closing_user_def no_trySend_def split: callback.split)
  moreover have "max_read_bytes_per_tick (opts demo_conn) < 9" by code_simp
  ultimately show ?thesis
    using conn_ready_ends [OF _ echo_os_no_EINTR, of closing_user demo_conn 9 epoll_flavour 0 EV_IN]
    by (simp add: numeral_2_eq_2)
qed

lemma trySend_sends_prefix_witness:
  "\<exists>r t. trySend echo_os epoll_flavour (callback echo_os echo_user epoll_flavour 5) 9 [1, 2, 3] demo_conn
      = Some (r, t) \<and> send_err r = 0 \<and> sent r = 3 \<and> accepted (log (net t)) = [1, 2, 3]"
proof -
  let ?x = "trySend echo_os epoll_flavour (callback echo_os echo_user epoll_flavour 5) 9 [1, 2, 3] demo_conn"
  have "\<not> Option.is_none ?x" by code_simp
  then have s: "?x = Some (the ?x)" by (rule some_the)
  obtain r t where rt: "the ?x = (r, t)" by fastforce
  have "send_err (fst (the ?x)) = 0" "\<not> would_block (fst (the ?x))"
    "min (max_write_bytes_per_tick (opts demo_conn)) 3 = 3"
    "accepted (log (net demo_conn)) = []" "source demo_conn" "cfd demo_conn \<ge> 0"
    by code_simp+
  with trySend_sends_prefix [OF echo_os_counts, of demo_conn epoll_flavour
      "callback echo_os echo_user epoll_flavour 5" 9 "[1, 2, 3]" r t] s rt
  show ?thesis by auto
qed


text \<open>
  An \<open>on_recv\<close> callback that closes the connection, as an owner may, makes the watcher read on:
  the loop calls \<^verbatim>\<open>recv\<close> on descriptor \<open>-1\<close>, and the user is told an error after the connection
  was reported as closed.
\<close>

lemma conn_error_after_close:
  "map_option (\<lambda>t. filter (\<lambda>e. case e of Cb _ \<Rightarrow> True | Sys (SysRecv f _) _ \<Rightarrow> f < 0 | _ \<Rightarrow> False)
      (log (net t)))
    (onReady echo_os epoll_flavour (callback echo_os closing_user epoll_flavour 3) 9 EV_IN demo_conn)
   = Some [Cb (OnRecv [104, 105, 33]), Cb OnClose, Sys (SysRecv (-1) 4) bad_fd, Cb (OnError EBADF)]"
  by code_simp

end
