(* ===== verification/Tcp_Accept.thy ===== *)
theory Tcp_Accept
  imports Tcp_Connection
begin

text \<open>
  The accept watchers of \<^verbatim>\<open>platform/linux/network/watcher/tcp_accept_watcher.cc\<close>, for epoll and poll
  (the two classes differ in the kind of stream they build). From \<open>on_accept\<close> and \<open>on_error\<close> the
  user may call \<open>start()\<close> and \<open>stop()\<close>; neither runs callbacks, so nothing nests. A bound on the
  rounds of the accept loop stands for the signals that may interrupt \<^verbatim>\<open>accept4(2)\<close>.
\<close>

section \<open>The listening socket\<close>

definition SOCK_STREAM :: int where "SOCK_STREAM = 1"
definition SOCK_NONBLOCK :: "32 word" where "SOCK_NONBLOCK = 0x800"
definition SOCK_CLOEXEC :: "32 word" where "SOCK_CLOEXEC = 0x80000"
definition EINVAL :: int where "EINVAL = 22"

definition accept_flags :: "TcpAcceptOption \<Rightarrow> 32 word" where
  "accept_flags o' =
    SOCK_NONBLOCK OR (if set_close_on_exec o' = Some True then SOCK_CLOEXEC else 0)"

text \<open>The result is the descriptor or \<open>-1\<close>, and \<open>errno\<close> as the caller reads it.\<close>

definition createListenSocket :: "'k os \<Rightarrow> TcpAcceptOption \<Rightarrow> 'k net \<Rightarrow> int \<times> int \<times> 'k net" where
  "createListenSocket os o' w =
    (let (ss, ss_len) = toSockaddr (local_ep o');
         family = sa_family ss;
         (a, w) = sys os (SysSocket family (sint (word_of_int SOCK_STREAM OR accept_flags o'))) w;
         fd = ret a
     in
     if fd < 0 then (-1, eno a, w)
     else
       let w = applyCloseOnExecIfConfigured os fd (set_close_on_exec o') w;
           w = applyReuseAddrIfConfigured os fd (reuse_addr o') w;
           w = applyReusePortIfConfigured os fd (reuse_port o') w;
           w = (if family = AF_INET6 then applyIpv6OnlyIfConfigured os fd (ipv6_only o') w else w);
           (b, w) = sys os (SysBind fd ss) w
       in
       if ret b \<noteq> 0 then let (c, w) = sys os (SysClose fd) w in (-1, eno c, w)
       else
         let (l, w) = sys os (SysListen fd (backlog o')) w in
         if ret l \<noteq> 0 then let (c, w) = sys os (SysClose fd) w in (-1, eno c, w)
         else (fd, eno l, w))"

section \<open>The watcher\<close>

record 'k acceptor =
  listen_fd :: int
  aopts :: TcpAcceptOption
  has_accept :: bool
  has_aerror :: bool
  aattached :: bool
  anet :: "'k net"

datatype watch_act = WStart | WStop

type_synonym watch_user = "event list \<Rightarrow> callback \<Rightarrow> watch_act list"

definition acc_note :: "event \<Rightarrow> 'k acceptor \<Rightarrow> 'k acceptor" where
  "acc_note e st = st\<lparr>anet := emit e (anet st)\<rparr>"

definition accept_start :: "'k acceptor \<Rightarrow> 'k acceptor" where
  "accept_start st =
    (if aattached st then st else (acc_note (Attach (listen_fd st)) st)\<lparr>aattached := True\<rparr>)"

definition accept_stop :: "'k acceptor \<Rightarrow> 'k acceptor" where
  "accept_stop st =
    (if \<not> aattached st then st else (acc_note (Detach (listen_fd st)) st)\<lparr>aattached := False\<rparr>)"

fun watch_acts :: "watch_act list \<Rightarrow> 'k acceptor \<Rightarrow> 'k acceptor" where
  "watch_acts [] st = st"
| "watch_acts (WStart # as) st = watch_acts as (accept_start st)"
| "watch_acts (WStop # as) st = watch_acts as (accept_stop st)"

definition acc_callback :: "watch_user \<Rightarrow> callback \<Rightarrow> 'k acceptor \<Rightarrow> 'k acceptor" where
  "acc_callback user cb st = watch_acts (user (log (anet st)) cb) (acc_note (Cb cb) st)"

text \<open>What happens to one accepted descriptor, up to the end of the loop body.\<close>

definition accept_one ::
    "'k os \<Rightarrow> watch_user \<Rightarrow> TcpStreamKind \<Rightarrow> answer \<Rightarrow> 'k acceptor \<Rightarrow> 'k acceptor" where
  "accept_one os user kind a st =
    (let fd = ret a; o' = aopts st; w = anet st;
         w = applyCloseOnExecIfConfigured os fd (set_close_on_exec o') w;
         w = applyTcpNoDelayIfConfigured os fd (tcp_no_delay o') w;
         w = applyKeepAliveIfConfigured os fd (keep_alive o') (keep_alive_idle_sec o')
               (keep_alive_interval_sec o') (keep_alive_count o') w;
         w = applyBufSizeIfConfigured os fd (recv_buf_bytes o') (send_buf_bytes o') w;
         stream = new_stream kind fd;
         (stream, w) =
           (if fill_endpoints o' then
              bestEffortFillEndpoints os fd
                (stream\<lparr>peer := fromSockaddr (out_addr a) (out_len a)\<rparr>) w
            else (stream, w))
     in
     if has_accept st then acc_callback user (OnAccept stream) (st\<lparr>anet := w\<rparr>)
     else st\<lparr>anet := destroy_stream os stream w\<rparr>)"

fun acceptLoop ::
    "'k os \<Rightarrow> watch_user \<Rightarrow> TcpStreamKind \<Rightarrow> nat \<Rightarrow> nat \<Rightarrow> 'k acceptor \<Rightarrow> 'k acceptor option" where
  "acceptLoop os user kind 0 cnt st = None"
| "acceptLoop os user kind (Suc n) cnt st =
    (if cnt < max_accept_per_tick (aopts st) then
       let (a, w) = sys os (SysAccept (listen_fd st) (accept_flags (aopts st))) (anet st);
           st = st\<lparr>anet := w\<rparr>
       in
       if ret a \<ge> 0 then acceptLoop os user kind n (cnt + 1) (accept_one os user kind a st)
       else if eno a = EAGAIN \<or> eno a = EWOULDBLOCK then Some st
       else if eno a = EINTR then acceptLoop os user kind n cnt st
       else if has_aerror st then Some (acc_callback user (OnError (eno a)) st)
       else Some st
     else Some st)"

definition accept_onReady ::
    "'k os \<Rightarrow> watch_user \<Rightarrow> TcpStreamKind \<Rightarrow> nat \<Rightarrow> u32 \<Rightarrow> 'k acceptor \<Rightarrow> 'k acceptor option" where
  "accept_onReady os user kind n events st =
    (if listen_fd st < 0 then Some st
     else if events AND (EV_ERR OR EV_HUP) \<noteq> 0 then
       let (a, w) = sys os (SysGetError (listen_fd st)) (anet st);
           st = st\<lparr>anet := w\<rparr>;
           err = (if ret a \<noteq> 0 then eno a else out_int a)
       in Some (if has_aerror st then acc_callback user (OnError (if err \<noteq> 0 then err else EIO)) st
                else st)
     else if events AND EV_IN \<noteq> 0 then acceptLoop os user kind n 0 st
     else Some st)"

definition accept_destroy :: "'k os \<Rightarrow> 'k acceptor \<Rightarrow> 'k acceptor" where
  "accept_destroy os st =
    (let st = accept_stop st; (fd, w) = closeFd os (listen_fd st) (anet st)
     in st\<lparr>listen_fd := fd, anet := w\<rparr>)"

text \<open>The factories return a null pointer when the socket could not be set up.\<close>

definition createEpollTcpAcceptWatcher ::
    "'k os \<Rightarrow> TcpAcceptOption \<Rightarrow> bool \<Rightarrow> bool \<Rightarrow> 'k net \<Rightarrow> 'k acceptor option \<times> 'k net" where
  "createEpollTcpAcceptWatcher os o' acc err w =
    (let (fd, e, w) = createListenSocket os o' w in
     if fd < 0 then (None, if err then emit (Cb (OnError e)) w else w)
     else (Some \<lparr>listen_fd = fd, aopts = o', has_accept = acc, has_aerror = err,
                 aattached = False, anet = w\<rparr>, w))"

text \<open>
  The poll class has the same members; its accept loop builds streams of kind \<open>LinuxPoll\<close>, the one
  of the epoll class streams of kind \<open>LinuxEpoll\<close>.
\<close>

definition createPollTcpAcceptWatcher ::
    "'k os \<Rightarrow> TcpAcceptOption \<Rightarrow> bool \<Rightarrow> bool \<Rightarrow> 'k net \<Rightarrow> 'k acceptor option \<times> 'k net" where
  "createPollTcpAcceptWatcher os = createEpollTcpAcceptWatcher os"

definition epoll_acceptLoop ::
    "'k os \<Rightarrow> watch_user \<Rightarrow> nat \<Rightarrow> 'k acceptor \<Rightarrow> 'k acceptor option" where
  "epoll_acceptLoop os user n st = acceptLoop os user LinuxEpoll n 0 st"

definition poll_acceptLoop ::
    "'k os \<Rightarrow> watch_user \<Rightarrow> nat \<Rightarrow> 'k acceptor \<Rightarrow> 'k acceptor option" where
  "poll_acceptLoop os user n st = acceptLoop os user LinuxPoll n 0 st"

definition poll_accept_onReady ::
    "'k os \<Rightarrow> watch_user \<Rightarrow> nat \<Rightarrow> u32 \<Rightarrow> 'k acceptor \<Rightarrow> 'k acceptor option" where
  "poll_accept_onReady os user = accept_onReady os user LinuxPoll"

section \<open>Every accepted descriptor is handed over once\<close>

text \<open>
  The descriptors accepted, closed and handed to \<open>on_accept\<close> in a log, in order.
\<close>

fun accepted_fds :: "event list \<Rightarrow> int list" where
  "accepted_fds [] = []"
| "accepted_fds (Sys (SysAccept f g) a # es) =
    (if ret a \<ge> 0 then ret a # accepted_fds es else accepted_fds es)"
| "accepted_fds (e # es) = accepted_fds es"

fun closed_fds :: "event list \<Rightarrow> int list" where
  "closed_fds [] = []"
| "closed_fds (Sys (SysClose f) a # es) = f # closed_fds es"
| "closed_fds (e # es) = closed_fds es"

fun handed_fds :: "event list \<Rightarrow> int list" where
  "handed_fds [] = []"
| "handed_fds (Cb (OnAccept s) # es) = sfd s # handed_fds es"
| "handed_fds (e # es) = handed_fds es"

lemma fds_append [simp]:
  "accepted_fds (xs @ ys) = accepted_fds xs @ accepted_fds ys"
  "closed_fds (xs @ ys) = closed_fds xs @ closed_fds ys"
  "handed_fds (xs @ ys) = handed_fds xs @ handed_fds ys"
proof -
  show "accepted_fds (xs @ ys) = accepted_fds xs @ accepted_fds ys"
    by (induction xs rule: accepted_fds.induct) auto
  show "closed_fds (xs @ ys) = closed_fds xs @ closed_fds ys"
    by (induction xs rule: closed_fds.induct) auto
  show "handed_fds (xs @ ys) = handed_fds xs @ handed_fds ys"
    by (induction xs rule: handed_fds.induct) auto
qed

text \<open>An event that moves no descriptor.\<close>

definition still :: "event \<Rightarrow> bool" where
  "still e \<longleftrightarrow> accepted_fds [e] = [] \<and> closed_fds [e] = [] \<and> handed_fds [e] = []"

lemma still_fds:
  "list_all still es \<Longrightarrow> accepted_fds es = [] \<and> closed_fds es = [] \<and> handed_fds es = []"
proof (induction es)
  case (Cons e es)
  have "accepted_fds (e # es) = accepted_fds [e] @ accepted_fds es"
    "closed_fds (e # es) = closed_fds [e] @ closed_fds es"
    "handed_fds (e # es) = handed_fds [e] @ handed_fds es"
    using fds_append [of "[e]" es] by simp_all
  with Cons show ?case by (simp add: still_def)
qed simp

lemma config_still: "config_event fd e \<Longrightarrow> still e"
  by (induction fd e rule: config_event.induct) (auto simp: still_def elim!: config_call.elims)

definition same_acceptor :: "'k acceptor \<Rightarrow> 'k acceptor \<Rightarrow> bool" where
  "same_acceptor s t \<longleftrightarrow>
    listen_fd t = listen_fd s \<and> aopts t = aopts s \<and> has_accept t = has_accept s"

text \<open>
  \<open>hands k s t\<close>: from \<open>s\<close> to \<open>t\<close> at most \<open>k\<close> descriptors were accepted, and each was handed to
  \<open>on_accept\<close> in turn, or, without such a callback, closed in turn; no other was closed.
\<close>

definition hands :: "nat \<Rightarrow> 'k acceptor \<Rightarrow> 'k acceptor \<Rightarrow> bool" where
  "hands k s t \<longleftrightarrow> same_acceptor s t \<and>
    (\<exists>es. log (anet t) = log (anet s) @ es \<and> length (accepted_fds es) \<le> k \<and>
      handed_fds es = (if has_accept s then accepted_fds es else []) \<and>
      closed_fds es = (if has_accept s then [] else accepted_fds es))"

lemma hands_trans:
  assumes "hands j s t" "hands k t u" "j + k \<le> l"
  shows "hands l s u"
proof -
  from assms(1,2) obtain xs ys where x: "log (anet t) = log (anet s) @ xs"
    "length (accepted_fds xs) \<le> j" "handed_fds xs = (if has_accept s then accepted_fds xs else [])"
    "closed_fds xs = (if has_accept s then [] else accepted_fds xs)"
    and y: "log (anet u) = log (anet t) @ ys" "length (accepted_fds ys) \<le> k"
    "handed_fds ys = (if has_accept t then accepted_fds ys else [])"
    "closed_fds ys = (if has_accept t then [] else accepted_fds ys)"
    and st: "same_acceptor s t" "same_acceptor t u"
    unfolding hands_def by blast
  have "same_acceptor s u" "has_accept t = has_accept s" using st by (simp_all add: same_acceptor_def)
  with x y assms(3) show ?thesis
    unfolding hands_def by (intro conjI exI [of _ "xs @ ys"]) simp_all
qed

lemma still_hands:
  assumes "adds still (anet s) (anet t)" "same_acceptor s t"
  shows "hands k s t"
  using assms still_fds unfolding hands_def adds_def by fastforce

lemma acts_still:
  "adds still (anet s) (anet (watch_acts as s)) \<and> same_acceptor s (watch_acts as s)"
proof (induction as arbitrary: s)
  case (Cons a as)
  let ?t = "watch_acts [a] s"
  have "adds still (anet s) (anet ?t)" "same_acceptor s ?t"
    by (cases a; simp add: accept_start_def accept_stop_def acc_note_def adds_emit still_def
        same_acceptor_def)+
  moreover have "watch_acts (a # as) s = watch_acts as ?t" by (cases a) simp_all
  ultimately show ?case
    using Cons.IH [of ?t] by (auto simp: same_acceptor_def intro: adds_trans)
qed (simp add: same_acceptor_def)

lemma callback_log:
  "\<exists>es. log (anet (acc_callback user cb s)) = log (anet s) @ Cb cb # es \<and> list_all still es"
  "same_acceptor s (acc_callback user cb s)"
  using acts_still [of "acc_note (Cb cb) s" "user (log (anet s)) cb"]
  by (auto simp: acc_callback_def acc_note_def adds_def same_acceptor_def)

lemma error_callback_hands: "hands k s (acc_callback user (OnError e) s)"
proof -
  obtain es where "log (anet (acc_callback user (OnError e) s)) = log (anet s) @ Cb (OnError e) # es"
    "list_all still es" using callback_log(1) by blast
  then have "adds still (anet s) (anet (acc_callback user (OnError e) s))"
    by (simp add: adds_def still_def)
  then show ?thesis using still_hands callback_log(2) by blast
qed

lemma accept_one_fds:
  assumes "ret a \<ge> 0"
  shows "\<exists>es. log (anet (accept_one os user kind a s)) = log (anet s) @ es \<and> accepted_fds es = [] \<and>
      handed_fds es = (if has_accept s then [ret a] else []) \<and>
      closed_fds es = (if has_accept s then [] else [ret a])"
    and "same_acceptor s (accept_one os user kind a s)"
proof -
  let ?fd = "ret a" let ?o = "aopts s"
  define w1 where "w1 = applyBufSizeIfConfigured os ?fd (recv_buf_bytes ?o) (send_buf_bytes ?o)
    (applyKeepAliveIfConfigured os ?fd (keep_alive ?o) (keep_alive_idle_sec ?o)
      (keep_alive_interval_sec ?o) (keep_alive_count ?o)
      (applyTcpNoDelayIfConfigured os ?fd (tcp_no_delay ?o)
        (applyCloseOnExecIfConfigured os ?fd (set_close_on_exec ?o) (anet s))))"
  have 1: "adds (config_event ?fd) (anet s) w1"
    unfolding w1_def by (rule adds_trans [OF adds_trans [OF adds_trans [OF adds_config(1)
      adds_config(2)] adds_keepalive] adds_config(3)])
  obtain str w2 where f: "(if fill_endpoints ?o then bestEffortFillEndpoints os ?fd
      ((new_stream kind ?fd)\<lparr>peer := fromSockaddr (out_addr a) (out_len a)\<rparr>) w1
    else (new_stream kind ?fd, w1)) = (str, w2)" by fastforce
  have 2: "adds (config_event ?fd) w1 w2 \<and> sfd str = ?fd"
    using f adds_fill by (fastforce simp: new_stream_def split: if_splits)
  have "adds still (anet s) w2"
    using adds_mono [OF adds_trans [OF 1 conjunct1 [OF 2]] config_still] .
  then obtain xs where x: "log w2 = log (anet s) @ xs" "list_all still xs" by (auto simp: adds_def)
  have eq: "accept_one os user kind a s =
    (if has_accept s then acc_callback user (OnAccept str) (s\<lparr>anet := w2\<rparr>)
     else s\<lparr>anet := destroy_stream os str w2\<rparr>)"
    unfolding accept_one_def Let_def w1_def [symmetric] f by simp
  show "\<exists>es. log (anet (accept_one os user kind a s)) = log (anet s) @ es \<and> accepted_fds es = [] \<and>
      handed_fds es = (if has_accept s then [ret a] else []) \<and>
      closed_fds es = (if has_accept s then [] else [ret a])"
  proof (cases "has_accept s")
    case True
    obtain ys where "log (anet (acc_callback user (OnAccept str) (s\<lparr>anet := w2\<rparr>))) =
      log w2 @ Cb (OnAccept str) # ys" "list_all still ys"
      using callback_log(1) [of user "OnAccept str" "s\<lparr>anet := w2\<rparr>"] by auto
    then show ?thesis using True eq x 2 still_fds by simp
  next
    case False
    then show ?thesis using eq x 2 still_fds assms by (simp add: destroy_stream_def closeFd_def)
  qed
  show "same_acceptor s (accept_one os user kind a s)"
    using eq callback_log(2) [of "s\<lparr>anet := w2\<rparr>"] by (simp add: same_acceptor_def)
qed

lemma accept_round:
  assumes "sys os (SysAccept f g) (anet s) = (a, w)" "ret a \<ge> 0"
  shows "hands 1 s (accept_one os user kind a (s\<lparr>anet := w\<rparr>))"
  using accept_one_fds [OF assms(2), where s = "s\<lparr>anet := w\<rparr>" and os = os and user = user and kind = kind] log_sys [OF assms(1)] assms(2)
  by (auto simp: hands_def same_acceptor_def)

lemma accept_refused:
  assumes "sys os (SysAccept f g) (anet s) = (a, w)" "ret a < 0"
  shows "hands k s (s\<lparr>anet := w\<rparr>)"
  using log_sys [OF assms(1)] assms(2) by (simp add: hands_def same_acceptor_def)

lemma acceptLoop_hands:
  "acceptLoop os user kind n k s = Some t \<Longrightarrow> k \<le> max_accept_per_tick (aopts s) \<Longrightarrow>
    hands (max_accept_per_tick (aopts s) - k) s t"
proof (induction n arbitrary: k s)
  case (Suc n)
  show ?case
  proof (cases "k < max_accept_per_tick (aopts s)")
    case False
    with Suc.prems show ?thesis by (auto simp: hands_def same_acceptor_def)
  next
    case True
    let ?m = "max_accept_per_tick (aopts s)"
    obtain a w where c: "sys os (SysAccept (listen_fd s) (accept_flags (aopts s))) (anet s) = (a, w)"
      by fastforce
    note ref = accept_refused [OF c]
    consider "ret a \<ge> 0" | "ret a < 0" "eno a = EAGAIN \<or> eno a = EWOULDBLOCK"
      | "ret a < 0" "eno a = EINTR" "\<not> (eno a = EAGAIN \<or> eno a = EWOULDBLOCK)"
      | "ret a < 0" "eno a \<noteq> EINTR" "\<not> (eno a = EAGAIN \<or> eno a = EWOULDBLOCK)" by linarith
    then show ?thesis
    proof cases
      case 1
      let ?s1 = "accept_one os user kind a (s\<lparr>anet := w\<rparr>)"
      have h: "hands 1 s ?s1" by (rule accept_round [OF c 1])
      then have o: "aopts ?s1 = aopts s" by (simp add: hands_def same_acceptor_def)
      have "acceptLoop os user kind n (k + 1) ?s1 = Some t" using Suc.prems True 1 by (simp add: c)
      from Suc.IH [OF this] o True hands_trans [OF h] show ?thesis by simp
    next
      case 2
      with Suc.prems True ref show ?thesis by (simp add: c)
    next
      case 3
      then have "acceptLoop os user kind n k (s\<lparr>anet := w\<rparr>) = Some t"
        using Suc.prems True by (simp add: c)
      from Suc.IH [OF this] True hands_trans [OF ref [OF 3(1), of 0]] show ?thesis by simp
    next
      case 4
      then show ?thesis
        using Suc.prems(1) True hands_trans [OF ref [OF 4(1), of 0] error_callback_hands [of "?m - k"]] ref [OF 4(1)]
        by (auto simp: c Let_def split: if_splits)
    qed
  qed
qed simp

text \<open>
  C17. One readiness report accepts at most \<open>max_accept_per_tick\<close> connections and loses none: every
  accepted descriptor reaches \<open>on_accept\<close> exactly once, in the order of acceptance, and is then
  not closed by the watcher; when no \<open>on_accept\<close> is set, every accepted descriptor is closed
  exactly once. No other descriptor is closed.
\<close>

theorem accept_hands_over_each:
  assumes "accept_onReady os user kind n ev s = Some t"
  shows "\<exists>es. log (anet t) = log (anet s) @ es \<and>
    length (accepted_fds es) \<le> max_accept_per_tick (aopts s) \<and>
    handed_fds es = (if has_accept s then accepted_fds es else []) \<and>
    closed_fds es = (if has_accept s then [] else accepted_fds es)"
proof -
  let ?m = "max_accept_per_tick (aopts s)"
  obtain a w where c: "sys os (SysGetError (listen_fd s)) (anet s) = (a, w)" by fastforce
  have e: "hands ?m s (s\<lparr>anet := w\<rparr>)"
    using log_sys [OF c] by (simp add: hands_def same_acceptor_def)
  then have 0: "hands 0 s (s\<lparr>anet := w\<rparr>)"
    using log_sys [OF c] by (simp add: hands_def same_acceptor_def)
  have "hands ?m s s" by (simp add: hands_def same_acceptor_def)
  then have "hands ?m s t"
    using assms acceptLoop_hands [of os user kind n 0 s t] e
      hands_trans [OF 0 error_callback_hands [of ?m]]
    by (auto simp: accept_onReady_def c Let_def split: if_splits)
  then show ?thesis by (auto simp: hands_def)
qed

text \<open>A kernel with three pending connections.\<close>

fun busy_os :: "nat os" where
  "busy_os k (SysAccept f g) =
    (if k < 3
     then (\<lparr>ret = int k + 10, eno = 0, out_int = 0, out_bytes = [],
            out_addr = Some (Sa_in 0x5000 [127, 0, 0, 1]), out_len = 16\<rparr>, k + 1)
     else (\<lparr>ret = -1, eno = EAGAIN, out_int = 0, out_bytes = [], out_addr = None, out_len = 0\<rparr>, k))"
| "busy_os k c =
    (\<lparr>ret = 0, eno = 0, out_int = 0, out_bytes = [], out_addr = None, out_len = 0\<rparr>, k)"

definition demo_acceptor :: "nat acceptor" where
  "demo_acceptor =
    \<lparr>listen_fd = 4,
     aopts = sock_options.extend (default_sock_options\<lparr>tcp_no_delay := Some True\<rparr>)
       (TcpAcceptOption.fields (makeIpEndpointV4 [0, 0, 0, 0] 80) 128 2 True None None None),
     has_accept = True, has_aerror = True, aattached = True,
     anet = \<lparr>kern = 0, log = []\<rparr>\<rparr>"

lemma accept_hands_over_each_witness:
  "\<exists>t. accept_onReady busy_os (\<lambda>_ _. [WStop]) LinuxEpoll 5 EV_IN demo_acceptor = Some t \<and>
    handed_fds (log (anet t)) = [10, 11] \<and> closed_fds (log (anet t)) = []"
proof -
  let ?r = "accept_onReady busy_os (\<lambda>_ _. [WStop]) LinuxEpoll 5 EV_IN demo_acceptor"
  have "?r = Some (the ?r)" by (rule some_the) code_simp
  moreover have "accepted_fds (log (anet (the ?r))) = [10, 11]" "has_accept demo_acceptor"
    "log (anet demo_acceptor) = []" by code_simp+
  ultimately show ?thesis using accept_hands_over_each [of busy_os] by fastforce
qed

end
