(* ===== verification/Tcp_Connect.thy ===== *)
theory Tcp_Connect
  imports Tcp_Accept
begin

text \<open>
  The connect watchers of \<^verbatim>\<open>platform/linux/network/watcher/tcp_connect_watcher.cc\<close>, for epoll and
  poll (the two classes differ in the kind of stream they build). Callbacks may call \<open>stop()\<close> and
  \<open>cancel()\<close>; calling \<open>start()\<close> from inside a callback is not modelled. The pointer to the event
  source is represented by the descriptor \<open>ksrc\<close> the source was built with.
\<close>

section \<open>State\<close>

definition EINPROGRESS :: int where "EINPROGRESS = 115"
definition EAFNOSUPPORT :: int where "EAFNOSUPPORT = 97"

record 'k connector =
  remote :: IpEndpoint
  copts :: TcpConnectOption
  has_connected :: bool
  has_cerror :: bool
  ckind :: TcpStreamKind
  kfd :: int
  cattached :: bool
  canceled :: bool
  ksrc :: int
  cnet :: "'k net"

datatype connect_act = CStop | CCancel

type_synonym connect_user = "event list \<Rightarrow> callback \<Rightarrow> connect_act list"

definition new_connector ::
    "IpEndpoint \<Rightarrow> TcpConnectOption \<Rightarrow> TcpStreamKind \<Rightarrow> bool \<Rightarrow> bool \<Rightarrow> 'k net \<Rightarrow> 'k connector" where
  "new_connector r o' kind c e w =
    \<lparr>remote = r, copts = o', has_connected = c, has_cerror = e, ckind = kind, kfd = -1,
     cattached = False, canceled = False, ksrc = -1, cnet = w\<rparr>"

definition k_note :: "event \<Rightarrow> 'k connector \<Rightarrow> 'k connector" where
  "k_note e st = st\<lparr>cnet := emit e (cnet st)\<rparr>"

definition k_sys :: "'k os \<Rightarrow> syscall \<Rightarrow> 'k connector \<Rightarrow> answer \<times> 'k connector" where
  "k_sys os c st = (let (a, w) = sys os c (cnet st) in (a, st\<lparr>cnet := w\<rparr>))"

definition k_closeFd :: "'k os \<Rightarrow> 'k connector \<Rightarrow> 'k connector" where
  "k_closeFd os st = (let (fd, w) = closeFd os (kfd st) (cnet st) in st\<lparr>kfd := fd, cnet := w\<rparr>)"

section \<open>Operations\<close>

definition connect_stop :: "'k os \<Rightarrow> 'k connector \<Rightarrow> 'k connector" where
  "connect_stop os st =
    (if \<not> cattached st then st
     else k_closeFd os ((k_note (Detach (ksrc st)) st)\<lparr>cattached := False\<rparr>))"

definition connect_cancel :: "'k os \<Rightarrow> 'k connector \<Rightarrow> 'k connector" where
  "connect_cancel os st =
    (if canceled st then st
     else connect_stop os (st\<lparr>canceled := True\<rparr>))"

fun connect_acts :: "'k os \<Rightarrow> connect_act list \<Rightarrow> 'k connector \<Rightarrow> 'k connector" where
  "connect_acts os [] st = st"
| "connect_acts os (CStop # as) st = connect_acts os as (connect_stop os st)"
| "connect_acts os (CCancel # as) st = connect_acts os as (connect_cancel os st)"

definition connect_callback :: "'k os \<Rightarrow> connect_user \<Rightarrow> callback \<Rightarrow> 'k connector \<Rightarrow> 'k connector" where
  "connect_callback os user cb st =
    connect_acts os (user (log (cnet st)) cb) (k_note (Cb cb) st)"

definition fail :: "'k os \<Rightarrow> connect_user \<Rightarrow> int \<Rightarrow> 'k connector \<Rightarrow> 'k connector" where
  "fail os user err st =
    (let st = connect_stop os st in
     if canceled st then st
     else if has_cerror st then connect_callback os user (OnError err) st else st)"

text \<open>The endpoint to bind to; \<open>None\<close> when the family is neither IPv4 nor IPv6.\<close>

definition bind_endpoint :: "TcpConnectOption \<Rightarrow> int \<Rightarrow> IpEndpoint option" where
  "bind_endpoint o' family =
    (case local_bind o' of
       Some ep \<Rightarrow> Some ep
     | None \<Rightarrow>
         if family = AF_INET then Some (V4 \<lparr>ip4 = replicate 4 0, port4 = local_port o'\<rparr>)
         else if family = AF_INET6
         then Some (V6 \<lparr>ip6 = replicate 16 0, port6 = local_port o', scope_id = 0\<rparr>)
         else None)"

definition apply_connect_options :: "'k os \<Rightarrow> 'k connector \<Rightarrow> 'k connector" where
  "apply_connect_options os st =
    (let o' = copts st; fd = kfd st; w = cnet st;
         w = applyCloseOnExecIfConfigured os fd (set_close_on_exec o') w;
         w = applyTcpNoDelayIfConfigured os fd (tcp_no_delay o') w;
         w = applyKeepAliveIfConfigured os fd (keep_alive o') (keep_alive_idle_sec o')
               (keep_alive_interval_sec o') (keep_alive_count o') w;
         w = applyBufSizeIfConfigured os fd (recv_buf_bytes o') (send_buf_bytes o') w
     in st\<lparr>cnet := w\<rparr>)"

definition bindLocal :: "'k os \<Rightarrow> connect_user \<Rightarrow> int \<Rightarrow> 'k connector \<Rightarrow> 'k connector" where
  "bindLocal os user family st =
    (if local_bind (copts st) \<noteq> None \<or> local_port (copts st) \<noteq> 0 then
       (case bind_endpoint (copts st) family of
          None \<Rightarrow> fail os user EAFNOSUPPORT st
        | Some ep \<Rightarrow>
            let (a, st) = k_sys os (SysBind (kfd st) (fst (toSockaddr ep))) st in
            if ret a \<noteq> 0 then fail os user (eno a) st else st)
     else st)"

definition createSocket :: "'k os \<Rightarrow> connect_user \<Rightarrow> 'k connector \<Rightarrow> 'k connector" where
  "createSocket os user st =
    (let family = sa_family (fst (toSockaddr (remote st)));
         (a, st) = k_sys os (SysSocket family SOCK_STREAM) st;
         st = st\<lparr>kfd := ret a\<rparr>
     in
     if ret a < 0 then fail os user (eno a) st
     else
       let (ok, e, w) = setNonBlocking os (kfd st) (cnet st); st = st\<lparr>cnet := w\<rparr> in
       if \<not> ok then fail os user e st
       else bindLocal os user family (apply_connect_options os st))"

definition checkConnectResult :: "'k os \<Rightarrow> connect_user \<Rightarrow> 'k connector \<Rightarrow> 'k connector" where
  "checkConnectResult os user st =
    (if canceled st \<or> kfd st < 0 then st
     else
       let (a, st) = k_sys os (SysGetError (kfd st)) st in
       if ret a \<noteq> 0 then fail os user (eno a) st
       else if out_int a \<noteq> 0 then fail os user (out_int a) st
       else
         let stream = new_stream (ckind st) (kfd st);
             st = connect_stop os (st\<lparr>kfd := -1\<rparr>);
             (stream, w) =
               (if cfill_endpoints (copts st)
                then bestEffortFillEndpoints os (sfd stream) stream (cnet st)
                else (stream, cnet st));
             st = st\<lparr>cnet := w\<rparr>
         in
         if has_connected st then connect_callback os user (OnConnected stream) st
         else st\<lparr>cnet := destroy_stream os stream (cnet st)\<rparr>)"

definition startConnect :: "'k os \<Rightarrow> connect_user \<Rightarrow> 'k connector \<Rightarrow> 'k connector" where
  "startConnect os user st =
    (let (a, st) = k_sys os (SysConnect (kfd st) (fst (toSockaddr (remote st)))) st in
     if ret a = 0 then checkConnectResult os user st
     else if eno a = EINPROGRESS then st
     else fail os user (eno a) st)"

definition connect_start :: "'k os \<Rightarrow> connect_user \<Rightarrow> 'k connector \<Rightarrow> 'k connector" where
  "connect_start os user st =
    (if cattached st \<or> canceled st then st
     else
       let st = createSocket os user st in
       if kfd st < 0 then st
       else
         let st = startConnect os user st in
         if kfd st < 0 then st
         else (k_note (Attach (kfd st)) (st\<lparr>ksrc := kfd st\<rparr>))\<lparr>cattached := True\<rparr>)"

definition connect_onReady :: "'k os \<Rightarrow> connect_user \<Rightarrow> u32 \<Rightarrow> 'k connector \<Rightarrow> 'k connector" where
  "connect_onReady os user events st =
    (if canceled st then st
     else if events AND (EV_OUT OR EV_ERR OR EV_HUP) \<noteq> 0 then checkConnectResult os user st
     else st)"

definition connect_destroy :: "'k os \<Rightarrow> 'k connector \<Rightarrow> 'k connector" where
  "connect_destroy os st = k_closeFd os (connect_stop os st)"

datatype connect_op = ConnStart | ConnStop | ConnCancel | ConnReady u32

fun connect_step :: "'k os \<Rightarrow> connect_user \<Rightarrow> connect_op \<Rightarrow> 'k connector \<Rightarrow> 'k connector" where
  "connect_step os user ConnStart st = connect_start os user st"
| "connect_step os user ConnStop st = connect_stop os st"
| "connect_step os user ConnCancel st = connect_cancel os st"
| "connect_step os user (ConnReady ev) st = connect_onReady os user ev st"

definition connect_run :: "'k os \<Rightarrow> connect_user \<Rightarrow> connect_op list \<Rightarrow> 'k connector \<Rightarrow> 'k connector" where
  "connect_run os user ops st = foldl (\<lambda>st p. connect_step os user p st) st ops"

text \<open>
  The factories, and the life of a watcher of either class: the classes differ in the kind of the
  stream that \<open>checkConnectResult\<close> builds.
\<close>

definition createEpollTcpConnectWatcher ::
    "IpEndpoint \<Rightarrow> TcpConnectOption \<Rightarrow> bool \<Rightarrow> bool \<Rightarrow> 'k net \<Rightarrow> 'k connector" where
  "createEpollTcpConnectWatcher r o' c e w = new_connector r o' LinuxEpoll c e w"

definition createPollTcpConnectWatcher ::
    "IpEndpoint \<Rightarrow> TcpConnectOption \<Rightarrow> bool \<Rightarrow> bool \<Rightarrow> 'k net \<Rightarrow> 'k connector" where
  "createPollTcpConnectWatcher r o' c e w = new_connector r o' LinuxPoll c e w"

definition PollTcpConnectWatcher_life ::
    "'k os \<Rightarrow> connect_user \<Rightarrow> connect_op list \<Rightarrow> IpEndpoint \<Rightarrow> TcpConnectOption \<Rightarrow> bool \<Rightarrow> bool \<Rightarrow>
      'k net \<Rightarrow> 'k connector" where
  "PollTcpConnectWatcher_life os user ops r o' c e w =
    connect_destroy os (connect_run os user ops (createPollTcpConnectWatcher r o' c e w))"

section \<open>Ownership of descriptors\<close>

text \<open>
  \<open>owns S es\<close> follows the set of descriptors a watcher owns through a log: \<^verbatim>\<open>socket\<close> adds one, closing
  one or handing a stream to \<open>on_connected\<close> removes it. It is \<open>None\<close> when a descriptor that is not
  owned is used, closed or handed over.
\<close>

fun owns1 :: "int set \<Rightarrow> event \<Rightarrow> int set option" where
  "owns1 S (Sys (SysSocket _ _) a) =
    (if ret a < 0 then Some S else if ret a \<in> S then None else Some (insert (ret a) S))"
| "owns1 S (Sys (SysClose f) a) = (if f \<in> S then Some (S - {f}) else None)"
| "owns1 S (Sys c a) = (if the (call_fd c) \<in> S then Some S else None)"
| "owns1 S (Cb (OnConnected s)) = (if sfd s \<in> S then Some (S - {sfd s}) else None)"
| "owns1 S _ = Some S"

fun owns :: "int set \<Rightarrow> event list \<Rightarrow> int set option" where
  "owns S [] = Some S"
| "owns S (e # es) = do { S \<leftarrow> owns1 S e; owns S es }"

lemma owns_append: "owns S (xs @ ys) = do { S \<leftarrow> owns S xs; owns S ys }"
  by (induction xs arbitrary: S) (auto split: bind_split)

lemma owns_config: "list_all (config_event fd) es \<Longrightarrow> fd \<in> S \<Longrightarrow> owns S es = Some S"
proof (induction es)
  case (Cons e es)
  then obtain c a where "e = Sys c a" "config_call fd c" by (cases e) auto
  then have "owns1 S e = Some S" using Cons.prems(2) by (cases c) auto
  with Cons show ?case by simp
qed simp

lemma owns_adds_config:
  assumes "adds (config_event fd) v w" "owns {} (log v) = Some S" "fd \<in> S"
  shows "owns {} (log w) = Some S"
  using assms owns_config by (auto simp: adds_def owns_append)

definition own :: "'k connector \<Rightarrow> int set" where
  "own st = (if kfd st \<ge> 0 then {kfd st} else {})"

definition held :: "'k connector \<Rightarrow> bool" where
  "held st \<longleftrightarrow> owns {} (log (cnet st)) = Some (own st)"

definition settled :: "'k connector \<Rightarrow> bool" where
  "settled st \<longleftrightarrow> held st \<and> (kfd st \<ge> 0 \<longrightarrow> cattached st)"

lemma k_sysD:
  assumes "k_sys os c st = (a, st')"
  shows "log (cnet st') = log (cnet st) @ [Sys c a]" "st' = st\<lparr>cnet := cnet st'\<rparr>"
  using assms log_sys [of os c "cnet st"] by (auto simp: k_sys_def split: prod.splits)

lemma k_sys_fields:
  assumes "k_sys os c st = (a, st')"
  shows "kfd st' = kfd st" "cattached st' = cattached st" "canceled st' = canceled st"
    "copts st' = copts st" "has_connected st' = has_connected st" "remote st' = remote st"
    "ckind st' = ckind st"
  by (subst k_sysD(2) [OF assms], simp)+

lemma k_note_simps [simp]:
  "log (cnet (k_note e st)) = log (cnet st) @ [e]" "kfd (k_note e st) = kfd st"
  "cattached (k_note e st) = cattached st"
  by (simp_all add: k_note_def)

lemma k_closeFd_held:
  assumes "held st"
  shows "held (k_closeFd os st)" "kfd (k_closeFd os st) < 0" "cattached (k_closeFd os st) = cattached st"
  using assms by (auto simp: held_def own_def k_closeFd_def closeFd_def owns_append)

lemma connect_stop_held:
  assumes "held st"
  shows "held (connect_stop os st)"
    "cattached st \<Longrightarrow> kfd (connect_stop os st) < 0"
    "\<not> cattached (connect_stop os st)" "kfd (connect_stop os st) \<ge> 0 \<Longrightarrow> \<not> cattached st"
proof -
  let ?s = "(k_note (Detach (ksrc st)) st)\<lparr>cattached := False\<rparr>"
  have "held ?s" using assms by (simp add: held_def own_def owns_append)
  from k_closeFd_held [OF this, of os]
  show "held (connect_stop os st)" "cattached st \<Longrightarrow> kfd (connect_stop os st) < 0"
    "\<not> cattached (connect_stop os st)" "kfd (connect_stop os st) \<ge> 0 \<Longrightarrow> \<not> cattached st"
    using assms by (auto simp: connect_stop_def)
qed

lemma connect_stop_settled:
  assumes "settled st"
  shows "settled (connect_stop os st)"
proof (cases "cattached st")
  case True
  with assms connect_stop_held [of st os] show ?thesis by (simp add: settled_def)
next
  case False
  with assms show ?thesis by (simp add: connect_stop_def)
qed

lemma connect_acts_keep:
  "held st \<Longrightarrow> held (connect_acts os as st)" "settled st \<Longrightarrow> settled (connect_acts os as st)"
proof -
  have f: "held (st\<lparr>canceled := b\<rparr>) = held st" "settled (st\<lparr>canceled := b\<rparr>) = settled st" for b st
    by (simp_all add: held_def settled_def own_def)
  show "held st \<Longrightarrow> held (connect_acts os as st)"
  proof (induction as arbitrary: st)
    case (Cons a as)
    have "held (connect_cancel os st)"
      using Cons.prems connect_stop_held(1) [of "st\<lparr>canceled := True\<rparr>" os] by (simp add: connect_cancel_def f)
    from Cons.IH [OF this] Cons.IH [OF connect_stop_held(1) [OF Cons.prems]] show ?case
      by (cases a) simp_all
  qed simp
  show "settled st \<Longrightarrow> settled (connect_acts os as st)"
  proof (induction as arbitrary: st)
    case (Cons a as)
    have "settled (connect_cancel os st)"
      using Cons.prems connect_stop_settled [of "st\<lparr>canceled := True\<rparr>" os] by (simp add: connect_cancel_def f)
    from Cons.IH [OF this] Cons.IH [OF connect_stop_settled [OF Cons.prems]] show ?case
      by (cases a) simp_all
  qed simp
qed

lemma error_callback_keeps:
  "held st \<Longrightarrow> held (connect_callback os user (OnError e) st)"
  "settled st \<Longrightarrow> settled (connect_callback os user (OnError e) st)"
proof -
  have "held st \<Longrightarrow> held (k_note (Cb (OnError e)) st)"
    "settled st \<Longrightarrow> settled (k_note (Cb (OnError e)) st)"
    by (simp_all add: held_def settled_def own_def owns_append)
  then show "held st \<Longrightarrow> held (connect_callback os user (OnError e) st)"
    "settled st \<Longrightarrow> settled (connect_callback os user (OnError e) st)"
    unfolding connect_callback_def using connect_acts_keep by blast+
qed

lemma fail_keeps:
  "held st \<Longrightarrow> held (fail os user e st)" "settled st \<Longrightarrow> settled (fail os user e st)"
  using connect_stop_held(1) [of st os] connect_stop_settled [of st os] error_callback_keeps
  by (auto simp: fail_def Let_def)

lemma k_sys_keeps:
  assumes "k_sys os c st = (a, st')" "call_fd c = Some (kfd st)" "kfd st \<ge> 0" "\<And>f. c \<noteq> SysClose f"
  shows "held st \<Longrightarrow> held st'" "settled st \<Longrightarrow> settled st'"
proof -
  have "owns1 {kfd st} (Sys c a) = Some {kfd st}" using assms(2,4) by (cases c) auto
  then show h: "held st \<Longrightarrow> held st'"
    using k_sysD(1) [OF assms(1)] k_sys_fields(1) [OF assms(1)] assms(3)
    by (simp add: held_def own_def owns_append)
  show "settled st \<Longrightarrow> settled st'"
    using h k_sys_fields [OF assms(1)] by (simp add: settled_def)
qed

lemma fill_adds:
  assumes "(if b then bestEffortFillEndpoints os (sfd str) str w else (str, w)) = (str', w')"
  shows "adds (config_event (sfd str)) w w' \<and> sfd str' = sfd str"
proof (cases b)
  case True
  with assms adds_fill [of os "sfd str" str w str' w'] show ?thesis by simp
qed (use assms in simp)

text \<open>Handing over: the stream takes the descriptor, the watcher lets go of it.\<close>

lemma hand_over:
  assumes h: "owns {} (log (cnet st)) = Some {fd}" and fd: "fd \<ge> 0" "kfd st = -1" "\<not> cattached st"
    and str: "sfd str = fd"
  shows "settled (if b then connect_callback os user (OnConnected str) st
    else st\<lparr>cnet := destroy_stream os str (cnet st)\<rparr>)"
proof -
  have "settled (k_note (Cb (OnConnected str)) st)"
    using h fd str by (simp add: settled_def held_def own_def owns_append)
  then have "settled (connect_callback os user (OnConnected str) st)"
    unfolding connect_callback_def using connect_acts_keep(2) by blast
  moreover have "settled (st\<lparr>cnet := destroy_stream os str (cnet st)\<rparr>)"
    using h fd str by (simp add: settled_def held_def own_def owns_append destroy_stream_def closeFd_def)
  ultimately show ?thesis by simp
qed

lemma let_go:
  assumes "held st" "kfd st = fd" "fd \<ge> 0"
  shows "owns {} (log (cnet (connect_stop os (st\<lparr>kfd := -1\<rparr>)))) = Some {fd}"
    "kfd (connect_stop os (st\<lparr>kfd := -1\<rparr>)) = -1" "\<not> cattached (connect_stop os (st\<lparr>kfd := -1\<rparr>))"
  using assms
  by (auto simp: connect_stop_def held_def own_def owns_append k_closeFd_def closeFd_def)

lemma checkConnectResult_keeps:
  "held st \<Longrightarrow> held (checkConnectResult os user st)"
  "settled st \<Longrightarrow> settled (checkConnectResult os user st)"
proof -
  have r: "(held st \<longrightarrow> held (checkConnectResult os user st)) \<and>
    (settled st \<longrightarrow> settled (checkConnectResult os user st))"
  proof (cases "canceled st \<or> kfd st < 0")
    case True
    then show ?thesis by (simp add: checkConnectResult_def)
  next
    case False
    obtain a s1 where c: "k_sys os (SysGetError (kfd st)) st = (a, s1)" by fastforce
    note k = k_sys_keeps [OF c] and f = k_sys_fields [OF c]
    let ?s2 = "connect_stop os (s1\<lparr>kfd := -1\<rparr>)"
    obtain str w where fl: "(if cfill_endpoints (copts ?s2)
      then bestEffortFillEndpoints os (sfd (new_stream (ckind s1) (kfd s1))) (new_stream (ckind s1) (kfd s1)) (cnet ?s2)
      else (new_stream (ckind s1) (kfd s1), cnet ?s2)) = (str, w)" by fastforce
    have eq: "checkConnectResult os user st =
      (if ret a \<noteq> 0 then fail os user (eno a) s1
       else if out_int a \<noteq> 0 then fail os user (out_int a) s1
       else if has_connected ?s2 then connect_callback os user (OnConnected str) (?s2\<lparr>cnet := w\<rparr>)
       else (?s2\<lparr>cnet := w\<rparr>)\<lparr>cnet := destroy_stream os str (cnet (?s2\<lparr>cnet := w\<rparr>))\<rparr>)"
      using False unfolding checkConnectResult_def c Let_def prod.case fl by simp
    define z where "z = (if has_connected ?s2
      then connect_callback os user (OnConnected str) (?s2\<lparr>cnet := w\<rparr>)
      else (?s2\<lparr>cnet := w\<rparr>)\<lparr>cnet := destroy_stream os str (cnet (?s2\<lparr>cnet := w\<rparr>))\<rparr>)"
    have ok: "settled z" if "held s1"
    proof -
      have g: "kfd s1 \<ge> 0" using False f(1) by simp
      note l = let_go [OF that refl g, of os]
      have a: "adds (config_event (kfd s1)) (cnet ?s2) w" "sfd str = kfd s1"
        using fill_adds [OF fl] by (simp_all add: new_stream_def)
      have "owns {} (log w) = Some {kfd s1}" using owns_adds_config [OF a(1) l(1)] by simp
      then show ?thesis unfolding z_def by (intro hand_over [of "?s2\<lparr>cnet := w\<rparr>" "kfd s1"]) (use l g a(2) in simp_all)
    qed
    have h: "held st \<Longrightarrow> held s1" "settled st \<Longrightarrow> settled s1" using k False by auto
    have sh: "settled x \<Longrightarrow> held x" for x :: "'a connector" by (simp add: settled_def)
    show ?thesis
      unfolding eq z_def [symmetric]
      using ok h sh fail_keeps [of s1] by (cases "ret a \<noteq> 0"; cases "out_int a \<noteq> 0") auto
  qed
  then show "held st \<Longrightarrow> held (checkConnectResult os user st)"
    "settled st \<Longrightarrow> settled (checkConnectResult os user st)" by blast+
qed

lemma startConnect_held:
  assumes "held st" "kfd st \<ge> 0"
  shows "held (startConnect os user st)"
proof -
  obtain a s1 where c: "k_sys os (SysConnect (kfd st) (fst (toSockaddr (remote st)))) st = (a, s1)"
    by fastforce
  have "held s1" using k_sys_keeps(1) [OF c] assms by simp
  then show ?thesis
    using checkConnectResult_keeps(1) [of s1] fail_keeps(1) [of s1]
    unfolding startConnect_def c Let_def prod.case by simp
qed

lemma cnet_upd: "cnet (st\<lparr>cnet := w\<rparr>) = w"
  by simp

lemma apply_connect_options_held:
  assumes "held st" "kfd st \<ge> 0"
  shows "held (apply_connect_options os st)" "kfd (apply_connect_options os st) = kfd st"
proof -
  have a: "adds (config_event (kfd st)) (cnet st) (cnet (apply_connect_options os st))"
    unfolding apply_connect_options_def Let_def connector.update_convs connector.select_convs cnet_upd
    by (rule adds_trans [OF adds_trans [OF adds_trans [OF adds_config(1) adds_config(2)]
          adds_keepalive] adds_config(3)])
  show k: "kfd (apply_connect_options os st) = kfd st"
    by (simp add: apply_connect_options_def Let_def)
  have "owns {} (log (cnet st)) = Some {kfd st}" using assms by (simp add: held_def own_def)
  from owns_adds_config [OF a this]
  have "owns {} (log (cnet (apply_connect_options os st))) = Some {kfd st}" by simp
  then show "held (apply_connect_options os st)" using k assms(2) by (simp add: held_def own_def)
qed

lemma bindLocal_held:
  assumes "held st" "kfd st \<ge> 0"
  shows "held (bindLocal os user family st)"
proof (cases "bind_endpoint (copts st) family")
  case None
  then show ?thesis using assms(1) fail_keeps(1) [OF assms(1), of os user EAFNOSUPPORT]
    by (simp add: bindLocal_def)
next
  case (Some ep)
  obtain a s1 where c: "k_sys os (SysBind (kfd st) (fst (toSockaddr ep))) st = (a, s1)" by fastforce
  have "held s1" using k_sys_keeps(1) [OF c] assms by simp
  then show ?thesis
    using assms(1) Some fail_keeps(1) [of s1] unfolding bindLocal_def by (simp add: c)
qed

lemma createSocket_held:
  assumes "settled st" "\<not> cattached st"
  shows "held (createSocket os user st)"
proof -
  let ?c = "SysSocket (sa_family (fst (toSockaddr (remote st)))) SOCK_STREAM"
  obtain a s1 where c: "k_sys os ?c st = (a, s1)" by fastforce
  let ?s2 = "s1\<lparr>kfd := ret a\<rparr>"
  have "owns {} (log (cnet st)) = Some {}"
    using assms by (auto simp: settled_def held_def own_def)
  then have h2: "held ?s2"
    using k_sysD(1) [OF c] by (simp add: held_def own_def owns_append)
  obtain ok e w where nb: "setNonBlocking os (kfd ?s2) (cnet ?s2) = (ok, e, w)" by (cases "setNonBlocking os (kfd ?s2) (cnet ?s2)") auto
  have h3: "held (?s2\<lparr>cnet := w\<rparr>)" if "ret a \<ge> 0"
    using owns_adds_config [OF adds_nonblocking [OF nb]] h2 that by (simp add: held_def own_def)
  note o = apply_connect_options_held [OF h3, of os]
  have eq: "createSocket os user st =
    (if ret a < 0 then fail os user (eno a) ?s2
     else if \<not> ok then fail os user e (?s2\<lparr>cnet := w\<rparr>)
     else bindLocal os user (sa_family (fst (toSockaddr (remote st))))
       (apply_connect_options os (?s2\<lparr>cnet := w\<rparr>)))"
    unfolding createSocket_def Let_def c prod.case nb by simp
  show ?thesis
    unfolding eq using fail_keeps(1) [OF h2] fail_keeps(1) [OF h3] bindLocal_held [OF o(1)] o(2)
    by (cases "ret a < 0") auto
qed

lemma connect_step_settled:
  assumes "settled st"
  shows "settled (connect_step os user p st)"
proof (cases p)
  case ConnStart
  show ?thesis
  proof (cases "cattached st \<or> canceled st")
    case True
    with assms ConnStart show ?thesis by (simp add: connect_start_def)
  next
    case False
    let ?s1 = "createSocket os user st" let ?s2 = "startConnect os user ?s1"
    have 1: "held ?s1" using createSocket_held [OF assms] False by simp
    have 2: "held ?s2" if "kfd ?s1 \<ge> 0" using startConnect_held [OF 1 that] .
    have "held s \<Longrightarrow> settled ((k_note (Attach (kfd s)) (s\<lparr>ksrc := kfd s\<rparr>))\<lparr>cattached := True\<rparr>)"
      "held s \<Longrightarrow> kfd s < 0 \<Longrightarrow> settled s" for s :: "'a connector"
      by (simp_all add: settled_def held_def own_def owns_append)
    with 1 2 False ConnStart show ?thesis
      by (simp add: connect_start_def Let_def)
  qed
next
  case ConnStop
  then show ?thesis using connect_stop_settled [OF assms] by simp
next
  case ConnCancel
  then show ?thesis using connect_acts_keep(2) [OF assms, of os "[CCancel]"] by simp
next
  case (ConnReady ev)
  then show ?thesis
    using assms checkConnectResult_keeps(2) [OF assms] by (simp add: connect_onReady_def)
qed


section \<open>A refused connection\<close>

text \<open>
  A kernel that refuses the connection at once. As documented for \<open>SO_ERROR\<close>, the error that
  \<^verbatim>\<open>connect(2)\<close> has already returned is not pending any more.
\<close>

definition ECONNREFUSED :: int where "ECONNREFUSED = 111"
definition ENOTCONN :: int where "ENOTCONN = 107"

definition an_answer :: "int \<Rightarrow> int \<Rightarrow> answer" where
  "an_answer r e = \<lparr>ret = r, eno = e, out_int = 0, out_bytes = [], out_addr = None, out_len = 0\<rparr>"

fun refusing_os :: "nat os" where
  "refusing_os k (SysSocket f t) = (an_answer 5 0, k)"
| "refusing_os k (SysConnect f s) = (an_answer (-1) ECONNREFUSED, k)"
| "refusing_os k (SysPeername f) = (an_answer (-1) ENOTCONN, k)"
| "refusing_os k (SysSockname f) = (an_answer (-1) ENOTCONN, k)"
| "refusing_os k c = (an_answer 0 0, k)"

definition demo_connector :: "nat connector" where
  "demo_connector = new_connector (makeIpEndpointV4 [127, 0, 0, 1] 80)
    (sock_options.extend default_sock_options (TcpConnectOption.fields None 0 True 4))
    LinuxEpoll True True \<lparr>kern = 0, log = []\<rparr>"

definition callbacks :: "event list \<Rightarrow> callback list" where
  "callbacks es = concat (map (\<lambda>e. case e of Cb c \<Rightarrow> [c] | _ \<Rightarrow> []) es)"

text \<open>
  When \<^verbatim>\<open>connect(2)\<close> fails at once, the watcher reports the error but goes on: it attaches the
  dead socket, and at the next readiness report (an unconnected socket is writable and hung up)
  it finds no pending error and reports the same socket as connected.
\<close>

lemma connect_error_then_connected:
  "callbacks (log (cnet (connect_run refusing_os (\<lambda>_ _. [])
      [ConnStart, ConnReady (EV_OUT OR EV_HUP)] demo_connector))) =
    [OnError ECONNREFUSED,
     OnConnected \<lparr>skind = LinuxEpoll, peer = None, local = None, sfd = 5\<rparr>]"
  by code_simp


end
