(* ===== verification/Win_Tcp_Socket.thy ===== *)
theory Win_Tcp_Socket
  imports Tcp_Socket Iocp_Backend "HOL-Library.Multiset"
begin

text \<open>
  The socket helpers of \<^verbatim>\<open>platform/windows/network/watcher/tcp_socket_common.h\<close>, and the log that
  the Windows watchers write: Winsock calls, the completions the port hands out, what is attached to
  the event core and the callbacks of the user, in the order in which they happen. The system is a
  parameter, a function from its state and a call to an answer and its next state.

  A \<^verbatim>\<open>SOCKET\<close> is given by its value read as a signed number, so \<^verbatim>\<open>INVALID_SOCKET\<close> is \<open>-1\<close>. The
  buffer that an accepted stream carries along is not part of the model.
\<close>

section \<open>Calls and the log\<close>

type_synonym SOCKET = int

definition INVALID_SOCKET :: SOCKET where
  "INVALID_SOCKET = -1"

definition SOCKET_ERROR :: int where "SOCKET_ERROR = -1"
definition WSA_IO_PENDING :: int where "WSA_IO_PENDING = 997"
definition WSAEBADF :: int where "WSAEBADF = 10009"
definition WSAEINVAL :: int where "WSAEINVAL = 10022"

datatype wsyscall =
    WSocket int
  | WClose SOCKET
  | WNonBlock SOCKET
  | WInherit SOCKET bool
  | WSetOpt SOCKET sockopt int nat           \<comment> \<open>option, value, its size in bytes\<close>
  | WLinger SOCKET bool u16
  | WKeepAliveVals SOCKET u32 u32
  | WFetchAcceptEx SOCKET
  | WFetchConnectEx SOCKET
  | WBind SOCKET sockaddr nat
  | WListen SOCKET int
  | WPeername SOCKET
  | WSockname SOCKET
  | WAcceptEx SOCKET SOCKET overlapped
  | WConnectEx SOCKET sockaddr overlapped
  | WUpdateAccept SOCKET SOCKET
  | WUpdateConnect SOCKET
  | WRecv SOCKET nat overlapped
  | WSend SOCKET "u8 list" overlapped
  | WResult SOCKET overlapped
  | WShutdown SOCKET

text \<open>
  The value returned, \<^verbatim>\<open>WSAGetLastError()\<close> after the call, whether a requested function pointer is
  non-null, the address written with its length, the number of bytes transferred and what the
  operation has left in its buffer.
\<close>

record wanswer =
  wret :: int
  werr :: int
  wout_ptr :: bool
  wout_addr :: "sockaddr option"
  wout_len :: nat
  wout_n :: nat
  wout_bytes :: "u8 list"

type_synonym 'k wos = "'k \<Rightarrow> wsyscall \<Rightarrow> wanswer \<times> 'k"

text \<open>
  \<open>WNullCall\<close> is a call through a null function pointer: what the program does then is undefined, and
  the model goes on as if the call had not been there.
\<close>

datatype wevent =
    WSys wsyscall wanswer
  | WCompleted overlapped
  | WCb callback
  | WAttach SOCKET
  | WDetach SOCKET
  | WWarn string
  | WNullCall

record 'k wnet =
  wkern :: 'k
  wlog :: "wevent list"

definition wemit :: "wevent \<Rightarrow> 'k wnet \<Rightarrow> 'k wnet" where
  "wemit e w = w\<lparr>wlog := wlog w @ [e]\<rparr>"

definition wsys :: "'k wos \<Rightarrow> wsyscall \<Rightarrow> 'k wnet \<Rightarrow> wanswer \<times> 'k wnet" where
  "wsys os c w = (let (a, k) = os (wkern w) c in (a, (wemit (WSys c a) w)\<lparr>wkern := k\<rparr>))"

definition wsys_void :: "'k wos \<Rightarrow> wsyscall \<Rightarrow> 'k wnet \<Rightarrow> 'k wnet" where
  "wsys_void os c w = snd (wsys os c w)"

text \<open>\<open>if(!ok) LOG(WARN)(msg)\<close>\<close>

definition warn_unless :: "bool \<Rightarrow> string \<Rightarrow> 'k wnet \<Rightarrow> 'k wnet" where
  "warn_unless ok msg w = (if ok then w else wemit (WWarn msg) w)"

section \<open>Descriptor helpers\<close>

definition closeFd :: "'k wos \<Rightarrow> SOCKET \<Rightarrow> 'k wnet \<Rightarrow> SOCKET \<times> 'k wnet" where
  "closeFd os fd w =
    (if fd \<noteq> INVALID_SOCKET then (INVALID_SOCKET, wsys_void os (WClose fd) w) else (fd, w))"

definition WIN_AF_INET :: int where "WIN_AF_INET = 2"
definition WIN_AF_INET6 :: int where "WIN_AF_INET6 = 23"

definition win_family :: "sockaddr \<Rightarrow> int" where
  "win_family s = (case s of Sa_in _ _ \<Rightarrow> WIN_AF_INET | Sa_in6 _ _ _ \<Rightarrow> WIN_AF_INET6 | Sa_other f \<Rightarrow> f)"

definition toSockaddr :: "IpEndpoint \<Rightarrow> sockaddr \<times> nat" where
  "toSockaddr ep =
    (case ep of
       V4 v4 \<Rightarrow> (Sa_in (htons (port4 v4)) (ip4 v4), sizeof_sockaddr_in)
     | V6 v6 \<Rightarrow> (Sa_in6 (htons (port6 v6)) (ip6 v6) (scope_id v6), sizeof_sockaddr_in6))"

definition fromSockaddr :: "sockaddr option \<Rightarrow> nat \<Rightarrow> IpEndpoint option" where
  "fromSockaddr sa len =
    (case sa of
       None \<Rightarrow> None
     | Some (Sa_in p a) \<Rightarrow>
         if len < sizeof_sockaddr_in then None else Some (V4 \<lparr>ip4 = a, port4 = ntohs p\<rparr>)
     | Some (Sa_in6 p a sc) \<Rightarrow>
         if len < sizeof_sockaddr_in6 then None
         else Some (V6 \<lparr>ip6 = a, port6 = ntohs p, scope_id = sc\<rparr>)
     | Some (Sa_other f) \<Rightarrow> None)"

definition bestEffortFillEndpoints :: "'k wos \<Rightarrow> SOCKET \<Rightarrow> TcpStream \<Rightarrow> 'k wnet \<Rightarrow> TcpStream \<times> 'k wnet" where
  "bestEffortFillEndpoints os fd stream w =
    (let (stream, w) =
       (if peer stream = None then
          let (a, w) = wsys os (WPeername fd) w in
          (if wret a = 0 then stream\<lparr>peer := fromSockaddr (wout_addr a) (wout_len a)\<rparr> else stream, w)
        else (stream, w));
       (stream, w) =
       (if local stream = None then
          let (a, w) = wsys os (WSockname fd) w in
          (if wret a = 0 then stream\<lparr>local := fromSockaddr (wout_addr a) (wout_len a)\<rparr> else stream, w)
        else (stream, w))
     in (stream, w))"

definition applyTcpNonBlock :: "'k wos \<Rightarrow> SOCKET \<Rightarrow> 'k wnet \<Rightarrow> 'k wnet" where
  "applyTcpNonBlock os fd w =
    (let (a, w) = wsys os (WNonBlock fd) w in warn_unless (wret a = 0) ''handle applyTcpNonBlock failed'' w)"

definition applyCloseOnExecIfConfigured :: "'k wos \<Rightarrow> SOCKET \<Rightarrow> bool option \<Rightarrow> 'k wnet \<Rightarrow> 'k wnet" where
  "applyCloseOnExecIfConfigured os fd v w =
    (case v of
       None \<Rightarrow> w
     | Some b \<Rightarrow>
         if fd = 0 then w
         else
           let (a, w) = wsys os (WInherit fd (\<not> b)) w
           in warn_unless (wret a \<noteq> 0) ''fd applyCloseOnExecIfConfigured failed'' w)"

definition applyTcpReuseAddrIfConfigured :: "'k wos \<Rightarrow> SOCKET \<Rightarrow> bool option \<Rightarrow> 'k wnet \<Rightarrow> 'k wnet" where
  "applyTcpReuseAddrIfConfigured os fd v w =
    (case v of
       None \<Rightarrow> w
     | Some b \<Rightarrow>
         let (a, w) = wsys os (WSetOpt fd SO_REUSEADDR (if b then 1 else 0) 4) w
         in warn_unless (wret a = 0) ''fd applyTcpReuseAddrIfConfigured failed'' w)"

text \<open>The result says whether the function pointer is non-null.\<close>

definition fetchAcceptEx :: "'k wos \<Rightarrow> SOCKET \<Rightarrow> 'k wnet \<Rightarrow> bool \<times> 'k wnet" where
  "fetchAcceptEx os fd w =
    (let (a, w) = wsys os (WFetchAcceptEx fd) w in if wret a \<noteq> 0 then (False, w) else (wout_ptr a, w))"

definition fetchConnectEx :: "'k wos \<Rightarrow> SOCKET \<Rightarrow> 'k wnet \<Rightarrow> bool \<times> int \<times> 'k wnet" where
  "fetchConnectEx os fd w =
    (let (a, w) = wsys os (WFetchConnectEx fd) w
     in if wret a \<noteq> 0 then (False, werr a, w) else (wout_ptr a, werr a, w))"

definition applyTcpNoDelayIfConfigured :: "'k wos \<Rightarrow> SOCKET \<Rightarrow> bool option \<Rightarrow> 'k wnet \<Rightarrow> 'k wnet" where
  "applyTcpNoDelayIfConfigured os fd v w =
    (case v of
       None \<Rightarrow> w
     | Some b \<Rightarrow>
         let (a, w) = wsys os (WSetOpt fd TCP_NODELAY (if b then 1 else 0) 1) w
         in warn_unless (wret a = 0) ''fd applyTcpNoDelayIfConfigured failed'' w)"

definition keepalive_ms :: "int option \<Rightarrow> int \<Rightarrow> u32" where
  "keepalive_ms sec dflt = word_of_int (case sec of Some s \<Rightarrow> s | None \<Rightarrow> dflt) * 1000"

text \<open>The variable \<open>ret\<close> of the code is a \<open>bool\<close>: it is the result of the call compared with 0.\<close>

definition applyKeepAliveIfConfigured ::
    "'k wos \<Rightarrow> SOCKET \<Rightarrow> bool option \<Rightarrow> int option \<Rightarrow> int option \<Rightarrow> int option \<Rightarrow> 'k wnet \<Rightarrow> 'k wnet" where
  "applyKeepAliveIfConfigured os fd enable idle_sec interval_sec cnt w =
    (case enable of
       None \<Rightarrow> w
     | Some b \<Rightarrow>
         let (a, w) = wsys os (WSetOpt fd SO_KEEPALIVE (if b then 1 else 0) 4) w;
             r = (wret a \<noteq> 0);
             w = warn_unless r ''fd applyKeepAliveIfConfigured failed'' w
         in
         if \<not> b then w
         else
           let (r, w) =
             (if idle_sec \<noteq> None \<or> interval_sec \<noteq> None then
                let (a, w) = wsys os (WKeepAliveVals fd (keepalive_ms idle_sec 7200) (keepalive_ms interval_sec 1)) w
                in (wret a \<noteq> 0, w)
              else (r, w))
           in warn_unless r ''fd applyKeepAliveIfConfigured failed'' w)"

definition set_buf :: "'k wos \<Rightarrow> SOCKET \<Rightarrow> sockopt \<Rightarrow> string \<Rightarrow> int option \<Rightarrow> 'k wnet \<Rightarrow> 'k wnet" where
  "set_buf os fd opt msg v w =
    (case v of
       None \<Rightarrow> w
     | Some i \<Rightarrow>
         let (a, w) = wsys os (WSetOpt fd opt i 4) w in warn_unless (wret a \<noteq> 0) msg w)"

definition applyBufSizeIfConfigured ::
    "'k wos \<Rightarrow> SOCKET \<Rightarrow> int option \<Rightarrow> int option \<Rightarrow> 'k wnet \<Rightarrow> 'k wnet" where
  "applyBufSizeIfConfigured os fd rcv sndb w =
    set_buf os fd SO_SNDBUF ''fd applyBufSizeIfConfigured set send_buf failed'' sndb
      (set_buf os fd SO_RCVBUF ''fd applyBufSizeIfConfigured set recv_buf failed'' rcv w)"

definition applyLingerIfConfigured :: "'k wos \<Rightarrow> SOCKET \<Rightarrow> int option \<Rightarrow> 'k wnet \<Rightarrow> 'k wnet" where
  "applyLingerIfConfigured os fd v w =
    (case v of
       None \<Rightarrow> w
     | Some s \<Rightarrow>
         let (a, w) = wsys os (if s < 0 then WLinger fd False 0 else WLinger fd True (word_of_int s)) w
         in warn_unless (wret a \<noteq> 0) ''fd applyLingerIfConfigured failed'' w)"

section \<open>Streams\<close>

definition new_stream :: "SOCKET \<Rightarrow> TcpStream" where
  "new_stream fd = \<lparr>skind = WindowsIocp, peer = None, local = None, sfd = fd\<rparr>"

definition releaseFd :: "TcpStream \<Rightarrow> SOCKET \<times> TcpStream" where
  "releaseFd s = (sfd s, s\<lparr>sfd := INVALID_SOCKET\<rparr>)"

definition destroy_stream :: "'k wos \<Rightarrow> TcpStream \<Rightarrow> 'k wnet \<Rightarrow> 'k wnet" where
  "destroy_stream os s w = snd (closeFd os (sfd s) w)"

section \<open>What a step adds to the log\<close>

definition wadds :: "(wevent \<Rightarrow> bool) \<Rightarrow> 'k wnet \<Rightarrow> 'k wnet \<Rightarrow> bool" where
  "wadds P w w' \<longleftrightarrow> (\<exists>es. wlog w' = wlog w @ es \<and> list_all P es)"

lemma wadds_refl [simp]: "wadds P w w"
  by (simp add: wadds_def)

lemma wadds_trans: "wadds P u v \<Longrightarrow> wadds P v w \<Longrightarrow> wadds P u w"
  unfolding wadds_def by (metis append.assoc list_all_append)

lemma wlog_emit [simp]: "wlog (wemit e w) = wlog w @ [e]"
  by (simp add: wemit_def)

lemma wlog_sys: "wsys os c w = (a, w') \<Longrightarrow> wlog w' = wlog w @ [WSys c a]"
  by (auto simp: wsys_def split: prod.splits)

lemma wlog_sys_snd [simp]: "wlog (snd (wsys os c w)) = wlog w @ [WSys c (fst (wsys os c w))]"
  by (simp add: wsys_def split: prod.splits)

lemma wlog_sys_void [simp]: "wlog (wsys_void os c w) = wlog w @ [WSys c (fst (wsys os c w))]"
  by (simp add: wsys_void_def)

lemma wlog_warn_unless: "wlog (warn_unless ok m w) = wlog w @ (if ok then [] else [WWarn m])"
  by (simp add: warn_unless_def)

text \<open>The calls that configure a socket or ask for its addresses.\<close>

fun wconfig :: "SOCKET \<Rightarrow> wevent \<Rightarrow> bool" where
  "wconfig fd (WSys (WNonBlock f) _) = (f = fd)"
| "wconfig fd (WSys (WInherit f _) _) = (f = fd)"
| "wconfig fd (WSys (WSetOpt f _ _ _) _) = (f = fd)"
| "wconfig fd (WSys (WLinger f _ _) _) = (f = fd)"
| "wconfig fd (WSys (WKeepAliveVals f _ _) _) = (f = fd)"
| "wconfig fd (WSys (WFetchAcceptEx f) _) = (f = fd)"
| "wconfig fd (WSys (WFetchConnectEx f) _) = (f = fd)"
| "wconfig fd (WSys (WPeername f) _) = (f = fd)"
| "wconfig fd (WSys (WSockname f) _) = (f = fd)"
| "wconfig fd (WWarn m) = True"
| "wconfig fd _ = False"

lemma wadds_call:
  assumes "wsys os c w = (a, w')" "\<And>a. wconfig fd (WSys c a)"
  shows "wadds (wconfig fd) w (warn_unless ok m w')"
  using wlog_sys [OF assms(1)] assms(2) by (auto simp: wadds_def wlog_warn_unless)

lemma wadds_set_buf: "wadds (wconfig fd) w (set_buf os fd opt m v w)"
  by (auto simp: set_buf_def intro: wadds_call split: option.split prod.split)

lemma wadds_config [intro]:
  "wadds (wconfig fd) w (applyTcpNonBlock os fd w)"
  "wadds (wconfig fd) w (applyCloseOnExecIfConfigured os fd v w)"
  "wadds (wconfig fd) w (applyTcpReuseAddrIfConfigured os fd v w)"
  "wadds (wconfig fd) w (applyTcpNoDelayIfConfigured os fd v w)"
  "wadds (wconfig fd) w (applyBufSizeIfConfigured os fd i j w)"
  "wadds (wconfig fd) w (applyLingerIfConfigured os fd i w)"
proof -
  show "wadds (wconfig fd) w (applyBufSizeIfConfigured os fd i j w)"
    unfolding applyBufSizeIfConfigured_def by (blast intro: wadds_trans wadds_set_buf)
qed (auto simp: applyTcpNonBlock_def applyCloseOnExecIfConfigured_def applyTcpReuseAddrIfConfigured_def
    applyTcpNoDelayIfConfigured_def applyLingerIfConfigured_def intro: wadds_call
    split: option.split prod.split)

lemma wadds_keepalive [intro]: "wadds (wconfig fd) w (applyKeepAliveIfConfigured os fd b i j k w)"
  by (auto simp: applyKeepAliveIfConfigured_def Let_def wadds_def wlog_warn_unless dest!: wlog_sys
      split: option.split prod.split)

lemma wadds_fetch:
  "wadds (wconfig fd) w (snd (fetchAcceptEx os fd w))"
  "wadds (wconfig fd) w (snd (snd (fetchConnectEx os fd w)))"
  by (auto simp: fetchAcceptEx_def fetchConnectEx_def wadds_def dest!: wlog_sys split: prod.split)

lemma wadds_fill:
  assumes "bestEffortFillEndpoints os fd s w = (s', w')"
  shows "wadds (wconfig fd) w w' \<and> sfd s' = sfd s \<and> skind s' = skind s"
proof -
  obtain s1 w1 where 1: "(if peer s = None then
          let (a, w) = wsys os (WPeername fd) w in
          (if wret a = 0 then s\<lparr>peer := fromSockaddr (wout_addr a) (wout_len a)\<rparr> else s, w)
        else (s, w)) = (s1, w1)" by (rule prod.exhaust)
  then have a: "wadds (wconfig fd) w w1 \<and> sfd s1 = sfd s \<and> skind s1 = skind s"
    by (auto simp: Let_def wadds_def dest!: wlog_sys split: prod.splits if_splits)
  from assms have "(if local s1 = None then
          let (a, w) = wsys os (WSockname fd) w1 in
          (if wret a = 0 then s1\<lparr>local := fromSockaddr (wout_addr a) (wout_len a)\<rparr> else s1, w)
        else (s1, w1)) = (s', w')"
    unfolding bestEffortFillEndpoints_def 1 by (simp add: Let_def)
  then have "wadds (wconfig fd) w1 w' \<and> sfd s' = sfd s1 \<and> skind s' = skind s1"
    by (auto simp: Let_def wadds_def dest!: wlog_sys split: prod.splits if_splits)
  with a show ?thesis by (auto intro: wadds_trans)
qed

section \<open>Overlapped operations\<close>

text \<open>
  A \<^verbatim>\<open>WSARecv\<close> or \<^verbatim>\<open>WSASend\<close> that returned \<^verbatim>\<open>SOCKET_ERROR\<close> with another error than
  \<^verbatim>\<open>WSA_IO_PENDING\<close> has started nothing, and so has an \<^verbatim>\<open>AcceptEx\<close> or \<^verbatim>\<open>ConnectEx\<close> that returned
  \<^verbatim>\<open>FALSE\<close> with another error.
\<close>

definition issued :: "wanswer \<Rightarrow> bool" where
  "issued a \<longleftrightarrow> \<not> (wret a = SOCKET_ERROR \<and> werr a \<noteq> WSA_IO_PENDING)"

definition issued_ex :: "wanswer \<Rightarrow> bool" where
  "issued_ex a \<longleftrightarrow> \<not> (wret a = 0 \<and> werr a \<noteq> WSA_IO_PENDING)"

text \<open>
  The events that give an \<^verbatim>\<open>OVERLAPPED\<close> to the system, and by how much an event changes the number of
  operations on it whose completion the watcher has not seen.
\<close>

fun passes :: "overlapped \<Rightarrow> wevent \<Rightarrow> bool" where
  "passes ov (WSys (WRecv _ _ x) a) = (x = ov)"
| "passes ov (WSys (WSend _ _ x) a) = (x = ov)"
| "passes ov (WSys (WAcceptEx _ _ x) a) = (x = ov)"
| "passes ov (WSys (WConnectEx _ _ x) a) = (x = ov)"
| "passes ov _ = False"

fun flight1 :: "overlapped \<Rightarrow> wevent \<Rightarrow> int" where
  "flight1 ov (WSys (WRecv _ _ x) a) = (if x = ov \<and> issued a then 1 else 0)"
| "flight1 ov (WSys (WSend _ _ x) a) = (if x = ov \<and> issued a then 1 else 0)"
| "flight1 ov (WSys (WAcceptEx _ _ x) a) = (if x = ov \<and> issued_ex a then 1 else 0)"
| "flight1 ov (WSys (WConnectEx _ _ x) a) = (if x = ov \<and> issued_ex a then 1 else 0)"
| "flight1 ov (WCompleted x) = (if x = ov then -1 else 0)"
| "flight1 ov _ = 0"

fun in_flight :: "overlapped \<Rightarrow> wevent list \<Rightarrow> int" where
  "in_flight ov [] = 0"
| "in_flight ov (e # es) = flight1 ov e + in_flight ov es"

text \<open>
  What the system promises: a completion is delivered for an operation that was started and has not
  been completed before.
\<close>

fun packets_ok :: "overlapped \<Rightarrow> int \<Rightarrow> wevent list \<Rightarrow> bool" where
  "packets_ok ov n [] = True"
| "packets_ok ov n (e # es) = ((e = WCompleted ov \<longrightarrow> n > 0) \<and> packets_ok ov (n + flight1 ov e) es)"

text \<open>What the program promises: it never passes an \<^verbatim>\<open>OVERLAPPED\<close> that is in use.\<close>

fun exclusive :: "overlapped \<Rightarrow> int \<Rightarrow> wevent list \<Rightarrow> bool" where
  "exclusive ov n [] = True"
| "exclusive ov n (e # es) = ((passes ov e \<longrightarrow> n = 0) \<and> exclusive ov (n + flight1 ov e) es)"

lemma in_flight_append [simp]: "in_flight ov (xs @ ys) = in_flight ov xs + in_flight ov ys"
  by (induction xs) auto

lemma packets_ok_append [simp]:
  "packets_ok ov n (xs @ ys) \<longleftrightarrow> packets_ok ov n xs \<and> packets_ok ov (n + in_flight ov xs) ys"
  by (induction xs arbitrary: n) (auto simp: add.assoc)

lemma exclusive_append [simp]:
  "exclusive ov n (xs @ ys) \<longleftrightarrow> exclusive ov n xs \<and> exclusive ov (n + in_flight ov xs) ys"
  by (induction xs arbitrary: n) (auto simp: add.assoc)

text \<open>Events that neither pass nor complete anything change nothing.\<close>

definition idle :: "wevent \<Rightarrow> bool" where
  "idle e \<longleftrightarrow> (\<forall>ov. \<not> passes ov e \<and> flight1 ov e = 0 \<and> e \<noteq> WCompleted ov)"

lemma idle_events [simp]:
  "idle (WCb c)" "idle WNullCall" "idle (WAttach f)" "idle (WDetach f)" "idle (WWarn m)" "idle (WSys (WResult f ov) a)"
  "idle (WSys (WShutdown f) a)" "idle (WSys (WClose f) a)" "idle (WSys (WSocket n) a)"
  "idle (WSys (WBind f s l) a)" "idle (WSys (WListen f i) a)" "idle (WSys (WUpdateAccept f g) a)"
  "idle (WSys (WUpdateConnect f) a)" "\<not> idle (WCompleted ov)"
  by (simp_all add: idle_def)

lemma wconfig_idle: "wconfig fd e \<Longrightarrow> idle e"
  by (cases "(fd, e)" rule: wconfig.cases) (auto simp: idle_def)

lemma idle_list:
  "list_all idle es \<Longrightarrow> in_flight ov es = 0 \<and> packets_ok ov n es \<and> exclusive ov n es"
  by (induction es arbitrary: n) (auto simp: idle_def)

section \<open>Ownership of sockets\<close>

fun wcall_fds :: "wsyscall \<Rightarrow> SOCKET list" where
  "wcall_fds (WSocket _) = []"
| "wcall_fds (WClose f) = [f]"
| "wcall_fds (WNonBlock f) = [f]"
| "wcall_fds (WInherit f _) = [f]"
| "wcall_fds (WSetOpt f _ _ _) = [f]"
| "wcall_fds (WLinger f _ _) = [f]"
| "wcall_fds (WKeepAliveVals f _ _) = [f]"
| "wcall_fds (WFetchAcceptEx f) = [f]"
| "wcall_fds (WFetchConnectEx f) = [f]"
| "wcall_fds (WBind f _ _) = [f]"
| "wcall_fds (WListen f _) = [f]"
| "wcall_fds (WPeername f) = [f]"
| "wcall_fds (WSockname f) = [f]"
| "wcall_fds (WAcceptEx f g _) = [f, g]"
| "wcall_fds (WConnectEx f _ _) = [f]"
| "wcall_fds (WUpdateAccept f g) = [f, g]"
| "wcall_fds (WUpdateConnect f) = [f]"
| "wcall_fds (WRecv f _ _) = [f]"
| "wcall_fds (WSend f _ _) = [f]"
| "wcall_fds (WResult f _) = [f]"
| "wcall_fds (WShutdown f) = [f]"

text \<open>
  \<open>wowns S es\<close> follows the sockets a watcher owns through a log: \<^verbatim>\<open>socket\<close> adds one, closing one or
  handing a stream to \<open>on_accept\<close> or \<open>on_connected\<close> removes it. It is \<open>None\<close> when a socket that is not
  owned is closed or handed over; a stream without a socket moves nothing. It is a multiset, so nothing is assumed of the numbers that
  \<^verbatim>\<open>socket\<close> returns.
\<close>

definition give_up :: "SOCKET \<Rightarrow> SOCKET multiset \<Rightarrow> SOCKET multiset option" where
  "give_up f S = (if f \<in># S then Some (S - {#f#}) else None)"

definition one_fd :: "SOCKET \<Rightarrow> SOCKET multiset" where
  "one_fd f = (if f = INVALID_SOCKET then {#} else {#f#})"

fun wowns1 :: "SOCKET multiset \<Rightarrow> wevent \<Rightarrow> SOCKET multiset option" where
  "wowns1 S (WSys (WSocket _) a) = Some (if wret a = INVALID_SOCKET then S else add_mset (wret a) S)"
| "wowns1 S (WSys (WClose f) a) = give_up f S"
| "wowns1 S (WCb (OnAccept s)) = (if sfd s = INVALID_SOCKET then Some S else give_up (sfd s) S)"
| "wowns1 S (WCb (OnConnected s)) = (if sfd s = INVALID_SOCKET then Some S else give_up (sfd s) S)"
| "wowns1 S _ = Some S"

fun wowns :: "SOCKET multiset \<Rightarrow> wevent list \<Rightarrow> SOCKET multiset option" where
  "wowns S [] = Some S"
| "wowns S (e # es) = Option.bind (wowns1 S e) (\<lambda>S. wowns S es)"

lemma wowns_append: "wowns S (xs @ ys) = Option.bind (wowns S xs) (\<lambda>S. wowns S ys)"
  by (induction xs arbitrary: S) (auto split: Option.bind_split)

text \<open>Events that neither add nor remove a socket.\<close>

definition calm_event :: "wevent \<Rightarrow> bool" where
  "calm_event e \<longleftrightarrow> (\<forall>S. wowns1 S e = Some S)"

lemma calm_calls [simp]:
  "calm_event (WSys (WResult f ov) a)" "calm_event (WSys (WAcceptEx f g ov) a)" "calm_event (WSys (WUpdateAccept f g) a)"
  "calm_event (WSys (WSockname f) a)" "calm_event (WCompleted ov)" "calm_event (WAttach f)" "calm_event (WDetach f)"
  "calm_event (WCb (OnError e))" "calm_event (WSys (WConnectEx f s ov) a)" "calm_event (WSys (WUpdateConnect f) a)"
  "calm_event (WSys (WBind f s n) a)" "calm_event WNullCall"
  by (simp_all add: calm_event_def)

lemma wowns_calm: "list_all calm_event es \<Longrightarrow> wowns S es = Some S"
  by (induction es) (auto simp: calm_event_def)

lemma wconfig_calm: "wconfig fd e \<Longrightarrow> calm_event e"
  by (cases "(fd, e)" rule: wconfig.cases) (auto simp: calm_event_def)

lemma wowns_adds:
  assumes "wadds (wconfig fd) v w" "wowns S (wlog v) = Some T"
  shows "wowns S (wlog w) = Some T"
proof -
  obtain es where es: "wlog w = wlog v @ es" "list_all (wconfig fd) es" using assms(1) by (auto simp: wadds_def)
  then have "list_all calm_event es" using wconfig_calm by (auto simp: list_all_iff)
  with es(1) assms(2) wowns_calm [of es T] show ?thesis by (simp add: wowns_append)
qed

section \<open>Warnings\<close>

text \<open>
  \<^verbatim>\<open>setsockopt\<close> returns 0 when it succeeds, and the results that are turned into a \<open>bool\<close> are then
  false: the buffer sizes and the linger time warn exactly when they have been set.
\<close>

lemma warns_on_success:
  "\<exists>a. wlog (applyLingerIfConfigured os fd (Some s) w) =
     wlog w @ [WSys (if s < 0 then WLinger fd False 0 else WLinger fd True (word_of_int s)) a] @
       (if wret a = 0 then [WWarn ''fd applyLingerIfConfigured failed''] else [])"
  "\<exists>a. wlog (applyBufSizeIfConfigured os fd (Some i) None w) =
     wlog w @ [WSys (WSetOpt fd SO_RCVBUF i 4) a] @
       (if wret a = 0 then [WWarn ''fd applyBufSizeIfConfigured set recv_buf failed''] else [])"
  by (auto simp: applyLingerIfConfigured_def applyBufSizeIfConfigured_def set_buf_def wlog_warn_unless
      dest!: wlog_sys split: prod.split)

end
