(* ===== verification/Win_Tcp_Connection.thy ===== *)
theory Win_Tcp_Connection
  imports Win_Tcp_Socket "HOL-Library.Monad_Syntax"
begin

text \<open>
  The connection watcher of \<^verbatim>\<open>platform/windows/network/watcher/tcp_connection_watcher.cc\<close>. It gives
  the system a buffer and an \<^verbatim>\<open>OVERLAPPED\<close> for one receive and one send at a time and learns of their
  end from completion packets.

  Callbacks are user code and may call the watcher again; as the calls nest, the operations take a
  bound on the depth, and \<open>None\<close> means that the bound was too small. The two \<^verbatim>\<open>OVERLAPPED\<close> members
  have the addresses \<open>recv_ov\<close> and \<open>send_ov\<close>. Destroying the watcher from inside one of its own
  callbacks is not modelled.
\<close>

section \<open>State\<close>

definition recv_ov :: overlapped where "recv_ov = 1"
definition send_ov :: overlapped where "send_ov = 2"

text \<open>The first four flags say which callbacks are callable.\<close>

record 'k wconn =
  w_opts :: TcpConnectionOption
  w_fd :: SOCKET
  w_has_recv :: bool
  w_has_close :: bool
  w_has_error :: bool
  w_has_send_ready :: bool
  w_attached :: bool
  w_peer_closed :: bool
  w_want_send_ready :: bool
  w_closed :: bool
  w_receiving :: bool
  w_sending :: bool
  w_in_buf_size :: nat
  w_send_buf :: "u8 list"
  w_source :: bool
  w_src_fd :: SOCKET
  w_net :: "'k wnet"

type_synonym wuser = "wevent list \<Rightarrow> callback \<Rightarrow> act list"

definition wc_note :: "wevent \<Rightarrow> 'k wconn \<Rightarrow> 'k wconn" where
  "wc_note e st = st\<lparr>w_net := wemit e (w_net st)\<rparr>"

definition wc_sys :: "'k wos \<Rightarrow> wsyscall \<Rightarrow> 'k wconn \<Rightarrow> wanswer \<times> 'k wconn" where
  "wc_sys os c st = (let (a, w) = wsys os c (w_net st) in (a, st\<lparr>w_net := w\<rparr>))"

section \<open>Operations that do not run callbacks\<close>

definition consumeWindowsStream :: "TcpStream \<Rightarrow> tcp_error + SOCKET" where
  "consumeWindowsStream s = (if skind s = WindowsIocp then Inr (fst (releaseFd s)) else Inl StreamMismatch)"

definition new_wconn ::
    "'k wos \<Rightarrow> TcpConnectionOption \<Rightarrow> SOCKET \<Rightarrow> bool \<Rightarrow> bool \<Rightarrow> bool \<Rightarrow> bool \<Rightarrow> 'k wnet \<Rightarrow> 'k wconn" where
  "new_wconn os o' fd r c e s w =
    (let w = applyTcpNoDelayIfConfigured os fd (tcp_no_delay o') w;
         w = applyKeepAliveIfConfigured os fd (keep_alive o') (keep_alive_idle_sec o')
               (keep_alive_interval_sec o') (keep_alive_count o') w;
         w = applyBufSizeIfConfigured os fd (recv_buf_bytes o') (send_buf_bytes o') w;
         w = applyLingerIfConfigured os fd (linger_sec o') w
     in
     \<lparr>w_opts = o', w_fd = fd, w_has_recv = r, w_has_close = c, w_has_error = e, w_has_send_ready = s,
      w_attached = False, w_peer_closed = False, w_want_send_ready = False, w_closed = False,
      w_receiving = False, w_sending = False, w_in_buf_size = 64 * 1024, w_send_buf = [],
      w_source = True, w_src_fd = fd, w_net = w\<rparr>)"

definition stop :: "'k wconn \<Rightarrow> 'k wconn" where
  "stop st = (if \<not> w_attached st then st else (wc_note (WDetach (w_src_fd st)) st)\<lparr>w_attached := False\<rparr>)"

definition shutdownWrite :: "'k wos \<Rightarrow> 'k wconn \<Rightarrow> 'k wconn" where
  "shutdownWrite os st =
    (if w_fd st = INVALID_SOCKET then st else snd (wc_sys os (WShutdown (w_fd st)) st))"

definition wc_closeFd :: "'k wos \<Rightarrow> 'k wconn \<Rightarrow> 'k wconn" where
  "wc_closeFd os st = (let (fd, w) = closeFd os (w_fd st) (w_net st) in st\<lparr>w_fd := fd, w_net := w\<rparr>)"

definition destroy_wconn :: "'k wos \<Rightarrow> 'k wconn \<Rightarrow> 'k wconn" where
  "destroy_wconn os st = wc_closeFd os ((stop st)\<lparr>w_source := False\<rparr>)"

section \<open>Operations that run callbacks\<close>

type_synonym 'k wrunner = "callback \<Rightarrow> 'k wconn \<Rightarrow> 'k wconn option"

definition closeNow :: "'k wos \<Rightarrow> 'k wrunner \<Rightarrow> 'k wconn \<Rightarrow> 'k wconn option" where
  "closeNow os run st =
    (if w_closed st then Some st
     else
       let st = wc_closeFd os (stop (st\<lparr>w_closed := True\<rparr>)) in
       if w_has_close st then run OnClose st else Some st)"

text \<open>\<^verbatim>\<open>if (on_error_) on_error_(err); closeNow();\<close>\<close>

definition fail_close :: "'k wos \<Rightarrow> 'k wrunner \<Rightarrow> int \<Rightarrow> 'k wconn \<Rightarrow> 'k wconn option" where
  "fail_close os run e st =
    do {
      st \<leftarrow> (if w_has_error st then run (OnError e) st else Some st);
      closeNow os run st
    }"

definition startRecv :: "'k wos \<Rightarrow> 'k wrunner \<Rightarrow> 'k wconn \<Rightarrow> 'k wconn option" where
  "startRecv os run st =
    (if w_fd st = INVALID_SOCKET \<or> w_receiving st then Some st
     else
       let (a, st) = wc_sys os (WRecv (w_fd st) (w_in_buf_size st) recv_ov) st in
       if \<not> issued a then fail_close os run (werr a) st
       else Some (st\<lparr>w_receiving := True\<rparr>))"

definition start :: "'k wos \<Rightarrow> 'k wrunner \<Rightarrow> 'k wconn \<Rightarrow> 'k wconn option" where
  "start os run st =
    (if w_attached st then Some st
     else startRecv os run ((wc_note (WAttach (w_src_fd st)) st)\<lparr>w_attached := True\<rparr>))"

definition trySend :: "'k wos \<Rightarrow> 'k wrunner \<Rightarrow> u8 list \<Rightarrow> 'k wconn \<Rightarrow> (TrySendResult \<times> 'k wconn) option" where
  "trySend os run d st =
    (if w_fd st = INVALID_SOCKET then Some (\<lparr>sent = 0, would_block = False, send_err = WSAEBADF\<rparr>, st)
     else if d = [] then Some (\<lparr>sent = 0, would_block = False, send_err = 0\<rparr>, st)
     else if w_sending st then
       Some (\<lparr>sent = 0, would_block = True, send_err = 0\<rparr>, st\<lparr>w_want_send_ready := True\<rparr>)
     else
       let limit = min (max_write_bytes_per_tick (w_opts st)) (length d);
           st = st\<lparr>w_send_buf := take limit d, w_sending := True\<rparr>;
           (a, st) = wc_sys os (WSend (w_fd st) (w_send_buf st) send_ov) st
       in
       if \<not> issued a then
         do {
           st \<leftarrow> fail_close os run (werr a) (st\<lparr>w_sending := False, w_send_buf := []\<rparr>);
           Some (\<lparr>sent = 0, would_block = False, send_err = werr a\<rparr>, st)
         }
       else Some (\<lparr>sent = length (w_send_buf st), would_block = False, send_err = 0\<rparr>, st))"

fun do_act :: "'k wos \<Rightarrow> 'k wrunner \<Rightarrow> act \<Rightarrow> 'k wconn \<Rightarrow> 'k wconn option" where
  "do_act os run UClose st = closeNow os run st"
| "do_act os run (UTrySend d) st = map_option snd (trySend os run d st)"
| "do_act os run UShutdown st = Some (shutdownWrite os st)"
| "do_act os run UStop st = Some (stop st)"
| "do_act os run UStart st = start os run st"

fun do_acts :: "'k wos \<Rightarrow> 'k wrunner \<Rightarrow> act list \<Rightarrow> 'k wconn \<Rightarrow> 'k wconn option" where
  "do_acts os run [] st = Some st"
| "do_acts os run (a # as) st = do { st \<leftarrow> do_act os run a st; do_acts os run as st }"

fun callback :: "'k wos \<Rightarrow> wuser \<Rightarrow> nat \<Rightarrow> 'k wrunner" where
  "callback os user 0 cb st = None"
| "callback os user (Suc n) cb st =
    do_acts os (callback os user n) (user (wlog (w_net st)) cb) (wc_note (WCb cb) st)"

definition onRecvComplete :: "'k wos \<Rightarrow> 'k wrunner \<Rightarrow> 'k wconn \<Rightarrow> 'k wconn option" where
  "onRecvComplete os run st =
    (let (a, st) = wc_sys os (WResult (w_fd st) recv_ov) (st\<lparr>w_receiving := False\<rparr>) in
     if wret a = 0 then fail_close os run (werr a) st
     else if wout_n a = 0 then closeNow os run (st\<lparr>w_peer_closed := True\<rparr>)
     else
       do {
         st \<leftarrow> (if w_has_recv st then run (OnRecv (take (wout_n a) (wout_bytes a))) st else Some st);
         if \<not> w_closed st then startRecv os run st else Some st
       })"

definition onSendComplete :: "'k wos \<Rightarrow> 'k wrunner \<Rightarrow> 'k wconn \<Rightarrow> 'k wconn option" where
  "onSendComplete os run st =
    (let (a, st) = wc_sys os (WResult (w_fd st) send_ov) (st\<lparr>w_sending := False\<rparr>) in
     if wret a = 0 then fail_close os run (werr a) st
     else
       let st = st\<lparr>w_send_buf := []\<rparr> in
       if w_want_send_ready st \<and> \<not> w_closed st then
         (let st = st\<lparr>w_want_send_ready := False\<rparr> in
          if w_has_send_ready st then run OnSendReady st else Some st)
       else Some st)"

definition onCompletion :: "'k wos \<Rightarrow> 'k wrunner \<Rightarrow> IocpRawEvent \<Rightarrow> 'k wconn \<Rightarrow> 'k wconn option" where
  "onCompletion os run ev st =
    (if w_fd st = INVALID_SOCKET \<or> w_closed st then Some st
     else if ie_overlapped ev = 0 then Some st
     else if ie_overlapped ev = recv_ov then onRecvComplete os run st
     else if ie_overlapped ev = send_ov then onSendComplete os run st
     else Some st)"

section \<open>Runs\<close>

text \<open>The calls from outside: the event core hands out a completion, the owner calls the interface.\<close>

datatype wconn_op = WStart | WStop | WCompletion IocpRawEvent | WTrySend "u8 list" | WShutdownConn | WCloseConn

fun wconn_step :: "'k wos \<Rightarrow> wuser \<Rightarrow> nat \<Rightarrow> wconn_op \<Rightarrow> 'k wconn \<Rightarrow> 'k wconn option" where
  "wconn_step os user n WStart st = start os (callback os user n) st"
| "wconn_step os user n WStop st = Some (stop st)"
| "wconn_step os user n (WCompletion ev) st =
    onCompletion os (callback os user n) ev (wc_note (WCompleted (ie_overlapped ev)) st)"
| "wconn_step os user n (WTrySend d) st = map_option snd (trySend os (callback os user n) d st)"
| "wconn_step os user n WShutdownConn st = Some (shutdownWrite os st)"
| "wconn_step os user n WCloseConn st = closeNow os (callback os user n) st"

fun wconn_run :: "'k wos \<Rightarrow> wuser \<Rightarrow> nat \<Rightarrow> wconn_op list \<Rightarrow> 'k wconn \<Rightarrow> 'k wconn option" where
  "wconn_run os user n [] st = Some st"
| "wconn_run os user n (p # ps) st = do { st \<leftarrow> wconn_step os user n p st; wconn_run os user n ps st }"

text \<open>
  The factory takes the socket out of the stream; a stream of another platform makes it throw. For
  an invalid socket it calls \<open>on_error\<close> and returns no watcher.
\<close>

definition createIocpTcpConnectionWatcher ::
    "'k wos \<Rightarrow> TcpConnectionOption \<Rightarrow> TcpStream \<Rightarrow> bool \<Rightarrow> bool \<Rightarrow> bool \<Rightarrow> bool \<Rightarrow> 'k wnet \<Rightarrow>
      tcp_error + ('k wconn option \<times> 'k wnet)" where
  "createIocpTcpConnectionWatcher os o' s r c e sr w =
    (case consumeWindowsStream s of
       Inl err \<Rightarrow> Inl err
     | Inr fd \<Rightarrow>
         if fd = INVALID_SOCKET then Inr (None, if e then wemit (WCb (OnError WSAEBADF)) w else w)
         else (let st = new_wconn os o' fd r c e sr w in Inr (Some st, w_net st)))"

section \<open>Invariants of the watcher\<close>

text \<open>
  What every primitive step keeps, every operation keeps, however the callbacks nest. \<open>Pre\<close> is what
  holds when \<open>closeNow\<close> has closed the socket and is about to report it.
\<close>

locale wconn_keeps =
  fixes os :: "'k wos" and I Pre :: "'k wconn \<Rightarrow> bool"
  assumes attach: "I st \<Longrightarrow> I ((wc_note (WAttach (w_src_fd st)) st)\<lparr>w_attached := True\<rparr>)"
    and stop: "I st \<Longrightarrow> I (stop st)"
    and shutdown: "I st \<Longrightarrow> I (shutdownWrite os st)"
    and flags: "I st \<Longrightarrow> I (st\<lparr>w_want_send_ready := b\<rparr>)" "I st \<Longrightarrow> I (st\<lparr>w_peer_closed := b\<rparr>)"
      "I st \<Longrightarrow> \<not> w_sending st \<Longrightarrow> I (st\<lparr>w_send_buf := d\<rparr>)"
    and recv: "I st \<Longrightarrow> w_fd st \<noteq> INVALID_SOCKET \<Longrightarrow> \<not> w_receiving st \<Longrightarrow>
      wc_sys os (WRecv (w_fd st) n recv_ov) st = (a, st') \<Longrightarrow>
      I (if issued a then st'\<lparr>w_receiving := True\<rparr> else st')"
    and send: "I st \<Longrightarrow> w_fd st \<noteq> INVALID_SOCKET \<Longrightarrow> \<not> w_sending st \<Longrightarrow>
      wc_sys os (WSend (w_fd st) d send_ov) (st\<lparr>w_send_buf := d, w_sending := True\<rparr>) = (a, st') \<Longrightarrow>
      I (if issued a then st' else st'\<lparr>w_sending := False, w_send_buf := []\<rparr>)"
    and note_cb: "I st \<Longrightarrow> c \<noteq> OnClose \<Longrightarrow> I (wc_note (WCb c) st)"
    and note_close: "Pre st \<Longrightarrow> w_has_close st \<Longrightarrow> I (wc_note (WCb OnClose) st)"
    and closing: "I st \<Longrightarrow> \<not> w_closed st \<Longrightarrow> Pre (wc_closeFd os (stop (st\<lparr>w_closed := True\<rparr>)))"
    and pre: "Pre st \<Longrightarrow> \<not> w_has_close st \<Longrightarrow> I st"
    and completed_other: "I st \<Longrightarrow> w_fd st = INVALID_SOCKET \<or> w_closed st \<or> ov \<noteq> recv_ov \<and> ov \<noteq> send_ov \<Longrightarrow>
      I (wc_note (WCompleted ov) st)"
    and completed_recv: "I st \<Longrightarrow> w_fd st \<noteq> INVALID_SOCKET \<Longrightarrow> \<not> w_closed st \<Longrightarrow>
      wc_sys os (WResult (w_fd st) recv_ov) ((wc_note (WCompleted recv_ov) st)\<lparr>w_receiving := False\<rparr>) = (a, st') \<Longrightarrow> I st'"
    and completed_send: "I st \<Longrightarrow> w_fd st \<noteq> INVALID_SOCKET \<Longrightarrow> \<not> w_closed st \<Longrightarrow>
      wc_sys os (WResult (w_fd st) send_ov) ((wc_note (WCompleted send_ov) st)\<lparr>w_sending := False\<rparr>) = (a, st') \<Longrightarrow> I st'"
begin

definition runner_ok :: "'k wrunner \<Rightarrow> bool" where
  "runner_ok run \<longleftrightarrow>
    (\<forall>c st st'. run c st = Some st' \<longrightarrow> (if c = OnClose then Pre st \<and> w_has_close st else I st) \<longrightarrow> I st')"

lemma runner_okD:
  "runner_ok run \<Longrightarrow> run c st = Some st' \<Longrightarrow> c \<noteq> OnClose \<Longrightarrow> I st \<Longrightarrow> I st'"
  "runner_ok run \<Longrightarrow> run OnClose st = Some st' \<Longrightarrow> Pre st \<Longrightarrow> w_has_close st \<Longrightarrow> I st'"
  by (auto simp: runner_ok_def)

lemma optional_keeps:
  assumes "runner_ok run" "I st" "c \<noteq> OnClose" "(if b then run c st else Some st) = Some st'"
  shows "I st'"
  using assms by (cases b) (auto dest: runner_okD)

lemma closeNow_keeps:
  assumes "runner_ok run" "I st" "closeNow os run st = Some st'"
  shows "I st'"
  using assms closing [OF assms(2)] pre runner_okD(2)
  by (auto simp: closeNow_def Let_def split: if_splits)

lemma fail_close_keeps:
  assumes "runner_ok run" "I st" "fail_close os run e st = Some st'"
  shows "I st'"
  using assms(3) closeNow_keeps [OF assms(1)] optional_keeps [OF assms(1,2), of "OnError e"]
  unfolding fail_close_def bind_eq_Some_conv by blast

lemma startRecv_keeps:
  assumes "runner_ok run" "I st" "startRecv os run st = Some st'"
  shows "I st'"
proof (cases "w_fd st = INVALID_SOCKET \<or> w_receiving st")
  case True
  with assms show ?thesis by (simp add: startRecv_def)
next
  case False
  obtain a s1 where c: "wc_sys os (WRecv (w_fd st) (w_in_buf_size st) recv_ov) st = (a, s1)" by fastforce
  with recv [OF assms(2)] False have "I (if issued a then s1\<lparr>w_receiving := True\<rparr> else s1)" by blast
  with False assms(3) fail_close_keeps [OF assms(1)] show ?thesis
    by (cases "issued a") (auto simp: startRecv_def c)
qed

lemma start_keeps:
  assumes "runner_ok run" "I st" "start os run st = Some st'"
  shows "I st'"
  using assms startRecv_keeps [OF assms(1) attach [OF assms(2)]] by (auto simp: start_def split: if_splits)

lemma trySend_keeps:
  assumes "runner_ok run" "I st" "trySend os run d st = Some (r, st')"
  shows "I st'"
proof (cases "w_fd st = INVALID_SOCKET \<or> d = [] \<or> w_sending st")
  case True
  with assms flags show ?thesis by (auto simp: trySend_def split: if_splits)
next
  case False
  let ?d = "take (min (max_write_bytes_per_tick (w_opts st)) (length d)) d"
  obtain a s1 where c: "wc_sys os (WSend (w_fd st) ?d send_ov) (st\<lparr>w_send_buf := ?d, w_sending := True\<rparr>) = (a, s1)"
    by fastforce
  with send [OF assms(2)] False have "I (if issued a then s1 else s1\<lparr>w_sending := False, w_send_buf := []\<rparr>)" by blast
  with False assms(3) fail_close_keeps [OF assms(1)] show ?thesis
    by (cases "issued a") (auto simp: trySend_def c Let_def bind_eq_Some_conv)
qed

lemma do_acts_keeps:
  "runner_ok run \<Longrightarrow> I st \<Longrightarrow> do_acts os run as st = Some st' \<Longrightarrow> I st'"
proof (induction as arbitrary: st)
  case (Cons a as)
  then obtain s1 where 1: "do_act os run a st = Some s1" and 2: "do_acts os run as s1 = Some st'"
    by (auto simp: bind_eq_Some_conv)
  have "I s1"
    using 1 Cons.prems shutdown stop
    by (cases a) (auto dest: closeNow_keeps trySend_keeps start_keeps)
  with 2 Cons show ?case by blast
qed simp

lemma callback_keeps: "runner_ok (callback os user n)"
proof (induction n)
  case 0
  then show ?case by (simp add: runner_ok_def)
next
  case (Suc n)
  show ?case
    unfolding runner_ok_def
  proof (intro allI impI)
    fix c st st'
    assume r: "callback os user (Suc n) c st = Some st'"
      and i: "if c = OnClose then Pre st \<and> w_has_close st else I st"
    from i have "I (wc_note (WCb c) st)" by (cases "c = OnClose") (auto intro: note_cb note_close)
    with r do_acts_keeps [OF Suc.IH] show "I st'" by simp
  qed
qed

lemma recv_complete_keeps:
  assumes "runner_ok run" "I st" "w_fd st \<noteq> INVALID_SOCKET" "\<not> w_closed st"
    and "onRecvComplete os run (wc_note (WCompleted recv_ov) st) = Some st'"
  shows "I st'"
proof -
  obtain a s1 where c: "wc_sys os (WResult (w_fd st) recv_ov)
      ((wc_note (WCompleted recv_ov) st)\<lparr>w_receiving := False\<rparr>) = (a, s1)" by fastforce
  note i = completed_recv [OF assms(2-4) c]
  have fd: "w_fd (wc_note e st) = w_fd st" for e by (simp add: wc_note_def)
  consider "wret a = 0" | "wret a \<noteq> 0" "wout_n a = 0" | "wret a \<noteq> 0" "wout_n a \<noteq> 0" by blast
  then show ?thesis
  proof cases
    case 3
    then have "do {
        st \<leftarrow> (if w_has_recv s1 then run (OnRecv (take (wout_n a) (wout_bytes a))) s1 else Some s1);
        if \<not> w_closed st then startRecv os run st else Some st
      } = Some st'"
      using assms(5) unfolding onRecvComplete_def fd c Let_def prod.case by (simp only: if_False simp_thms)
    then obtain s2 where
      2: "(if w_has_recv s1 then run (OnRecv (take (wout_n a) (wout_bytes a))) s1 else Some s1) = Some s2"
      and 3: "(if \<not> w_closed s2 then startRecv os run s2 else Some s2) = Some st'"
      unfolding bind_eq_Some_conv by blast
    have "I s2" using optional_keeps [OF assms(1) i _ 2] by simp
    with 3 startRecv_keeps [OF assms(1)] show ?thesis by (auto split: if_splits)
  qed (use assms(5) fail_close_keeps [OF assms(1) i] closeNow_keeps [OF assms(1) flags(2) [OF i]]
      in \<open>simp_all add: onRecvComplete_def fd c\<close>)
qed

lemma send_complete_keeps:
  assumes "runner_ok run" "I st" "w_fd st \<noteq> INVALID_SOCKET" "\<not> w_closed st"
    and "onSendComplete os run (wc_note (WCompleted send_ov) st) = Some st'"
  shows "I st'"
proof -
  obtain a s1 where c: "wc_sys os (WResult (w_fd st) send_ov)
      ((wc_note (WCompleted send_ov) st)\<lparr>w_sending := False\<rparr>) = (a, s1)" by fastforce
  note i = completed_send [OF assms(2-4) c]
  have fd: "w_fd (wc_note e st) = w_fd st" for e by (simp add: wc_note_def)
  have "\<not> w_sending s1" using c by (auto simp: wc_sys_def split: prod.splits)
  then have i2: "I (s1\<lparr>w_send_buf := []\<rparr>)" using flags(3) [OF i] by blast
  show ?thesis
  proof (cases "wret a = 0")
    case True
    with assms(5) fail_close_keeps [OF assms(1) i] show ?thesis by (simp add: onSendComplete_def fd c)
  next
    case False
    with assms(5) i2 flags(1) [OF i2] optional_keeps [OF assms(1) flags(1) [OF i2], of OnSendReady]
    show ?thesis by (auto simp: onSendComplete_def fd c Let_def split: if_splits)
  qed
qed

lemma wconn_step_keeps: "I st \<Longrightarrow> wconn_step os user n p st = Some st' \<Longrightarrow> I st'"
proof (cases p)
  case (WCompletion ev)
  let ?s = "wc_note (WCompleted (ie_overlapped ev)) st"
  have same: "w_fd ?s = w_fd st" "w_closed ?s = w_closed st" by (simp_all add: wc_note_def)
  assume i: "I st" and "wconn_step os user n p st = Some st'"
  with WCompletion have s: "onCompletion os (callback os user n) ev ?s = Some st'" by simp
  show ?thesis
  proof (cases "w_fd st = INVALID_SOCKET \<or> w_closed st \<or> ie_overlapped ev \<noteq> recv_ov \<and> ie_overlapped ev \<noteq> send_ov")
    case True
    then have "st' = ?s"
      using s by (auto simp: onCompletion_def same recv_ov_def send_ov_def split: if_splits)
    then show ?thesis using completed_other [OF i True] by simp
  next
    case False
    then show ?thesis
      using s recv_complete_keeps [OF callback_keeps i] send_complete_keeps [OF callback_keeps i]
      by (auto simp: onCompletion_def same recv_ov_def send_ov_def)
  qed
qed (auto dest: start_keeps [OF callback_keeps] trySend_keeps [OF callback_keeps]
    closeNow_keeps [OF callback_keeps] intro: stop shutdown)

lemma wconn_run_keeps: "I st \<Longrightarrow> wconn_run os user n ps st = Some st' \<Longrightarrow> I st'"
  by (induction ps arbitrary: st) (auto simp: bind_eq_Some_conv dest: wconn_step_keeps)

end

section \<open>The socket and the callbacks over a whole life\<close>

text \<open>
  \<open>wlife F True es\<close> follows an open socket \<open>F\<close> through a log. It is \<open>None\<close> when \<open>F\<close> is named after it
  was closed or a call names another socket; otherwise it says whether \<open>F\<close> is still open at the end.
\<close>

fun wlife1 :: "SOCKET \<Rightarrow> bool \<Rightarrow> wevent \<Rightarrow> bool option" where
  "wlife1 F op (WSys (WClose f) a) = (if op \<and> f = F then Some False else None)"
| "wlife1 F op (WSys c a) = (if op \<and> wcall_fds c = [F] then Some op else None)"
| "wlife1 F op _ = Some op"

fun wlife :: "SOCKET \<Rightarrow> bool \<Rightarrow> wevent list \<Rightarrow> bool option" where
  "wlife F op [] = Some op"
| "wlife F op (e # es) = do { op \<leftarrow> wlife1 F op e; wlife F op es }"

lemma wlife_append: "wlife F op (xs @ ys) = do { op \<leftarrow> wlife F op xs; wlife F op ys }"
  by (induction xs arbitrary: op) (auto split: bind_split)

definition wcloses :: "wevent list \<Rightarrow> nat" where
  "wcloses es = length (filter (\<lambda>e. e = WCb OnClose) es)"

definition wlife_inv :: "SOCKET \<Rightarrow> 'k wconn \<Rightarrow> bool" where
  "wlife_inv F st \<longleftrightarrow>
    F \<noteq> INVALID_SOCKET \<and> w_fd st = (if w_closed st then INVALID_SOCKET else F) \<and>
    wlife F True (wlog (w_net st)) = Some (\<not> w_closed st) \<and>
    wcloses (wlog (w_net st)) = (if w_closed st \<and> w_has_close st then 1 else 0)"

definition wlife_pre :: "SOCKET \<Rightarrow> 'k wconn \<Rightarrow> bool" where
  "wlife_pre F st \<longleftrightarrow>
    F \<noteq> INVALID_SOCKET \<and> w_fd st = INVALID_SOCKET \<and> w_closed st \<and>
    wlife F True (wlog (w_net st)) = Some False \<and> wcloses (wlog (w_net st)) = 0"

lemma wc_sysD:
  assumes "wc_sys os c st = (a, st')"
  obtains w where "wlog w = wlog (w_net st) @ [WSys c a]" "st' = st\<lparr>w_net := w\<rparr>"
  using assms wlog_sys by (fastforce simp: wc_sys_def split: prod.splits)

lemma wlife_inv_note:
  assumes "wlife_inv F st" "\<And>op. wlife1 F op e = Some op" "e \<noteq> WCb OnClose"
  shows "wlife_inv F (wc_note e st)"
  using assms by (simp add: wlife_inv_def wlife_append wcloses_def wc_note_def)

lemma wlife_inv_sys:
  assumes "wlife_inv F st" "wc_sys os c st = (a, st')" "wcall_fds c = [w_fd st]" "w_fd st \<noteq> INVALID_SOCKET"
    "\<And>f. c \<noteq> WClose f"
  shows "wlife_inv F st'"
proof (rule wc_sysD [OF assms(2)])
  fix w
  assume w: "wlog w = wlog (w_net st) @ [WSys c a]" "st' = st\<lparr>w_net := w\<rparr>"
  have "\<not> w_closed st" "wcall_fds c = [F]" using assms(1,3,4) by (auto simp: wlife_inv_def split: if_splits)
  then have "wlife1 F True (WSys c a) = Some True" using assms(5) by (cases c) auto
  then show "wlife_inv F st'"
    using assms(1) w \<open>\<not> w_closed st\<close> by (simp add: wlife_inv_def wlife_append wcloses_def)
qed

lemma wlife_inv_fields [simp]:
  "wlife_inv F (st\<lparr>w_want_send_ready := b\<rparr>) = wlife_inv F st"
  "wlife_inv F (st\<lparr>w_peer_closed := b\<rparr>) = wlife_inv F st"
  "wlife_inv F (st\<lparr>w_attached := b\<rparr>) = wlife_inv F st"
  "wlife_inv F (st\<lparr>w_receiving := b\<rparr>) = wlife_inv F st"
  "wlife_inv F (st\<lparr>w_sending := b\<rparr>) = wlife_inv F st"
  "wlife_inv F (st\<lparr>w_send_buf := d\<rparr>) = wlife_inv F st"
  "wlife_inv F (st\<lparr>w_source := b\<rparr>) = wlife_inv F st"
  by (simp_all add: wlife_inv_def)

lemma wlife_inv_stop: "wlife_inv F st \<Longrightarrow> wlife_inv F (stop st)"
  by (simp add: stop_def wlife_inv_note)

lemma w_stop_fields [simp]:
  "w_fd (stop st) = w_fd st" "w_closed (stop st) = w_closed st" "w_has_close (stop st) = w_has_close st"
  "w_receiving (stop st) = w_receiving st" "w_sending (stop st) = w_sending st" "w_send_buf (stop st) = w_send_buf st"
  by (simp_all add: stop_def wc_note_def)

lemma stop_log: "wlog (w_net (stop st)) = wlog (w_net st) @ (if w_attached st then [WDetach (w_src_fd st)] else [])"
  by (simp add: stop_def wc_note_def)

lemma wlife_pre_closing:
  assumes "wlife_inv F st" "\<not> w_closed st"
  shows "wlife_pre F (wc_closeFd os (stop (st\<lparr>w_closed := True\<rparr>)))"
  using assms
  by (simp add: wlife_pre_def wlife_inv_def wc_closeFd_def closeFd_def stop_log wlife_append wcloses_def)

interpretation wconn_life: wconn_keeps os "wlife_inv F" "wlife_pre F"
  for os :: "'k wos" and F
proof unfold_locales
  fix st st' :: "'k wconn" and a d n
  assume i: "wlife_inv F st" and fd: "w_fd st \<noteq> INVALID_SOCKET"
  show "wlife_inv F (if issued a then st'\<lparr>w_receiving := True\<rparr> else st')"
    if "wc_sys os (WRecv (w_fd st) n recv_ov) st = (a, st')"
    using wlife_inv_sys [OF i that] fd by simp
  show "wlife_inv F (if issued a then st' else st'\<lparr>w_sending := False, w_send_buf := []\<rparr>)"
    if "wc_sys os (WSend (w_fd st) d send_ov) (st\<lparr>w_send_buf := d, w_sending := True\<rparr>) = (a, st')"
    using wlife_inv_sys [OF _ that] i fd by simp
  have n: "wlife_inv F (wc_note (WCompleted ov) st)" "w_fd (wc_note e st) = w_fd st" for ov e
    using wlife_inv_note [OF i] by (simp_all add: wc_note_def)
  show "wlife_inv F st'"
    if "wc_sys os (WResult (w_fd st) recv_ov) ((wc_note (WCompleted recv_ov) st)\<lparr>w_receiving := False\<rparr>) = (a, st')"
    using wlife_inv_sys [OF _ that] n fd by simp
  show "wlife_inv F st'"
    if "wc_sys os (WResult (w_fd st) send_ov) ((wc_note (WCompleted send_ov) st)\<lparr>w_sending := False\<rparr>) = (a, st')"
    using wlife_inv_sys [OF _ that] n fd by simp
next
  fix st :: "'k wconn"
  assume i: "wlife_inv F st"
  show "wlife_inv F (shutdownWrite os st)"
  proof (cases "w_fd st = INVALID_SOCKET")
    case False
    obtain a s1 where "wc_sys os (WShutdown (w_fd st)) st = (a, s1)" by fastforce
    with False wlife_inv_sys [OF i this] show ?thesis by (simp add: shutdownWrite_def)
  qed (use i in \<open>simp add: shutdownWrite_def\<close>)
next
  show "wlife_inv F st \<Longrightarrow> \<not> w_closed st \<Longrightarrow> wlife_pre F (wc_closeFd os (stop (st\<lparr>w_closed := True\<rparr>)))"
    for st :: "'k wconn" by (rule wlife_pre_closing)
qed (auto intro: wlife_inv_note wlife_inv_stop
    simp: wlife_pre_def wlife_inv_def wlife_append wcloses_def wc_note_def stop_log)

text \<open>The log of a new watcher only configures the socket.\<close>

lemma new_wconn_log:
  "\<exists>es. wlog (w_net (new_wconn os o' fd r c e s w)) = wlog w @ es \<and> list_all (wconfig fd) es"
proof -
  have "wadds (wconfig fd) w (w_net (new_wconn os o' fd r c e s w))"
    unfolding new_wconn_def Let_def wconn.simps
    by (rule wadds_trans [OF wadds_trans [OF wadds_trans [OF wadds_config(4) wadds_keepalive]
          wadds_config(5)] wadds_config(6)])
  then show ?thesis by (simp add: wadds_def)
qed

lemma wlife_config: "list_all (wconfig F) es \<Longrightarrow> wlife F True es = Some True \<and> wcloses es = 0"
proof (induction es)
  case (Cons e es)
  then have "wlife1 F True e = Some True \<and> e \<noteq> WCb OnClose"
    by (cases "(F, e)" rule: wconfig.cases) auto
  with Cons show ?case by (simp add: wcloses_def)
qed (simp add: wcloses_def)

lemma wlife_new_wconn:
  assumes "F \<noteq> INVALID_SOCKET" "wlog w = []"
  shows "wlife_inv F (new_wconn os o' F r c e s w)"
proof -
  obtain es where "wlog (w_net (new_wconn os o' F r c e s w)) = es" "list_all (wconfig F) es"
    using new_wconn_log [of os o' F r c e s w] assms(2) by auto
  then show ?thesis using wlife_config [of F es] assms(1)
    by (simp add: wlife_inv_def) (simp add: new_wconn_def Let_def)
qed


section \<open>One operation of each kind\<close>

definition w_busy :: "overlapped \<Rightarrow> 'k wconn \<Rightarrow> bool" where
  "w_busy ov st = (if ov = recv_ov then w_receiving st else w_sending st)"

text \<open>The bytes of the last send in a log.\<close>

fun sent1 :: "wevent \<Rightarrow> u8 list \<Rightarrow> u8 list" where
  "sent1 (WSys (WSend _ d _) a) x = d"
| "sent1 _ x = x"

definition last_sent :: "wevent list \<Rightarrow> u8 list" where
  "last_sent es = fold sent1 es []"

definition wflight_inv :: "'k wconn \<Rightarrow> bool" where
  "wflight_inv st \<longleftrightarrow>
    (w_closed st \<longleftrightarrow> w_fd st = INVALID_SOCKET) \<and>
    (w_sending st \<longrightarrow> w_send_buf st = last_sent (wlog (w_net st))) \<and>
    (\<forall>ov \<in> {recv_ov, send_ov}. packets_ok ov 0 (wlog (w_net st)) \<longrightarrow>
      exclusive ov 0 (wlog (w_net st)) \<and>
      (\<not> w_closed st \<longrightarrow> in_flight ov (wlog (w_net st)) = of_bool (w_busy ov st)))"

lemma ov_distinct [simp]: "recv_ov \<noteq> send_ov" "send_ov \<noteq> recv_ov"
  by (simp_all add: recv_ov_def send_ov_def)

lemma sent1_idle: "idle e \<Longrightarrow> sent1 e x = x"
  by (cases "(e, x)" rule: sent1.cases) (auto simp: idle_def)

lemma last_sent_idle: "list_all idle es \<Longrightarrow> last_sent (xs @ es) = last_sent xs"
proof (induction es arbitrary: xs)
  case (Cons e es)
  then show ?case using Cons.IH [of "xs @ [e]"] by (simp add: sent1_idle last_sent_def)
qed simp

text \<open>Steps that only add idle events and keep what the invariant reads.\<close>

lemma wflight_idle:
  assumes "wflight_inv st" "wlog (w_net st') = wlog (w_net st) @ es" "list_all idle es"
    and "w_closed st' = w_closed st" "w_fd st' = w_fd st" "w_receiving st' = w_receiving st"
    "w_sending st' = w_sending st" "w_sending st \<Longrightarrow> w_send_buf st' = w_send_buf st"
  shows "wflight_inv st'"
  using assms idle_list [OF assms(3)]
  by (simp add: wflight_inv_def last_sent_idle w_busy_def)

lemma wflight_sys:
  assumes "wflight_inv st" "wc_sys os c st = (a, st')" "idle (WSys c a)"
  shows "wflight_inv st'"
  by (rule wc_sysD [OF assms(2)], rule wflight_idle [OF assms(1), of _ "[WSys c a]"]) (use assms(3) in auto)

lemma wflight_recv:
  assumes "wflight_inv st" "w_fd st \<noteq> INVALID_SOCKET" "\<not> w_receiving st"
    and "wc_sys os (WRecv (w_fd st) n recv_ov) st = (a, st')"
  shows "wflight_inv (if issued a then st'\<lparr>w_receiving := True\<rparr> else st')"
  by (rule wc_sysD [OF assms(4)]) (use assms(1-3) in \<open>auto simp: wflight_inv_def w_busy_def last_sent_def\<close>)

lemma wflight_send:
  assumes "wflight_inv st" "w_fd st \<noteq> INVALID_SOCKET" "\<not> w_sending st"
    and "wc_sys os (WSend (w_fd st) d send_ov) (st\<lparr>w_send_buf := d, w_sending := True\<rparr>) = (a, st')"
  shows "wflight_inv (if issued a then st' else st'\<lparr>w_sending := False, w_send_buf := []\<rparr>)"
  by (rule wc_sysD [OF assms(4)]) (use assms(1-3) in \<open>auto simp: wflight_inv_def w_busy_def last_sent_def\<close>)

lemma wflight_completed:
  assumes "wflight_inv st" "\<not> w_closed st"
  shows "wflight_inv ((wc_note (WCompleted recv_ov) st)\<lparr>w_receiving := False\<rparr>)"
    and "wflight_inv ((wc_note (WCompleted send_ov) st)\<lparr>w_sending := False\<rparr>)"
  using assms by (auto simp: wflight_inv_def w_busy_def last_sent_def wc_note_def split: if_splits)

lemma wflight_other:
  assumes "wflight_inv st" "w_fd st = INVALID_SOCKET \<or> w_closed st \<or> ov \<noteq> recv_ov \<and> ov \<noteq> send_ov"
  shows "wflight_inv (wc_note (WCompleted ov) st)"
  using assms by (auto simp: wflight_inv_def w_busy_def last_sent_def wc_note_def)

lemma wflight_note: "wflight_inv st \<Longrightarrow> idle e \<Longrightarrow> wflight_inv (wc_note e st)"
  by (rule wflight_idle [of _ _ "[e]"]) (auto simp: wc_note_def)

lemma wflight_stop: "wflight_inv st \<Longrightarrow> wflight_inv (stop st)"
  by (rule wflight_idle [of st, OF _ stop_log]) auto

lemma wflight_shutdown: "wflight_inv st \<Longrightarrow> wflight_inv (shutdownWrite os st)"
  by (cases "wc_sys os (WShutdown (w_fd st)) st") (auto simp: shutdownWrite_def intro: wflight_sys)

text \<open>Closing makes the watcher closed and its socket invalid at once.\<close>

lemma wflight_closing:
  assumes "wflight_inv st" "\<not> w_closed st"
  shows "wflight_inv (wc_closeFd os (stop (st\<lparr>w_closed := True\<rparr>)))"
proof -
  let ?s = "wc_closeFd os (stop (st\<lparr>w_closed := True\<rparr>))"
  have "w_fd st \<noteq> INVALID_SOCKET" using assms by (simp add: wflight_inv_def)
  then obtain es where l: "wlog (w_net ?s) = wlog (w_net st) @ es" and es: "list_all idle es"
    by (auto simp: wc_closeFd_def closeFd_def stop_log)
  have "w_fd ?s = INVALID_SOCKET" "w_closed ?s" "w_sending ?s = w_sending st" "w_send_buf ?s = w_send_buf st"
    using \<open>w_fd st \<noteq> INVALID_SOCKET\<close> by (simp_all add: wc_closeFd_def closeFd_def)
  then show ?thesis
    using assms l idle_list [OF es] last_sent_idle [OF es] by (simp add: wflight_inv_def)
qed

interpretation wconn_flight: wconn_keeps os wflight_inv wflight_inv
  for os :: "'k wos"
proof unfold_locales
  fix st st' :: "'k wconn" and a
  assume i: "wflight_inv st" and c: "\<not> w_closed st"
  have fd: "w_fd (wc_note e st) = w_fd st" for e by (simp add: wc_note_def)
  show "wflight_inv st'"
    if "wc_sys os (WResult (w_fd st) recv_ov) ((wc_note (WCompleted recv_ov) st)\<lparr>w_receiving := False\<rparr>) = (a, st')"
    using wflight_sys [OF wflight_completed(1) [OF i c] that] by simp
  show "wflight_inv st'"
    if "wc_sys os (WResult (w_fd st) send_ov) ((wc_note (WCompleted send_ov) st)\<lparr>w_sending := False\<rparr>) = (a, st')"
    using wflight_sys [OF wflight_completed(2) [OF i c] that] by simp
next
  fix st st' :: "'k wconn" and a d n
  assume i: "wflight_inv st" and fd: "w_fd st \<noteq> INVALID_SOCKET"
  show "wflight_inv (if issued a then st'\<lparr>w_receiving := True\<rparr> else st')"
    if "\<not> w_receiving st" "wc_sys os (WRecv (w_fd st) n recv_ov) st = (a, st')"
    by (rule wflight_recv [OF i fd that])
  show "wflight_inv (if issued a then st' else st'\<lparr>w_sending := False, w_send_buf := []\<rparr>)"
    if "\<not> w_sending st" "wc_sys os (WSend (w_fd st) d send_ov) (st\<lparr>w_send_buf := d, w_sending := True\<rparr>) = (a, st')"
    by (rule wflight_send [OF i fd that])
next
  fix st :: "'k wconn" and b d
  assume i: "wflight_inv st"
  show "wflight_inv ((wc_note (WAttach (w_src_fd st)) st)\<lparr>w_attached := True\<rparr>)"
    by (rule wflight_idle [OF i, of _ "[WAttach (w_src_fd st)]"]) (auto simp: wc_note_def)
  show "wflight_inv (st\<lparr>w_want_send_ready := b\<rparr>)" "wflight_inv (st\<lparr>w_peer_closed := b\<rparr>)"
    by (rule wflight_idle [OF i, of _ "[]"]; simp)+
  show "wflight_inv (st\<lparr>w_send_buf := d\<rparr>)" if "\<not> w_sending st"
    by (rule wflight_idle [OF i, of _ "[]"]) (use that in simp_all)
qed (auto intro: wflight_stop wflight_shutdown wflight_closing wflight_other wflight_note)

lemma wflight_new:
  assumes "F \<noteq> INVALID_SOCKET" "wlog w = []"
  shows "wflight_inv (new_wconn os o' F r c e s w)"
proof -
  obtain es where es: "wlog (w_net (new_wconn os o' F r c e s w)) = es" "list_all (wconfig F) es"
    using new_wconn_log [of os o' F r c e s w] assms(2) by auto
  then have "list_all idle es" using wconfig_idle by (auto simp: list_all_iff)
  with es(1) show ?thesis using idle_list [of es] assms(1)
    by (simp add: wflight_inv_def) (simp add: new_wconn_def Let_def w_busy_def)
qed


text \<open>A system on which every operation is pending at first and then transfers three bytes.\<close>

definition demo_wos :: "unit wos" where
  "demo_wos = (\<lambda>_ c.
     let a = \<lparr>wret = 0, werr = 0, wout_ptr = True, wout_addr = None, wout_len = 0, wout_n = 0, wout_bytes = []\<rparr> in
     (case c of
        WRecv _ _ _ \<Rightarrow> a\<lparr>wret := SOCKET_ERROR, werr := WSA_IO_PENDING\<rparr>
      | WSend _ _ _ \<Rightarrow> a\<lparr>wret := SOCKET_ERROR, werr := WSA_IO_PENDING\<rparr>
      | WResult _ _ \<Rightarrow> a\<lparr>wret := 1, wout_n := 3, wout_bytes := [1, 2, 3, 4]\<rparr>
      | _ \<Rightarrow> a, ()))"

text \<open>A user who answers what it receives and sends again when it may.\<close>

definition demo_wuser :: wuser where
  "demo_wuser = (\<lambda>_ c. case c of OnRecv d \<Rightarrow> [UTrySend d] | OnSendReady \<Rightarrow> [UTrySend [9], UStop, UStart] | _ \<Rightarrow> [])"

definition demo_packet :: "overlapped \<Rightarrow> IocpRawEvent" where
  "demo_packet ov = \<lparr>ie_key = 5, ie_overlapped = ov, ie_bytes = 3, ie_error = 0\<rparr>"

definition demo_wops :: "wconn_op list" where
  "demo_wops = [WStart, WTrySend [7, 8], WTrySend [6], WCompletion (demo_packet recv_ov),
     WCompletion (demo_packet send_ov), WCompletion (demo_packet recv_ov)]"

definition small_option :: TcpConnectionOption where
  "small_option = default_connection_option\<lparr>max_write_bytes_per_tick := 8\<rparr>"

definition demo_wnet :: "unit wnet" where
  "demo_wnet = \<lparr>wkern = (), wlog = []\<rparr>"

definition demo_wconn :: "unit wconn" where
  "demo_wconn = new_wconn demo_wos small_option 5 True True True True demo_wnet"

lemmas demo_w_defs = demo_wconn_def demo_wnet_def new_wconn_def small_option_def default_connection_option_def
  default_sock_options_def TcpConnectionOption.fields_def sock_options.extend_def
  applyTcpNoDelayIfConfigured_def applyKeepAliveIfConfigured_def applyBufSizeIfConfigured_def set_buf_def
  applyLingerIfConfigured_def demo_wos_def demo_wuser_def demo_wops_def demo_packet_def
  start_def startRecv_def stop_def trySend_def onCompletion_def onRecvComplete_def onSendComplete_def
  wc_note_def wc_sys_def wsys_def wemit_def INVALID_SOCKET_def recv_ov_def send_ov_def issued_def
  SOCKET_ERROR_def WSA_IO_PENDING_def

lemma demo_wconn_run:
  "\<exists>st. wconn_run demo_wos demo_wuser (Suc (Suc (Suc 0))) demo_wops demo_wconn = Some st \<and> packets_ok send_ov 0 (wlog (w_net st)) \<and>
     w_sending st \<and> \<not> w_closed st \<and> w_send_buf st = [9]"
  by (simp add: demo_w_defs)



section \<open>Operations that outlive the watcher\<close>

lemma closeNow_silent:
  assumes "\<not> w_closed st" "\<And>l c. user l c = []"
  shows "\<exists>st'. closeNow os (callback os user (Suc n)) st = Some st' \<and> w_closed st' \<and>
    in_flight ov (wlog (w_net (destroy_wconn os st'))) = in_flight ov (wlog (w_net st))"
  using assms
  by (auto simp: closeNow_def Let_def wc_closeFd_def closeFd_def destroy_wconn_def wc_note_def stop_log stop_def)



text \<open>
  Stopping and starting again does not post a receive: \<open>receiving_\<close> is still set. If the completion was
  handed out in between, when no source was attached to take it, nothing is received any more.
\<close>

lemma restart_posts_no_receive:
  assumes "w_attached st" "w_receiving st"
  shows "wconn_run os user n [WStop, WStart] st =
    Some (st\<lparr>w_net := wemit (WAttach (w_src_fd st)) (wemit (WDetach (w_src_fd st)) (w_net st))\<rparr>)"
  using assms by (simp add: start_def stop_def startRecv_def wc_note_def)

end
