(* ===== verification/Win_Tcp_Accept.thy ===== *)
theory Win_Tcp_Accept
  imports Win_Tcp_Socket "HOL-Library.Monad_Syntax"
begin

text \<open>
  The accept watcher of \<^verbatim>\<open>platform/windows/network/watcher/tcp_accept_watcher.cc\<close>. It keeps a number
  of \<^verbatim>\<open>AcceptEx\<close> operations in the hands of the system, each with a socket, a buffer and an
  \<^verbatim>\<open>OVERLAPPED\<close> of its own, and posts an operation again when it has completed.

  The \<^verbatim>\<open>OVERLAPPED\<close> of slot \<open>i\<close> has the address \<open>accept_ov i\<close>: the vector of the slots gets its size in
  the first \<^verbatim>\<open>start()\<close> and keeps it. Callbacks may call \<^verbatim>\<open>start()\<close> and \<^verbatim>\<open>stop()\<close>; the bound on the depth is as
  for the connection watcher.
\<close>

section \<open>The listening socket\<close>

text \<open>The results are the socket and the error that \<^verbatim>\<open>WSAGetLastError()\<close> gives after a failure.\<close>

definition createListenSocket :: "'k wos \<Rightarrow> TcpAcceptOption \<Rightarrow> 'k wnet \<Rightarrow> SOCKET \<times> int \<times> 'k wnet" where
  "createListenSocket os o' w =
    (let (ss, ss_len) = toSockaddr (local_ep o');
         family = win_family ss;
         (a, w) = wsys os (WSocket family) w;
         fd = wret a
     in
     if fd = INVALID_SOCKET then (INVALID_SOCKET, werr a, w)
     else
       let w = applyCloseOnExecIfConfigured os fd (set_close_on_exec o') w;
           w = applyTcpReuseAddrIfConfigured os fd (reuse_addr o') w;
           w = (if family = WIN_AF_INET6 then
                  (case ipv6_only o' of
                     None \<Rightarrow> w
                   | Some b \<Rightarrow> wsys_void os (WSetOpt fd IPV6_V6ONLY (if b then 1 else 0) 4) w)
                else w);
           (a, w) = wsys os (WBind fd ss ss_len) w
       in
       if wret a \<noteq> 0 then
         let (b, w) = wsys os (WClose fd) w in (INVALID_SOCKET, werr b, w)
       else
         let (a, w) = wsys os (WListen fd (backlog o')) w in
         if wret a \<noteq> 0 then
           let (b, w) = wsys os (WClose fd) w in (INVALID_SOCKET, werr b, w)
         else (fd, werr a, w))"

definition createAcceptSocket :: "'k wos \<Rightarrow> SOCKET \<Rightarrow> 'k wnet \<Rightarrow> SOCKET \<times> int \<times> 'k wnet" where
  "createAcceptSocket os listen_fd w =
    (let (a, w) = wsys os (WSockname listen_fd) w in
     if wret a \<noteq> 0 then (INVALID_SOCKET, werr a, w)
     else
       let family = (case wout_addr a of Some s \<Rightarrow> win_family s | None \<Rightarrow> 0);
           (b, w) = wsys os (WSocket family) w
       in (wret b, werr b, w))"

definition bestEffortConfigureAcceptedSocket :: "'k wos \<Rightarrow> SOCKET \<Rightarrow> TcpAcceptOption \<Rightarrow> 'k wnet \<Rightarrow> 'k wnet" where
  "bestEffortConfigureAcceptedSocket os fd o' w =
    (let w = applyCloseOnExecIfConfigured os fd (set_close_on_exec o') w;
         w = applyTcpNoDelayIfConfigured os fd (tcp_no_delay o') w;
         w = applyKeepAliveIfConfigured os fd (keep_alive o') (keep_alive_idle_sec o')
               (keep_alive_interval_sec o') (keep_alive_count o') w
     in applyBufSizeIfConfigured os fd (recv_buf_bytes o') (send_buf_bytes o') w)"

section \<open>The watcher\<close>

record AcceptOp =
  ao_fd :: SOCKET
  ao_buffer :: bool
  ao_in_flight :: bool

definition new_AcceptOp :: AcceptOp where
  "new_AcceptOp = \<lparr>ao_fd = INVALID_SOCKET, ao_buffer = False, ao_in_flight = False\<rparr>"

definition accept_ov :: "nat \<Rightarrow> overlapped" where
  "accept_ov i = Suc i"

record 'k wacc =
  wa_listen :: SOCKET
  wa_opts :: TcpAcceptOption
  wa_has_accept :: bool
  wa_has_error :: bool
  wa_attached :: bool
  wa_accept_ex :: bool
  wa_ops :: "AcceptOp list"
  wa_src_fd :: SOCKET
  wa_net :: "'k wnet"

datatype wacc_act = AStart | AStop

type_synonym wacc_user = "wevent list \<Rightarrow> callback \<Rightarrow> wacc_act list"
type_synonym 'k arunner = "callback \<Rightarrow> 'k wacc \<Rightarrow> 'k wacc option"

definition wa_note :: "wevent \<Rightarrow> 'k wacc \<Rightarrow> 'k wacc" where
  "wa_note e st = st\<lparr>wa_net := wemit e (wa_net st)\<rparr>"

definition wa_sys :: "'k wos \<Rightarrow> wsyscall \<Rightarrow> 'k wacc \<Rightarrow> wanswer \<times> 'k wacc" where
  "wa_sys os c st = (let (a, w) = wsys os c (wa_net st) in (a, st\<lparr>wa_net := w\<rparr>))"

definition set_op :: "nat \<Rightarrow> (AcceptOp \<Rightarrow> AcceptOp) \<Rightarrow> 'k wacc \<Rightarrow> 'k wacc" where
  "set_op i f st = st\<lparr>wa_ops := (wa_ops st)[i := f (wa_ops st ! i)]\<rparr>"

text \<open>\<^verbatim>\<open>TcpDetail::closeFd(op.accept_fd)\<close>\<close>

definition close_op :: "'k wos \<Rightarrow> nat \<Rightarrow> 'k wacc \<Rightarrow> 'k wacc" where
  "close_op os i st =
    (let (fd, w) = closeFd os (ao_fd (wa_ops st ! i)) (wa_net st)
     in set_op i (\<lambda>op. op\<lparr>ao_fd := fd\<rparr>) (st\<lparr>wa_net := w\<rparr>))"

definition new_acceptor :: "'k wos \<Rightarrow> SOCKET \<Rightarrow> TcpAcceptOption \<Rightarrow> bool \<Rightarrow> bool \<Rightarrow> 'k wnet \<Rightarrow> 'k wacc" where
  "new_acceptor os listen_fd o' a e w =
    (let (ex, w) = fetchAcceptEx os listen_fd w in
     \<lparr>wa_listen = listen_fd, wa_opts = o', wa_has_accept = a, wa_has_error = e, wa_attached = False,
      wa_accept_ex = ex, wa_ops = [], wa_src_fd = listen_fd, wa_net = w\<rparr>)"

definition wa_stop :: "'k wacc \<Rightarrow> 'k wacc" where
  "wa_stop st =
    (if \<not> wa_attached st then st else (wa_note (WDetach (wa_src_fd st)) st)\<lparr>wa_attached := False\<rparr>)"

text \<open>\<^verbatim>\<open>if (on_error_) on_error_(err);\<close>\<close>

definition report :: "'k arunner \<Rightarrow> int \<Rightarrow> 'k wacc \<Rightarrow> 'k wacc option" where
  "report run e st = (if wa_has_error st then run (OnError e) st else Some st)"

text \<open>The two halves of \<open>postAccept\<close> between which and after which it may call the user.\<close>

definition renew_op :: "'k wos \<Rightarrow> nat \<Rightarrow> 'k wacc \<Rightarrow> int \<times> 'k wacc" where
  "renew_op os i st =
    (let st = close_op os i st;
         (fd, e, w) = createAcceptSocket os (wa_listen st) (wa_net st)
     in (e, set_op i (\<lambda>op. op\<lparr>ao_fd := fd\<rparr>) (st\<lparr>wa_net := w\<rparr>)))"

definition submit_op :: "'k wos \<Rightarrow> nat \<Rightarrow> 'k wacc \<Rightarrow> wanswer \<times> 'k wacc" where
  "submit_op os i st =
    (let st = set_op i (\<lambda>op. op\<lparr>ao_buffer := True\<rparr>) st;
         (a, st) = wa_sys os (WAcceptEx (wa_listen st) (ao_fd (wa_ops st ! i)) (accept_ov i)) st
     in (a, if issued_ex a then set_op i (\<lambda>op. op\<lparr>ao_in_flight := True\<rparr>) st else st))"

definition drop_op :: "'k wos \<Rightarrow> nat \<Rightarrow> 'k wacc \<Rightarrow> 'k wacc" where
  "drop_op os i st = set_op i (\<lambda>op. op\<lparr>ao_buffer := False\<rparr>) (close_op os i st)"

definition postAccept :: "'k wos \<Rightarrow> 'k arunner \<Rightarrow> nat \<Rightarrow> 'k wacc \<Rightarrow> (bool \<times> 'k wacc) option" where
  "postAccept os run i st =
    (if \<not> wa_attached st then Some (False, st)
     else
       let (e, st) = renew_op os i st in
       if ao_fd (wa_ops st ! i) = INVALID_SOCKET then do { st \<leftarrow> report run e st; Some (False, st) }
       else
         let (a, st) = submit_op os i st in
         if \<not> issued_ex a then do { st \<leftarrow> report run (werr a) st; Some (False, drop_op os i st) }
         else Some (True, st))"

fun post_all :: "'k wos \<Rightarrow> 'k arunner \<Rightarrow> nat list \<Rightarrow> 'k wacc \<Rightarrow> 'k wacc option" where
  "post_all os run [] st = Some st"
| "post_all os run (i # is) st = do { (b, st) \<leftarrow> postAccept os run i st; post_all os run is st }"

definition wa_start :: "'k wos \<Rightarrow> 'k arunner \<Rightarrow> 'k wacc \<Rightarrow> 'k wacc option" where
  "wa_start os run st =
    (if wa_attached st then Some st
     else if \<not> wa_accept_ex st then report run WSAEINVAL st
     else
       let st = (wa_note (WAttach (wa_src_fd st)) st)\<lparr>wa_attached := True\<rparr>;
           depth = max 1 (min (max_accept_per_tick (wa_opts st)) 32);
           st = st\<lparr>wa_ops := take depth (wa_ops st) @ replicate (depth - length (wa_ops st)) new_AcceptOp\<rparr>
       in post_all os run [0..<depth] st)"

fun wa_acts :: "'k wos \<Rightarrow> 'k arunner \<Rightarrow> wacc_act list \<Rightarrow> 'k wacc \<Rightarrow> 'k wacc option" where
  "wa_acts os run [] st = Some st"
| "wa_acts os run (a # as) st =
    do { st \<leftarrow> (case a of AStart \<Rightarrow> wa_start os run st | AStop \<Rightarrow> Some (wa_stop st)); wa_acts os run as st }"

fun wa_callback :: "'k wos \<Rightarrow> wacc_user \<Rightarrow> nat \<Rightarrow> 'k arunner" where
  "wa_callback os user 0 cb st = None"
| "wa_callback os user (Suc n) cb st =
    wa_acts os (wa_callback os user n) (user (wlog (wa_net st)) cb) (wa_note (WCb cb) st)"

definition findOp :: "overlapped \<Rightarrow> 'k wacc \<Rightarrow> nat option" where
  "findOp ov st = List.find (\<lambda>i. accept_ov i = ov) [0..<length (wa_ops st)]"

text \<open>What a successful completion does up to the callback: the stream takes the socket of the slot.\<close>

definition take_stream :: "'k wos \<Rightarrow> nat \<Rightarrow> 'k wacc \<Rightarrow> TcpStream \<times> 'k wacc" where
  "take_stream os i st =
    (let fd = ao_fd (wa_ops st ! i);
         (a, st) = wa_sys os (WUpdateAccept fd (wa_listen st)) st;
         w = bestEffortConfigureAcceptedSocket os fd (wa_opts st) (wa_net st);
         stream = new_stream fd;
         (stream, w) = (if fill_endpoints (wa_opts st) then bestEffortFillEndpoints os fd stream w else (stream, w))
     in (stream, set_op i (\<lambda>op. op\<lparr>ao_fd := INVALID_SOCKET, ao_buffer := False\<rparr>) (st\<lparr>wa_net := w\<rparr>)))"

definition wa_onCompletion :: "'k wos \<Rightarrow> 'k arunner \<Rightarrow> IocpRawEvent \<Rightarrow> 'k wacc \<Rightarrow> 'k wacc option" where
  "wa_onCompletion os run ev st =
    (if \<not> wa_attached st then Some st
     else if ie_overlapped ev = 0 then Some st
     else
       case findOp (ie_overlapped ev) st of
         None \<Rightarrow> Some st
       | Some i \<Rightarrow>
           let st = set_op i (\<lambda>op. op\<lparr>ao_in_flight := False\<rparr>) st;
               (a, st) = wa_sys os (WResult (wa_listen st) (ie_overlapped ev)) st
           in
           if wret a = 0 then
             do {
               st \<leftarrow> report run (werr a) (drop_op os i st);
               map_option snd (postAccept os run i st)
             }
           else
             let (stream, st) = take_stream os i st in
             do {
               st \<leftarrow> (if wa_has_accept st then run (OnAccept stream) st
                      else Some (st\<lparr>wa_net := destroy_stream os stream (wa_net st)\<rparr>));
               map_option snd (postAccept os run i st)
             })"

fun close_ops :: "'k wos \<Rightarrow> nat list \<Rightarrow> 'k wacc \<Rightarrow> 'k wacc" where
  "close_ops os [] st = st"
| "close_ops os (i # is) st = close_ops os is (close_op os i st)"

definition wa_destroy :: "'k wos \<Rightarrow> 'k wacc \<Rightarrow> 'k wacc" where
  "wa_destroy os st =
    (let st = wa_stop st;
         st = (close_ops os [0..<length (wa_ops st)] st)\<lparr>wa_ops := []\<rparr>;
         (fd, w) = closeFd os (wa_listen st) (wa_net st)
     in st\<lparr>wa_listen := fd, wa_net := w\<rparr>)"

section \<open>Runs\<close>

datatype wacc_op = AccStart | AccStop | AccCompletion IocpRawEvent

fun wacc_step :: "'k wos \<Rightarrow> wacc_user \<Rightarrow> nat \<Rightarrow> wacc_op \<Rightarrow> 'k wacc \<Rightarrow> 'k wacc option" where
  "wacc_step os user n AccStart st = wa_start os (wa_callback os user n) st"
| "wacc_step os user n AccStop st = Some (wa_stop st)"
| "wacc_step os user n (AccCompletion ev) st =
    wa_onCompletion os (wa_callback os user n) ev (wa_note (WCompleted (ie_overlapped ev)) st)"

fun wacc_run :: "'k wos \<Rightarrow> wacc_user \<Rightarrow> nat \<Rightarrow> wacc_op list \<Rightarrow> 'k wacc \<Rightarrow> 'k wacc option" where
  "wacc_run os user n [] st = Some st"
| "wacc_run os user n (p # ps) st = do { st \<leftarrow> wacc_step os user n p st; wacc_run os user n ps st }"

definition createIocpTcpAcceptWatcher ::
    "'k wos \<Rightarrow> TcpAcceptOption \<Rightarrow> bool \<Rightarrow> bool \<Rightarrow> 'k wnet \<Rightarrow> 'k wacc option \<times> 'k wnet" where
  "createIocpTcpAcceptWatcher os o' a e w =
    (let (fd, err, w) = createListenSocket os o' w in
     if fd = INVALID_SOCKET then (None, if e then wemit (WCb (OnError err)) w else w)
     else (let st = new_acceptor os fd o' a e w in (Some st, wa_net st)))"

section \<open>Ownership of the sockets\<close>

definition op_fds :: "AcceptOp list \<Rightarrow> SOCKET multiset" where
  "op_fds ops = (\<Sum>op \<leftarrow> ops. one_fd (ao_fd op))"

definition accept_depth :: "'k wacc \<Rightarrow> nat" where
  "accept_depth st = max 1 (min (max_accept_per_tick (wa_opts st)) 32)"

definition aowns :: "'k wacc \<Rightarrow> bool" where
  "aowns st \<longleftrightarrow>
    wa_listen st \<noteq> INVALID_SOCKET \<and> length (wa_ops st) \<le> accept_depth st \<and>
    wowns {#wa_listen st#} (wlog (wa_net st)) = Some (add_mset (wa_listen st) (op_fds (wa_ops st)))"

text \<open>No operation moves the listening socket, changes the options or loses a slot.\<close>

definition agrows :: "'k wacc \<Rightarrow> 'k wacc \<Rightarrow> bool" where
  "agrows s t \<longleftrightarrow> wa_listen t = wa_listen s \<and> wa_opts t = wa_opts s \<and> length (wa_ops s) \<le> length (wa_ops t)"

lemma agrows_refl [simp]: "agrows s s"
  by (simp add: agrows_def)

lemma agrows_trans: "agrows s t \<Longrightarrow> agrows t u \<Longrightarrow> agrows s u"
  by (auto simp: agrows_def)

lemma op_fds_update:
  assumes "i < length ops"
  shows "op_fds ops = op_fds (take i ops @ drop (Suc i) ops) + one_fd (ao_fd (ops ! i))"
    and "op_fds (ops[i := op]) = op_fds (take i ops @ drop (Suc i) ops) + one_fd (ao_fd op)"
proof -
  show "op_fds ops = op_fds (take i ops @ drop (Suc i) ops) + one_fd (ao_fd (ops ! i))"
    by (subst id_take_nth_drop [OF assms]) (simp add: op_fds_def)
  show "op_fds (ops[i := op]) = op_fds (take i ops @ drop (Suc i) ops) + one_fd (ao_fd op)"
    by (subst upd_conv_take_nth_drop [OF assms]) (simp add: op_fds_def)
qed

lemma op_fds_same:
  assumes "i < length ops" "ao_fd op = ao_fd (ops ! i)"
  shows "op_fds (ops[i := op]) = op_fds ops"
  using assms op_fds_update [OF assms(1)] by simp

text \<open>A step that keeps the owned sockets.\<close>

lemma aowns_step:
  assumes "aowns s" "agrows s t" "length (wa_ops t) \<le> accept_depth s"
    and "wlog (wa_net t) = wlog (wa_net s) @ es"
    and "wowns (add_mset (wa_listen s) (op_fds (wa_ops s))) es = Some (add_mset (wa_listen s) (op_fds (wa_ops t)))"
  shows "aowns t"
  using assms by (auto simp: aowns_def agrows_def wowns_append accept_depth_def)

lemma set_op_simps [simp]:
  "wa_listen (set_op i f st) = wa_listen st" "wa_opts (set_op i f st) = wa_opts st"
  "length (wa_ops (set_op i f st)) = length (wa_ops st)" "wa_net (set_op i f st) = wa_net st"
  "wa_has_accept (set_op i f st) = wa_has_accept st" "wa_has_error (set_op i f st) = wa_has_error st"
  "wa_attached (set_op i f st) = wa_attached st" "wa_ops (set_op i f st) = (wa_ops st)[i := f (wa_ops st ! i)]"
  by (simp_all add: set_op_def)

lemma close_op_simps:
  "wa_listen (close_op os i st) = wa_listen st" "wa_opts (close_op os i st) = wa_opts st"
  "length (wa_ops (close_op os i st)) = length (wa_ops st)" "wa_has_accept (close_op os i st) = wa_has_accept st"
  "wa_has_error (close_op os i st) = wa_has_error st" "wa_attached (close_op os i st) = wa_attached st"
  "wa_ops (close_op os i st) = (wa_ops st)[i := (wa_ops st ! i)\<lparr>ao_fd := INVALID_SOCKET\<rparr>]"
  "\<exists>a. wlog (wa_net (close_op os i st)) = wlog (wa_net st) @
    (if ao_fd (wa_ops st ! i) = INVALID_SOCKET then [] else [WSys (WClose (ao_fd (wa_ops st ! i))) a])"
  by (auto simp: close_op_def closeFd_def)

lemma close_op_owns:
  assumes "aowns st" "i < length (wa_ops st)"
  shows "aowns (close_op os i st)" "agrows st (close_op os i st)"
proof -
  show g: "agrows st (close_op os i st)" by (simp add: agrows_def close_op_simps)
  let ?f = "ao_fd (wa_ops st ! i)" and ?r = "op_fds (take i (wa_ops st) @ drop (Suc i) (wa_ops st))"
  obtain a where l: "wlog (wa_net (close_op os i st)) = wlog (wa_net st) @
      (if ?f = INVALID_SOCKET then [] else [WSys (WClose ?f) a])"
    using close_op_simps(8) by blast
  have "op_fds (wa_ops (close_op os i st)) = ?r" "op_fds (wa_ops st) = ?r + one_fd ?f"
    using op_fds_update [OF assms(2)] by (simp_all add: close_op_simps one_fd_def)
  then show "aowns (close_op os i st)"
    by (intro aowns_step [OF assms(1) g _ l])
      (use assms(1) in \<open>auto simp: close_op_simps aowns_def one_fd_def give_up_def\<close>)
qed

lemma createAcceptSocket_log:
  assumes "createAcceptSocket os f w = (fd, e, w')"
  shows "\<exists>es. wlog w' = wlog w @ es \<and> wowns S es = Some (one_fd fd + S) \<and> list_all idle es"
  using assms
  by (auto simp: createAcceptSocket_def one_fd_def Let_def dest!: wlog_sys split: prod.splits if_splits)
    (auto simp: idle_def)

lemma renew_opE:
  assumes "renew_op os i st = (e, st')" "i < length (wa_ops st)"
  obtains fd w where "createAcceptSocket os (wa_listen st) (wa_net (close_op os i st)) = (fd, e, w)"
    "st' = set_op i (\<lambda>op. op\<lparr>ao_fd := fd\<rparr>) ((close_op os i st)\<lparr>wa_net := w\<rparr>)"
    "wa_ops st' = (wa_ops st)[i := (wa_ops st ! i)\<lparr>ao_fd := fd\<rparr>]" "wa_net st' = w"
proof -
  obtain fd w where c: "createAcceptSocket os (wa_listen st) (wa_net (close_op os i st)) = (fd, e, w)"
    and st': "st' = set_op i (\<lambda>op. op\<lparr>ao_fd := fd\<rparr>) ((close_op os i st)\<lparr>wa_net := w\<rparr>)"
    using assms(1) by (auto simp: renew_op_def Let_def close_op_simps split: prod.splits)
  then show ?thesis using that [OF c st'] assms(2) by (simp add: close_op_simps)
qed

lemma renew_op_fields:
  assumes "renew_op os i st = (e, st')" "i < length (wa_ops st)"
  shows "wa_listen st' = wa_listen st" "wa_opts st' = wa_opts st" "length (wa_ops st') = length (wa_ops st)"
    "wa_attached st' = wa_attached st" "wa_has_error st' = wa_has_error st"
  by (rule renew_opE [OF assms]; simp add: close_op_simps)+

lemma renew_op_owns:
  assumes "aowns st" "i < length (wa_ops st)" "renew_op os i st = (e, st')"
  shows "aowns st'" "agrows st st'"
proof -
  show g: "agrows st st'" using renew_op_fields [OF assms(3,2)] by (simp add: agrows_def)
  let ?s = "close_op os i st"
  obtain fd w where c: "createAcceptSocket os (wa_listen ?s) (wa_net ?s) = (fd, e, w)"
    and st': "st' = set_op i (\<lambda>op. op\<lparr>ao_fd := fd\<rparr>) (?s\<lparr>wa_net := w\<rparr>)"
    by (rule renew_opE [OF assms(3,2)]) (simp add: close_op_simps)
  obtain es where l: "wlog w = wlog (wa_net ?s) @ es"
    and es: "wowns (add_mset (wa_listen ?s) (op_fds (wa_ops ?s))) es
      = Some (one_fd fd + add_mset (wa_listen ?s) (op_fds (wa_ops ?s)))"
    using createAcceptSocket_log [OF c] by blast
  have i: "i < length (wa_ops ?s)" using assms(2) by (simp add: close_op_simps)
  have "op_fds (wa_ops st') = op_fds (wa_ops ?s) + one_fd fd"
    using op_fds_update [OF i] i assms(2) by (simp add: st' close_op_simps one_fd_def)
  then show "aowns st'"
    by (intro aowns_step [OF close_op_owns(1) [OF assms(1,2), of os] _ _, of st' es])
      (use g l es assms(1) in \<open>auto simp: st' agrows_def close_op_simps aowns_def accept_depth_def union_commute\<close>)
qed

lemma wa_sysD:
  assumes "wa_sys os c st = (a, st')"
  obtains w where "wlog w = wlog (wa_net st) @ [WSys c a]" "st' = st\<lparr>wa_net := w\<rparr>"
  using assms wlog_sys by (fastforce simp: wa_sys_def split: prod.splits)

text \<open>Steps that log calm events and leave the sockets of the slots alone.\<close>

lemma aowns_calm:
  assumes "aowns s" "wlog (wa_net t) = wlog (wa_net s) @ es" "list_all calm_event es"
    and "wa_listen t = wa_listen s" "wa_opts t = wa_opts s" "map ao_fd (wa_ops t) = map ao_fd (wa_ops s)"
  shows "aowns t \<and> agrows s t"
proof -
  have "length (wa_ops t) = length (wa_ops s)" using arg_cong [OF assms(6), of length] by simp
  moreover have "op_fds (wa_ops t) = op_fds (wa_ops s)"
    using arg_cong [OF assms(6), of "\<lambda>xs. sum_list (map one_fd xs)"] by (simp add: op_fds_def o_def)
  ultimately show ?thesis
    using assms wowns_calm [OF assms(3)]
    by (auto simp: aowns_def agrows_def wowns_append accept_depth_def)
qed

lemma map_fd_set_op:
  "i < length xs \<Longrightarrow> ao_fd op = ao_fd (xs ! i) \<Longrightarrow> map ao_fd (xs[i := op]) = map ao_fd xs"
  by (simp add: map_update) (metis list_update_id nth_map)

lemma submit_op_facts:
  assumes "submit_op os i st = (a, st')" "i < length (wa_ops st)"
  shows "wlog (wa_net st') = wlog (wa_net st) @ [WSys (WAcceptEx (wa_listen st) (ao_fd (wa_ops st ! i)) (accept_ov i)) a]"
    "wa_listen st' = wa_listen st" "wa_opts st' = wa_opts st" "wa_attached st' = wa_attached st"
    "wa_ops st' = (wa_ops st)[i := (wa_ops st ! i)\<lparr>ao_buffer := True,
      ao_in_flight := (if issued_ex a then True else ao_in_flight (wa_ops st ! i))\<rparr>]"
proof -
  let ?s = "set_op i (\<lambda>op. op\<lparr>ao_buffer := True\<rparr>) st"
  have f: "ao_fd (wa_ops ?s ! i) = ao_fd (wa_ops st ! i)"
    using assms(2) by simp
  obtain a' s1 where c: "wa_sys os (WAcceptEx (wa_listen ?s) (ao_fd (wa_ops ?s ! i)) (accept_ov i)) ?s = (a', s1)"
    by fastforce
  with assms(1) have a: "a = a'" and st': "st' = (if issued_ex a then set_op i (\<lambda>op. op\<lparr>ao_in_flight := True\<rparr>) s1 else s1)"
    by (auto simp: submit_op_def)
  obtain w where w: "wlog w = wlog (wa_net ?s) @ [WSys (WAcceptEx (wa_listen ?s) (ao_fd (wa_ops ?s ! i)) (accept_ov i)) a]"
    "s1 = ?s\<lparr>wa_net := w\<rparr>"
    by (rule wa_sysD [OF c [folded a]]) blast
  show "wlog (wa_net st') = wlog (wa_net st) @ [WSys (WAcceptEx (wa_listen st) (ao_fd (wa_ops st ! i)) (accept_ov i)) a]"
    using w f by (simp add: st')
  show "wa_listen st' = wa_listen st" "wa_opts st' = wa_opts st" "wa_attached st' = wa_attached st"
    "wa_ops st' = (wa_ops st)[i := (wa_ops st ! i)\<lparr>ao_buffer := True,
      ao_in_flight := (if issued_ex a then True else ao_in_flight (wa_ops st ! i))\<rparr>]"
    using w assms(2) by (simp_all add: st')
qed

text \<open>What a callback is given, logged, owns its sockets; what it leaves does, too.\<close>

definition arunner_ok :: "'k arunner \<Rightarrow> bool" where
  "arunner_ok run \<longleftrightarrow>
    (\<forall>c st st'. run c st = Some st' \<longrightarrow> aowns (wa_note (WCb c) st) \<longrightarrow> aowns st' \<and> agrows st st')"

lemma aowns_note: "aowns st \<Longrightarrow> calm_event e \<Longrightarrow> aowns (wa_note e st)"
  using aowns_calm [of st "wa_note e st" "[e]"] by (simp add: wa_note_def)

lemma report_owns:
  assumes "arunner_ok run" "aowns st" "report run e st = Some st'"
  shows "aowns st' \<and> agrows st st'"
  using assms aowns_note [OF assms(2), of "WCb (OnError e)"]
  by (auto simp: report_def arunner_ok_def split: if_splits)

lemma drop_op_owns:
  assumes "aowns st" "i < length (wa_ops st)"
  shows "aowns (drop_op os i st) \<and> agrows st (drop_op os i st)"
proof -
  note c = close_op_owns [OF assms, of os]
  have i: "i < length (wa_ops (close_op os i st))" using assms(2) by (simp add: close_op_simps)
  have "map ao_fd (wa_ops (drop_op os i st)) = map ao_fd (wa_ops (close_op os i st))"
    unfolding drop_op_def set_op_simps by (rule map_fd_set_op [OF i]) simp
  then have "aowns (drop_op os i st) \<and> agrows (close_op os i st) (drop_op os i st)"
    by (intro aowns_calm [OF c(1), of _ "[]"]) (simp_all add: drop_op_def)
  with c(2) agrows_trans show ?thesis by blast
qed

lemma submit_op_owns:
  assumes "aowns st" "i < length (wa_ops st)" "submit_op os i st = (a, st')"
  shows "aowns st' \<and> agrows st st'"
proof -
  note f = submit_op_facts [OF assms(3,2)]
  show ?thesis
    by (rule aowns_calm [OF assms(1) f(1) _ f(2,3)]) (simp_all add: f(5) map_fd_set_op assms(2))
qed

lemma postAccept_owns:
  assumes r: "arunner_ok run" and st: "aowns st" and i: "i < length (wa_ops st)"
    and p: "postAccept os run i st = Some (b, st')"
  shows "aowns st' \<and> agrows st st'"
proof (cases "wa_attached st")
  case False
  with p st show ?thesis by (simp add: postAccept_def)
next
  case att: True
  obtain e s1 where 1: "renew_op os i st = (e, s1)" by fastforce
  note o1 = renew_op_owns [OF st i 1]
  have i1: "i < length (wa_ops s1)" using i o1(2) by (simp add: agrows_def)
  obtain a s2 where 2: "submit_op os i s1 = (a, s2)" by fastforce
  note o2 = submit_op_owns [OF o1(1) i1 2]
  have p': "(if ao_fd (wa_ops s1 ! i) = INVALID_SOCKET then do { st \<leftarrow> report run e s1; Some (False, st) }
    else if \<not> issued_ex a then do { st \<leftarrow> report run (werr a) s2; Some (False, drop_op os i st) }
    else Some (True, s2)) = Some (b, st')"
    using p att by (simp only: postAccept_def 1 2 Let_def prod.case simp_thms if_False)
  consider "report run e s1 = Some st'" | s3 where "report run (werr a) s2 = Some s3" "st' = drop_op os i s3"
    | "st' = s2"
    using p' by (auto simp: bind_eq_Some_conv split: if_splits)
  then show ?thesis
  proof cases
    case 1
    from report_owns [OF r o1(1) this] o1(2) agrows_trans show ?thesis by blast
  next
    case (2 s3)
    from report_owns [OF r _ 2(1)] o2 have o3: "aowns s3" "agrows s2 s3" by blast+
    then have "i < length (wa_ops s3)" using i1 o2 by (simp add: agrows_def)
    from drop_op_owns [OF o3(1) this, of os] o1(2) o2 o3(2) 2(2) agrows_trans show ?thesis by blast
  next
    case 3
    with o1(2) o2 agrows_trans show ?thesis by blast
  qed
qed

lemma post_all_owns:
  "arunner_ok run \<Longrightarrow> aowns st \<Longrightarrow> \<forall>i \<in> set is. i < length (wa_ops st) \<Longrightarrow> post_all os run is st = Some st' \<Longrightarrow>
   aowns st' \<and> agrows st st'"
proof (induction "is" arbitrary: st)
  case (Cons i "is")
  then obtain b s1 where 1: "postAccept os run i st = Some (b, s1)" and 2: "post_all os run is s1 = Some st'"
    by (auto simp: bind_eq_Some_conv)
  have o: "aowns s1" "agrows st s1" using postAccept_owns [OF Cons.prems(1,2) _ 1] Cons.prems(3) by auto
  then have "\<forall>i \<in> set is. i < length (wa_ops s1)" using Cons.prems(3) by (auto simp: agrows_def)
  from Cons.IH [OF Cons.prems(1) o(1) this 2] o(2) agrows_trans show ?case by blast
qed simp

lemma op_fds_new: "op_fds (ops @ replicate n new_AcceptOp) = op_fds ops"
  by (induction n) (simp_all add: op_fds_def new_AcceptOp_def one_fd_def)

lemma wa_start_owns:
  assumes "arunner_ok run" "aowns st" "wa_start os run st = Some st'"
  shows "aowns st' \<and> agrows st st'"
proof (cases "wa_attached st \<or> \<not> wa_accept_ex st")
  case True
  with assms report_owns [OF assms(1,2)] show ?thesis by (auto simp: wa_start_def split: if_splits)
next
  case False
  let ?d = "accept_depth st"
  let ?s = "(wa_note (WAttach (wa_src_fd st)) st)\<lparr>wa_attached := True,
    wa_ops := take ?d (wa_ops st) @ replicate (?d - length (wa_ops st)) new_AcceptOp\<rparr>"
  have len: "length (wa_ops st) \<le> ?d" using assms(2) by (simp add: aowns_def)
  then have l: "length (wa_ops ?s) = ?d" by simp
  have g: "agrows st ?s" using len by (simp add: agrows_def wa_note_def)
  have "aowns ?s"
    by (rule aowns_step [OF assms(2) g, of "[WAttach (wa_src_fd st)]"])
      (use len in \<open>simp_all add: wa_note_def op_fds_new\<close>)
  moreover have "\<forall>i \<in> set [0..<?d]. i < length (wa_ops ?s)" unfolding l by simp
  moreover have "post_all os run [0..<?d] ?s = Some st'"
    using assms(3) False by (simp add: wa_start_def Let_def wa_note_def accept_depth_def)
  ultimately have "aowns st' \<and> agrows ?s st'" by (rule post_all_owns [OF assms(1)])
  with g agrows_trans show ?thesis by blast
qed

lemma wa_stop_owns: "aowns st \<Longrightarrow> aowns (wa_stop st) \<and> agrows st (wa_stop st)"
  using aowns_calm [of st "wa_stop st" "if wa_attached st then [WDetach (wa_src_fd st)] else []"]
  by (auto simp: wa_stop_def wa_note_def)

lemma wa_acts_owns:
  "arunner_ok run \<Longrightarrow> aowns st \<Longrightarrow> wa_acts os run as st = Some st' \<Longrightarrow> aowns st' \<and> agrows st st'"
proof (induction as arbitrary: st)
  case (Cons a as)
  then obtain s1 where 1: "(case a of AStart \<Rightarrow> wa_start os run st | AStop \<Rightarrow> Some (wa_stop st)) = Some s1"
    and 2: "wa_acts os run as s1 = Some st'"
    by (auto simp: bind_eq_Some_conv)
  have "aowns s1 \<and> agrows st s1"
    using 1 wa_start_owns [OF Cons.prems(1,2)] wa_stop_owns [OF Cons.prems(2)] by (cases a) auto
  with Cons.IH [OF Cons.prems(1) _ 2] agrows_trans show ?case by blast
qed simp

lemma wa_callback_owns: "arunner_ok (wa_callback os user n)"
proof (induction n)
  case (Suc n)
  have "agrows st (wa_note e st)" for st :: "'a wacc" and e by (simp add: agrows_def wa_note_def)
  then show ?case
    using wa_acts_owns [OF Suc.IH] agrows_trans unfolding arunner_ok_def by (fastforce simp del: wa_acts.simps)
qed (simp add: arunner_ok_def)

lemma take_stream_facts:
  assumes "take_stream os i st = (str, st')" "i < length (wa_ops st)"
  shows "sfd str = ao_fd (wa_ops st ! i)"
    "wa_listen st' = wa_listen st" "wa_opts st' = wa_opts st" "wa_has_accept st' = wa_has_accept st"
    "wa_attached st' = wa_attached st"
    "wa_ops st' = (wa_ops st)[i := (wa_ops st ! i)\<lparr>ao_fd := INVALID_SOCKET, ao_buffer := False\<rparr>]"
    "\<exists>es. wlog (wa_net st') = wlog (wa_net st) @ es \<and> list_all calm_event es \<and> list_all idle es"
proof -
  let ?fd = "ao_fd (wa_ops st ! i)"
  obtain a s1 where c: "wa_sys os (WUpdateAccept ?fd (wa_listen st)) st = (a, s1)" by fastforce
  obtain w where w: "wlog w = wlog (wa_net st) @ [WSys (WUpdateAccept ?fd (wa_listen st)) a]" "s1 = st\<lparr>wa_net := w\<rparr>"
    by (rule wa_sysD [OF c]) blast
  let ?w = "bestEffortConfigureAcceptedSocket os ?fd (wa_opts st) w"
  obtain str' w' where f': "(if fill_endpoints (wa_opts s1)
      then bestEffortFillEndpoints os ?fd (new_stream ?fd) (bestEffortConfigureAcceptedSocket os ?fd (wa_opts s1) (wa_net s1))
      else (new_stream ?fd, bestEffortConfigureAcceptedSocket os ?fd (wa_opts s1) (wa_net s1))) = (str', w')" by fastforce
  then have f: "(if fill_endpoints (wa_opts st) then bestEffortFillEndpoints os ?fd (new_stream ?fd) ?w
      else (new_stream ?fd, ?w)) = (str', w')"
    by (cases "fill_endpoints (wa_opts st)") (simp_all add: w(2))
  have r: "str = str'" "st' = set_op i (\<lambda>op. op\<lparr>ao_fd := INVALID_SOCKET, ao_buffer := False\<rparr>) (s1\<lparr>wa_net := w'\<rparr>)"
    using assms(1) unfolding take_stream_def c Let_def prod.case f' by simp_all
  have conf: "wadds (wconfig ?fd) w ?w"
    unfolding bestEffortConfigureAcceptedSocket_def Let_def
    by (rule wadds_trans [OF wadds_trans [OF wadds_trans [OF wadds_config(2) wadds_config(4)] wadds_keepalive] wadds_config(5)])
  have "wadds (wconfig ?fd) ?w w' \<and> sfd str' = ?fd"
    using f wadds_fill [of os ?fd "new_stream ?fd" ?w str' w']
    by (cases "fill_endpoints (wa_opts st)") (auto simp: new_stream_def)
  with conf have "wadds (wconfig ?fd) w w'" "sfd str' = ?fd" using wadds_trans by blast+
  then obtain es where es: "wlog w' = wlog w @ es" "list_all (wconfig ?fd) es" by (auto simp: wadds_def)
  then have "list_all calm_event es \<and> list_all idle es"
    using wconfig_calm wconfig_idle by (auto simp: list_all_iff)
  then have "wlog w' = wlog (wa_net st) @ WSys (WUpdateAccept ?fd (wa_listen st)) a # es \<and>
      list_all calm_event (WSys (WUpdateAccept ?fd (wa_listen st)) a # es) \<and>
      list_all idle (WSys (WUpdateAccept ?fd (wa_listen st)) a # es)"
    using w(1) es(1) by simp
  then show "\<exists>es. wlog (wa_net st') = wlog (wa_net st) @ es \<and> list_all calm_event es \<and> list_all idle es"
    unfolding r by auto
  show "sfd str = ao_fd (wa_ops st ! i)" using r \<open>sfd str' = ?fd\<close> by simp
  show "wa_listen st' = wa_listen st" "wa_opts st' = wa_opts st" "wa_has_accept st' = wa_has_accept st"
    "wa_attached st' = wa_attached st"
    "wa_ops st' = (wa_ops st)[i := (wa_ops st ! i)\<lparr>ao_fd := INVALID_SOCKET, ao_buffer := False\<rparr>]"
    by (simp_all add: r w(2))
qed

text \<open>The stream that a slot gives up is handed to the callback or closed.\<close>

lemma take_stream_owns:
  assumes st: "aowns st" and i: "i < length (wa_ops st)" and t: "take_stream os i st = (str, st')"
  shows "agrows st st'" "aowns (wa_note (WCb (OnAccept str)) st')"
    "aowns (st'\<lparr>wa_net := destroy_stream os str (wa_net st')\<rparr>)"
proof -
  note f = take_stream_facts [OF t i]
  show g: "agrows st st'" by (simp add: agrows_def f(2,3,6))
  let ?r = "op_fds (take i (wa_ops st) @ drop (Suc i) (wa_ops st))" and ?fd = "ao_fd (wa_ops st ! i)"
  have fds: "op_fds (wa_ops st) = ?r + one_fd ?fd" "op_fds (wa_ops st') = ?r"
    using op_fds_update [OF i] by (simp_all add: f(6) one_fd_def)
  obtain es where es: "wlog (wa_net st') = wlog (wa_net st) @ es" "list_all calm_event es" using f(7) by blast
  have len: "length (wa_ops st) \<le> accept_depth st" using st by (simp add: aowns_def)
  have own: "wowns (add_mset (wa_listen st) (op_fds (wa_ops st))) (es @ [WCb (OnAccept str)])
      = Some (add_mset (wa_listen st) ?r)"
    using wowns_calm [OF es(2)] f(1) by (auto simp: wowns_append fds(1) one_fd_def give_up_def)
  show "aowns (wa_note (WCb (OnAccept str)) st')"
    by (rule aowns_step [OF st, of _ "es @ [WCb (OnAccept str)]"])
      (use g len own es(1) fds(2) in \<open>simp_all add: agrows_def wa_note_def f(6)\<close>)
  let ?t = "st'\<lparr>wa_net := destroy_stream os str (wa_net st')\<rparr>"
  obtain a where l: "wlog (wa_net ?t) = wlog (wa_net st) @ es @ (if ?fd = INVALID_SOCKET then [] else [WSys (WClose ?fd) a])"
    using f(1) es(1) by (cases "?fd = INVALID_SOCKET") (auto simp: destroy_stream_def closeFd_def)
  have "wowns (add_mset (wa_listen st) (op_fds (wa_ops st))) (es @ (if ?fd = INVALID_SOCKET then [] else [WSys (WClose ?fd) a]))
      = Some (add_mset (wa_listen st) ?r)"
    using wowns_calm [OF es(2)] by (auto simp: wowns_append fds(1) one_fd_def give_up_def)
  then show "aowns ?t"
    by (intro aowns_step [OF st _ _ l]) (use g len fds(2) in \<open>simp_all add: agrows_def f(6)\<close>)
qed

lemma post_after:
  assumes "arunner_ok run" "aowns s1" "agrows s0 s1" "i < length (wa_ops s0)"
    and "map_option snd (postAccept os run i s1) = Some st'"
  shows "aowns st' \<and> agrows s0 st'"
proof -
  obtain b where b: "postAccept os run i s1 = Some (b, st')" using assms(5) by auto
  have "i < length (wa_ops s1)" using assms(3,4) by (simp add: agrows_def)
  from postAccept_owns [OF assms(1,2) this b] assms(3) agrows_trans show ?thesis by blast
qed

lemma findOp_length: "findOp ov st = Some i \<Longrightarrow> i < length (wa_ops st) \<and> ov = accept_ov i"
  by (auto simp: findOp_def find_Some_iff)

lemma onCompletion_owns:
  assumes r: "arunner_ok run" and st: "aowns st" and c: "wa_onCompletion os run ev st = Some st'"
  shows "aowns st' \<and> agrows st st'"
proof (cases "wa_attached st \<and> ie_overlapped ev \<noteq> 0 \<and> findOp (ie_overlapped ev) st \<noteq> None")
  case False
  with c st show ?thesis by (auto simp: wa_onCompletion_def split: if_splits option.splits)
next
  case True
  then obtain i where i: "findOp (ie_overlapped ev) st = Some i" by blast
  note len = findOp_length [OF i]
  let ?s = "set_op i (\<lambda>op. op\<lparr>ao_in_flight := False\<rparr>) st"
  obtain a s1 where a: "wa_sys os (WResult (wa_listen st) (ie_overlapped ev)) ?s = (a, s1)" by fastforce
  obtain w where w: "wlog w = wlog (wa_net ?s) @ [WSys (WResult (wa_listen st) (ie_overlapped ev)) a]" "s1 = ?s\<lparr>wa_net := w\<rparr>"
    by (rule wa_sysD [OF a]) blast
  have 1: "aowns s1 \<and> agrows st s1"
    by (rule aowns_calm [OF st, of _ "[WSys (WResult (wa_listen st) (ie_overlapped ev)) a]"])
      (use w len in \<open>simp_all add: map_fd_set_op\<close>)
  then have i1: "i < length (wa_ops s1)" using len by (simp add: agrows_def)
  obtain str s2 where t: "take_stream os i s1 = (str, s2)" by fastforce
  have c': "(if wret a = 0 then do { st \<leftarrow> report run (werr a) (drop_op os i s1); map_option snd (postAccept os run i st) }
    else do { st \<leftarrow> (if wa_has_accept s2 then run (OnAccept str) s2
                    else Some (s2\<lparr>wa_net := destroy_stream os str (wa_net s2)\<rparr>));
              map_option snd (postAccept os run i st) }) = Some st'"
    using c True unfolding wa_onCompletion_def i option.case set_op_simps Let_def a prod.case t by simp
  have "\<exists>s3. aowns s3 \<and> agrows s1 s3 \<and> map_option snd (postAccept os run i s3) = Some st'"
  proof (cases "wret a = 0")
    case True
    then obtain s3 where "report run (werr a) (drop_op os i s1) = Some s3"
      "map_option snd (postAccept os run i s3) = Some st'"
      using c' by (auto simp: bind_eq_Some_conv)
    moreover note d = drop_op_owns [OF conjunct1 [OF 1] i1, of os]
    ultimately show ?thesis using report_owns [OF r conjunct1 [OF d]] agrows_trans by blast
  next
    case False
    then obtain s3 where s3: "(if wa_has_accept s2 then run (OnAccept str) s2
        else Some (s2\<lparr>wa_net := destroy_stream os str (wa_net s2)\<rparr>)) = Some s3"
      and p: "map_option snd (postAccept os run i s3) = Some st'"
      using c' by (auto simp: bind_eq_Some_conv)
    note o = take_stream_owns [OF conjunct1 [OF 1] i1 t]
    have "agrows s2 (s2\<lparr>wa_net := n\<rparr>)" for n by (simp add: agrows_def)
    then have "aowns s3 \<and> agrows s2 s3"
      using s3 o(2,3) r unfolding arunner_ok_def by (cases "wa_has_accept s2") auto
    with o(1) p agrows_trans show ?thesis by blast
  qed
  then obtain s3 where s3: "aowns s3" "agrows s1 s3" "map_option snd (postAccept os run i s3) = Some st'" by blast
  from post_after [OF r s3(1,2) i1 s3(3)] 1 agrows_trans show ?thesis by blast
qed

lemma wacc_step_owns: "aowns st \<Longrightarrow> wacc_step os user n p st = Some st' \<Longrightarrow> aowns st'"
proof (cases p)
  case (AccCompletion ev)
  assume "aowns st" "wacc_step os user n p st = Some st'"
  with AccCompletion onCompletion_owns [OF wa_callback_owns aowns_note [OF \<open>aowns st\<close> calm_calls(5)]]
  show ?thesis by auto
next
  case AccStart
  assume "aowns st" "wacc_step os user n p st = Some st'"
  with AccStart wa_start_owns [OF wa_callback_owns \<open>aowns st\<close>] show ?thesis by auto
qed (use wa_stop_owns in auto)

lemma wacc_run_owns: "aowns st \<Longrightarrow> wacc_run os user n ps st = Some st' \<Longrightarrow> aowns st'"
  by (induction ps arbitrary: st) (auto simp: bind_eq_Some_conv dest: wacc_step_owns)

lemma new_acceptor_owns:
  assumes "L \<noteq> INVALID_SOCKET" "wlog w = []"
  shows "aowns (new_acceptor os L o' a e w)"
proof -
  obtain ex w' where f: "fetchAcceptEx os L w = (ex, w')" by fastforce
  then have "wadds (wconfig L) w w'" using wadds_fetch(1) [of L w os] by simp
  then have "wowns {#L#} (wlog w') = Some {#L#}" using wowns_adds assms(2) by fastforce
  with assms(1) f show ?thesis by (simp add: aowns_def new_acceptor_def op_fds_def)
qed

lemma close_ops_owns:
  "aowns st \<Longrightarrow> distinct is \<Longrightarrow> \<forall>i \<in> set is. i < length (wa_ops st) \<Longrightarrow>
   aowns (close_ops os is st) \<and> agrows st (close_ops os is st) \<and>
   length (wa_ops (close_ops os is st)) = length (wa_ops st) \<and>
   (\<forall>i < length (wa_ops st). ao_fd (wa_ops (close_ops os is st) ! i) =
      (if i \<in> set is then INVALID_SOCKET else ao_fd (wa_ops st ! i)))"
proof (induction "is" arbitrary: st)
  case (Cons i "is")
  let ?s = "close_op os i st"
  have i: "i < length (wa_ops st)" using Cons.prems(3) by simp
  note o = close_op_owns [OF Cons.prems(1) i, of os]
  have l: "length (wa_ops ?s) = length (wa_ops st)" by (simp add: close_op_simps)
  have ih: "aowns (close_ops os is ?s) \<and> agrows ?s (close_ops os is ?s) \<and>
   length (wa_ops (close_ops os is ?s)) = length (wa_ops ?s) \<and>
   (\<forall>j < length (wa_ops ?s). ao_fd (wa_ops (close_ops os is ?s) ! j) =
      (if j \<in> set is then INVALID_SOCKET else ao_fd (wa_ops ?s ! j)))"
    using Cons.IH [OF o(1)] Cons.prems(2,3) l by auto
  then show ?case
    using o(2) agrows_trans Cons.prems(2) i
    unfolding close_ops.simps l by (auto simp: close_op_simps nth_list_update)
qed simp

text \<open>
  C30. The Windows accept watcher loses no socket and closes none twice: whatever the system answers,
  whichever completions arrive and however often it is stopped and started, also by its callbacks,
  after the watcher is destroyed the listening socket and every socket it got from \<^verbatim>\<open>socket\<close> has
  been closed exactly once or handed to \<open>on_accept\<close> exactly once, and nothing it did not own was
  closed or handed over.
\<close>

theorem win_accept_owns_sockets:
  assumes "L \<noteq> INVALID_SOCKET" "wlog w = []"
    and "wacc_run os user n ops (new_acceptor os L o' a e w) = Some st"
  shows "wowns {#wa_listen st#} (wlog (wa_net (wa_destroy os st))) = Some {#}"
proof -
  have "aowns (wa_stop st)"
    using wacc_run_owns [OF new_acceptor_owns [OF assms(1,2)] assms(3)] wa_stop_owns by blast
  moreover define t where t: "t = close_ops os [0..<length (wa_ops (wa_stop st))] (wa_stop st)"
  ultimately have o': "aowns t" "agrows (wa_stop st) t" "length (wa_ops t) = length (wa_ops (wa_stop st))"
    "\<forall>i < length (wa_ops (wa_stop st)). ao_fd (wa_ops t ! i) = INVALID_SOCKET"
    using close_ops_owns [of "wa_stop st" "[0..<length (wa_ops (wa_stop st))]" os] by simp_all
  then have fds: "\<forall>op \<in> set (wa_ops t). ao_fd op = INVALID_SOCKET" by (metis in_set_conv_nth)
  have "\<forall>op \<in> set xs. ao_fd op = INVALID_SOCKET \<Longrightarrow> op_fds xs = {#}" for xs
    by (induction xs) (simp_all add: op_fds_def one_fd_def)
  from this [OF fds] have "op_fds (wa_ops t) = {#}" .
  with o'(1) have o: "wowns {#wa_listen t#} (wlog (wa_net t)) = Some {#wa_listen t#}" "wa_listen t \<noteq> INVALID_SOCKET"
    by (simp_all add: aowns_def)
  have "wa_listen t = wa_listen st" using o'(2) by (simp add: agrows_def wa_stop_def wa_note_def)
  with o show ?thesis
    by (simp add: wa_destroy_def Let_def t [symmetric] closeFd_def wowns_append give_up_def)
qed

section \<open>One operation for each slot\<close>

text \<open>
  A watcher that is started once, and whose callbacks at most stop it. While it is attached, the
  operations in the hands of the system are those of the slots marked \<open>in_flight\<close>, and such a slot has
  a socket and a buffer.
\<close>

definition slot_busy :: "'k wacc \<Rightarrow> overlapped \<Rightarrow> bool" where
  "slot_busy st ov \<longleftrightarrow> (\<exists>i < length (wa_ops st). ov = accept_ov i \<and> ao_in_flight (wa_ops st ! i))"

definition slots_ok :: "'k wacc \<Rightarrow> bool" where
  "slots_ok st \<longleftrightarrow>
    (\<forall>op \<in> set (wa_ops st). ao_in_flight op \<longrightarrow> ao_fd op \<noteq> INVALID_SOCKET \<and> ao_buffer op)"

definition aflight :: "'k wacc \<Rightarrow> bool" where
  "aflight st \<longleftrightarrow> slots_ok st \<and>
    (\<forall>ov. packets_ok ov 0 (wlog (wa_net st)) \<longrightarrow>
      exclusive ov 0 (wlog (wa_net st)) \<and>
      (wa_attached st \<longrightarrow> in_flight ov (wlog (wa_net st)) = of_bool (slot_busy st ov)))"

text \<open>Steps that leave the slots in flight alone and give nothing to the system.\<close>

definition aquiet :: "'k wacc \<Rightarrow> 'k wacc \<Rightarrow> bool" where
  "aquiet s t \<longleftrightarrow>
    (\<exists>es. wlog (wa_net t) = wlog (wa_net s) @ es \<and> list_all idle es) \<and> (wa_attached t \<longrightarrow> wa_attached s) \<and>
    length (wa_ops t) = length (wa_ops s) \<and>
    (\<forall>i < length (wa_ops s). ao_in_flight (wa_ops t ! i) = ao_in_flight (wa_ops s ! i) \<and>
      (ao_in_flight (wa_ops s ! i) \<longrightarrow> wa_ops t ! i = wa_ops s ! i))"

lemma aquiet_refl [simp]: "aquiet s s"
  by (simp add: aquiet_def)

lemma aquiet_trans:
  assumes "aquiet s t" "aquiet t u"
  shows "aquiet s u"
proof -
  obtain es fs where "wlog (wa_net t) = wlog (wa_net s) @ es" "list_all idle es"
    "wlog (wa_net u) = wlog (wa_net t) @ fs" "list_all idle fs"
    using assms by (auto simp: aquiet_def)
  then have "wlog (wa_net u) = wlog (wa_net s) @ (es @ fs) \<and> list_all idle (es @ fs)" by simp
  with assms show ?thesis unfolding aquiet_def by (metis (no_types, lifting))
qed

lemma aquiet_flight:
  assumes "aquiet s t" "aflight s"
  shows "aflight t"
proof -
  obtain es where es: "wlog (wa_net t) = wlog (wa_net s) @ es" "list_all idle es"
    using assms(1) by (auto simp: aquiet_def)
  have "slot_busy t ov = slot_busy s ov" for ov
    using assms(1) by (auto simp: slot_busy_def aquiet_def)
  moreover have "slots_ok t"
    using assms unfolding slots_ok_def aflight_def aquiet_def all_set_conv_all_nth by metis
  moreover have "wa_attached t \<Longrightarrow> wa_attached s" using assms(1) by (simp add: aquiet_def)
  ultimately show ?thesis
    using assms(2) es idle_list [OF es(2)] by (simp add: aflight_def)
qed

definition at_rest :: "nat \<Rightarrow> 'k wacc \<Rightarrow> bool" where
  "at_rest i st \<longleftrightarrow> i < length (wa_ops st) \<and> \<not> ao_in_flight (wa_ops st ! i)"

lemma at_rest_quiet: "aquiet s t \<Longrightarrow> at_rest i s \<Longrightarrow> at_rest i t"
  by (auto simp: at_rest_def aquiet_def)

lemma aquiet_update:
  assumes "at_rest i s" "wlog (wa_net t) = wlog (wa_net s) @ es" "list_all idle es" "wa_attached t = wa_attached s"
    and "wa_ops t = (wa_ops s)[i := op]" "\<not> ao_in_flight op"
  shows "aquiet s t"
  unfolding aquiet_def
proof (intro conjI exI)
  show "\<forall>j < length (wa_ops s). ao_in_flight (wa_ops t ! j) = ao_in_flight (wa_ops s ! j) \<and>
      (ao_in_flight (wa_ops s ! j) \<longrightarrow> wa_ops t ! j = wa_ops s ! j)"
    using assms(1,5,6) by (auto simp: at_rest_def nth_list_update)
qed (use assms in simp_all)

lemma close_op_quiet:
  assumes "at_rest i st"
  shows "aquiet st (close_op os i st)"
proof -
  obtain a where l: "wlog (wa_net (close_op os i st)) = wlog (wa_net st) @
      (if ao_fd (wa_ops st ! i) = INVALID_SOCKET then [] else [WSys (WClose (ao_fd (wa_ops st ! i))) a])"
    using close_op_simps(8) by blast
  show ?thesis
    by (rule aquiet_update [OF assms l]) (use assms in \<open>auto simp: close_op_simps at_rest_def\<close>)
qed

lemma drop_op_quiet:
  assumes "at_rest i st"
  shows "aquiet st (drop_op os i st)"
proof -
  note c = close_op_quiet [OF assms, of os]
  have "aquiet (close_op os i st) (drop_op os i st)"
    by (rule aquiet_update [OF at_rest_quiet [OF c assms], of _ "[]"])
      (use assms in \<open>auto simp: drop_op_def close_op_simps at_rest_def\<close>)
  with c show ?thesis by (rule aquiet_trans)
qed

lemma renew_op_quiet:
  assumes "at_rest i st" "renew_op os i st = (e, st')"
  shows "aquiet st st'"
proof -
  have i: "i < length (wa_ops st)" using assms(1) by (simp add: at_rest_def)
  show ?thesis
  proof (rule renew_opE [OF assms(2) i])
    fix fd w
    assume c: "createAcceptSocket os (wa_listen st) (wa_net (close_op os i st)) = (fd, e, w)"
      and st': "st' = set_op i (\<lambda>op. op\<lparr>ao_fd := fd\<rparr>) ((close_op os i st)\<lparr>wa_net := w\<rparr>)"
      and ops: "wa_ops st' = (wa_ops st)[i := (wa_ops st ! i)\<lparr>ao_fd := fd\<rparr>]"
    obtain es where "wlog w = wlog (wa_net (close_op os i st)) @ es" "list_all idle es"
      using createAcceptSocket_log [OF c] by blast
    moreover obtain fs where "wlog (wa_net (close_op os i st)) = wlog (wa_net st) @ fs" "list_all idle fs"
      using close_op_quiet [OF assms(1), of os] by (auto simp: aquiet_def)
    ultimately have "wlog (wa_net st') = wlog (wa_net st) @ (fs @ es)" "list_all idle (fs @ es)"
      by (simp_all add: st')
    then show ?thesis
      by (rule aquiet_update [OF assms(1) _ _ _ ops]) (use assms(1) in \<open>simp_all add: st' close_op_simps at_rest_def\<close>)
  qed
qed

lemma submit_op_flight:
  assumes st: "aflight st" "wa_attached st" and i: "at_rest i st" and fd: "ao_fd (wa_ops st ! i) \<noteq> INVALID_SOCKET"
    and s: "submit_op os i st = (a, st')"
  shows "aflight st'" "\<And>j. j \<noteq> i \<Longrightarrow> at_rest j st \<Longrightarrow> at_rest j st'" "\<not> issued_ex a \<Longrightarrow> at_rest i st'"
proof -
  have il: "i < length (wa_ops st)" "\<not> ao_in_flight (wa_ops st ! i)" using i by (simp_all add: at_rest_def)
  note f = submit_op_facts [OF s il(1)]
  show "\<And>j. j \<noteq> i \<Longrightarrow> at_rest j st \<Longrightarrow> at_rest j st'" "\<not> issued_ex a \<Longrightarrow> at_rest i st'"
    using il by (simp_all add: at_rest_def f(5))
  have busy: "slot_busy st' ov = (if ov = accept_ov i then issued_ex a else slot_busy st ov)" for ov
    using il unfolding slot_busy_def f(5) by (auto simp: nth_list_update accept_ov_def)
  have free: "\<not> slot_busy st (accept_ov i)" using il by (auto simp: slot_busy_def accept_ov_def)
  have "slots_ok st'"
    using st(1) il fd set_update_subset_insert [of "wa_ops st" i] unfolding aflight_def slots_ok_def f(5)
    by (auto dest!: subsetD [OF set_update_subset_insert])
  moreover have "exclusive ov 0 (wlog (wa_net st')) \<and> in_flight ov (wlog (wa_net st')) = of_bool (slot_busy st' ov)"
    if "packets_ok ov 0 (wlog (wa_net st'))" for ov
  proof -
    have "packets_ok ov 0 (wlog (wa_net st))" using that by (simp add: f(1))
    with st have "exclusive ov 0 (wlog (wa_net st))" "in_flight ov (wlog (wa_net st)) = of_bool (slot_busy st ov)"
      by (simp_all add: aflight_def)
    then show ?thesis using free by (auto simp: f(1) busy)
  qed
  ultimately show "aflight st'" by (simp add: aflight_def)
qed

text \<open>Callbacks that at most stop the watcher.\<close>

definition only_stops :: "wacc_user \<Rightarrow> bool" where
  "only_stops user \<longleftrightarrow> (\<forall>l c. set (user l c) \<subseteq> {AStop})"

lemma wa_note_quiet: "idle e \<Longrightarrow> aquiet st (wa_note e st)"
  by (auto simp: aquiet_def wa_note_def)

lemma wa_stop_quiet: "aquiet st (wa_stop st)"
  by (auto simp: aquiet_def wa_stop_def wa_note_def intro: exI [of _ "[]"])

lemma acts_quiet: "set as \<subseteq> {AStop} \<Longrightarrow> wa_acts os run as st = Some st' \<Longrightarrow> aquiet st st'"
proof (induction as arbitrary: st)
  case (Cons a as)
  then have "wa_acts os run as (wa_stop st) = Some st'" by simp
  with Cons.IH [OF _ this] Cons.prems(1) wa_stop_quiet aquiet_trans show ?case by auto
qed simp

lemma wa_callback_quiet:
  assumes "only_stops user" "wa_callback os user n c st = Some st'"
  shows "aquiet st st'"
proof (cases n)
  case (Suc m)
  with assms have "aquiet (wa_note (WCb c) st) st'"
    by (auto simp: only_stops_def intro: acts_quiet)
  with wa_note_quiet [of "WCb c" st] show ?thesis by (auto intro: aquiet_trans)
qed (use assms in simp)

lemma report_quiet:
  assumes "only_stops user" "report (wa_callback os user n) e st = Some st'"
  shows "aquiet st st'"
  using assms wa_callback_quiet by (auto simp: report_def split: if_splits)

lemma postAccept_flight:
  assumes u: "only_stops user" and st: "aflight st" "at_rest i st"
    and p: "postAccept os (wa_callback os user n) i st = Some (b, st')"
  shows "aflight st' \<and> (\<forall>j. j \<noteq> i \<longrightarrow> at_rest j st \<longrightarrow> at_rest j st')"
proof (cases "wa_attached st")
  case False
  with p st show ?thesis by (simp add: postAccept_def)
next
  case att: True
  obtain e s1 where 1: "renew_op os i st = (e, s1)" by fastforce
  note q1 = renew_op_quiet [OF st(2) 1]
  have s1: "aflight s1" "at_rest i s1" "wa_attached s1"
    using aquiet_flight [OF q1 st(1)] at_rest_quiet [OF q1 st(2)] renew_op_fields(4) [OF 1] st(2) att
    by (simp_all add: at_rest_def)
  obtain a s2 where 2: "submit_op os i s1 = (a, s2)" by fastforce
  have p': "(if ao_fd (wa_ops s1 ! i) = INVALID_SOCKET then do { st \<leftarrow> report (wa_callback os user n) e s1; Some (False, st) }
    else if \<not> issued_ex a then do { st \<leftarrow> report (wa_callback os user n) (werr a) s2; Some (False, drop_op os i st) }
    else Some (True, s2)) = Some (b, st')"
    using p att by (simp only: postAccept_def 1 2 Let_def prod.case simp_thms if_False)
  show ?thesis
  proof (cases "ao_fd (wa_ops s1 ! i) = INVALID_SOCKET")
    case True
    with p' have "report (wa_callback os user n) e s1 = Some st'" by (auto simp: bind_eq_Some_conv)
    from aquiet_trans [OF q1 report_quiet [OF u this]] aquiet_flight [OF _ st(1)] at_rest_quiet show ?thesis by blast
  next
    case False
    note f = submit_op_flight [OF s1(1,3,2) False 2]
    show ?thesis
    proof (cases "issued_ex a")
      case True
      with p' False f at_rest_quiet [OF q1] show ?thesis by auto
    next
      case fl: False
      with p' False obtain s3 where 3: "report (wa_callback os user n) (werr a) s2 = Some s3" "st' = drop_op os i s3"
        by (auto simp: bind_eq_Some_conv)
      note q3 = report_quiet [OF u 3(1)]
      have "aquiet s2 st'"
        using aquiet_trans [OF q3 drop_op_quiet [OF at_rest_quiet [OF q3 f(3) [OF fl]]]] 3(2) by blast
      with f aquiet_flight at_rest_quiet [OF q1] at_rest_quiet show ?thesis by blast
    qed
  qed
qed

lemma post_all_flight:
  "only_stops user \<Longrightarrow> aflight st \<Longrightarrow> distinct is \<Longrightarrow> \<forall>i \<in> set is. at_rest i st \<Longrightarrow>
   post_all os (wa_callback os user n) is st = Some st' \<Longrightarrow> aflight st'"
proof (induction "is" arbitrary: st)
  case (Cons i "is")
  then obtain b s1 where 1: "postAccept os (wa_callback os user n) i st = Some (b, s1)"
    and 2: "post_all os (wa_callback os user n) is s1 = Some st'"
    by (auto simp: bind_eq_Some_conv)
  have "aflight s1 \<and> (\<forall>j. j \<noteq> i \<longrightarrow> at_rest j st \<longrightarrow> at_rest j s1)"
    using postAccept_flight [OF Cons.prems(1,2) _ 1] Cons.prems(4) by simp
  moreover from this have "\<forall>j \<in> set is. at_rest j s1" using Cons.prems(3,4) by auto
  ultimately show ?case using Cons.IH [OF Cons.prems(1) _ _ _ 2] Cons.prems(3) by simp
qed simp

lemma wa_start_flight:
  assumes u: "only_stops user" and fresh: "wa_ops st = []" "list_all idle (wlog (wa_net st))" "\<not> wa_attached st"
    and s: "wa_start os (wa_callback os user n) st = Some st'"
  shows "aflight st'"
proof (cases "wa_accept_ex st")
  case False
  then have "report (wa_callback os user n) WSAEINVAL st = Some st'" using s fresh(3) by (simp add: wa_start_def)
  from report_quiet [OF u this] obtain es where es: "wlog (wa_net st') = wlog (wa_net st) @ es" "list_all idle es"
    and t: "\<not> wa_attached st'" "wa_ops st' = []" using fresh(1,3) by (auto simp: aquiet_def)
  have "list_all idle (wlog (wa_net st'))" using es fresh(2) by simp
  from idle_list [OF this] t show ?thesis by (simp add: aflight_def slots_ok_def)
next
  case True
  let ?d = "accept_depth st"
  let ?s = "(wa_note (WAttach (wa_src_fd st)) st)\<lparr>wa_attached := True,
    wa_ops := take ?d (wa_ops st) @ replicate (?d - length (wa_ops st)) new_AcceptOp\<rparr>"
  have run: "post_all os (wa_callback os user n) [0..<?d] ?s = Some st'"
    using s True fresh(3) by (simp add: wa_start_def Let_def wa_note_def accept_depth_def)
  have ops: "wa_ops ?s = replicate ?d new_AcceptOp" using fresh(1) by simp
  have l: "list_all idle (wlog (wa_net ?s))" using fresh(2) by (simp add: wa_note_def)
  have "slots_ok ?s" unfolding slots_ok_def ops by (simp add: new_AcceptOp_def)
  moreover have "\<not> slot_busy ?s ov" for ov unfolding slot_busy_def ops by (auto simp: new_AcceptOp_def)
  ultimately have "aflight ?s" using idle_list [OF l] unfolding aflight_def by simp
  moreover have "\<forall>i \<in> set [0..<?d]. at_rest i ?s" unfolding at_rest_def ops by (auto simp: new_AcceptOp_def)
  ultimately show ?thesis using post_all_flight [OF u _ _ _ run] by simp
qed

lemma post_after_quiet:
  assumes u: "only_stops user" and s: "aflight s0" "at_rest i s0" "aquiet s0 s1"
    and p: "map_option snd (postAccept os (wa_callback os user n) i s1) = Some st'"
  shows "aflight st'"
proof -
  obtain b where "postAccept os (wa_callback os user n) i s1 = Some (b, st')" using p by auto
  from postAccept_flight [OF u aquiet_flight [OF s(3,1)] at_rest_quiet [OF s(3,2)] this] show ?thesis by blast
qed

lemma wa_note_simps:
  "wlog (wa_net (wa_note e st)) = wlog (wa_net st) @ [e]" "wa_attached (wa_note e st) = wa_attached st"
  "wa_ops (wa_note e st) = wa_ops st" "wa_listen (wa_note e st) = wa_listen st"
  by (simp_all add: wa_note_def)

text \<open>A completion takes its slot out of flight.\<close>

lemma completion_flight:
  assumes st: "aflight st" "wa_attached st" and i: "i < length (wa_ops st)"
  shows "aflight (set_op i (\<lambda>op. op\<lparr>ao_in_flight := False\<rparr>) (wa_note (WCompleted (accept_ov i)) st))"
    (is "aflight ?t")
proof -
  have f: "wlog (wa_net ?t) = wlog (wa_net st) @ [WCompleted (accept_ov i)]" "wa_attached ?t"
    "wa_ops ?t = (wa_ops st)[i := (wa_ops st ! i)\<lparr>ao_in_flight := False\<rparr>]"
    using st(2) by (simp_all add: wa_note_simps)
  have busy: "slot_busy ?t ov = (ov \<noteq> accept_ov i \<and> slot_busy st ov)" for ov
    using i unfolding slot_busy_def f(3) by (auto simp: nth_list_update accept_ov_def)
  have "slots_ok ?t"
    using st(1) i unfolding aflight_def slots_ok_def f(3) by (auto dest!: subsetD [OF set_update_subset_insert])
  moreover have "exclusive ov 0 (wlog (wa_net ?t)) \<and> in_flight ov (wlog (wa_net ?t)) = of_bool (slot_busy ?t ov)"
    if p: "packets_ok ov 0 (wlog (wa_net ?t))" for ov
  proof -
    have "exclusive ov 0 (wlog (wa_net st))" "in_flight ov (wlog (wa_net st)) = of_bool (slot_busy st ov)"
      using st p by (simp_all add: aflight_def wa_note_simps)
    then show ?thesis using p unfolding f(1) busy by (auto split: if_splits)
  qed
  ultimately show ?thesis using f(2) by (simp add: aflight_def)
qed

lemma onCompletion_flight:
  assumes u: "only_stops user" and st: "aflight st"
    and c: "wa_onCompletion os (wa_callback os user n) ev (wa_note (WCompleted (ie_overlapped ev)) st) = Some st'"
  shows "aflight st'"
proof -
  let ?run = "wa_callback os user n" and ?ov = "ie_overlapped ev"
  let ?n = "wa_note (WCompleted ?ov) st"
  note nf = wa_note_simps
  show ?thesis
  proof (cases "wa_attached st \<and> ?ov \<noteq> 0 \<and> findOp ?ov ?n \<noteq> None")
    case False
    then have st': "st' = ?n" using c by (auto simp: wa_onCompletion_def nf split: if_splits option.splits)
    have free: "\<not> slot_busy st ?ov" if "wa_attached st"
      using False that by (auto simp: slot_busy_def accept_ov_def findOp_def find_None_iff nf)
    have "slots_ok ?n" "slot_busy ?n = slot_busy st" using st by (simp_all add: aflight_def slots_ok_def slot_busy_def fun_eq_iff nf)
    then show ?thesis
      unfolding st' using st free by (auto simp: aflight_def nf)
  next
    case True
    then obtain i where i: "findOp ?ov ?n = Some i" by blast
    note len = findOp_length [OF i, unfolded nf]
    let ?s = "set_op i (\<lambda>op. op\<lparr>ao_in_flight := False\<rparr>) ?n"
    have s: "aflight ?s" "at_rest i ?s" using completion_flight [OF st] True len by (simp_all add: at_rest_def nf)
    obtain a s1 where a: "wa_sys os (WResult (wa_listen st) ?ov) ?s = (a, s1)" by fastforce
    obtain w where w: "wlog w = wlog (wa_net ?s) @ [WSys (WResult (wa_listen st) ?ov) a]" "s1 = ?s\<lparr>wa_net := w\<rparr>"
      by (rule wa_sysD [OF a]) blast
    have q1: "aquiet ?s s1" using w by (auto simp: aquiet_def)
    then have s1: "at_rest i s1" using at_rest_quiet s(2) by blast
    obtain str s2 where t: "take_stream os i s1 = (str, s2)" by fastforce
    have c': "(if wret a = 0 then do { st \<leftarrow> report ?run (werr a) (drop_op os i s1); map_option snd (postAccept os ?run i st) }
      else do { st \<leftarrow> (if wa_has_accept s2 then ?run (OnAccept str) s2
                      else Some (s2\<lparr>wa_net := destroy_stream os str (wa_net s2)\<rparr>));
                map_option snd (postAccept os ?run i st) }) = Some st'"
      using c True unfolding wa_onCompletion_def i option.case set_op_simps Let_def a prod.case t nf by simp
    have "\<exists>s3. aquiet s1 s3 \<and> map_option snd (postAccept os ?run i s3) = Some st'"
    proof (cases "wret a = 0")
      case True
      then obtain s3 where "report ?run (werr a) (drop_op os i s1) = Some s3" "map_option snd (postAccept os ?run i s3) = Some st'"
        using c' by (auto simp: bind_eq_Some_conv)
      with drop_op_quiet [OF s1, of os] report_quiet [OF u] aquiet_trans show ?thesis by blast
    next
      case False
      then obtain s3 where s3: "(if wa_has_accept s2 then ?run (OnAccept str) s2
          else Some (s2\<lparr>wa_net := destroy_stream os str (wa_net s2)\<rparr>)) = Some s3"
        and p: "map_option snd (postAccept os ?run i s3) = Some st'"
        using c' by (auto simp: bind_eq_Some_conv)
      have i1: "i < length (wa_ops s1)" using s1 by (simp add: at_rest_def)
      note f = take_stream_facts [OF t i1]
      obtain es where "wlog (wa_net s2) = wlog (wa_net s1) @ es" "list_all idle es" using f(7) by blast
      then have "aquiet s1 s2"
        by (rule aquiet_update [OF s1 _ _ _ f(6)]) (use s1 f(5) in \<open>simp_all add: at_rest_def\<close>)
      moreover have "aquiet s2 (s2\<lparr>wa_net := destroy_stream os str (wa_net s2)\<rparr>)"
        by (auto simp: aquiet_def destroy_stream_def closeFd_def)
      ultimately have "aquiet s1 s2" "aquiet s2 s3"
        using s3 wa_callback_quiet [OF u, of os n "OnAccept str" s2 s3] by (auto split: if_splits)
      with p aquiet_trans show ?thesis by blast
    qed
    then obtain s3 where s3: "aquiet s1 s3" "map_option snd (postAccept os ?run i s3) = Some st'" by blast
    from post_after_quiet [OF u s aquiet_trans [OF q1 s3(1)] s3(2)] show ?thesis .
  qed
qed

lemma wacc_run_flight:
  "only_stops user \<Longrightarrow> aflight st \<Longrightarrow> AccStart \<notin> set ops \<Longrightarrow> wacc_run os user n ops st = Some st' \<Longrightarrow> aflight st'"
proof (induction ops arbitrary: st)
  case (Cons p ops)
  then obtain s1 where 1: "wacc_step os user n p st = Some s1" and 2: "wacc_run os user n ops s1 = Some st'"
    by (auto simp: bind_eq_Some_conv)
  have "aflight s1"
    using 1 Cons.prems(1-3) onCompletion_flight aquiet_flight [OF wa_stop_quiet] by (cases p) auto
  with Cons.IH [OF Cons.prems(1) _ _ 2] Cons.prems(3) show ?case by simp
qed simp

text \<open>
  C31. Each slot has at most one operation in the hands of the system. For a watcher that is started
  once, with callbacks that at most stop it, and a port that delivers completions only of operations
  that were started: no \<^verbatim>\<open>OVERLAPPED\<close> is passed while an earlier \<^verbatim>\<open>AcceptEx\<close> on it is outstanding, while
  the watcher is attached exactly the slots marked \<open>in_flight\<close> have an operation outstanding, and such a
  slot keeps its socket and its address buffer.
\<close>

theorem win_accept_one_per_slot:
  assumes "only_stops user" "wlog w = []" "AccStart \<notin> set ops"
    and "wacc_run os user n (AccStart # ops) (new_acceptor os L o' a e w) = Some st"
    and "packets_ok ov 0 (wlog (wa_net st))"
  shows "exclusive ov 0 (wlog (wa_net st)) \<and>
    (wa_attached st \<longrightarrow> in_flight ov (wlog (wa_net st)) = of_bool (slot_busy st ov)) \<and> slots_ok st"
proof -
  let ?n = "new_acceptor os L o' a e w"
  have "wadds (wconfig L) w (wa_net ?n)"
    using wadds_fetch(1) [of L w os] by (cases "fetchAcceptEx os L w") (simp add: new_acceptor_def)
  then have "list_all idle (wlog (wa_net ?n))"
    using wconfig_idle assms(2) by (auto simp: wadds_def list_all_iff)
  moreover have "wa_ops ?n = []" "\<not> wa_attached ?n" by (simp_all add: new_acceptor_def split: prod.split)
  ultimately have "aflight s1" if "wa_start os (wa_callback os user n) ?n = Some s1" for s1
    using wa_start_flight [OF assms(1) _ _ _ that] by simp
  then have "aflight st"
    using assms(4) wacc_run_flight [OF assms(1) _ assms(3)] by (auto simp: bind_eq_Some_conv)
  with assms(5) show ?thesis by (simp add: aflight_def)
qed

text \<open>
  A system on which every \<^verbatim>\<open>AcceptEx\<close> is pending and the sockets are numbered from 10.
\<close>

fun pending_wos :: "nat wos" where
  "pending_wos k (WSocket f) =
    (\<lparr>wret = int k + 10, werr = 0, wout_ptr = True, wout_addr = None, wout_len = 0, wout_n = 0, wout_bytes = []\<rparr>, k + 1)"
| "pending_wos k (WAcceptEx f g ov) =
    (\<lparr>wret = 0, werr = WSA_IO_PENDING, wout_ptr = True, wout_addr = None, wout_len = 0, wout_n = 0, wout_bytes = []\<rparr>, k)"
| "pending_wos k (WResult f ov) =
    (\<lparr>wret = 1, werr = 0, wout_ptr = True, wout_addr = None, wout_len = 0, wout_n = 0, wout_bytes = []\<rparr>, k)"
| "pending_wos k c =
    (\<lparr>wret = 0, werr = 0, wout_ptr = True, wout_addr = Some (Sa_in 0x5000 [127, 0, 0, 1]), wout_len = 16,
      wout_n = 0, wout_bytes = []\<rparr>, k)"

definition demo_accept_option :: TcpAcceptOption where
  "demo_accept_option = sock_options.extend default_sock_options
    (TcpAcceptOption.fields (makeIpEndpointV4 [0, 0, 0, 0] 80) 128 2 True None None None)"

definition demo_acc_net :: "nat wnet" where
  "demo_acc_net = \<lparr>wkern = 0, wlog = []\<rparr>"

definition demo_acc :: "nat wacc" where
  "demo_acc = new_acceptor pending_wos 4 demo_accept_option True True demo_acc_net"

definition demo_acc_ops :: "wacc_op list" where
  "demo_acc_ops = [AccCompletion \<lparr>ie_key = 4, ie_overlapped = accept_ov 1, ie_bytes = 0, ie_error = 0\<rparr>]"

definition demo_acc_user :: wacc_user where
  "demo_acc_user = (\<lambda>_ c. case c of OnAccept _ \<Rightarrow> [AStop] | _ \<Rightarrow> [])"

definition demo_acc_after :: "nat wacc" where
  "demo_acc_after = the (wacc_run pending_wos demo_acc_user 2 (AccStart # demo_acc_ops) demo_acc)"

lemma demo_acc_run: "wacc_run pending_wos demo_acc_user 2 (AccStart # demo_acc_ops) demo_acc = Some demo_acc_after"
  unfolding demo_acc_after_def by (rule some_the) code_simp

lemma win_accept_one_per_slot_witness:
  "exclusive (accept_ov 0) 0 (wlog (wa_net demo_acc_after)) \<and> in_flight (accept_ov 0) (wlog (wa_net demo_acc_after)) = 1"
proof -
  have "only_stops demo_acc_user" by (auto simp: only_stops_def demo_acc_user_def split: callback.split)
  moreover have "AccStart \<notin> set demo_acc_ops" "wlog demo_acc_net = []"
    by (simp_all add: demo_acc_ops_def demo_acc_net_def)
  moreover have "packets_ok (accept_ov 0) 0 (wlog (wa_net demo_acc_after))"
    "in_flight (accept_ov 0) (wlog (wa_net demo_acc_after)) = 1" by code_simp+
  ultimately show ?thesis
    using win_accept_one_per_slot [OF _ _ _ demo_acc_run [unfolded demo_acc_def]] by blast
qed

lemma win_accept_owns_sockets_witness:
  "wowns {#4#} (wlog (wa_net (wa_destroy pending_wos demo_acc_after))) = Some {#} \<and>
   (\<exists>e \<in> set (wlog (wa_net demo_acc_after)). case e of WCb (OnAccept s) \<Rightarrow> sfd s = 11 | _ \<Rightarrow> False)"
proof -
  have "wa_listen demo_acc_after = 4" by code_simp
  moreover have "\<exists>e \<in> set (wlog (wa_net demo_acc_after)). case e of WCb (OnAccept s) \<Rightarrow> sfd s = 11 | _ \<Rightarrow> False"
    by code_simp
  ultimately show ?thesis
    using win_accept_owns_sockets [OF _ _ demo_acc_run [unfolded demo_acc_def]]
    by (simp add: INVALID_SOCKET_def demo_acc_net_def)
qed

text \<open>
  Starting again after a stop does not respect this. The operations of the first start are still
  in the hands of the system; \<^verbatim>\<open>start()\<close> closes their sockets, clears their \<^verbatim>\<open>OVERLAPPED\<close>s and passes
  them again: with all answers pending, two operations are then outstanding on one \<^verbatim>\<open>OVERLAPPED\<close>.
\<close>

lemma win_accept_restart_reuses:
  "\<exists>st. wacc_run pending_wos (\<lambda>_ _. []) 1 [AccStart, AccStop, AccStart] demo_acc = Some st \<and>
    packets_ok (accept_ov 0) 0 (wlog (wa_net st)) \<and> \<not> exclusive (accept_ov 0) 0 (wlog (wa_net st)) \<and>
    in_flight (accept_ov 0) (wlog (wa_net st)) = 2"
proof -
  let ?r = "wacc_run pending_wos (\<lambda>_ _. []) 1 [AccStart, AccStop, AccStart] demo_acc"
  have "?r = Some (the ?r)" by (rule some_the) code_simp
  moreover have "packets_ok (accept_ov 0) 0 (wlog (wa_net (the ?r)))"
    "\<not> exclusive (accept_ov 0) 0 (wlog (wa_net (the ?r)))"
    "in_flight (accept_ov 0) (wlog (wa_net (the ?r))) = 2" by code_simp+
  ultimately show ?thesis by blast
qed

text \<open>
  A slot whose \<open>postAccept\<close> fails is not tried again: no operation is outstanding on it, so no completion
  names it, and an attached watcher posts only on completions.
\<close>

lemma failed_post_rests:
  assumes "only_stops user" "aflight st" "at_rest i st" "wa_attached st"
    and "postAccept os (wa_callback os user n) i st = Some (False, st')"
  shows "at_rest i st'"
proof -
  obtain e s1 where 1: "renew_op os i st = (e, s1)" by fastforce
  note q1 = renew_op_quiet [OF assms(3) 1]
  obtain a s2 where 2: "submit_op os i s1 = (a, s2)" by fastforce
  have p': "(if ao_fd (wa_ops s1 ! i) = INVALID_SOCKET then do { st \<leftarrow> report (wa_callback os user n) e s1; Some (False, st) }
    else if \<not> issued_ex a then do { st \<leftarrow> report (wa_callback os user n) (werr a) s2; Some (False, drop_op os i st) }
    else Some (True, s2)) = Some (False, st')"
    using assms(4,5) by (simp only: postAccept_def 1 2 Let_def prod.case simp_thms if_False)
  have s1: "at_rest i s1" "aflight s1" "wa_attached s1"
    using at_rest_quiet [OF q1 assms(3)] aquiet_flight [OF q1 assms(2)] renew_op_fields(4) [OF 1] assms(3,4)
    by (simp_all add: at_rest_def)
  show ?thesis
  proof (cases "ao_fd (wa_ops s1 ! i) = INVALID_SOCKET")
    case True
    with p' have "report (wa_callback os user n) e s1 = Some st'" by (auto simp: bind_eq_Some_conv)
    from at_rest_quiet [OF report_quiet [OF assms(1) this] s1(1)] show ?thesis .
  next
    case False
    with p' obtain s3 where 3: "\<not> issued_ex a" "report (wa_callback os user n) (werr a) s2 = Some s3" "st' = drop_op os i s3"
      by (auto simp: bind_eq_Some_conv split: if_splits)
    have "at_rest i s2" using submit_op_flight(3) [OF s1(2,3,1) False 2 3(1)] .
    then have "at_rest i s3" using at_rest_quiet [OF report_quiet [OF assms(1) 3(2)]] by blast
    with drop_op_quiet at_rest_quiet show ?thesis unfolding 3(3) by blast
  qed
qed

end
