(* ===== verification/Win_Tcp_Connect.thy ===== *)
theory Win_Tcp_Connect
  imports Win_Tcp_Socket "HOL-Library.Monad_Syntax"
begin

text \<open>
  The connect watcher of \<^verbatim>\<open>platform/windows/network/watcher/tcp_connect_watcher.cc\<close>, which connects
  with one \<^verbatim>\<open>ConnectEx\<close> operation. Callbacks may start, stop and cancel the watcher; the bound on the
  depth is as for the connection watcher.
\<close>

section \<open>State\<close>

definition connect_ov :: overlapped where "connect_ov = 1"
definition WSAEAFNOSUPPORT :: int where "WSAEAFNOSUPPORT = 10047"

record 'k wconnector =
  wk_remote :: IpEndpoint
  wk_opts :: TcpConnectOption
  wk_has_connected :: bool
  wk_has_error :: bool
  wk_fd :: SOCKET
  wk_attached :: bool
  wk_canceled :: bool
  wk_connecting :: bool
  wk_connect_ex :: bool
  wk_source :: "SOCKET option"
  wk_net :: "'k wnet"

datatype wconnect_act = KStart | KStop | KCancel

type_synonym wconnect_user = "wevent list \<Rightarrow> callback \<Rightarrow> wconnect_act list"
type_synonym 'k krunner = "callback \<Rightarrow> 'k wconnector \<Rightarrow> 'k wconnector option"

definition new_wconnector ::
    "IpEndpoint \<Rightarrow> TcpConnectOption \<Rightarrow> bool \<Rightarrow> bool \<Rightarrow> 'k wnet \<Rightarrow> 'k wconnector" where
  "new_wconnector r o' c e w =
    \<lparr>wk_remote = r, wk_opts = o', wk_has_connected = c, wk_has_error = e, wk_fd = INVALID_SOCKET,
     wk_attached = False, wk_canceled = False, wk_connecting = False, wk_connect_ex = False,
     wk_source = None, wk_net = w\<rparr>"

definition wk_note :: "wevent \<Rightarrow> 'k wconnector \<Rightarrow> 'k wconnector" where
  "wk_note e st = st\<lparr>wk_net := wemit e (wk_net st)\<rparr>"

definition wk_sys :: "'k wos \<Rightarrow> wsyscall \<Rightarrow> 'k wconnector \<Rightarrow> wanswer \<times> 'k wconnector" where
  "wk_sys os c st = (let (a, w) = wsys os c (wk_net st) in (a, st\<lparr>wk_net := w\<rparr>))"

definition wk_closeFd :: "'k wos \<Rightarrow> 'k wconnector \<Rightarrow> 'k wconnector" where
  "wk_closeFd os st = (let (fd, w) = closeFd os (wk_fd st) (wk_net st) in st\<lparr>wk_fd := fd, wk_net := w\<rparr>)"

section \<open>Operations\<close>

definition wk_stop :: "'k wos \<Rightarrow> 'k wconnector \<Rightarrow> 'k wconnector" where
  "wk_stop os st =
    (if \<not> wk_attached st then st
     else wk_closeFd os ((case wk_source st of None \<Rightarrow> st | Some f \<Rightarrow> wk_note (WDetach f) st)\<lparr>wk_attached := False\<rparr>))"

definition wk_cancel :: "'k wos \<Rightarrow> 'k wconnector \<Rightarrow> 'k wconnector" where
  "wk_cancel os st =
    (if wk_canceled st then st else (wk_stop os (st\<lparr>wk_canceled := True\<rparr>))\<lparr>wk_source := None\<rparr>)"

definition wk_fail :: "'k wos \<Rightarrow> 'k krunner \<Rightarrow> int \<Rightarrow> 'k wconnector \<Rightarrow> 'k wconnector option" where
  "wk_fail os run err st =
    (let st = wk_stop os st in
     if wk_canceled st then Some st
     else if wk_has_error st then run (OnError err) st
     else Some st)"

text \<open>The endpoint to bind to; \<open>None\<close> for a family without one.\<close>

definition wbind_endpoint :: "TcpConnectOption \<Rightarrow> int \<Rightarrow> IpEndpoint option" where
  "wbind_endpoint o' family =
    (case local_bind o' of
       Some ep \<Rightarrow> Some ep
     | None \<Rightarrow>
         if family = WIN_AF_INET then Some (V4 \<lparr>ip4 = [0, 0, 0, 0], port4 = local_port o'\<rparr>)
         else if family = WIN_AF_INET6 then
           Some (V6 \<lparr>ip6 = replicate 16 0, port6 = local_port o', scope_id = 0\<rparr>)
         else None)"

text \<open>The second component is what \<^verbatim>\<open>WSAGetLastError()\<close> gives after a failure.\<close>

definition bindIfNeededOrRequested ::
    "'k wos \<Rightarrow> SOCKET \<Rightarrow> int \<Rightarrow> TcpConnectOption \<Rightarrow> 'k wnet \<Rightarrow> bool \<times> int \<times> 'k wnet" where
  "bindIfNeededOrRequested os fd family o' w =
    (case wbind_endpoint o' family of
       None \<Rightarrow> (False, WSAEAFNOSUPPORT, w)
     | Some ep \<Rightarrow>
         let (ss, len) = toSockaddr ep;
             (a, w) = wsys os (WBind fd ss len) w
         in (wret a = 0, werr a, w))"

definition apply_wconnect_options :: "'k wos \<Rightarrow> 'k wconnector \<Rightarrow> 'k wconnector" where
  "apply_wconnect_options os st =
    (let fd = wk_fd st; o' = wk_opts st;
         w = applyCloseOnExecIfConfigured os fd (set_close_on_exec o') (wk_net st);
         w = applyTcpNoDelayIfConfigured os fd (tcp_no_delay o') w;
         w = applyKeepAliveIfConfigured os fd (keep_alive o') (keep_alive_idle_sec o')
               (keep_alive_interval_sec o') (keep_alive_count o') w;
         w = applyBufSizeIfConfigured os fd (recv_buf_bytes o') (send_buf_bytes o') w
     in st\<lparr>wk_net := w\<rparr>)"

definition createSocket :: "'k wos \<Rightarrow> 'k krunner \<Rightarrow> 'k wconnector \<Rightarrow> 'k wconnector option" where
  "createSocket os run st =
    (let family = win_family (fst (toSockaddr (wk_remote st)));
         (a, st) = wk_sys os (WSocket family) st;
         st = st\<lparr>wk_fd := wret a\<rparr>
     in
     if wk_fd st = INVALID_SOCKET then wk_fail os run (werr a) st
     else
       let st = apply_wconnect_options os st;
           (ex, err, w) = fetchConnectEx os (wk_fd st) (wk_net st);
           st = st\<lparr>wk_net := w, wk_connect_ex := ex\<rparr>
       in
       if \<not> ex then wk_fail os run err st
       else
         let (ok, err, w) = bindIfNeededOrRequested os (wk_fd st) family (wk_opts st) (wk_net st);
             st = st\<lparr>wk_net := w\<rparr>
         in if \<not> ok then wk_fail os run err st else Some st)"

definition startConnect :: "'k wos \<Rightarrow> 'k krunner \<Rightarrow> 'k wconnector \<Rightarrow> 'k wconnector option" where
  "startConnect os run st =
    (if wk_canceled st \<or> wk_fd st = INVALID_SOCKET then Some st
     else if \<not> wk_connect_ex st then Some (wk_note WNullCall st)
     else
       let (a, st) = wk_sys os (WConnectEx (wk_fd st) (fst (toSockaddr (wk_remote st))) connect_ov) st in
       if \<not> issued_ex a then wk_fail os run (werr a) st
       else Some (st\<lparr>wk_connecting := True\<rparr>))"

text \<open>The part of \<open>start\<close> that follows \<open>createSocket\<close>.\<close>

definition attach_connect :: "'k wos \<Rightarrow> 'k krunner \<Rightarrow> 'k wconnector \<Rightarrow> 'k wconnector option" where
  "attach_connect os run st =
    (if wk_fd st = INVALID_SOCKET then Some st
     else startConnect os run
            ((wk_note (WAttach (wk_fd st)) st)\<lparr>wk_source := Some (wk_fd st), wk_attached := True\<rparr>))"

definition wk_start :: "'k wos \<Rightarrow> 'k krunner \<Rightarrow> 'k wconnector \<Rightarrow> 'k wconnector option" where
  "wk_start os run st =
    (if wk_attached st \<or> wk_canceled st then Some st
     else do { st \<leftarrow> createSocket os run st; attach_connect os run st })"

fun wk_acts :: "'k wos \<Rightarrow> 'k krunner \<Rightarrow> wconnect_act list \<Rightarrow> 'k wconnector \<Rightarrow> 'k wconnector option" where
  "wk_acts os run [] st = Some st"
| "wk_acts os run (a # as) st =
    do {
      st \<leftarrow> (case a of KStart \<Rightarrow> wk_start os run st | KStop \<Rightarrow> Some (wk_stop os st) | KCancel \<Rightarrow> Some (wk_cancel os st));
      wk_acts os run as st
    }"

fun wk_callback :: "'k wos \<Rightarrow> wconnect_user \<Rightarrow> nat \<Rightarrow> 'k krunner" where
  "wk_callback os user 0 cb st = None"
| "wk_callback os user (Suc n) cb st =
    wk_acts os (wk_callback os user n) (user (wlog (wk_net st)) cb) (wk_note (WCb cb) st)"

text \<open>What a successful completion does up to the callback: the stream takes the socket.\<close>

definition wk_release :: "'k wos \<Rightarrow> 'k wconnector \<Rightarrow> TcpStream \<times> 'k wconnector" where
  "wk_release os st =
    (let (a, st) = wk_sys os (WUpdateConnect (wk_fd st)) st;
         stream = new_stream (wk_fd st);
         st = wk_stop os (st\<lparr>wk_fd := INVALID_SOCKET\<rparr>);
         (stream, w) = (if cfill_endpoints (wk_opts st) then bestEffortFillEndpoints os (sfd stream) stream (wk_net st)
                        else (stream, wk_net st))
     in (stream, st\<lparr>wk_net := w\<rparr>))"

definition wk_onCompletion :: "'k wos \<Rightarrow> 'k krunner \<Rightarrow> IocpRawEvent \<Rightarrow> 'k wconnector \<Rightarrow> 'k wconnector option" where
  "wk_onCompletion os run ev st =
    (if wk_canceled st \<or> wk_fd st = INVALID_SOCKET then Some st
     else if ie_overlapped ev \<noteq> connect_ov then Some st
     else
       let (a, st) = wk_sys os (WResult (wk_fd st) connect_ov) (st\<lparr>wk_connecting := False\<rparr>) in
       if wret a = 0 then wk_fail os run (werr a) st
       else
         let (stream, st) = wk_release os st in
         if wk_has_connected st then run (OnConnected stream) st
         else Some (st\<lparr>wk_net := destroy_stream os stream (wk_net st)\<rparr>))"

definition wk_destroy :: "'k wos \<Rightarrow> 'k wconnector \<Rightarrow> 'k wconnector" where
  "wk_destroy os st = wk_closeFd os ((wk_stop os st)\<lparr>wk_source := None\<rparr>)"

datatype wconnect_op = ConStart | ConStop | ConCancel | ConCompletion IocpRawEvent

fun wconnect_step :: "'k wos \<Rightarrow> wconnect_user \<Rightarrow> nat \<Rightarrow> wconnect_op \<Rightarrow> 'k wconnector \<Rightarrow> 'k wconnector option" where
  "wconnect_step os user n ConStart st = wk_start os (wk_callback os user n) st"
| "wconnect_step os user n ConStop st = Some (wk_stop os st)"
| "wconnect_step os user n ConCancel st = Some (wk_cancel os st)"
| "wconnect_step os user n (ConCompletion ev) st =
    wk_onCompletion os (wk_callback os user n) ev (wk_note (WCompleted (ie_overlapped ev)) st)"

fun wconnect_run :: "'k wos \<Rightarrow> wconnect_user \<Rightarrow> nat \<Rightarrow> wconnect_op list \<Rightarrow> 'k wconnector \<Rightarrow> 'k wconnector option" where
  "wconnect_run os user n [] st = Some st"
| "wconnect_run os user n (p # ps) st = do { st \<leftarrow> wconnect_step os user n p st; wconnect_run os user n ps st }"

definition createIocpTcpConnectWatcher ::
    "IpEndpoint \<Rightarrow> TcpConnectOption \<Rightarrow> bool \<Rightarrow> bool \<Rightarrow> 'k wnet \<Rightarrow> 'k wconnector" where
  "createIocpTcpConnectWatcher r o' c e w = new_wconnector r o' c e w"

section \<open>Ownership of sockets\<close>

definition wheld :: "'k wconnector \<Rightarrow> bool" where
  "wheld st \<longleftrightarrow> wowns {#} (wlog (wk_net st)) = Some (one_fd (wk_fd st))"

text \<open>Between the operations a socket is held only while the source is attached.\<close>

definition wsettled :: "'k wconnector \<Rightarrow> bool" where
  "wsettled st \<longleftrightarrow> wheld st \<and> (wk_fd st \<noteq> INVALID_SOCKET \<longrightarrow> wk_attached st)"

lemma wk_note_simps [simp]:
  "wlog (wk_net (wk_note e st)) = wlog (wk_net st) @ [e]" "wk_fd (wk_note e st) = wk_fd st"
  "wk_attached (wk_note e st) = wk_attached st" "wk_source (wk_note e st) = wk_source st"
  "wk_canceled (wk_note e st) = wk_canceled st" "wk_connect_ex (wk_note e st) = wk_connect_ex st"
  by (simp_all add: wk_note_def)

lemma wk_sysD:
  assumes "wk_sys os c st = (a, st')"
  obtains w where "wlog w = wlog (wk_net st) @ [WSys c a]" "st' = st\<lparr>wk_net := w\<rparr>"
  using assms wlog_sys by (fastforce simp: wk_sys_def split: prod.splits)

lemma held_calm:
  assumes "wlog (wk_net t) = wlog (wk_net s) @ es" "list_all calm_event es" "wk_fd t = wk_fd s"
  shows "wheld s \<Longrightarrow> wheld t"
  using assms wowns_calm by (simp add: wheld_def wowns_append)

lemma settled_calm:
  assumes "wlog (wk_net t) = wlog (wk_net s) @ es" "list_all calm_event es" "wk_fd t = wk_fd s"
    "wk_attached t = wk_attached s"
  shows "wsettled s \<Longrightarrow> wsettled t"
  using held_calm [OF assms(1-3)] assms(3,4) by (simp add: wsettled_def)

lemma sys_keeps:
  assumes "wk_sys os c st = (a, st')" "calm_event (WSys c a)"
  shows "wheld st \<Longrightarrow> wheld st'" "wsettled st \<Longrightarrow> wsettled st'" "wk_fd st' = wk_fd st"
    "wk_attached st' = wk_attached st" "wk_canceled st' = wk_canceled st" "wk_opts st' = wk_opts st"
proof -
  obtain w where w: "wlog w = wlog (wk_net st) @ [WSys c a]" "st' = st\<lparr>wk_net := w\<rparr>"
    by (rule wk_sysD [OF assms(1)]) blast
  with assms(2) show "wheld st \<Longrightarrow> wheld st'" "wsettled st \<Longrightarrow> wsettled st'"
    by (auto intro: held_calm [of _ _ "[WSys c a]"] settled_calm [of _ _ "[WSys c a]"])
  show "wk_fd st' = wk_fd st" "wk_attached st' = wk_attached st" "wk_canceled st' = wk_canceled st"
    "wk_opts st' = wk_opts st" by (simp_all add: w(2))
qed

lemma note_keeps:
  "calm_event e \<Longrightarrow> wheld st \<Longrightarrow> wheld (wk_note e st)" "calm_event e \<Longrightarrow> wsettled st \<Longrightarrow> wsettled (wk_note e st)"
  by (auto intro: held_calm [of _ _ "[e]"] settled_calm [of _ _ "[e]"])

lemma closeFd_keeps:
  assumes "wheld st"
  shows "wheld (wk_closeFd os st)" "wk_fd (wk_closeFd os st) = INVALID_SOCKET"
    "wk_attached (wk_closeFd os st) = wk_attached st"
  using assms by (auto simp: wk_closeFd_def closeFd_def wheld_def wowns_append one_fd_def give_up_def)

lemma wk_stop_keeps:
  assumes "wheld st"
  shows "wheld (wk_stop os st)" "\<not> wk_attached (wk_stop os st)"
    "wk_fd (wk_stop os st) = (if wk_attached st then INVALID_SOCKET else wk_fd st)"
proof -
  let ?s = "(case wk_source st of None \<Rightarrow> st | Some f \<Rightarrow> wk_note (WDetach f) st)\<lparr>wk_attached := False\<rparr>"
  have l: "wlog (wk_net ?s) = wlog (wk_net st) @ (case wk_source st of None \<Rightarrow> [] | Some f \<Rightarrow> [WDetach f])"
    by (simp split: option.split)
  have "wheld ?s" by (rule held_calm [OF l _ _ assms]) (simp_all split: option.split)
  from closeFd_keeps [OF this] assms show "wheld (wk_stop os st)" "\<not> wk_attached (wk_stop os st)"
    "wk_fd (wk_stop os st) = (if wk_attached st then INVALID_SOCKET else wk_fd st)"
    by (auto simp: wk_stop_def)
qed

lemma wk_stop_settled: "wsettled st \<Longrightarrow> wsettled (wk_stop os st)"
  using wk_stop_keeps [of st os] by (auto simp: wsettled_def)

lemma wk_cancel_keeps:
  "wheld st \<Longrightarrow> wheld (wk_cancel os st)" "wsettled st \<Longrightarrow> wsettled (wk_cancel os st)"
proof -
  have f: "wheld (x\<lparr>wk_canceled := b\<rparr>) = wheld x" "wsettled (x\<lparr>wk_canceled := b\<rparr>) = wsettled x"
    "wheld (x\<lparr>wk_source := s\<rparr>) = wheld x" "wsettled (x\<lparr>wk_source := s\<rparr>) = wsettled x" for x :: "'a wconnector" and b s
    by (simp_all add: wheld_def wsettled_def)
  show "wheld st \<Longrightarrow> wheld (wk_cancel os st)"
    using wk_stop_keeps(1) [of "st\<lparr>wk_canceled := True\<rparr>" os] by (simp add: wk_cancel_def f)
  show "wsettled st \<Longrightarrow> wsettled (wk_cancel os st)"
    using wk_stop_settled [of "st\<lparr>wk_canceled := True\<rparr>" os] by (simp add: wk_cancel_def f)
qed

text \<open>Callbacks that do not start the watcher again.\<close>

definition no_start :: "wconnect_user \<Rightarrow> bool" where
  "no_start user \<longleftrightarrow> (\<forall>l c. KStart \<notin> set (user l c))"

definition krunner_ok :: "'k krunner \<Rightarrow> bool" where
  "krunner_ok run \<longleftrightarrow>
    (\<forall>c st st'. run c st = Some st' \<longrightarrow> (wheld (wk_note (WCb c) st) \<longrightarrow> wheld st') \<and>
       (wsettled (wk_note (WCb c) st) \<longrightarrow> wsettled st'))"

lemma wk_acts_keep:
  "KStart \<notin> set as \<Longrightarrow> wk_acts os run as st = Some st' \<Longrightarrow>
   (wheld st \<longrightarrow> wheld st') \<and> (wsettled st \<longrightarrow> wsettled st')"
proof (induction as arbitrary: st)
  case (Cons a as)
  then obtain s1 where "s1 = wk_stop os st \<or> s1 = wk_cancel os st" "wk_acts os run as s1 = Some st'"
    by (cases a) auto
  with Cons.IH [of s1] Cons.prems(1) wk_stop_keeps(1) [of st os] wk_stop_settled [of st os] wk_cancel_keeps [of st os]
  show ?case by auto
qed simp

lemma wk_callback_ok: "no_start user \<Longrightarrow> krunner_ok (wk_callback os user n)"
proof (cases n)
  case (Suc m)
  assume u: "no_start user"
  show ?thesis
    unfolding krunner_ok_def
  proof (intro allI impI)
    fix c and st st' :: "'a wconnector"
    assume "wk_callback os user n c st = Some st'"
    with Suc have "wk_acts os (wk_callback os user m) (user (wlog (wk_net st)) c) (wk_note (WCb c) st) = Some st'" by simp
    from wk_acts_keep [OF _ this] u
    show "(wheld (wk_note (WCb c) st) \<longrightarrow> wheld st') \<and> (wsettled (wk_note (WCb c) st) \<longrightarrow> wsettled st')"
      by (simp add: no_start_def)
  qed
qed (simp add: krunner_ok_def)

lemma wk_fail_keeps:
  assumes "krunner_ok run" "wk_fail os run e st = Some st'"
  shows "wheld st \<Longrightarrow> wheld st'" "wsettled st \<Longrightarrow> wsettled st'"
proof -
  have "st' = wk_stop os st \<or> run (OnError e) (wk_stop os st) = Some st'"
    using assms(2) by (auto simp: wk_fail_def Let_def split: if_splits)
  moreover have "wheld s' \<or> \<not> wheld s" "wsettled s' \<or> \<not> wsettled s" if "run (OnError e) s = Some s'" for s s'
    using assms(1) that note_keeps [of "WCb (OnError e)" s] unfolding krunner_ok_def by (auto simp del: wk_note_simps)
  ultimately show "wheld st \<Longrightarrow> wheld st'" "wsettled st \<Longrightarrow> wsettled st'"
    using wk_stop_keeps(1) [of st os] wk_stop_settled [of st os] by blast+
qed

text \<open>Configuring the socket.\<close>

lemma config_keeps:
  assumes "wadds (wconfig fd) (wk_net st) w"
  shows "wheld st \<Longrightarrow> wheld (st\<lparr>wk_net := w, wk_connect_ex := ex\<rparr>)" "wheld st \<Longrightarrow> wheld (st\<lparr>wk_net := w\<rparr>)"
proof -
  obtain es where es: "wlog w = wlog (wk_net st) @ es" "list_all (wconfig fd) es" using assms by (auto simp: wadds_def)
  then have c: "list_all calm_event es" using wconfig_calm by (auto simp: list_all_iff)
  show "wheld st \<Longrightarrow> wheld (st\<lparr>wk_net := w, wk_connect_ex := ex\<rparr>)" "wheld st \<Longrightarrow> wheld (st\<lparr>wk_net := w\<rparr>)"
    by (auto intro: held_calm [OF _ c] simp: es(1))
qed

lemma options_config: "wadds (wconfig (wk_fd st)) (wk_net st) (wk_net (apply_wconnect_options os st))"
  by (simp add: apply_wconnect_options_def Let_def)
    (rule wadds_trans [OF wadds_trans [OF wadds_trans [OF wadds_config(2) wadds_config(4)] wadds_keepalive] wadds_config(5)])

lemma wk_createSocket_held:
  assumes r: "krunner_ok run" and st: "wheld st" "wk_fd st = INVALID_SOCKET"
    and c: "createSocket os run st = Some st'"
  shows "wheld st'"
proof -
  let ?fam = "win_family (fst (toSockaddr (wk_remote st)))"
  obtain a s1 where a: "wk_sys os (WSocket ?fam) st = (a, s1)" by fastforce
  obtain w where w: "wlog w = wlog (wk_net st) @ [WSys (WSocket ?fam) a]" "s1 = st\<lparr>wk_net := w\<rparr>"
    by (rule wk_sysD [OF a]) blast
  let ?s = "s1\<lparr>wk_fd := wret a\<rparr>" and ?o = "apply_wconnect_options os (s1\<lparr>wk_fd := wret a\<rparr>)"
  have h: "wheld ?s" using st w by (simp add: wheld_def wowns_append one_fd_def)
  have o: "?o = ?s\<lparr>wk_net := wk_net ?o\<rparr>" by (simp add: apply_wconnect_options_def Let_def)
  have ho: "wheld ?o" by (subst o, rule config_keeps(2) [OF options_config h])
  obtain ex err w2 where f: "fetchConnectEx os (wk_fd ?o) (wk_net ?o) = (ex, err, w2)" by (metis prod_cases3)
  let ?e = "?o\<lparr>wk_net := w2, wk_connect_ex := ex\<rparr>"
  have he: "wheld ?e"
    using config_keeps(1) [OF _ ho] wadds_fetch(2) [of "wk_fd ?o" "wk_net ?o" os] f by simp
  obtain ok err2 w3 where b: "bindIfNeededOrRequested os (wk_fd ?e) ?fam (wk_opts ?e) (wk_net ?e) = (ok, err2, w3)"
    by (metis prod_cases3)
  have "wlog w3 = wlog (wk_net ?e) \<or> (\<exists>s l x. wlog w3 = wlog (wk_net ?e) @ [WSys (WBind (wk_fd ?e) s l) x])"
    using b wlog_sys unfolding bindIfNeededOrRequested_def
    by (fastforce simp: Let_def split: option.splits prod.splits)
  then have hb: "wheld (?e\<lparr>wk_net := w3\<rparr>)"
    using held_calm [of "?e\<lparr>wk_net := w3\<rparr>" ?e "[]"] held_calm [of "?e\<lparr>wk_net := w3\<rparr>" ?e] he by fastforce
  have "wk_fail os run (werr a) ?s = Some st' \<or> wk_fail os run err ?e = Some st' \<or>
      wk_fail os run err2 (?e\<lparr>wk_net := w3\<rparr>) = Some st' \<or> st' = ?e\<lparr>wk_net := w3\<rparr>"
    using c unfolding createSocket_def a Let_def prod.case f b
    by (auto simp only: split: if_splits)
  with wk_fail_keeps(1) [OF r] h he hb show ?thesis by blast
qed

lemma startConnect_settled:
  assumes r: "krunner_ok run" and st: "wsettled st" and c: "startConnect os run st = Some st'"
  shows "wsettled st'"
proof (cases "wk_canceled st \<or> wk_fd st = INVALID_SOCKET \<or> \<not> wk_connect_ex st")
  case True
  with c st note_keeps(2) [of WNullCall st] show ?thesis by (auto simp: startConnect_def split: if_splits)
next
  case False
  obtain a s1 where a: "wk_sys os (WConnectEx (wk_fd st) (fst (toSockaddr (wk_remote st))) connect_ov) st = (a, s1)"
    by fastforce
  have "wsettled s1" using sys_keeps(2) [OF a _ st] by simp
  moreover have "wk_fail os run (werr a) s1 = Some st' \<or> st' = s1\<lparr>wk_connecting := True\<rparr>"
    using c False by (auto simp: startConnect_def a split: if_splits)
  ultimately show ?thesis using wk_fail_keeps(2) [OF r] by (auto simp: wsettled_def wheld_def)
qed

lemma attach_connect_settled:
  assumes r: "krunner_ok run" and st: "wheld st" and c: "attach_connect os run st = Some st'"
  shows "wsettled st'"
proof (cases "wk_fd st = INVALID_SOCKET")
  case True
  with c st show ?thesis by (simp add: attach_connect_def wsettled_def)
next
  case False
  let ?s = "(wk_note (WAttach (wk_fd st)) st)\<lparr>wk_source := Some (wk_fd st), wk_attached := True\<rparr>"
  have "wsettled ?s" using note_keeps(1) [of "WAttach (wk_fd st)" st] st by (simp add: wsettled_def wheld_def)
  with c False startConnect_settled [OF r] show ?thesis by (simp add: attach_connect_def)
qed

lemma wk_start_settled:
  assumes r: "krunner_ok run" and st: "wsettled st" and c: "wk_start os run st = Some st'"
  shows "wsettled st'"
proof (cases "wk_attached st \<or> wk_canceled st")
  case False
  then obtain s1 where 1: "createSocket os run st = Some s1" and 2: "attach_connect os run s1 = Some st'"
    using c by (auto simp: wk_start_def bind_eq_Some_conv)
  have "wheld st" "wk_fd st = INVALID_SOCKET" using st False by (auto simp: wsettled_def)
  from attach_connect_settled [OF r wk_createSocket_held [OF r this 1] 2] show ?thesis .
qed (use c st in \<open>simp add: wk_start_def\<close>)

text \<open>Handing over: the stream takes the socket, the watcher lets go of it.\<close>

lemma hand_settled:
  assumes "wowns {#} (wlog (wk_net st)) = Some {#fd#}" "fd \<noteq> INVALID_SOCKET" "wk_fd st = INVALID_SOCKET" "sfd str = fd"
  shows "wsettled (wk_note (WCb (OnConnected str)) st)"
    "wsettled (st\<lparr>wk_net := destroy_stream os str (wk_net st)\<rparr>)"
  using assms
  by (simp_all add: wsettled_def wheld_def wowns_append one_fd_def give_up_def destroy_stream_def closeFd_def)

lemma wk_stop_released:
  "\<exists>es. wlog (wk_net (wk_stop os (s\<lparr>wk_fd := INVALID_SOCKET\<rparr>))) = wlog (wk_net s) @ es \<and> list_all calm_event es \<and>
     wk_fd (wk_stop os (s\<lparr>wk_fd := INVALID_SOCKET\<rparr>)) = INVALID_SOCKET"
  by (rule exI [of _ "if wk_attached s then (case wk_source s of None \<Rightarrow> [] | Some f \<Rightarrow> [WDetach f]) else []"])
    (auto simp: wk_stop_def wk_closeFd_def closeFd_def split: option.split)

lemma wk_release_hands:
  assumes st: "wheld st" "wk_fd st \<noteq> INVALID_SOCKET" and r: "wk_release os st = (str, st')"
  shows "wsettled (wk_note (WCb (OnConnected str)) st')"
    "wsettled (st'\<lparr>wk_net := destroy_stream os str (wk_net st')\<rparr>)"
proof -
  let ?fd = "wk_fd st"
  obtain a s1 where a: "wk_sys os (WUpdateConnect ?fd) st = (a, s1)" by fastforce
  note k = sys_keeps [OF a]
  have h: "wowns {#} (wlog (wk_net s1)) = Some {#?fd#}" "wk_fd s1 = ?fd"
    using k st by (simp_all add: wheld_def one_fd_def)
  let ?t = "wk_stop os (s1\<lparr>wk_fd := INVALID_SOCKET\<rparr>)"
  obtain es where stp: "wlog (wk_net ?t) = wlog (wk_net s1) @ es" "list_all calm_event es" "wk_fd ?t = INVALID_SOCKET"
    using wk_stop_released [of os s1] by blast
  have o: "wowns {#} (wlog (wk_net ?t)) = Some {#?fd#}"
    using h(1) wowns_calm [OF stp(2)] by (simp add: stp(1) wowns_append)
  obtain str' w where f: "(if cfill_endpoints (wk_opts ?t)
      then bestEffortFillEndpoints os (sfd (new_stream (wk_fd s1))) (new_stream (wk_fd s1)) (wk_net ?t)
      else (new_stream (wk_fd s1), wk_net ?t)) = (str', w)" by fastforce
  have r': "str = str'" "st' = ?t\<lparr>wk_net := w\<rparr>"
    using r unfolding wk_release_def a Let_def prod.case f by simp_all
  have "wadds (wconfig ?fd) (wk_net ?t) w \<and> sfd str' = ?fd"
    using f wadds_fill [of os ?fd "new_stream ?fd" "wk_net ?t" str' w]
    by (cases "cfill_endpoints (wk_opts ?t)") (auto simp: new_stream_def h(2))
  then have "wowns {#} (wlog w) = Some {#?fd#}" "sfd str' = ?fd" using wowns_adds o by blast+
  with hand_settled(1) [of st' ?fd str] hand_settled(2) [of st' ?fd str os] st(2) stp(3) show "wsettled (wk_note (WCb (OnConnected str)) st')"
    "wsettled (st'\<lparr>wk_net := destroy_stream os str (wk_net st')\<rparr>)"
    by (simp_all add: r')
qed

lemma wk_onCompletion_settled:
  assumes r: "krunner_ok run" and st: "wsettled st" and c: "wk_onCompletion os run ev st = Some st'"
  shows "wsettled st'"
proof (cases "wk_canceled st \<or> wk_fd st = INVALID_SOCKET \<or> ie_overlapped ev \<noteq> connect_ov")
  case True
  with c st show ?thesis by (auto simp: wk_onCompletion_def split: if_splits)
next
  case False
  obtain a s1 where a: "wk_sys os (WResult (wk_fd st) connect_ov) (st\<lparr>wk_connecting := False\<rparr>) = (a, s1)" by fastforce
  have s0: "wsettled (st\<lparr>wk_connecting := False\<rparr>)" using st by (simp add: wsettled_def wheld_def)
  have s1: "wsettled s1" "wk_fd s1 = wk_fd st" using sys_keeps [OF a] s0 by simp_all
  obtain str s2 where t: "wk_release os s1 = (str, s2)" by fastforce
  have h: "wheld s1" "wk_fd s1 \<noteq> INVALID_SOCKET" using s1 False by (auto simp: wsettled_def)
  note hands = wk_release_hands [OF h t]
  have "wk_fail os run (werr a) s1 = Some st' \<or> run (OnConnected str) s2 = Some st' \<or>
      st' = s2\<lparr>wk_net := destroy_stream os str (wk_net s2)\<rparr>"
    using c False unfolding wk_onCompletion_def a Let_def prod.case t by (auto split: if_splits)
  with wk_fail_keeps(2) [OF r _ s1(1)] hands r show ?thesis unfolding krunner_ok_def by blast
qed

lemma wconnect_run_settled:
  "no_start user \<Longrightarrow> wsettled st \<Longrightarrow> wconnect_run os user n ops st = Some st' \<Longrightarrow> wsettled st'"
proof (induction ops arbitrary: st)
  case (Cons p ops)
  then obtain s1 where 1: "wconnect_step os user n p st = Some s1" and 2: "wconnect_run os user n ops s1 = Some st'"
    by (auto simp: bind_eq_Some_conv)
  note r = wk_callback_ok [OF Cons.prems(1)]
  have "wsettled s1"
  proof (cases p)
    case (ConCompletion ev)
    with 1 wk_onCompletion_settled [OF r note_keeps(2) [OF calm_calls(5) Cons.prems(2)]] show ?thesis by simp
  qed (use 1 wk_start_settled [OF r Cons.prems(2)] wk_stop_settled [OF Cons.prems(2)]
      wk_cancel_keeps(2) [OF Cons.prems(2)] in auto)
  from Cons.IH [OF Cons.prems(1) this 2] show ?case .
qed simp

text \<open>
  The Windows connect watcher leaks no socket and closes none twice: whatever the system answers,
  whichever completions arrive and whenever the owner or a callback stops or cancels it, after the
  watcher is destroyed every socket it got from \<^verbatim>\<open>socket\<close> has been closed exactly once or handed to
  \<open>on_connected\<close> exactly once, and nothing it did not own was closed or handed over. Callbacks must not
  start the watcher again.
\<close>

lemma win_connect_owns_sockets:
  assumes "no_start user" "wlog w = []"
    and "wconnect_run os user n ops (new_wconnector r o' c e w) = Some st"
  shows "wowns {#} (wlog (wk_net (wk_destroy os st))) = Some {#}"
proof -
  have "wsettled (new_wconnector r o' c e w)"
    using assms(2) by (simp add: wsettled_def wheld_def new_wconnector_def one_fd_def)
  from wconnect_run_settled [OF assms(1) this assms(3)] have "wheld (wk_stop os st)"
    using wk_stop_keeps(1) by (auto simp: wsettled_def)
  then have "wheld ((wk_stop os st)\<lparr>wk_source := None\<rparr>)" by (simp add: wheld_def)
  from closeFd_keeps [OF this, of os] show ?thesis by (simp add: wk_destroy_def wheld_def one_fd_def)
qed

text \<open>A system whose calls succeed at once but for the given ones; the sockets are numbered from 10.\<close>

definition wanswer0 :: "int \<Rightarrow> wanswer" where
  "wanswer0 r = \<lparr>wret = r, werr = 0, wout_ptr = True, wout_addr = None, wout_len = 0, wout_n = 0, wout_bytes = []\<rparr>"

fun simple_wos :: "bool \<Rightarrow> bool \<Rightarrow> nat wos" where
  "simple_wos fetch bnd k (WSocket f) = (wanswer0 (int k + 10), k + 1)"
| "simple_wos fetch bnd k (WFetchConnectEx f) = ((wanswer0 0)\<lparr>wout_ptr := fetch\<rparr>, k)"
| "simple_wos fetch bnd k (WBind f s l) = (wanswer0 (if bnd then 0 else SOCKET_ERROR), k)"
| "simple_wos fetch bnd k (WConnectEx f s ov) = (if bnd then (wanswer0 0)\<lparr>werr := WSA_IO_PENDING\<rparr>
    else (wanswer0 0)\<lparr>werr := WSAEINVAL\<rparr>, k)"
| "simple_wos fetch bnd k (WResult f ov) = (wanswer0 1, k)"
| "simple_wos fetch bnd k c = (wanswer0 0, k)"

definition demo_con :: "nat wconnector" where
  "demo_con = new_wconnector (V4 \<lparr>ip4 = [127, 0, 0, 1], port4 = 80\<rparr>)
     (default_connect_option\<lparr>cfill_endpoints := False, connected_queue_capacity := 1\<rparr>) True True \<lparr>wkern = 0, wlog = []\<rparr>"

definition demo_con_packet :: IocpRawEvent where
  "demo_con_packet = \<lparr>ie_key = 10, ie_overlapped = connect_ov, ie_bytes = 0, ie_error = 0\<rparr>"

definition demo_con_user :: wconnect_user where
  "demo_con_user = (\<lambda>_ c. case c of OnConnected _ \<Rightarrow> [KCancel] | _ \<Rightarrow> [KStop])"

lemma win_connect_owns_sockets_witness:
  "\<exists>st. wconnect_run (simple_wos True True) demo_con_user 2 [ConStart, ConStop, ConStart, ConCompletion demo_con_packet] demo_con
      = Some st \<and> wowns {#} (wlog (wk_net (wk_destroy (simple_wos True True) st))) = Some {#} \<and>
    WCb (OnConnected (new_stream 11)) \<in> set (wlog (wk_net st))"
proof -
  let ?r = "wconnect_run (simple_wos True True) demo_con_user 2 [ConStart, ConStop, ConStart, ConCompletion demo_con_packet] demo_con"
  have "?r = Some (the ?r)" by (rule some_the) code_simp
  moreover have "WCb (OnConnected (new_stream 11)) \<in> set (wlog (wk_net (the ?r)))" by code_simp
  moreover have "no_start demo_con_user" by (auto simp: no_start_def demo_con_user_def split: callback.split)
  ultimately show ?thesis
    using win_connect_owns_sockets [of demo_con_user "\<lparr>wkern = 0, wlog = []\<rparr>" "simple_wos True True" 2
        "[ConStart, ConStop, ConStart, ConCompletion demo_con_packet]" "V4 \<lparr>ip4 = [127, 0, 0, 1], port4 = 80\<rparr>"
        "default_connect_option\<lparr>cfill_endpoints := False, connected_queue_capacity := 1\<rparr>" True True "the ?r"]
    unfolding demo_con_def [symmetric] by (intro exI [of _ "the ?r"]) simp
qed

section \<open>Failures before the connection is started\<close>

lemma createSocket_no_address:
  assumes "\<And>k f. wret (fst (os k (WSocket f))) \<noteq> INVALID_SOCKET" "\<And>k f. wret (fst (os k (WFetchConnectEx f))) \<noteq> 0"
  shows "\<exists>err t. createSocket os run st = wk_fail os run err t \<and> wk_fd t \<noteq> INVALID_SOCKET \<and> \<not> wk_connect_ex t \<and>
    wk_attached t = wk_attached st \<and> wk_canceled t = wk_canceled st \<and> wk_has_error t = wk_has_error st"
proof -
  let ?c = "WSocket (win_family (fst (toSockaddr (wk_remote st))))"
  obtain a x where a: "wk_sys os ?c st = (a, x)" by fastforce
  have "a = fst (os (wkern (wk_net st)) ?c)" using a by (simp add: wk_sys_def wsys_def split: prod.splits)
  then have a1: "wret a \<noteq> INVALID_SOCKET" using assms(1) by simp
  have x: "wk_attached x = wk_attached st" "wk_canceled x = wk_canceled st" "wk_has_error x = wk_has_error st"
    by (rule wk_sysD [OF a], simp)+
  let ?o = "apply_wconnect_options os (x\<lparr>wk_fd := wret a\<rparr>)"
  obtain b w where b: "wsys os (WFetchConnectEx (wk_fd ?o)) (wk_net ?o) = (b, w)" by fastforce
  then have "b = fst (os (wkern (wk_net ?o)) (WFetchConnectEx (wk_fd ?o)))" by (simp add: wsys_def split: prod.splits)
  then have "wret b \<noteq> 0" using assms(2) by simp
  with b have f: "fetchConnectEx os (wk_fd ?o) (wk_net ?o) = (False, werr b, w)" by (simp add: fetchConnectEx_def)
  have "createSocket os run st = wk_fail os run (werr b) (?o\<lparr>wk_net := w, wk_connect_ex := False\<rparr>)"
    unfolding createSocket_def a Let_def prod.case f using a1 by simp
  then show ?thesis
    using a1 x by (intro exI [of _ "werr b"] exI [of _ "?o\<lparr>wk_net := w, wk_connect_ex := False\<rparr>"])
      (simp add: apply_wconnect_options_def Let_def)
qed

text \<open>
  When the address of \<^verbatim>\<open>ConnectEx\<close> cannot be fetched the watcher reports the error, keeps the
  socket, attaches it and calls \<^verbatim>\<open>ConnectEx\<close> through the null pointer.
\<close>

lemma win_connect_null_call:
  assumes "\<And>k f. wret (fst (os k (WSocket f))) \<noteq> INVALID_SOCKET" "\<And>k f. wret (fst (os k (WFetchConnectEx f))) \<noteq> 0"
  shows "\<exists>st es err. wk_start os (wk_callback os (\<lambda>_ _. []) (Suc n)) (new_wconnector r o' c True w) = Some st \<and>
    wlog (wk_net st) = es @ [WCb (OnError err), WAttach (wk_fd st), WNullCall]"
proof -
  let ?s = "new_wconnector r o' c True w" and ?run = "wk_callback os (\<lambda>_ _. []) (Suc n)"
  obtain err t where 1: "createSocket os ?run ?s = wk_fail os ?run err t" "wk_fd t \<noteq> INVALID_SOCKET" "\<not> wk_connect_ex t"
    "\<not> wk_attached t" "\<not> wk_canceled t" "wk_has_error t"
    using createSocket_no_address [where os = os and run = ?run and st = ?s, OF assms] by (auto simp: new_wconnector_def)
  let ?t = "wk_note (WCb (OnError err)) t"
  have 2: "createSocket os ?run ?s = Some ?t" using 1 by (simp add: wk_fail_def wk_stop_def)
  show ?thesis
    using 1 2 by (auto simp: wk_start_def attach_connect_def startConnect_def new_wconnector_def)
qed

lemma win_connect_null_call_witness:
  "\<exists>st es err. wk_start (\<lambda>k c. (wanswer0 5, k)) (wk_callback (\<lambda>k c. (wanswer0 5, k)) (\<lambda>_ _. []) (Suc 0)) demo_con = Some st \<and>
    wlog (wk_net st) = es @ [WCb (OnError err), WAttach (wk_fd st), WNullCall]"
  unfolding demo_con_def by (rule win_connect_null_call) (simp_all add: wanswer0_def INVALID_SOCKET_def)

text \<open>
  When the bind fails and \<open>on_error\<close> starts the watcher again, the nested start overwrites the socket of
  the first attempt, which is never closed.
\<close>

lemma win_connect_retry_leaks:
  "\<exists>st. wconnect_run (simple_wos True False) (\<lambda>l c. if length (filter (\<lambda>e. e = WCb c) l) = 0 then [KStart] else []) 3
      [ConStart] demo_con = Some st \<and>
    wowns {#} (wlog (wk_net (wk_destroy (simple_wos True False) st))) = Some {#10#}"
proof -
  let ?r = "wconnect_run (simple_wos True False) (\<lambda>l c. if length (filter (\<lambda>e. e = WCb c) l) = 0 then [KStart] else []) 3
      [ConStart] demo_con"
  have "?r = Some (the ?r)" by (rule some_the) code_simp
  moreover have "wowns {#} (wlog (wk_net (wk_destroy (simple_wos True False) (the ?r)))) = Some {#10#}" by code_simp
  ultimately show ?thesis by blast
qed

end
