(* ===== verification/Mac_Tcp_Socket.thy ===== *)
theory Mac_Tcp_Socket
  imports Tcp_Socket
begin

text \<open>
  The socket helpers of \<^verbatim>\<open>platform/macos/network/watcher/tcp_socket_common.h\<close>.

  Error numbers, address families, flags and options are identified by their names: macOS gives
  \<^verbatim>\<open>EAGAIN\<close>, \<^verbatim>\<open>O_NONBLOCK\<close> or \<^verbatim>\<open>AF_INET6\<close> other numbers than Linux, and the code compares them only
  with each other and with zero. The SDK defines \<^verbatim>\<open>SO_NOSIGPIPE\<close>, \<^verbatim>\<open>SO_REUSEPORT\<close>, \<^verbatim>\<open>TCP_KEEPALIVE\<close>,
  \<^verbatim>\<open>TCP_KEEPINTVL\<close> and \<^verbatim>\<open>TCP_KEEPCNT\<close> and not \<^verbatim>\<open>TCP_KEEPIDLE\<close>, which decides the \<^verbatim>\<open>#ifdef\<close>s.

  Most helpers are the Linux ones line by line; they are named here so that a reader finds them
  under their file.
\<close>

section \<open>Helpers with the same text as on Linux\<close>

definition mac_closeFd :: "'k os \<Rightarrow> int \<Rightarrow> 'k net \<Rightarrow> int \<times> 'k net" where
  "mac_closeFd os = closeFd os"

definition mac_setNonBlocking :: "'k os \<Rightarrow> int \<Rightarrow> 'k net \<Rightarrow> bool \<times> int \<times> 'k net" where
  "mac_setNonBlocking os = setNonBlocking os"

definition mac_applyCloseOnExec :: "'k os \<Rightarrow> int \<Rightarrow> bool option \<Rightarrow> 'k net \<Rightarrow> 'k net" where
  "mac_applyCloseOnExec os = applyCloseOnExecIfConfigured os"

definition mac_applyTcpNoDelay :: "'k os \<Rightarrow> int \<Rightarrow> bool option \<Rightarrow> 'k net \<Rightarrow> 'k net" where
  "mac_applyTcpNoDelay os = applyTcpNoDelayIfConfigured os"

definition mac_applyBufSize :: "'k os \<Rightarrow> int \<Rightarrow> int option \<Rightarrow> int option \<Rightarrow> 'k net \<Rightarrow> 'k net" where
  "mac_applyBufSize os = applyBufSizeIfConfigured os"

definition mac_applyLinger :: "'k os \<Rightarrow> int \<Rightarrow> int option \<Rightarrow> 'k net \<Rightarrow> 'k net" where
  "mac_applyLinger os = applyLingerIfConfigured os"

definition mac_applyReuseAddr :: "'k os \<Rightarrow> int \<Rightarrow> bool option \<Rightarrow> 'k net \<Rightarrow> 'k net" where
  "mac_applyReuseAddr os = applyReuseAddrIfConfigured os"

definition mac_applyReusePort :: "'k os \<Rightarrow> int \<Rightarrow> bool option \<Rightarrow> 'k net \<Rightarrow> 'k net" where
  "mac_applyReusePort os = applyReusePortIfConfigured os"

definition mac_applyIpv6Only :: "'k os \<Rightarrow> int \<Rightarrow> bool option \<Rightarrow> 'k net \<Rightarrow> 'k net" where
  "mac_applyIpv6Only os = applyIpv6OnlyIfConfigured os"

definition mac_toSockaddr :: "IpEndpoint \<Rightarrow> sockaddr \<times> nat" where
  "mac_toSockaddr = toSockaddr"

definition mac_fromSockaddr :: "sockaddr option \<Rightarrow> nat \<Rightarrow> IpEndpoint option" where
  "mac_fromSockaddr = fromSockaddr"

definition mac_fillEndpoints :: "'k os \<Rightarrow> int \<Rightarrow> TcpStream \<Rightarrow> 'k net \<Rightarrow> TcpStream \<times> 'k net" where
  "mac_fillEndpoints os = bestEffortFillEndpoints os"

text \<open>\<^verbatim>\<open>MacTcpStream\<close>: the constructor, \<^verbatim>\<open>releaseFd\<close> and the destructor.\<close>

definition new_mac_stream :: "TcpStreamKind \<Rightarrow> int \<Rightarrow> TcpStream" where
  "new_mac_stream k fd = \<lparr>skind = k, peer = None, local = None, sfd = fd\<rparr>"

definition mac_releaseFd :: "TcpStream \<Rightarrow> int \<times> TcpStream" where
  "mac_releaseFd s = (sfd s, s\<lparr>sfd := -1\<rparr>)"

definition destroy_mac_stream :: "'k os \<Rightarrow> TcpStream \<Rightarrow> 'k net \<Rightarrow> 'k net" where
  "destroy_mac_stream os s w = snd (mac_closeFd os (sfd s) w)"

named_theorems mac_same \<open>the helpers that are those of Linux\<close>

lemmas [mac_same] =
  mac_closeFd_def mac_setNonBlocking_def mac_applyCloseOnExec_def mac_applyTcpNoDelay_def
  mac_applyBufSize_def mac_applyLinger_def mac_applyReuseAddr_def mac_applyReusePort_def
  mac_applyIpv6Only_def mac_toSockaddr_def mac_fromSockaddr_def mac_fillEndpoints_def

lemma mac_streams [mac_same]:
  "new_mac_stream = new_stream" "mac_releaseFd = releaseFd" "destroy_mac_stream = destroy_stream"
  by (simp_all add: fun_eq_iff new_mac_stream_def new_stream_def mac_releaseFd_def releaseFd_def
      destroy_mac_stream_def destroy_stream_def mac_closeFd_def)

section \<open>Helpers that differ\<close>

definition applyNoSigPipeIfAvailable :: "'k os \<Rightarrow> int \<Rightarrow> 'k net \<Rightarrow> 'k net" where
  "applyNoSigPipeIfAvailable os fd w = sys_void os (SysSetOpt fd SO_NOSIGPIPE 1) w"

text \<open>The idle time goes to \<open>TCP_KEEPALIVE\<close>, where Linux has \<open>TCP_KEEPIDLE\<close>.\<close>

definition mac_applyKeepAlive ::
    "'k os \<Rightarrow> int \<Rightarrow> bool option \<Rightarrow> int option \<Rightarrow> int option \<Rightarrow> int option \<Rightarrow> 'k net \<Rightarrow> 'k net" where
  "mac_applyKeepAlive os fd enable idle_sec interval_sec cnt w =
    (case enable of
       None \<Rightarrow> w
     | Some b \<Rightarrow>
         let w = sys_void os (SysSetOpt fd SO_KEEPALIVE (if b then 1 else 0)) w in
         if \<not> b then w
         else
           let w = set_int os fd TCP_KEEPALIVE idle_sec w;
               w = set_int os fd TCP_KEEPINTVL interval_sec w
           in set_int os fd TCP_KEEPCNT cnt w)"

text \<open>
  \<^verbatim>\<open>getSoErrorOr\<close> of the watchers: the pending error of the socket, the error of asking for it, or
  the fallback.
\<close>

definition getSoErrorOr :: "'k os \<Rightarrow> int \<Rightarrow> int \<Rightarrow> 'k net \<Rightarrow> int \<times> 'k net" where
  "getSoErrorOr os fd fallback w =
    (let (a, w) = sys os (SysGetError fd) w in
     if ret a \<noteq> 0 then (if eno a \<noteq> 0 then eno a else fallback, w)
     else (if out_int a \<noteq> 0 then out_int a else fallback, w))"

section \<open>What they add to the log\<close>

lemma adds_nosigpipe [intro]: "adds (config_event fd) w (applyNoSigPipeIfAvailable os fd w)"
  unfolding applyNoSigPipeIfAvailable_def by (rule adds_sys_void) simp

lemma adds_mac_keepalive [intro]:
  "adds (config_event fd) w (mac_applyKeepAlive os fd b i j k w)"
proof -
  let ?k = "\<lambda>x. sys_void os (SysSetOpt fd SO_KEEPALIVE x) w"
  have 1: "adds (config_event fd) w (?k x)" for x by (rule adds_sys_void) simp
  have "adds (config_event fd) w
    (set_int os fd TCP_KEEPCNT k (set_int os fd TCP_KEEPINTVL j (set_int os fd TCP_KEEPALIVE i (?k x))))" for x
    by (intro adds_trans [OF adds_trans [OF adds_trans [OF 1 adds_set_int] adds_set_int] adds_set_int])
  with 1 show ?thesis
    by (simp add: mac_applyKeepAlive_def Let_def split: option.split)
qed

text \<open>The error reported is never zero when the fallback is not.\<close>

lemma getSoErrorOr_nonzero: "f \<noteq> 0 \<Longrightarrow> fst (getSoErrorOr os fd f w) \<noteq> 0"
  by (simp add: getSoErrorOr_def split: prod.split)

end
