(* ===== verification/Mac_Tcp_Connection.thy ===== *)
theory Mac_Tcp_Connection
  imports Mac_Tcp_Socket Tcp_Connection Kqueue_Backend
begin

text \<open>
  The connection watchers of \<^verbatim>\<open>platform/macos/network/watcher/tcp_connection_watcher.cc\<close>. The poll
  class is the one of Linux but for its constructor and for the way it asks for the pending error.
  The kqueue class has two event sources, one for each filter, and registers the second only while
  it waits for writability. As on Linux the user is a function from the log and the callback to
  the calls it makes, and destroying the watcher inside its own callback is not modelled.
\<close>

section \<open>The poll class\<close>

definition consumeMacStream :: "TcpStream \<Rightarrow> tcp_error + int" where
  "consumeMacStream s =
    (if skind s = MacKqueue \<or> skind s = MacPoll then Inr (fst (mac_releaseFd s))
     else Inl StreamMismatch)"

text \<open>Both constructors configure the descriptor in the same way.\<close>

definition mac_configure :: "'k os \<Rightarrow> TcpConnectionOption \<Rightarrow> int \<Rightarrow> 'k net \<Rightarrow> 'k net" where
  "mac_configure os o' fd w =
    (let w = applyNoSigPipeIfAvailable os fd w;
         w = mac_applyTcpNoDelay os fd (tcp_no_delay o') w;
         w = mac_applyKeepAlive os fd (keep_alive o') (keep_alive_idle_sec o')
               (keep_alive_interval_sec o') (keep_alive_count o') w;
         w = mac_applyBufSize os fd (recv_buf_bytes o') (send_buf_bytes o') w
     in mac_applyLinger os fd (linger_sec o') w)"

definition new_mac_conn ::
    "'k os \<Rightarrow> TcpConnectionOption \<Rightarrow> int \<Rightarrow> bool \<Rightarrow> bool \<Rightarrow> bool \<Rightarrow> bool \<Rightarrow> 'k net \<Rightarrow> 'k conn" where
  "new_mac_conn os o' fd r c e s w =
    \<lparr>opts = o', cfd = fd, has_recv = r, has_close = c, has_error = e, has_send_ready = s,
     attached = False, peer_closed = False, want_send_ready = False, closed = False,
     armed_events = EV_IN OR EV_ERR OR EV_HUP, in_buf_size = 64 * 1024, source = True,
     src_fd = fd, net = mac_configure os o' fd w\<rparr>"

definition mac_conn_soError :: "'k os \<Rightarrow> 'k conn \<Rightarrow> int \<times> 'k conn" where
  "mac_conn_soError os st =
    (let (e, w) = getSoErrorOr os (cfd st) EIO (net st) in (e, st\<lparr>net := w\<rparr>))"

definition mac_poll_onReady :: "'k os \<Rightarrow> 'k runner \<Rightarrow> nat \<Rightarrow> u32 \<Rightarrow> 'k conn \<Rightarrow> 'k conn option" where
  "mac_poll_onReady os run n revents st =
    (if cfd st < 0 then Some st
     else if revents AND EV_ERR \<noteq> 0 then
       let (err, st) = mac_conn_soError os st in
       do {
         st \<leftarrow> (if has_error st then run (OnError (if err \<noteq> 0 then err else EIO)) st else Some st);
         closeNow os run st
       }
     else
       let st = (if revents AND EV_HUP \<noteq> 0 then st\<lparr>peer_closed := True\<rparr> else st) in
       do {
         st \<leftarrow> (if revents AND EV_IN \<noteq> 0 \<or> peer_closed st then handleRead os run n st else Some st);
         if peer_closed st then closeNow os run st
         else if revents AND EV_OUT \<noteq> 0 \<and> want_send_ready st then ready_write poll_flavour run st
         else Some st
       })"

text \<open>The members whose text is that of the Linux poll class.\<close>

definition mac_poll_start :: "'k conn \<Rightarrow> 'k conn" where "mac_poll_start = start"
definition mac_poll_stop :: "'k conn \<Rightarrow> 'k conn" where "mac_poll_stop = stop"

definition mac_poll_shutdownWrite :: "'k os \<Rightarrow> 'k conn \<Rightarrow> 'k conn" where
  "mac_poll_shutdownWrite os = shutdownWrite os"

definition mac_poll_destroy :: "'k os \<Rightarrow> 'k conn \<Rightarrow> 'k conn" where
  "mac_poll_destroy os = destroy_conn os"

definition mac_poll_trySend ::
    "'k os \<Rightarrow> 'k runner \<Rightarrow> nat \<Rightarrow> u8 list \<Rightarrow> 'k conn \<Rightarrow> (TrySendResult \<times> 'k conn) option" where
  "mac_poll_trySend os = trySend os poll_flavour"

definition mac_poll_armWritable :: "'k conn \<Rightarrow> 'k conn" where
  "mac_poll_armWritable = armWritable poll_flavour"

definition mac_poll_disarmWritable :: "'k conn \<Rightarrow> 'k conn" where
  "mac_poll_disarmWritable = disarmWritable poll_flavour"

definition mac_poll_handleRead :: "'k os \<Rightarrow> 'k runner \<Rightarrow> nat \<Rightarrow> 'k conn \<Rightarrow> 'k conn option" where
  "mac_poll_handleRead os = handleRead os"

definition mac_poll_closeNow :: "'k os \<Rightarrow> 'k runner \<Rightarrow> 'k conn \<Rightarrow> 'k conn option" where
  "mac_poll_closeNow os = closeNow os"

text \<open>
  Asking through \<^verbatim>\<open>getSoErrorOr\<close> with \<^verbatim>\<open>EIO\<close> and replacing zero by \<^verbatim>\<open>EIO\<close> afterwards, as the Linux
  class does, come to the same.
\<close>

lemma mac_poll_is_linux: "mac_poll_onReady os run n ev st = onReady os poll_flavour run n ev st"
proof -
  have e: "EIO \<noteq> 0" by (simp add: EIO_def)
  have "(let (err, st) = mac_conn_soError os st in
      do { st \<leftarrow> (if has_error st then run (OnError (if err \<noteq> 0 then err else EIO)) st else Some st);
           closeNow os run st }) = ready_error os run st"
    by (auto simp: mac_conn_soError_def getSoErrorOr_def ready_error_def conn_sys_def Let_def e
        split: prod.splits if_splits intro!: arg_cong2 [where f = Option.bind])
  moreover have "f_hup poll_flavour = EV_HUP" by (simp add: poll_flavour_def)
  ultimately show ?thesis unfolding mac_poll_onReady_def onReady_def by presburger
qed

fun mac_poll_step :: "'k os \<Rightarrow> user \<Rightarrow> nat \<Rightarrow> conn_op \<Rightarrow> 'k conn \<Rightarrow> 'k conn option" where
  "mac_poll_step os user n Start st = Some (mac_poll_start st)"
| "mac_poll_step os user n Stop st = Some (mac_poll_stop st)"
| "mac_poll_step os user n (Ready ev) st =
    mac_poll_onReady os (callback os user poll_flavour n) n ev st"
| "mac_poll_step os user n (TrySend d) st =
    map_option snd (mac_poll_trySend os (callback os user poll_flavour n) n d st)"
| "mac_poll_step os user n Shutdown st = Some (mac_poll_shutdownWrite os st)"
| "mac_poll_step os user n CloseConn st =
    mac_poll_closeNow os (callback os user poll_flavour n) st"

fun mac_poll_run :: "'k os \<Rightarrow> user \<Rightarrow> nat \<Rightarrow> conn_op list \<Rightarrow> 'k conn \<Rightarrow> 'k conn option" where
  "mac_poll_run os user n [] st = Some st"
| "mac_poll_run os user n (p # ps) st =
    do { st \<leftarrow> mac_poll_step os user n p st; mac_poll_run os user n ps st }"

lemma mac_poll_step_eq: "mac_poll_step os user n p st = conn_step os user poll_flavour n p st"
  by (cases p) (simp_all add: mac_poll_start_def mac_poll_stop_def mac_poll_is_linux
      mac_poll_trySend_def mac_poll_shutdownWrite_def mac_poll_closeNow_def)

lemma mac_poll_run_eq: "mac_poll_run os user n ps = conn_run os user poll_flavour n ps"
proof (induction ps)
  case (Cons p ps)
  show ?case by (rule ext) (simp add: mac_poll_step_eq Cons.IH)
qed (simp add: fun_eq_iff)

section \<open>The kqueue class\<close>

definition EV_ERROR :: u16 where "EV_ERROR = 0x4000"
definition EV_EOF :: u16 where "EV_EOF = 0x8000"

text \<open>
  \<open>ksrc_fd\<close> is the descriptor both sources were built with; \<open>kread_source\<close> and \<open>kwrite_source\<close> say
  whether the pointers to them are set. Registering and removing the write source is logged as
  \<open>AttachWrite\<close> and \<open>DetachWrite\<close>.
\<close>

record 'k kconn =
  kopts :: TcpConnectionOption
  kfd :: int
  khas_recv :: bool
  khas_close :: bool
  khas_error :: bool
  khas_send_ready :: bool
  kattached :: bool
  kpeer_closed :: bool
  kwant_send_ready :: bool
  kclosed :: bool
  kwrite_attached :: bool
  kin_buf_size :: nat
  kread_source :: bool
  kwrite_source :: bool
  ksrc_fd :: int
  knet :: "'k net"

type_synonym 'k krunner = "callback \<Rightarrow> 'k kconn \<Rightarrow> 'k kconn option"

definition kq_note :: "event \<Rightarrow> 'k kconn \<Rightarrow> 'k kconn" where
  "kq_note e st = st\<lparr>knet := emit e (knet st)\<rparr>"

definition kq_sys :: "'k os \<Rightarrow> syscall \<Rightarrow> 'k kconn \<Rightarrow> answer \<times> 'k kconn" where
  "kq_sys os c st = (let (a, w) = sys os c (knet st) in (a, st\<lparr>knet := w\<rparr>))"

definition new_kq_conn ::
    "'k os \<Rightarrow> TcpConnectionOption \<Rightarrow> int \<Rightarrow> bool \<Rightarrow> bool \<Rightarrow> bool \<Rightarrow> bool \<Rightarrow> 'k net \<Rightarrow> 'k kconn" where
  "new_kq_conn os o' fd r c e s w =
    \<lparr>kopts = o', kfd = fd, khas_recv = r, khas_close = c, khas_error = e, khas_send_ready = s,
     kattached = False, kpeer_closed = False, kwant_send_ready = False, kclosed = False,
     kwrite_attached = False, kin_buf_size = 64 * 1024, kread_source = True,
     kwrite_source = True, ksrc_fd = fd, knet = mac_configure os o' fd w\<rparr>"

definition kq_start :: "'k kconn \<Rightarrow> 'k kconn" where
  "kq_start st =
    (if kattached st then st else (kq_note (Attach (ksrc_fd st)) st)\<lparr>kattached := True\<rparr>)"

definition kq_stop :: "'k kconn \<Rightarrow> 'k kconn" where
  "kq_stop st =
    (if \<not> kattached st then st
     else
       let st = (if kwrite_attached st
                 then (kq_note (DetachWrite (ksrc_fd st)) st)\<lparr>kwrite_attached := False\<rparr> else st)
       in (kq_note (Detach (ksrc_fd st)) st)\<lparr>kattached := False\<rparr>)"

definition kq_shutdownWrite :: "'k os \<Rightarrow> 'k kconn \<Rightarrow> 'k kconn" where
  "kq_shutdownWrite os st =
    (if kfd st < 0 then st else snd (kq_sys os (SysShutdown (kfd st)) st))"

definition kq_closeFd :: "'k os \<Rightarrow> 'k kconn \<Rightarrow> 'k kconn" where
  "kq_closeFd os st =
    (let (fd, w) = mac_closeFd os (kfd st) (knet st) in st\<lparr>kfd := fd, knet := w\<rparr>)"

definition kq_destroy :: "'k os \<Rightarrow> 'k kconn \<Rightarrow> 'k kconn" where
  "kq_destroy os st =
    kq_closeFd os ((kq_stop st)\<lparr>kread_source := False, kwrite_source := False\<rparr>)"

definition kq_armWritable :: "'k kconn \<Rightarrow> 'k kconn" where
  "kq_armWritable st =
    (if \<not> kwrite_source st \<or> kwrite_attached st then st
     else (kq_note (AttachWrite (ksrc_fd st)) st)\<lparr>kwrite_attached := True\<rparr>)"

definition kq_disarmWritable :: "'k kconn \<Rightarrow> 'k kconn" where
  "kq_disarmWritable st =
    (if \<not> kwrite_source st \<or> \<not> kwrite_attached st then st
     else (kq_note (DetachWrite (ksrc_fd st)) st)\<lparr>kwrite_attached := False\<rparr>)"

definition kq_closeNow :: "'k os \<Rightarrow> 'k krunner \<Rightarrow> 'k kconn \<Rightarrow> 'k kconn option" where
  "kq_closeNow os run st =
    (if kclosed st then Some st
     else
       let st = kq_closeFd os (kq_stop (st\<lparr>kclosed := True\<rparr>)) in
       if khas_close st then run OnClose st else Some st)"

fun kq_send_loop :: "'k os \<Rightarrow> 'k krunner \<Rightarrow> nat \<Rightarrow> u8 list \<Rightarrow> nat \<Rightarrow> nat \<Rightarrow> 'k kconn \<Rightarrow>
    (TrySendResult \<times> 'k kconn) option" where
  "kq_send_loop os run 0 d limit tot st = None"
| "kq_send_loop os run (Suc n) d limit tot st =
    (if tot < limit then
       let (a, st) = kq_sys os (SysSend (kfd st) (take (limit - tot) (drop tot d))) st in
       if ret a > 0 then kq_send_loop os run n d limit (tot + nat (ret a)) st
       else if ret a < 0 \<and> eno a = EINTR then kq_send_loop os run n d limit tot st
       else if ret a < 0 \<and> (eno a = EAGAIN \<or> eno a = EWOULDBLOCK) then
         Some (\<lparr>sent = tot, would_block = True, send_err = 0\<rparr>,
               kq_armWritable (st\<lparr>kwant_send_ready := True\<rparr>))
       else
         let e = (if ret a < 0 then eno a else EIO) in
         do {
           st \<leftarrow> (if khas_error st then run (OnError e) st else Some st);
           st \<leftarrow> kq_closeNow os run st;
           Some (\<lparr>sent = tot, would_block = False, send_err = e\<rparr>, st)
         }
     else Some (\<lparr>sent = tot, would_block = False, send_err = 0\<rparr>, st))"

definition kq_trySend ::
    "'k os \<Rightarrow> 'k krunner \<Rightarrow> nat \<Rightarrow> u8 list \<Rightarrow> 'k kconn \<Rightarrow> (TrySendResult \<times> 'k kconn) option" where
  "kq_trySend os run n d st =
    (if kfd st < 0 then Some (\<lparr>sent = 0, would_block = False, send_err = EBADF\<rparr>, st)
     else if d = [] then Some (\<lparr>sent = 0, would_block = False, send_err = 0\<rparr>, st)
     else kq_send_loop os run n d (min (max_write_bytes_per_tick (kopts st)) (length d)) 0 st)"

fun kq_act :: "'k os \<Rightarrow> 'k krunner \<Rightarrow> nat \<Rightarrow> act \<Rightarrow> 'k kconn \<Rightarrow> 'k kconn option" where
  "kq_act os run n UClose st = kq_closeNow os run st"
| "kq_act os run n (UTrySend d) st = map_option snd (kq_trySend os run n d st)"
| "kq_act os run n UShutdown st = Some (kq_shutdownWrite os st)"
| "kq_act os run n UStop st = Some (kq_stop st)"
| "kq_act os run n UStart st = Some (kq_start st)"

fun kq_acts :: "'k os \<Rightarrow> 'k krunner \<Rightarrow> nat \<Rightarrow> act list \<Rightarrow> 'k kconn \<Rightarrow> 'k kconn option" where
  "kq_acts os run n [] st = Some st"
| "kq_acts os run n (a # as) st = do { st \<leftarrow> kq_act os run n a st; kq_acts os run n as st }"

fun kq_callback :: "'k os \<Rightarrow> user \<Rightarrow> nat \<Rightarrow> 'k krunner" where
  "kq_callback os user 0 cb st = None"
| "kq_callback os user (Suc n) cb st =
    kq_acts os (kq_callback os user n) n (user (log (knet st)) cb) (kq_note (Cb cb) st)"

fun kq_read_loop :: "'k os \<Rightarrow> 'k krunner \<Rightarrow> nat \<Rightarrow> nat \<Rightarrow> 'k kconn \<Rightarrow> 'k kconn option" where
  "kq_read_loop os run 0 remaining st = None"
| "kq_read_loop os run (Suc n) remaining st =
    (if remaining > 0 then
       let (a, st) = kq_sys os (SysRecv (kfd st) (min remaining (kin_buf_size st))) st in
       if ret a > 0 then
         do {
           st \<leftarrow> (if khas_recv st then run (OnRecv (out_bytes a)) st else Some st);
           kq_read_loop os run n (remaining - nat (ret a)) st
         }
       else if ret a = 0 then Some (st\<lparr>kpeer_closed := True\<rparr>)
       else if eno a = EINTR then kq_read_loop os run n remaining st
       else if eno a = EAGAIN \<or> eno a = EWOULDBLOCK then Some st
       else
         do {
           st \<leftarrow> (if khas_error st then run (OnError (eno a)) st else Some st);
           kq_closeNow os run st
         }
     else Some st)"

definition kq_handleRead :: "'k os \<Rightarrow> 'k krunner \<Rightarrow> nat \<Rightarrow> 'k kconn \<Rightarrow> 'k kconn option" where
  "kq_handleRead os run n st = kq_read_loop os run n (max_read_bytes_per_tick (kopts st)) st"

text \<open>\<^verbatim>\<open>static_cast<int>(ev.data)\<close> keeps the low 32 bits.\<close>

definition ev_errno :: "KqueueRawEvent \<Rightarrow> int" where
  "ev_errno ev = sint (ucast (kq_data ev) :: u32)"

text \<open>The branch for \<^verbatim>\<open>EV_ERROR\<close>, which both handlers begin with.\<close>

definition kq_ev_error :: "'k os \<Rightarrow> 'k krunner \<Rightarrow> KqueueRawEvent \<Rightarrow> 'k kconn \<Rightarrow> 'k kconn option" where
  "kq_ev_error os run ev st =
    (let (err, w) = (if ev_errno ev \<noteq> 0 then (ev_errno ev, knet st)
                     else getSoErrorOr os (kfd st) EIO (knet st));
         st = st\<lparr>knet := w\<rparr>
     in
     do {
       st \<leftarrow> (if khas_error st then run (OnError err) st else Some st);
       kq_closeNow os run st
     })"

definition onReadReady :: "'k os \<Rightarrow> 'k krunner \<Rightarrow> nat \<Rightarrow> KqueueRawEvent \<Rightarrow> 'k kconn \<Rightarrow> 'k kconn option" where
  "onReadReady os run n ev st =
    (if kfd st < 0 then Some st
     else if kq_flags ev AND EV_ERROR \<noteq> 0 then kq_ev_error os run ev st
     else
       let st = (if kq_flags ev AND EV_EOF \<noteq> 0 then st\<lparr>kpeer_closed := True\<rparr> else st) in
       do {
         st \<leftarrow> kq_handleRead os run n st;
         if kpeer_closed st then kq_closeNow os run st else Some st
       })"

definition onWriteReady :: "'k os \<Rightarrow> 'k krunner \<Rightarrow> KqueueRawEvent \<Rightarrow> 'k kconn \<Rightarrow> 'k kconn option" where
  "onWriteReady os run ev st =
    (if kfd st < 0 then Some st
     else if kq_flags ev AND EV_ERROR \<noteq> 0 then kq_ev_error os run ev st
     else if kq_flags ev AND EV_EOF \<noteq> 0 then kq_closeNow os run (st\<lparr>kpeer_closed := True\<rparr>)
     else if \<not> kwant_send_ready st then Some st
     else
       let st = kq_disarmWritable (st\<lparr>kwant_send_ready := False\<rparr>) in
       if khas_send_ready st then run OnSendReady st else Some st)"

datatype kq_op =
    KStart | KStop | KRead KqueueRawEvent | KWrite KqueueRawEvent | KTrySend "u8 list"
  | KShutdown | KClose

fun kq_step :: "'k os \<Rightarrow> user \<Rightarrow> nat \<Rightarrow> kq_op \<Rightarrow> 'k kconn \<Rightarrow> 'k kconn option" where
  "kq_step os user n KStart st = Some (kq_start st)"
| "kq_step os user n KStop st = Some (kq_stop st)"
| "kq_step os user n (KRead ev) st = onReadReady os (kq_callback os user n) n ev st"
| "kq_step os user n (KWrite ev) st = onWriteReady os (kq_callback os user n) ev st"
| "kq_step os user n (KTrySend d) st =
    map_option snd (kq_trySend os (kq_callback os user n) n d st)"
| "kq_step os user n KShutdown st = Some (kq_shutdownWrite os st)"
| "kq_step os user n KClose st = kq_closeNow os (kq_callback os user n) st"

fun kq_run :: "'k os \<Rightarrow> user \<Rightarrow> nat \<Rightarrow> kq_op list \<Rightarrow> 'k kconn \<Rightarrow> 'k kconn option" where
  "kq_run os user n [] st = Some st"
| "kq_run os user n (p # ps) st = do { st \<leftarrow> kq_step os user n p st; kq_run os user n ps st }"

text \<open>The factories.\<close>

definition createKqueueTcpConnectionWatcher ::
    "'k os \<Rightarrow> TcpConnectionOption \<Rightarrow> TcpStream \<Rightarrow> bool \<Rightarrow> bool \<Rightarrow> bool \<Rightarrow> bool \<Rightarrow> 'k net \<Rightarrow>
      tcp_error + 'k kconn" where
  "createKqueueTcpConnectionWatcher os o' s r c e sr w =
    (case consumeMacStream s of
       Inl err \<Rightarrow> Inl err
     | Inr fd \<Rightarrow> Inr (new_kq_conn os o' fd r c e sr w))"

definition createMacPollTcpConnectionWatcher ::
    "'k os \<Rightarrow> TcpConnectionOption \<Rightarrow> TcpStream \<Rightarrow> bool \<Rightarrow> bool \<Rightarrow> bool \<Rightarrow> bool \<Rightarrow> 'k net \<Rightarrow>
      tcp_error + 'k conn" where
  "createMacPollTcpConnectionWatcher os o' s r c e sr w =
    (case consumeMacStream s of
       Inl err \<Rightarrow> Inl err
     | Inr fd \<Rightarrow> Inr (new_mac_conn os o' fd r c e sr w))"

end
