(* ===== verification/Mac_Connection_Sim.thy ===== *)
theory Mac_Connection_Sim
  imports Mac_Tcp_Connection Tcp_Connection_Io
begin

text \<open>
  The two connection watchers of macOS do the same. The kqueue watcher is compared with the poll
  watcher step by step: related states have the same descriptor, flags and kernel, and logs that
  agree on the system calls and callbacks. What they register with the event core is left out of
  the comparison, for one has two sources and the other one source with a mask.
\<close>

section \<open>Related states\<close>

fun visible :: "event \<Rightarrow> bool" where
  "visible (Sys _ _) = True"
| "visible (Cb _) = True"
| "visible _ = False"

definition erase :: "event list \<Rightarrow> event list" where
  "erase = filter visible"

lemma erase_append [simp]: "erase (xs @ ys) = erase xs @ erase ys"
  by (simp add: erase_def)

lemma erase_Cons [simp]:
  "erase [] = []" "erase (e # es) = (if visible e then e # erase es else erase es)"
  by (simp_all add: erase_def)

text \<open>A user who does not look at the registrations.\<close>

definition blind :: "user \<Rightarrow> bool" where
  "blind user \<longleftrightarrow> (\<forall>l l' cb. erase l = erase l' \<longrightarrow> user l cb = user l' cb)"

text \<open>
  Which of the two sources is registered after a log; \<open>None\<close> when one is registered twice or
  removed without being registered.
\<close>

fun regs1 :: "event \<Rightarrow> bool \<times> bool \<Rightarrow> (bool \<times> bool) option" where
  "regs1 (Attach _) (r, w) = (if r then None else Some (True, w))"
| "regs1 (Detach _) (r, w) = (if r then Some (False, w) else None)"
| "regs1 (AttachWrite _) (r, w) = (if w then None else Some (r, True))"
| "regs1 (DetachWrite _) (r, w) = (if w then Some (r, False) else None)"
| "regs1 _ rw = Some rw"

definition regs :: "event list \<Rightarrow> (bool \<times> bool) option" where
  "regs es = fold (\<lambda>e s. s \<bind> regs1 e) es (Some (False, False))"

lemma regs_snoc [simp]:
  "regs (es @ [e]) = regs es \<bind> regs1 e" "regs (es @ [d, e]) = regs es \<bind> regs1 d \<bind> regs1 e"
  by (simp_all add: regs_def)

lemma regs1_same [simp]: "s \<bind> regs1 (Sys c a) = s" "s \<bind> regs1 (Cb cb) = s"
  by (cases s; simp)+

definition same_conn :: "'k kconn \<Rightarrow> 'k conn \<Rightarrow> bool" where
  "same_conn k c \<longleftrightarrow>
    kopts k = opts c \<and> kfd k = cfd c \<and> khas_recv k = has_recv c \<and> khas_close k = has_close c \<and>
    khas_error k = has_error c \<and> khas_send_ready k = has_send_ready c \<and>
    kattached k = attached c \<and> kpeer_closed k = peer_closed c \<and>
    kwant_send_ready k = want_send_ready c \<and> kclosed k = closed c \<and>
    kin_buf_size k = in_buf_size c \<and> kwrite_source k \<and> source c \<and>
    kern (knet k) = kern (net c) \<and> erase (log (knet k)) = erase (log (net c)) \<and>
    regs (log (knet k)) = Some (kattached k, kwrite_attached k)"

lemma same_connD:
  assumes "same_conn k c"
  shows "kopts k = opts c" "kfd k = cfd c" "khas_recv k = has_recv c" "khas_close k = has_close c"
    "khas_error k = has_error c" "khas_send_ready k = has_send_ready c"
    "kattached k = attached c" "kpeer_closed k = peer_closed c"
    "kwant_send_ready k = want_send_ready c" "kclosed k = closed c"
    "kin_buf_size k = in_buf_size c" "kwrite_source k" "source c"
    "kern (knet k) = kern (net c)" "erase (log (knet k)) = erase (log (net c))"
    "regs (log (knet k)) = Some (kattached k, kwrite_attached k)"
  using assms by (simp_all add: same_conn_def)

lemma same_conn_fields [intro]:
  assumes "same_conn k c"
  shows "same_conn (k\<lparr>kwant_send_ready := b\<rparr>) (c\<lparr>want_send_ready := b\<rparr>)"
    "same_conn (k\<lparr>kpeer_closed := b\<rparr>) (c\<lparr>peer_closed := b\<rparr>)"
    "same_conn (k\<lparr>kclosed := b\<rparr>) (c\<lparr>closed := b\<rparr>)"
  using assms by (simp_all add: same_conn_def)

text \<open>Related results: both operations ran out of their bound, or the results are related.\<close>

abbreviation same_result :: "'k kconn option \<Rightarrow> 'k conn option \<Rightarrow> bool" where
  "same_result \<equiv> rel_option same_conn"

lemma rel_option_bind:
  assumes "rel_option R a b" "\<And>x y. R x y \<Longrightarrow> rel_option S (f x) (g y)"
  shows "rel_option S (a \<bind> f) (b \<bind> g)"
  using assms by (cases a; cases b) auto

lemma rel_option_if:
  assumes "b = b'" "rel_option R x y" "rel_option R x' y'"
  shows "rel_option R (if b then x else x') (if b' then y else y')"
  using assms by simp

lemma rel_option_snd:
  "rel_option (rel_prod (=) R) a b \<Longrightarrow> rel_option R (map_option snd a) (map_option snd b)"
  by (cases a; cases b) auto

section \<open>Steps without callbacks\<close>

lemma sys_same:
  assumes "kern w = kern v" "erase (log w) = erase (log v)"
  shows "fst (sys os c w) = fst (sys os c v)"
    "kern (snd (sys os c w)) = kern (snd (sys os c v))"
    "erase (log (snd (sys os c w))) = erase (log (snd (sys os c v)))"
    "regs (log (snd (sys os c w))) = regs (log w)"
  using assms by (simp_all add: sys_def emit_def split: prod.split)

lemma kq_sys_cases:
  assumes "same_conn k c"
  obtains a k' c' where "kq_sys os s k = (a, k')" "conn_sys os s c = (a, c')" "same_conn k' c'"
proof
  note s = sys_same [OF same_connD(14,15) [OF assms], of os s]
  show "kq_sys os s k = (fst (sys os s (knet k)), k\<lparr>knet := snd (sys os s (knet k))\<rparr>)"
    by (simp add: kq_sys_def split: prod.split)
  show "conn_sys os s c = (fst (sys os s (knet k)), c\<lparr>net := snd (sys os s (net c))\<rparr>)"
    using s(1) by (simp add: conn_sys_def split: prod.splits)
  show "same_conn (k\<lparr>knet := snd (sys os s (knet k))\<rparr>) (c\<lparr>net := snd (sys os s (net c))\<rparr>)"
    using assms s(2,3,4) unfolding same_conn_def by simp
qed

lemma note_same [intro]: "same_conn k c \<Longrightarrow> same_conn (kq_note (Cb cb) k) (conn_note (Cb cb) c)"
  by (simp add: same_conn_def kq_note_def conn_note_def emit_def)

lemma start_same [intro]: "same_conn k c \<Longrightarrow> same_conn (kq_start k) (start c)"
  by (simp add: same_conn_def kq_start_def start_def kq_note_def conn_note_def emit_def)

lemma stop_same [intro]: "same_conn k c \<Longrightarrow> same_conn (kq_stop k) (stop c)"
  by (simp add: same_conn_def kq_stop_def stop_def kq_note_def conn_note_def emit_def)

lemma arm_same [intro]:
  "same_conn k c \<Longrightarrow> same_conn (kq_armWritable k) (armWritable fl c)"
  "same_conn k c \<Longrightarrow> same_conn (kq_disarmWritable k) (disarmWritable fl c)"
  by (simp_all add: same_conn_def kq_armWritable_def armWritable_def kq_disarmWritable_def
      disarmWritable_def set_armed_def kq_note_def conn_note_def emit_def)

lemma shutdown_same [intro]: "same_conn k c \<Longrightarrow> same_conn (kq_shutdownWrite os k) (shutdownWrite os c)"
  by (rule kq_sys_cases [of k c os "SysShutdown (kfd k)"])
    (simp_all add: kq_shutdownWrite_def shutdownWrite_def same_connD(2))

lemma closeFd_same [intro]: "same_conn k c \<Longrightarrow> same_conn (kq_closeFd os k) (conn_closeFd os c)"
  using sys_same [of "knet k" "net c" os "SysClose (kfd k)"]
  by (simp add: kq_closeFd_def conn_closeFd_def mac_closeFd_def closeFd_def same_conn_def sys_void_def)

section \<open>Steps with callbacks\<close>

definition same_runner :: "'k krunner \<Rightarrow> 'k runner \<Rightarrow> bool" where
  "same_runner run run' \<longleftrightarrow>
    (\<forall>cb k c. same_conn k c \<longrightarrow> same_result (run cb k) (run' cb c))"

lemma optional_same:
  assumes "same_runner run run'" "same_conn k c" "b = b'"
  shows "same_result (if b then run cb k else Some k) (if b' then run' cb c else Some c)"
  using assms by (simp add: same_runner_def)

lemma closeNow_same:
  assumes "same_runner run run'" "same_conn k c"
  shows "same_result (kq_closeNow os run k) (closeNow os run' c)"
proof -
  have s: "same_conn (kq_closeFd os (kq_stop (k\<lparr>kclosed := True\<rparr>)))
      (conn_closeFd os (stop (c\<lparr>closed := True\<rparr>)))"
    using assms(2) by blast
  from optional_same [OF assms(1) s same_connD(4) [OF s]] assms(2) same_connD(10) [OF assms(2)]
  show ?thesis by (simp add: kq_closeNow_def closeNow_def Let_def)
qed

lemma fail_same:
  assumes "same_runner run run'" "same_conn k c"
  shows "same_result
    (do { st \<leftarrow> (if khas_error k then run (OnError e) k else Some k); kq_closeNow os run st })
    (do { st \<leftarrow> (if has_error c then run' (OnError e) c else Some c); closeNow os run' st })"
  by (rule rel_option_bind [OF optional_same [OF assms same_connD(5) [OF assms(2)]]])
    (rule closeNow_same [OF assms(1)])

lemma send_loop_same:
  "same_runner run run' \<Longrightarrow> same_conn k c \<Longrightarrow>
    rel_option (rel_prod (=) same_conn) (kq_send_loop os run n d l m k) (send_loop os fl run' n d l m c)"
proof (induction n arbitrary: k c m)
  case (Suc n)
  obtain a k' c' where
    s: "kq_sys os (SysSend (kfd k) (take (l - m) (drop m d))) k = (a, k')"
      "conn_sys os (SysSend (cfd c) (take (l - m) (drop m d))) c = (a, c')" and r: "same_conn k' c'"
    using kq_sys_cases [OF Suc.prems(2)] same_connD(2) [OF Suc.prems(2)] by metis
  note fin = rel_option_bind [OF optional_same [OF Suc.prems(1) r same_connD(5) [OF r]]
      rel_option_bind [OF closeNow_same [OF Suc.prems(1)]]]
  have e: "rel_option (rel_prod (=) same_conn)
    (do { st \<leftarrow> (if khas_error k' then run (OnError e) k' else Some k');
          st \<leftarrow> kq_closeNow os run st;
          Some (\<lparr>sent = m, would_block = False, send_err = e\<rparr>, st) })
    (do { st \<leftarrow> (if has_error c' then run' (OnError e) c' else Some c');
          st \<leftarrow> closeNow os run' st;
          Some (\<lparr>sent = m, would_block = False, send_err = e\<rparr>, st) })" for e
    by (rule fin) simp_all
  have w: "same_conn (kq_armWritable (k'\<lparr>kwant_send_ready := True\<rparr>))
      (armWritable fl (c'\<lparr>want_send_ready := True\<rparr>))"
    using r by blast
  show ?case
    unfolding kq_send_loop.simps send_loop.simps s Let_def prod.case
    by (intro rel_option_if refl e Suc.IH [OF Suc.prems(1) r]) (use w Suc.prems(2) in simp_all)
qed simp

lemma trySend_same:
  assumes "same_runner run run'" "same_conn k c"
  shows "rel_option (rel_prod (=) same_conn) (kq_trySend os run n d k) (trySend os fl run' n d c)"
  using send_loop_same [OF assms] assms(2) same_connD(1,2) [OF assms(2)]
  by (simp add: kq_trySend_def trySend_def)

lemma act_same:
  assumes "same_runner run run'" "same_conn k c"
  shows "same_result (kq_act os run n a k) (do_act os fl run' n a c)"
proof (cases a)
  case (UTrySend d)
  then show ?thesis using rel_option_snd [OF trySend_same [OF assms]] by simp
qed (use closeNow_same [OF assms] start_same stop_same shutdown_same assms(2) in auto)

lemma acts_same:
  "same_runner run run' \<Longrightarrow> same_conn k c \<Longrightarrow>
    same_result (kq_acts os run n as k) (do_acts os fl run' n as c)"
  by (induction as arbitrary: k c) (auto intro: rel_option_bind act_same)

lemma callback_same:
  assumes "blind user"
  shows "same_runner (kq_callback os user n) (callback os user fl n)"
proof (induction n)
  case 0
  then show ?case by (simp add: same_runner_def)
next
  case (Suc n)
  show ?case
    unfolding same_runner_def
  proof (intro allI impI)
    fix cb and k :: "'a kconn" and c
    assume s: "same_conn k c"
    have "user (log (knet k)) cb = user (log (net c)) cb"
      using assms same_connD(15) [OF s] unfolding blind_def by blast
    then show "same_result (kq_callback os user (Suc n) cb k) (callback os user fl (Suc n) cb c)"
      using acts_same [OF Suc.IH note_same [OF s]] by simp
  qed
qed

lemma read_loop_same:
  "same_runner run run' \<Longrightarrow> same_conn k c \<Longrightarrow>
    same_result (kq_read_loop os run n m k) (handleRead_loop os run' n m c)"
proof (induction n arbitrary: k c m)
  case (Suc n)
  obtain a k' c' where
    s: "kq_sys os (SysRecv (kfd k) (min m (kin_buf_size k))) k = (a, k')"
      "conn_sys os (SysRecv (cfd c) (min m (in_buf_size c))) c = (a, c')" and r: "same_conn k' c'"
    using kq_sys_cases [OF Suc.prems(2)] same_connD(2,11) [OF Suc.prems(2)] by metis
  have i: "same_result
    (do { st \<leftarrow> (if khas_recv k' then run (OnRecv (out_bytes a)) k' else Some k');
          kq_read_loop os run n (m - nat (ret a)) st })
    (do { st \<leftarrow> (if has_recv c' then run' (OnRecv (out_bytes a)) c' else Some c');
          handleRead_loop os run' n (m - nat (ret a)) st })"
    by (rule rel_option_bind [OF optional_same [OF Suc.prems(1) r same_connD(3) [OF r]]
        Suc.IH [OF Suc.prems(1)]])
  have p: "same_conn (k'\<lparr>kpeer_closed := True\<rparr>) (c'\<lparr>peer_closed := True\<rparr>)" using r by blast
  show ?case
    unfolding kq_read_loop.simps handleRead_loop.simps s Let_def prod.case
    by (intro rel_option_if refl i fail_same [OF Suc.prems(1) r] Suc.IH [OF Suc.prems(1) r])
      (use p r Suc.prems(2) in simp_all)
qed simp

section \<open>The poll watcher between two calls\<close>

text \<open>
  Between two calls from outside, a watcher whose peer has closed has closed its descriptor.
\<close>

definition shut :: "'k conn \<Rightarrow> bool" where
  "shut st \<longleftrightarrow> (closed st \<longrightarrow> cfd st < 0)"

definition settled :: "'k conn \<Rightarrow> bool" where
  "settled st \<longleftrightarrow> shut st \<and> (peer_closed st \<longrightarrow> cfd st < 0)"

lemma conn_prims:
  "cfd (start st) = cfd st" "closed (start st) = closed st" "peer_closed (start st) = peer_closed st"
  "cfd (stop st) = cfd st" "closed (stop st) = closed st" "peer_closed (stop st) = peer_closed st"
  "cfd (armWritable fl st) = cfd st" "closed (armWritable fl st) = closed st"
  "peer_closed (armWritable fl st) = peer_closed st"
  "cfd (disarmWritable fl st) = cfd st" "closed (disarmWritable fl st) = closed st"
  "peer_closed (disarmWritable fl st) = peer_closed st"
  "cfd (conn_note e st) = cfd st" "closed (conn_note e st) = closed st"
  "peer_closed (conn_note e st) = peer_closed st"
  by (simp_all add: start_def stop_def armWritable_def disarmWritable_def set_armed_def conn_note_def)

lemma conn_prims_sys:
  "cfd (shutdownWrite os st) = cfd st" "closed (shutdownWrite os st) = closed st"
  "peer_closed (shutdownWrite os st) = peer_closed st"
  "cfd (conn_closeFd os st) < 0" "closed (conn_closeFd os st) = closed st"
  by (simp_all add: shutdownWrite_def conn_sys_def conn_closeFd_def closeFd_def split: prod.split)

lemma sys_fields:
  assumes "conn_sys os c st = (a, st')"
  shows "cfd st' = cfd st" "closed st' = closed st" "peer_closed st' = peer_closed st"
  using assms by (auto simp: conn_sys_def split: prod.splits)

interpretation conn_gone: conn_keeps os fl "\<lambda>st. cfd st < 0" "\<lambda>st. cfd st < 0" "\<lambda>_. True"
  for os :: "'k os" and fl
  by unfold_locales (auto simp: conn_prims conn_prims_sys sys_fields)

interpretation conn_settled: conn_keeps os fl settled "\<lambda>st. cfd st < 0" "\<lambda>_. True"
  for os :: "'k os" and fl
  by unfold_locales (auto simp: settled_def shut_def conn_prims conn_prims_sys sys_fields)

interpretation conn_shut: conn_handler_keeps os fl shut "\<lambda>st. cfd st < 0" "\<lambda>_. True"
  for os :: "'k os" and fl
  by unfold_locales (auto simp: shut_def conn_prims conn_prims_sys sys_fields)

lemma closeNow_gone:
  assumes "shut st" "closeNow os (callback os user fl n) st = Some st'"
  shows "cfd st' < 0"
proof (cases "closed st")
  case True
  with assms show ?thesis by (simp add: closeNow_def shut_def)
next
  case False
  let ?s = "conn_closeFd os (stop (st\<lparr>closed := True\<rparr>))"
  from assms(2) False
  have "(if has_close ?s then callback os user fl n OnClose ?s else Some ?s) = Some st'"
    by (simp add: closeNow_def Let_def)
  moreover have gone: "cfd ?s < 0" by (rule conn_prims_sys(4))
  ultimately show ?thesis
    using conn_gone.runner_okD(2) [OF conn_gone.callback_keeps _ gone]
    by (cases "has_close ?s") auto
qed

lemma settled_gone: "cfd st < 0 \<Longrightarrow> settled st"
  by (simp add: settled_def shut_def)

lemma onReady_settled:
  assumes "settled st" "onReady os fl (callback os user fl n) n ev st = Some st'"
  shows "settled st'"
proof -
  let ?run = "callback os user fl n"
  have sh: "shut st" using assms(1) by (simp add: settled_def)
  consider "cfd st < 0" | "\<not> cfd st < 0" "ev AND EV_ERR \<noteq> 0" | "\<not> cfd st < 0" "ev AND EV_ERR = 0"
    by blast
  then show ?thesis
  proof cases
    case 1
    with assms show ?thesis by (simp add: onReady_def)
  next
    case 2
    then have "ready_error os ?run st = Some st'" using assms(2) by (simp add: onReady_def)
    then obtain s1 a e s2 where s1: "conn_sys os (SysGetError (cfd st)) st = (a, s1)"
      and 3: "(if has_error s1 then ?run (OnError e) s1 else Some s1) = Some s2"
      and 4: "closeNow os ?run s2 = Some st'"
      unfolding ready_error_def Let_def by (auto simp: bind_eq_Some_conv split: prod.splits)
    have "shut s1" using sys_fields [OF s1] sh by (simp add: shut_def)
    then have "shut s2"
      using conn_shut.optional_keeps [OF conn_shut.callback_keeps _ TrueI _ 3] by simp
    then show ?thesis using closeNow_gone [OF _ 4] settled_gone by blast
  next
    case 3
    define s1 where "s1 = (if ev AND f_hup fl \<noteq> 0 then st\<lparr>peer_closed := True\<rparr> else st)"
    have "shut s1" using sh by (simp add: s1_def shut_def)
    from assms(2) 3 obtain s2 where
      2: "(if ev AND EV_IN \<noteq> 0 \<or> peer_closed s1 then handleRead os ?run n s1 else Some s1) = Some s2"
      and f: "(if peer_closed s2 then closeNow os ?run s2
        else if ev AND EV_OUT \<noteq> 0 \<and> want_send_ready s2 then ready_write fl ?run s2
        else Some s2) = Some st'"
      unfolding onReady_def Let_def s1_def [symmetric] by (auto simp: bind_eq_Some_conv)
    have s2: "shut s2"
      using 2 \<open>shut s1\<close> conn_shut.handleRead_loop_keeps [OF conn_shut.callback_keeps \<open>shut s1\<close>]
      by (auto simp: handleRead_def split: if_splits)
    show ?thesis
    proof (cases "peer_closed s2")
      case True
      with f have "closeNow os ?run s2 = Some st'" by simp
      from settled_gone [OF closeNow_gone [OF s2 this]] show ?thesis .
    next
      case False
      then have "settled s2" "settled (disarmWritable fl (s2\<lparr>want_send_ready := False\<rparr>))"
        using s2 by (simp_all add: settled_def shut_def conn_prims)
      then show ?thesis
        using f False conn_settled.optional_keeps [OF conn_settled.callback_keeps _ TrueI,
            of "disarmWritable fl (s2\<lparr>want_send_ready := False\<rparr>)" OnSendReady]
        by (auto simp: ready_write_def Let_def split: if_splits)
    qed
  qed
qed

lemma step_settled:
  assumes "settled st" "conn_step os user fl n p st = Some st'"
  shows "settled st'"
proof (cases p)
  case (TrySend d)
  with assms show ?thesis
    using conn_settled.trySend_keeps [OF conn_settled.callback_keeps assms(1)] by auto
next
  case CloseConn
  with assms show ?thesis
    using conn_settled.closeNow_keeps [OF conn_settled.callback_keeps assms(1)] by simp
next
  case (Ready ev)
  with assms show ?thesis using onReady_settled by simp
qed (use assms conn_settled.start conn_settled.stop conn_settled.shutdown in auto)

section \<open>The handlers\<close>

text \<open>
  What a report of one filter is to the poll watcher. Two cases have no counterpart: kqueue may
  carry the error number in the event, where poll has to ask the socket, and an end of file on the
  write filter closes the connection without reading what is left.
\<close>

definition as_poll_flags :: "u32 \<Rightarrow> KqueueRawEvent \<Rightarrow> u32" where
  "as_poll_flags b ev =
    (if kq_flags ev AND EV_ERROR \<noteq> 0 then EV_ERR
     else b OR (if kq_flags ev AND EV_EOF \<noteq> 0 then EV_HUP else 0))"

fun as_poll :: "kq_op \<Rightarrow> conn_op" where
  "as_poll KStart = Start"
| "as_poll KStop = Stop"
| "as_poll (KRead ev) = Ready (as_poll_flags EV_IN ev)"
| "as_poll (KWrite ev) = Ready (as_poll_flags EV_OUT ev)"
| "as_poll (KTrySend d) = TrySend d"
| "as_poll KShutdown = Shutdown"
| "as_poll KClose = CloseConn"

fun mirrored :: "kq_op \<Rightarrow> bool" where
  "mirrored (KRead ev) = (kq_flags ev AND EV_ERROR \<noteq> 0 \<longrightarrow> ev_errno ev = 0)"
| "mirrored (KWrite ev) =
    (if kq_flags ev AND EV_ERROR \<noteq> 0 then ev_errno ev = 0 else kq_flags ev AND EV_EOF = 0)"
| "mirrored _ = True"

lemma poll_bits:
  "EV_ERR AND EV_ERR \<noteq> 0" "EV_IN AND EV_ERR = 0" "EV_OUT AND EV_ERR = 0" "EV_HUP AND EV_ERR = 0"
  "EV_IN AND EV_HUP = 0" "EV_OUT AND EV_HUP = 0" "EV_HUP AND EV_HUP \<noteq> 0"
  "EV_IN AND EV_IN \<noteq> 0" "EV_IN AND EV_OUT = 0" "EV_OUT AND EV_IN = 0" "EV_OUT AND EV_OUT \<noteq> 0"
  "EV_HUP AND EV_OUT = 0" "EV_HUP AND EV_IN = 0"
  by (simp_all add: EV_ERR_def EV_IN_def EV_OUT_def EV_HUP_def)

lemma as_poll_bits:
  assumes "b = EV_IN \<or> b = EV_OUT"
  shows "as_poll_flags b ev AND EV_ERR \<noteq> 0 \<longleftrightarrow> kq_flags ev AND EV_ERROR \<noteq> 0"
    "kq_flags ev AND EV_ERROR = 0 \<Longrightarrow>
      as_poll_flags b ev AND EV_HUP \<noteq> 0 \<longleftrightarrow> kq_flags ev AND EV_EOF \<noteq> 0"
    "kq_flags ev AND EV_ERROR = 0 \<Longrightarrow> as_poll_flags b ev AND EV_IN \<noteq> 0 \<longleftrightarrow> b = EV_IN"
    "kq_flags ev AND EV_ERROR = 0 \<Longrightarrow> as_poll_flags b ev AND EV_OUT \<noteq> 0 \<longleftrightarrow> b = EV_OUT"
  using assms by (auto simp: as_poll_flags_def poll_bits bit.conj_disj_distrib2)
    (simp_all add: EV_ERR_def EV_IN_def EV_OUT_def EV_HUP_def)

lemma getSoErrorOr_eq:
  "getSoErrorOr os fd f w =
    (let a = fst (sys os (SysGetError fd) w)
     in (if ret a \<noteq> 0 then if eno a \<noteq> 0 then eno a else f
         else if out_int a \<noteq> 0 then out_int a else f, snd (sys os (SysGetError fd) w)))"
  by (simp add: getSoErrorOr_def split: prod.split)

lemma soError_same:
  assumes "same_conn k c" "getSoErrorOr os (kfd k) EIO (knet k) = (e, w)"
  shows "\<exists>v. mac_conn_soError os c = (e, c\<lparr>net := v\<rparr>) \<and> same_conn (k\<lparr>knet := w\<rparr>) (c\<lparr>net := v\<rparr>)"
proof -
  note s = sys_same [OF same_connD(14,15) [OF assms(1)], of os "SysGetError (kfd k)"]
  let ?v = "snd (sys os (SysGetError (kfd k)) (net c))"
  have w: "w = snd (sys os (SysGetError (kfd k)) (knet k))"
    using assms(2) by (simp add: getSoErrorOr_eq Let_def)
  have "getSoErrorOr os (cfd c) EIO (net c) = (e, ?v)"
    using assms(2) unfolding getSoErrorOr_eq Let_def s(1) same_connD(2) [OF assms(1), symmetric]
    by (simp only: prod.inject simp_thms)
  moreover have "same_conn (k\<lparr>knet := w\<rparr>) (c\<lparr>net := ?v\<rparr>)"
    using assms(1) s(2,3,4) unfolding same_conn_def w by simp
  ultimately show ?thesis by (auto simp: mac_conn_soError_def)
qed

lemma ev_error_same:
  assumes "same_runner run run'" "same_conn k c" "ev_errno ev = 0" "cfd c \<ge> 0" "f AND EV_ERR \<noteq> 0"
  shows "same_result (kq_ev_error os run ev k) (mac_poll_onReady os run' n f c)"
proof -
  obtain e w where g: "getSoErrorOr os (kfd k) EIO (knet k) = (e, w)" by fastforce
  with soError_same [OF assms(2)] obtain v where
    v: "mac_conn_soError os c = (e, c\<lparr>net := v\<rparr>)" and s: "same_conn (k\<lparr>knet := w\<rparr>) (c\<lparr>net := v\<rparr>)"
    by blast
  have "e \<noteq> 0" using getSoErrorOr_nonzero [of EIO os "kfd k" "knet k"] g by (simp add: EIO_def)
  let ?k = "k\<lparr>knet := w\<rparr>" and ?c = "c\<lparr>net := v\<rparr>"
  have "kq_ev_error os run ev k =
      do { st \<leftarrow> (if khas_error ?k then run (OnError e) ?k else Some ?k); kq_closeNow os run st }"
    unfolding kq_ev_error_def g Let_def using assms(3) by simp
  moreover have "mac_poll_onReady os run' n f c =
      do { st \<leftarrow> (if has_error ?c then run' (OnError e) ?c else Some ?c); closeNow os run' st }"
    unfolding mac_poll_onReady_def v Let_def prod.case using assms(4,5) \<open>e \<noteq> 0\<close> by simp
  ultimately show ?thesis using fail_same [OF assms(1) s, of e os] by simp
qed

lemma onReadReady_same:
  assumes "same_runner run run'" "same_conn k c" "mirrored (KRead ev)"
  shows "same_result (onReadReady os run n ev k)
    (mac_poll_onReady os run' n (as_poll_flags EV_IN ev) c)"
proof -
  note b = as_poll_bits [of EV_IN ev, OF disjI1 [OF refl]]
  consider "kfd k < 0" | "\<not> kfd k < 0" "kq_flags ev AND EV_ERROR \<noteq> 0"
    | "\<not> kfd k < 0" "kq_flags ev AND EV_ERROR = 0" by blast
  then show ?thesis
  proof cases
    case 1
    with assms(2) same_connD(2) [OF assms(2)] show ?thesis
      by (simp add: onReadReady_def mac_poll_onReady_def)
  next
    case 2
    then show ?thesis
      using ev_error_same [OF assms(1,2)] assms(3) b(1) same_connD(2) [OF assms(2)]
      by (simp add: onReadReady_def)
  next
    case 3
    define k1 where "k1 = (if kq_flags ev AND EV_EOF \<noteq> 0 then k\<lparr>kpeer_closed := True\<rparr> else k)"
    define c1 where "c1 = (if kq_flags ev AND EV_EOF \<noteq> 0 then c\<lparr>peer_closed := True\<rparr> else c)"
    have s: "same_conn k1 c1" using assms(2) by (auto simp: k1_def c1_def)
    have "EV_IN \<noteq> EV_OUT" by (simp add: EV_IN_def EV_OUT_def)
    then have f: "as_poll_flags EV_IN ev AND EV_OUT = 0" using b(4) 3 by blast
    have p: "mac_poll_onReady os run' n (as_poll_flags EV_IN ev) c =
      do { st \<leftarrow> handleRead os run' n c1; if peer_closed st then closeNow os run' st else Some st }"
      using 3 b same_connD(2) [OF assms(2)] unfolding mac_poll_onReady_def Let_def c1_def f simp_thms if_False by simp
    have q: "onReadReady os run n ev k =
      do { st \<leftarrow> kq_handleRead os run n k1; if kpeer_closed st then kq_closeNow os run st else Some st }"
      using 3 unfolding onReadReady_def Let_def k1_def by simp
    have r: "same_result (kq_handleRead os run n k1) (handleRead os run' n c1)"
      using read_loop_same [OF assms(1) s] same_connD(1) [OF s]
      by (simp add: kq_handleRead_def handleRead_def)
    show ?thesis
      unfolding p q
      by (rule rel_option_bind [OF r], rule rel_option_if)
        (auto simp: same_connD(8) intro: closeNow_same [OF assms(1)])
  qed
qed

lemma onWriteReady_same:
  assumes "same_runner run run'" "same_conn k c" "mirrored (KWrite ev)" "settled c"
  shows "same_result (onWriteReady os run ev k)
    (mac_poll_onReady os run' n (as_poll_flags EV_OUT ev) c)"
proof -
  note b = as_poll_bits [of EV_OUT ev, OF disjI2 [OF refl]]
  consider "kfd k < 0" | "\<not> kfd k < 0" "kq_flags ev AND EV_ERROR \<noteq> 0"
    | "\<not> kfd k < 0" "kq_flags ev AND EV_ERROR = 0" by blast
  then show ?thesis
  proof cases
    case 1
    with assms(2) same_connD(2) [OF assms(2)] show ?thesis
      by (simp add: onWriteReady_def mac_poll_onReady_def)
  next
    case 2
    then show ?thesis
      using ev_error_same [OF assms(1,2)] assms(3) b(1) same_connD(2) [OF assms(2)]
      by (simp add: onWriteReady_def)
  next
    case 3
    have eof: "kq_flags ev AND EV_EOF = 0" using assms(3) 3 by simp
    have fd: "\<not> cfd c < 0" "\<not> peer_closed c"
      using 3 same_connD(2) [OF assms(2)] assms(4) by (auto simp: settled_def)
    have "EV_IN \<noteq> EV_OUT" by (simp add: EV_IN_def EV_OUT_def)
    then have p: "mac_poll_onReady os run' n (as_poll_flags EV_OUT ev) c =
      (if want_send_ready c then ready_write poll_flavour run' c else Some c)"
      using 3 b eof fd unfolding mac_poll_onReady_def Let_def by simp
    have s: "same_conn (kq_disarmWritable (k\<lparr>kwant_send_ready := False\<rparr>))
        (disarmWritable poll_flavour (c\<lparr>want_send_ready := False\<rparr>))"
      using assms(2) by blast
    show ?thesis
      using optional_same [OF assms(1) s same_connD(6) [OF s]] 3 eof assms(2)
      unfolding p onWriteReady_def ready_write_def Let_def by (auto simp: same_connD(9))
  qed
qed

section \<open>Runs\<close>

lemma step_same:
  assumes "blind user" "same_conn k c" "mirrored p" "settled c"
  shows "same_result (kq_step os user n p k) (mac_poll_step os user n (as_poll p) c)"
proof -
  note r = callback_same [OF assms(1), of os n poll_flavour]
  show ?thesis
  proof (cases p)
    case (KRead ev)
    with onReadReady_same [OF r assms(2)] assms(3) show ?thesis by simp
  next
    case (KWrite ev)
    with onWriteReady_same [OF r assms(2) _ assms(4)] assms(3) show ?thesis by simp
  next
    case (KTrySend d)
    with rel_option_snd [OF trySend_same [OF r assms(2)]] show ?thesis
      by (simp add: mac_poll_trySend_def)
  qed (use closeNow_same [OF r assms(2)] assms(2) in
      \<open>auto simp: mac_poll_start_def mac_poll_stop_def mac_poll_shutdownWrite_def mac_poll_closeNow_def\<close>)
qed

lemma run_same:
  assumes "blind user"
  shows "list_all mirrored ps \<Longrightarrow> same_conn k c \<Longrightarrow> settled c \<Longrightarrow>
    same_result (kq_run os user n ps k) (mac_poll_run os user n (map as_poll ps) c)"
proof (induction ps arbitrary: k c)
  case (Cons p ps)
  then have "mirrored p" by simp
  note s = step_same [OF assms Cons.prems(2) this Cons.prems(3), of os n]
  have i: "settled c'" if "mac_poll_step os user n (as_poll p) c = Some c'" for c'
    using that step_settled [OF Cons.prems(3)] by (simp add: mac_poll_step_eq)
  show ?case
    using s i Cons.IH Cons.prems(1)
    by (cases "kq_step os user n p k"; cases "mac_poll_step os user n (as_poll p) c") auto
qed simp

lemma config_regs: "list_all (config_event fd) es \<Longrightarrow> regs es = Some (False, False)"
proof (induction es rule: rev_induct)
  case (snoc e es)
  then show ?case by (cases e) auto
qed (simp add: regs_def)

lemma adds_mac_configure: "adds (config_event fd) w (mac_configure os o' fd w)"
  unfolding mac_configure_def Let_def mac_same
  by (rule adds_trans [OF adds_trans [OF adds_trans [OF adds_trans [OF adds_nosigpipe adds_config(2)]
        adds_mac_keepalive] adds_config(3)] adds_config(4)])

lemma new_same:
  assumes "log w = []"
  shows "same_conn (new_kq_conn os o' fd r c e s w) (new_mac_conn os o' fd r c e s w)"
proof -
  from adds_mac_configure [of fd w os o'] assms
  have "list_all (config_event fd) (log (mac_configure os o' fd w))" by (auto simp: adds_def)
  then show ?thesis
    by (simp add: same_conn_def new_kq_conn_def new_mac_conn_def config_regs)
qed

lemma new_settled: "settled (new_mac_conn os o' fd r c e s w)"
  by (simp add: settled_def shut_def new_mac_conn_def)

text \<open>What the kernel and the user see of a watcher, and its state between two calls.\<close>

definition kq_seen :: "'k kconn \<Rightarrow> event list \<times> 'k \<times> int \<times> bool \<times> bool \<times> bool" where
  "kq_seen st = (erase (log (knet st)), kern (knet st), kfd st, kattached st, kwant_send_ready st,
    kclosed st)"

definition poll_seen :: "'k conn \<Rightarrow> event list \<times> 'k \<times> int \<times> bool \<times> bool \<times> bool" where
  "poll_seen st = (erase (log (net st)), kern (net st), cfd st, attached st, want_send_ready st,
    closed st)"


section \<open>The descriptor and the sources of the kqueue watcher\<close>

definition kq_inv :: "int \<Rightarrow> 'k kconn \<Rightarrow> bool" where
  "kq_inv F k \<longleftrightarrow> (\<exists>c. same_conn k c \<and> life_inv F c \<and> settled c)"

lemma kq_result:
  assumes "same_result a b" "a = Some k" "\<And>c. b = Some c \<Longrightarrow> life_inv F c \<and> settled c"
  shows "kq_inv F k"
  using assms by (cases b) (auto simp: kq_inv_def)

lemma fail_inv:
  assumes "blind user" "same_conn k c" "life_inv F c" "settled c"
    and "do { st \<leftarrow> (if khas_error k then kq_callback os user n (OnError e) k else Some k);
      kq_closeNow os (kq_callback os user n) st } = Some k'"
  shows "kq_inv F k'"
proof (rule kq_result [OF fail_same [OF callback_same [OF assms(1), of os n poll_flavour] assms(2)] assms(5)])
  let ?run = "callback os user poll_flavour n"
  fix d assume "do { st \<leftarrow> (if has_error c then ?run (OnError e) c else Some c); closeNow os ?run st } = Some d"
  then obtain s1 where 1: "(if has_error c then ?run (OnError e) c else Some c) = Some s1"
    and 2: "closeNow os ?run s1 = Some d" unfolding bind_eq_Some_conv by blast
  have "life_inv F s1" "settled s1"
    using conn_life.optional_keeps [OF conn_life.callback_keeps assms(3) TrueI _ 1]
      conn_settled.optional_keeps [OF conn_settled.callback_keeps assms(4) TrueI _ 1] by simp_all
  then show "life_inv F d \<and> settled d"
    using conn_life.closeNow_keeps [OF conn_life.callback_keeps _ 2]
      conn_settled.closeNow_keeps [OF conn_settled.callback_keeps _ 2] by blast
qed

lemma kq_step_inv:
  assumes "blind user" "kq_inv F k" "kq_step os user n p k = Some k'"
  shows "kq_inv F k'"
proof -
  from assms(2) obtain c where c: "same_conn k c" "life_inv F c" "settled c"
    unfolding kq_inv_def by blast
  show ?thesis
  proof (cases "mirrored p \<or> kfd k < 0")
    case True
    have "kq_inv F k'" if "mirrored p"
      using step_settled [OF c(3)] conn_life.conn_step_keeps [OF c(2)]
      by (intro kq_result [OF step_same [OF assms(1) c(1) that c(3)] assms(3)])
        (simp add: mac_poll_step_eq)
    moreover have "k' = k" if "kfd k < 0" "\<not> mirrored p"
      using that assms(3) by (cases p) (simp_all add: onReadReady_def onWriteReady_def)
    ultimately show ?thesis using True assms(2) by blast
  next
    case False
    then consider ev where "kq_flags ev AND EV_ERROR \<noteq> 0" "ev_errno ev \<noteq> 0"
        "kq_step os user n p k = kq_ev_error os (kq_callback os user n) ev k"
      | ev where "p = KWrite ev" "kq_flags ev AND EV_ERROR = 0" "kq_flags ev AND EV_EOF \<noteq> 0"
      by (cases p) (auto simp: onReadReady_def onWriteReady_def split: if_splits)
    then show ?thesis
    proof cases
      case (1 ev)
      then show ?thesis
        using fail_inv [OF assms(1) c, of os n "ev_errno ev" k'] assms(3) by (simp add: kq_ev_error_def)
    next
      case (2 ev)
      let ?k = "k\<lparr>kpeer_closed := True\<rparr>" and ?c = "c\<lparr>peer_closed := True\<rparr>"
      have s: "same_conn ?k ?c" "life_inv F ?c" "shut ?c"
        using c by (auto simp: life_inv_def settled_def shut_def)
      have k: "kq_closeNow os (kq_callback os user n) ?k = Some k'"
        using 2 False assms(3) by (simp add: onWriteReady_def)
      show ?thesis
        using conn_life.closeNow_keeps [OF conn_life.callback_keeps s(2)]
          settled_gone [OF closeNow_gone [OF s(3)]]
        by (intro kq_result [OF closeNow_same [OF callback_same [OF assms(1), of os n poll_flavour]
              s(1)] k]) simp
    qed
  qed
qed

lemma kq_run_inv:
  "blind user \<Longrightarrow> kq_inv F k \<Longrightarrow> kq_run os user n ps k = Some k' \<Longrightarrow> kq_inv F k'"
  by (induction ps arbitrary: k) (auto simp: bind_eq_Some_conv dest: kq_step_inv)

lemma new_kq_inv:
  assumes "F \<ge> 0" "log w = []"
  shows "kq_inv F (new_kq_conn os o' F r c e s w)"
proof -
  from adds_mac_configure [of F w os o'] assms(2)
  have "list_all (config_event F) (log (mac_configure os o' F w))" by (auto simp: adds_def)
  from life_config [OF this] assms(1) have "life_inv F (new_mac_conn os o' F r c e s w)"
    by (simp add: life_inv_def new_mac_conn_def)
  with new_same [OF assms(2)] new_settled show ?thesis unfolding kq_inv_def by blast
qed

lemma life_erase: "life F op (erase es) = life F op es"
proof (induction es arbitrary: op)
  case (Cons e es)
  then show ?case by (cases e) auto
qed simp

lemma closes_erase: "closes (erase es) = closes es"
proof (induction es)
  case (Cons e es)
  then show ?case by (cases e) (auto simp: closes_def)
qed (simp add: closes_def)

lemma destroy_same: "same_conn k c \<Longrightarrow>
    erase (log (knet (kq_destroy os k))) = erase (log (net (destroy_conn os c))) \<and>
    kfd (kq_destroy os k) = cfd (destroy_conn os c) \<and>
    regs (log (knet (kq_destroy os k))) = regs (log (knet (kq_stop k)))"
proof -
  assume "same_conn k c"
  then have s: "same_conn (kq_stop k) (stop c)" by blast
  note t = sys_same [OF same_connD(14,15) [OF s], of os "SysClose (kfd (kq_stop k))"]
  show ?thesis
    using same_connD(2,15) [OF s] t
    by (simp add: kq_destroy_def destroy_conn_def kq_closeFd_def conn_closeFd_def mac_closeFd_def
        closeFd_def sys_void_def)
qed


text \<open>
  C34. No source of the kqueue watcher is registered twice or removed without being registered, and
  destroying the watcher removes the read source; the write source stays registered, with a
  callback into the destroyed watcher, exactly when the watcher waited for writability while it was
  stopped.
\<close>

theorem kq_sources_after_destroy:
  assumes "blind user" "F \<ge> 0" "log w = []"
    and "kq_run os user n ops (new_kq_conn os o' F r c e s w) = Some st"
  shows "regs (log (knet (kq_destroy os st))) = Some (False, kwrite_attached st \<and> \<not> kattached st)"
proof -
  obtain d where d: "same_conn st d"
    using kq_run_inv [OF assms(1) new_kq_inv [OF assms(2,3)] assms(4)] unfolding kq_inv_def by blast
  have "same_conn (kq_stop st) (stop d)" using d by blast
  moreover have "\<not> kattached (kq_stop st)" "kwrite_attached (kq_stop st) \<longleftrightarrow> kwrite_attached st \<and> \<not> kattached st"
    by (simp_all add: kq_stop_def kq_note_def Let_def)
  ultimately show ?thesis using destroy_same [OF d, of os] same_connD(16) by metis
qed

section \<open>Concrete runs\<close>

definition read_report :: "u16 \<Rightarrow> KqueueRawEvent" where
  "read_report flags = \<lparr>kq_ident = 7, kq_filter = 0xFFFF, kq_flags = flags, kq_fflags = 0, kq_data = 0\<rparr>"

definition demo_kq :: "nat os \<Rightarrow> nat kconn" where
  "demo_kq os = new_kq_conn os small_conn_option 7 True True True True no_net"

text \<open>A kernel whose socket buffer is full.\<close>

definition full_os :: "nat os" where
  "full_os k c =
    (\<lparr>ret = (case c of SysSend _ _ \<Rightarrow> -1 | _ \<Rightarrow> 0), eno = EAGAIN, out_int = 0, out_bytes = [],
      out_addr = None, out_len = 0\<rparr>, k)"

lemma blind_closing: "blind closing_user"
  by (simp add: blind_def closing_user_def)



lemma kq_sources_after_destroy_witness:
  "\<exists>st. kq_run full_os closing_user 3 [KTrySend [1]] (demo_kq full_os) = Some st \<and>
    regs (log (knet (kq_destroy full_os st))) = Some (False, True)"
proof -
  let ?r = "kq_run full_os closing_user 3 [KTrySend [1]] (demo_kq full_os)"
  have "\<exists>st. ?r = Some st \<and> kwrite_attached st \<and> \<not> kattached st"
    by (simp add: numeral_3_eq_3 demo_kq_def new_kq_conn_def kq_note_def kq_trySend_def kq_sys_def sys_def full_os_def
        EAGAIN_def EINTR_def kq_armWritable_def small_conn_option_def default_sock_options_def sock_options.defs TcpConnectionOption.defs)
  then obtain st where r: "?r = Some st" and "kwrite_attached st" "\<not> kattached st" by blast
  moreover have "(0::int) \<le> 7" "log no_net = []" by (simp_all add: no_net_def)
  ultimately show ?thesis
    using kq_sources_after_destroy [OF blind_closing _ _ r [unfolded demo_kq_def]] by auto
qed

end
