(* ===== verification/Wakeup.thy ===== *)
theory Wakeup
  imports Iocp_Backend "HOL-Library.Monad_Syntax"
begin

text \<open>
  The wakeup watchers, through which another thread ends the wait of a loop or of a worker:
  \<^verbatim>\<open>platform/linux/schedule/watcher\<close> (an \<^verbatim>\<open>eventfd\<close>, for epoll and poll),
  \<^verbatim>\<open>platform/macos/schedule/watcher\<close> (a pipe, for kqueue and poll) and
  \<^verbatim>\<open>platform/windows/schedule/watcher\<close> (a completion packet or a thread message). The loop and the
  worker have a class each; the two have the same members.

  On Linux and macOS the watcher owns a kernel object that \<open>notify()\<close> writes to and the callback of
  its event source reads until nothing is left. The kernel is a parameter; what a theorem needs of
  it is \<open>signal_laws\<close>. Calls and registrations are logged in their order.
\<close>

section \<open>Calls and state\<close>

datatype wake_call =
    SysEventfd | SysPipe | SysNonBlock int | SysWrite int nat | SysRead int nat | SysCloseFd int

record wake_answer =
  wret :: int
  wfds :: "int \<times> int"

type_synonym 'k wake_os = "'k \<Rightarrow> wake_call \<Rightarrow> wake_answer \<times> 'k"

datatype wake_event = WSys wake_call wake_answer | WAttach int | WDetach int

record 'k wake_net =
  wkern :: 'k
  wlog :: "wake_event list"

definition wake_sys :: "'k wake_os \<Rightarrow> wake_call \<Rightarrow> 'k wake_net \<Rightarrow> wake_answer \<times> 'k wake_net" where
  "wake_sys os c w =
    (let (a, k) = os (wkern w) c in (a, \<lparr>wkern = k, wlog = wlog w @ [WSys c a]\<rparr>))"

text \<open>
  \<open>wstate\<close> is the pointer \<^verbatim>\<open>state_\<close> with the descriptor that is read and the one that is written (an
  \<^verbatim>\<open>eventfd\<close> is both), \<open>wsource\<close> the pointer \<^verbatim>\<open>source_\<close> with the descriptor the source watches.
\<close>

record 'k wake =
  wstate :: "(int \<times> int) option"
  wsource :: "int option"
  wattached :: bool
  wnet :: "'k wake_net"

text \<open>
  The classes differ in the object, in the size of what they write and read, and in the test the
  callback makes first.
\<close>

record wake_class =
  wc_pipe :: bool
  wc_write :: nat
  wc_read :: nat
  wc_test :: "u32 \<Rightarrow> bool"

datatype wake_error = EventfdFailed | PipeFailed

section \<open>Operations\<close>

definition new_eventfd_state :: "'k wake_os \<Rightarrow> 'k wake_net \<Rightarrow> wake_error + ((int \<times> int) \<times> 'k wake_net)" where
  "new_eventfd_state os w =
    (let (a, w) = wake_sys os SysEventfd w in
     if wret a < 0 then Inl EventfdFailed else Inr ((wret a, wret a), w))"

definition new_pipe_state :: "'k wake_os \<Rightarrow> 'k wake_net \<Rightarrow> wake_error + ((int \<times> int) \<times> 'k wake_net)" where
  "new_pipe_state os w =
    (let (a, w) = wake_sys os SysPipe w in
     if wret a < 0 then Inl PipeFailed
     else
       let (x, w) = wake_sys os (SysNonBlock (fst (wfds a))) w;
           (y, w) = wake_sys os (SysNonBlock (snd (wfds a))) w
       in Inr (wfds a, w))"

text \<open>\<^verbatim>\<open>createSource()\<close> builds the source on the descriptor that is read.\<close>

definition wake_createSource :: "'k wake \<Rightarrow> 'k wake" where
  "wake_createSource st =
    st\<lparr>wsource := Some (case wstate st of None \<Rightarrow> -1 | Some fds \<Rightarrow> fst fds)\<rparr>"

definition new_wake :: "'k wake_os \<Rightarrow> wake_class \<Rightarrow> 'k wake_net \<Rightarrow> wake_error + 'k wake" where
  "new_wake os c w =
    (case (if wc_pipe c then new_pipe_state os w else new_eventfd_state os w) of
       Inl e \<Rightarrow> Inl e
     | Inr (fds, w) \<Rightarrow>
         Inr (wake_createSource \<lparr>wstate = Some fds, wsource = None, wattached = False, wnet = w\<rparr>))"

definition wake_note :: "wake_event \<Rightarrow> 'k wake \<Rightarrow> 'k wake" where
  "wake_note e st = st\<lparr>wnet := (wnet st)\<lparr>wlog := wlog (wnet st) @ [e]\<rparr>\<rparr>"

text \<open>A null source is ignored by \<^verbatim>\<open>attachSource\<close> and \<^verbatim>\<open>detachSource\<close>.\<close>

definition wake_start :: "'k wake \<Rightarrow> 'k wake" where
  "wake_start st =
    (if wattached st then st
     else (case wsource st of None \<Rightarrow> st | Some f \<Rightarrow> wake_note (WAttach f) st)\<lparr>wattached := True\<rparr>)"

definition wake_stop :: "'k wake \<Rightarrow> 'k wake" where
  "wake_stop st =
    (if \<not> wattached st then st
     else (case wsource st of None \<Rightarrow> st | Some f \<Rightarrow> wake_note (WDetach f) st)\<lparr>wattached := False\<rparr>)"

definition wakeup_notify :: "'k wake_os \<Rightarrow> wake_class \<Rightarrow> 'k wake \<Rightarrow> 'k wake" where
  "wakeup_notify os c st =
    (case wstate st of
       None \<Rightarrow> st
     | Some fds \<Rightarrow>
         if snd fds < 0 then st
         else st\<lparr>wnet := snd (wake_sys os (SysWrite (snd fds) (wc_write c)) (wnet st))\<rparr>)"

text \<open>The loop of the callback. \<open>None\<close> means that the bound on its rounds was too small.\<close>

fun wake_drain :: "'k wake_os \<Rightarrow> nat \<Rightarrow> int \<Rightarrow> nat \<Rightarrow> 'k wake_net \<Rightarrow> 'k wake_net option" where
  "wake_drain os 0 fd sz w = None"
| "wake_drain os (Suc n) fd sz w =
    (let (a, w) = wake_sys os (SysRead fd sz) w in
     if wret a > 0 then wake_drain os n fd sz w else Some w)"

definition wake_ready :: "'k wake_os \<Rightarrow> wake_class \<Rightarrow> nat \<Rightarrow> u32 \<Rightarrow> 'k wake \<Rightarrow> 'k wake option" where
  "wake_ready os c n ev st =
    (if \<not> wc_test c ev then Some st
     else
       case wstate st of
         None \<Rightarrow> Some st
       | Some fds \<Rightarrow>
           if fst fds < 0 then Some st
           else map_option (\<lambda>w. st\<lparr>wnet := w\<rparr>) (wake_drain os n (fst fds) (wc_read c) (wnet st)))"

text \<open>
  The destructor: the state goes with the last pointer to it, which is the one in the callback of
  the source, and that source has been removed from the core by then.
\<close>

definition destroy_state :: "'k wake_os \<Rightarrow> wake_class \<Rightarrow> int \<times> int \<Rightarrow> 'k wake_net \<Rightarrow> 'k wake_net" where
  "destroy_state os c fds w =
    (let w = (if fst fds \<ge> 0 then snd (wake_sys os (SysCloseFd (fst fds)) w) else w)
     in if wc_pipe c \<and> snd fds \<ge> 0 then snd (wake_sys os (SysCloseFd (snd fds)) w) else w)"

definition wake_destroy :: "'k wake_os \<Rightarrow> wake_class \<Rightarrow> 'k wake \<Rightarrow> 'k wake" where
  "wake_destroy os c st =
    (let st = (wake_stop st)\<lparr>wsource := None\<rparr> in
     case wstate st of
       None \<Rightarrow> st
     | Some fds \<Rightarrow> st\<lparr>wstate := None, wnet := destroy_state os c fds (wnet st)\<rparr>)"

section \<open>The classes\<close>

definition POLLIN :: u32 where "POLLIN = 0x001"

definition pollin :: "u32 \<Rightarrow> bool" where "pollin ev \<longleftrightarrow> ev AND POLLIN \<noteq> 0"

text \<open>\<^verbatim>\<open>EPOLLIN\<close> and \<^verbatim>\<open>POLLIN\<close> are the same bit.\<close>

definition EpollWakeUpWatcher :: wake_class where
  "EpollWakeUpWatcher = \<lparr>wc_pipe = False, wc_write = 8, wc_read = 8, wc_test = pollin\<rparr>"

definition EpollWorkerWakeUpWatcher :: wake_class where
  "EpollWorkerWakeUpWatcher = \<lparr>wc_pipe = False, wc_write = 8, wc_read = 8, wc_test = pollin\<rparr>"

definition PollWakeUpWatcher :: wake_class where
  "PollWakeUpWatcher = \<lparr>wc_pipe = False, wc_write = 8, wc_read = 8, wc_test = pollin\<rparr>"

definition PollWorkerWakeUpWatcher :: wake_class where
  "PollWorkerWakeUpWatcher = \<lparr>wc_pipe = False, wc_write = 8, wc_read = 8, wc_test = pollin\<rparr>"

definition KqueueWakeUpWatcher :: wake_class where
  "KqueueWakeUpWatcher = \<lparr>wc_pipe = True, wc_write = 1, wc_read = 64, wc_test = (\<lambda>_. True)\<rparr>"

definition KqueueWorkerWakeUpWatcher :: wake_class where
  "KqueueWorkerWakeUpWatcher = \<lparr>wc_pipe = True, wc_write = 1, wc_read = 64, wc_test = (\<lambda>_. True)\<rparr>"

definition MacPollWakeUpWatcher :: wake_class where
  "MacPollWakeUpWatcher = \<lparr>wc_pipe = True, wc_write = 1, wc_read = 8, wc_test = pollin\<rparr>"

definition MacPollWorkerWakeUpWatcher :: wake_class where
  "MacPollWorkerWakeUpWatcher = \<lparr>wc_pipe = True, wc_write = 1, wc_read = 8, wc_test = pollin\<rparr>"

section \<open>Runs\<close>

datatype wake_op = WNotify | WReady u32 | WStart | WStop

fun wake_step :: "'k wake_os \<Rightarrow> wake_class \<Rightarrow> nat \<Rightarrow> wake_op \<Rightarrow> 'k wake \<Rightarrow> 'k wake option" where
  "wake_step os c n WNotify st = Some (wakeup_notify os c st)"
| "wake_step os c n (WReady ev) st = wake_ready os c n ev st"
| "wake_step os c n WStart st = Some (wake_start st)"
| "wake_step os c n WStop st = Some (wake_stop st)"

fun wake_run :: "'k wake_os \<Rightarrow> wake_class \<Rightarrow> nat \<Rightarrow> wake_op list \<Rightarrow> 'k wake \<Rightarrow> 'k wake option" where
  "wake_run os c n [] st = Some st"
| "wake_run os c n (p # ps) st = do { st \<leftarrow> wake_step os c n p st; wake_run os c n ps st }"

text \<open>The abstract signal: raised by a notification, cleared when the callback runs.\<close>

fun flag_step :: "wake_class \<Rightarrow> wake_op \<Rightarrow> bool \<Rightarrow> bool" where
  "flag_step c WNotify b = True"
| "flag_step c (WReady ev) b = (if wc_test c ev then False else b)"
| "flag_step c _ b = b"

section \<open>The signal\<close>

text \<open>
  What \<^verbatim>\<open>eventfd(2)\<close> and \<^verbatim>\<open>pipe(7)\<close> document for non-blocking descriptors, with \<open>lev\<close> the counter or the
  number of bytes: after a write there is something to read, also when the write failed because
  the object is full; a read takes something exactly when there is something.
\<close>

definition signal_laws :: "'k wake_os \<Rightarrow> wake_class \<Rightarrow> int \<times> int \<Rightarrow> ('k \<Rightarrow> nat) \<Rightarrow> bool" where
  "signal_laws os c fds lev \<longleftrightarrow>
    (\<forall>k. lev (snd (os k (SysWrite (snd fds) (wc_write c)))) > 0) \<and>
    (\<forall>k. let (a, k') = os k (SysRead (fst fds) (wc_read c)) in
      (wret a > 0 \<longleftrightarrow> lev k > 0) \<and> (if lev k > 0 then lev k' < lev k else lev k' = 0))"

lemma signal_write:
  "signal_laws os c fds lev \<Longrightarrow> lev (wkern (snd (wake_sys os (SysWrite (snd fds) (wc_write c)) w))) > 0"
  by (simp add: signal_laws_def wake_sys_def split: prod.split) (metis snd_conv)

lemma signal_read:
  assumes "signal_laws os c fds lev" "wake_sys os (SysRead (fst fds) (wc_read c)) w = (a, w')"
  shows "wret a > 0 \<longleftrightarrow> lev (wkern w) > 0"
    and "if lev (wkern w) > 0 then lev (wkern w') < lev (wkern w) else lev (wkern w') = 0"
proof -
  have "let (a, k') = os (wkern w) (SysRead (fst fds) (wc_read c)) in
      (wret a > 0 \<longleftrightarrow> lev (wkern w) > 0) \<and>
      (if lev (wkern w) > 0 then lev k' < lev (wkern w) else lev k' = 0)"
    using assms(1) unfolding signal_laws_def by blast
  with assms(2) show "wret a > 0 \<longleftrightarrow> lev (wkern w) > 0"
    "if lev (wkern w) > 0 then lev (wkern w') < lev (wkern w) else lev (wkern w') = 0"
    by (auto simp: wake_sys_def split: prod.splits)
qed

lemma drain_clears:
  assumes "signal_laws os c fds lev" "lev (wkern w) < n"
  shows "\<exists>w'. wake_drain os n (fst fds) (wc_read c) w = Some w' \<and> lev (wkern w') = 0"
  using assms(2)
proof (induction n arbitrary: w)
  case (Suc n)
  obtain a w1 where r: "wake_sys os (SysRead (fst fds) (wc_read c)) w = (a, w1)" by fastforce
  note s = signal_read [OF assms(1) r]
  show ?case
  proof (cases "lev (wkern w) > 0")
    case True
    then have "lev (wkern w1) < n" using s(2) Suc.prems by simp
    then show ?thesis using Suc.IH s(1) True r by simp
  qed (use s r in simp)
qed simp

lemma wake_prims [simp]:
  "wstate (wake_start st) = wstate st" "wkern (wnet (wake_start st)) = wkern (wnet st)"
  "wstate (wake_stop st) = wstate st" "wkern (wnet (wake_stop st)) = wkern (wnet st)"
  by (simp_all add: wake_start_def wake_stop_def wake_note_def split: option.split)

lemma wake_step_flag:
  assumes "signal_laws os c fds lev" "wstate st = Some fds" "fst fds \<ge> 0" "snd fds \<ge> 0"
    and "lev (wkern (wnet st)) < n"
  shows "\<exists>st'. wake_step os c n p st = Some st' \<and> wstate st' = Some fds \<and>
    (lev (wkern (wnet st')) > 0) = flag_step c p (lev (wkern (wnet st)) > 0)"
proof (cases p)
  case WNotify
  then show ?thesis using assms(2-4) signal_write [OF assms(1)] by (simp add: wakeup_notify_def)
next
  case (WReady ev)
  then show ?thesis using assms(2,3) drain_clears [OF assms(1,5)] by (auto simp: wake_ready_def)
qed (use assms(2) in simp_all)

lemma wake_drain_mono: "wake_drain os n fd sz w = Some w' \<Longrightarrow> n \<le> m \<Longrightarrow> wake_drain os m fd sz w = Some w'"
proof (induction n arbitrary: w m)
  case (Suc n)
  then show ?case by (cases m) (auto simp: Let_def split: prod.splits if_splits)
qed simp

lemma wake_step_mono: "wake_step os c n p st = Some st' \<Longrightarrow> n \<le> m \<Longrightarrow> wake_step os c m p st = Some st'"
proof (cases p)
  case (WReady ev)
  assume "wake_step os c n p st = Some st'" "n \<le> m"
  moreover have "wake_drain os n fd sz w = Some v \<Longrightarrow> wake_drain os m fd sz w = Some v" for fd sz w v
    using wake_drain_mono \<open>n \<le> m\<close> by blast
  ultimately show ?thesis using WReady
    by (cases "wstate st") (force simp: wake_ready_def split: if_splits)+
qed simp_all

text \<open>
  C35. A wakeup is a signal: for every sequence of notifications, callbacks, starts and stops the
  callbacks end, and afterwards the descriptor is readable, so that the next wait returns at once,
  exactly if a notification came after the last callback. This holds for the \<^verbatim>\<open>eventfd\<close> and for the
  pipe classes, whatever the kernel is, as long as it keeps the documented laws.
\<close>

theorem wakeup_is_a_signal:
  assumes "signal_laws os c fds lev" "wstate st = Some fds" "fst fds \<ge> 0" "snd fds \<ge> 0"
  shows "\<exists>n. \<forall>m\<ge>n. \<exists>st'. wake_run os c m ps st = Some st' \<and>
    (lev (wkern (wnet st')) > 0) = fold (flag_step c) ps (lev (wkern (wnet st)) > 0)"
  using assms(2)
proof (induction ps arbitrary: st)
  case (Cons p ps)
  obtain s1 where r: "wake_step os c (Suc (lev (wkern (wnet st)))) p st = Some s1 \<and>
    wstate s1 = Some fds \<and>
    (lev (wkern (wnet s1)) > 0) = flag_step c p (lev (wkern (wnet st)) > 0)"
    using wake_step_flag [OF assms(1) Cons.prems assms(3,4) lessI, of p] by (rule exE)
  note s1 = conjunct1 [OF r] conjunct1 [OF conjunct2 [OF r]] conjunct2 [OF conjunct2 [OF r]]
  obtain n where n: "\<forall>m\<ge>n. \<exists>st'. wake_run os c m ps s1 = Some st' \<and>
    (lev (wkern (wnet st')) > 0) = fold (flag_step c) ps (lev (wkern (wnet s1)) > 0)"
    using Cons.IH [OF s1(2)] by (rule exE)
  show ?case
  proof (rule exI [of _ "max n (Suc (lev (wkern (wnet st))))"], intro allI impI)
    fix m assume m: "max n (Suc (lev (wkern (wnet st)))) \<le> m"
    then have "wake_step os c m p st = Some s1" "n \<le> m"
      using wake_step_mono [OF s1(1)] by simp_all
    then show "\<exists>st'. wake_run os c m (p # ps) st = Some st' \<and>
      (lev (wkern (wnet st')) > 0) = fold (flag_step c) (p # ps) (lev (wkern (wnet st)) > 0)"
      using n [rule_format, of m] unfolding s1(3) by simp
  qed
qed simp

section \<open>Registrations and descriptors\<close>

text \<open>
  Whether the source is registered after a log; \<open>None\<close> when it is registered twice, or removed
  without being registered.
\<close>

fun wreg1 :: "wake_event \<Rightarrow> bool \<Rightarrow> bool option" where
  "wreg1 (WAttach _) b = (if b then None else Some True)"
| "wreg1 (WDetach _) b = (if b then Some False else None)"
| "wreg1 _ b = Some b"

definition wreg :: "wake_event list \<Rightarrow> bool option" where
  "wreg es = fold (\<lambda>e b. b \<bind> wreg1 e) es (Some False)"

lemma wreg_snoc [simp]: "wreg (es @ [e]) = wreg es \<bind> wreg1 e"
  by (simp add: wreg_def)

lemma wreg1_sys [simp]: "b \<bind> wreg1 (WSys c a) = b"
  by (cases b) auto

lemma wreg_skip [simp]: "wreg (es @ WSys c a # fs) = wreg (es @ fs)"
  by (simp add: wreg_def)

lemma wake_sysD: "wake_sys os c w = (a, w') \<Longrightarrow> wlog w' = wlog w @ [WSys c a]"
  by (auto simp: wake_sys_def split: prod.splits)

lemma wreg_sys [simp]: "wreg (wlog (snd (wake_sys os c w))) = wreg (wlog w)"
  by (simp add: wake_sys_def split: prod.split)

fun closed_wake :: "wake_event list \<Rightarrow> int list" where
  "closed_wake [] = []"
| "closed_wake (WSys (SysCloseFd f) a # es) = f # closed_wake es"
| "closed_wake (e # es) = closed_wake es"

lemma closed_wake_append [simp]: "closed_wake (xs @ ys) = closed_wake xs @ closed_wake ys"
  by (induction xs rule: closed_wake.induct) auto

lemma closed_wake_sys:
  "closed_wake (wlog (snd (wake_sys os c w))) =
    closed_wake (wlog w) @ (case c of SysCloseFd f \<Rightarrow> [f] | _ \<Rightarrow> [])"
  by (simp add: wake_sys_def split: prod.split wake_call.split)

lemma drain_keeps:
  "wake_drain os n fd sz w = Some w' \<Longrightarrow>
    wreg (wlog w') = wreg (wlog w) \<and> closed_wake (wlog w') = closed_wake (wlog w)"
proof (induction n arbitrary: w)
  case (Suc n)
  obtain a w1 where r: "wake_sys os (SysRead fd sz) w = (a, w1)" by fastforce
  have "wreg (wlog w1) = wreg (wlog w)" "closed_wake (wlog w1) = closed_wake (wlog w)"
    using wreg_sys [of os "SysRead fd sz" w] closed_wake_sys [of os "SysRead fd sz" w] r by simp_all
  with Suc r show ?case by (auto simp: Let_def split: if_splits)
qed simp

definition wake_inv :: "int \<times> int \<Rightarrow> 'k wake \<Rightarrow> bool" where
  "wake_inv fds st \<longleftrightarrow> wstate st = Some fds \<and> wsource st = Some (fst fds) \<and>
    wreg (wlog (wnet st)) = Some (wattached st) \<and> closed_wake (wlog (wnet st)) = []"

lemma wake_inv_step:
  assumes "wake_inv fds st" "wake_step os c n p st = Some st'"
  shows "wake_inv fds st'"
proof (cases p)
  case WNotify
  with assms show ?thesis by (auto simp: wake_inv_def wakeup_notify_def closed_wake_sys)
next
  case (WReady ev)
  with assms show ?thesis
    by (auto simp: wake_inv_def wake_ready_def split: if_splits dest: drain_keeps)
next
  case WStart
  with assms show ?thesis by (auto simp: wake_inv_def wake_start_def wake_note_def split: if_splits)
next
  case WStop
  with assms show ?thesis by (auto simp: wake_inv_def wake_stop_def wake_note_def split: if_splits)
qed

lemma wake_inv_run: "wake_inv fds st \<Longrightarrow> wake_run os c n ps st = Some st' \<Longrightarrow> wake_inv fds st'"
  by (induction ps arbitrary: st) (auto simp: bind_eq_Some_conv dest: wake_inv_step)

lemma new_wake_inv:
  assumes "new_wake os c w = Inr st" "wlog w = []"
  shows "\<exists>fds. wake_inv fds st \<and> (\<not> wc_pipe c \<longrightarrow> fst fds \<ge> 0 \<and> snd fds = fst fds)"
proof -
  have e: "wreg (wlog w) = Some False" "closed_wake (wlog w) = []" using assms(2) by (simp_all add: wreg_def)
  show ?thesis
  proof (cases "wc_pipe c")
    case True
    obtain a w1 where 1: "wake_sys os SysPipe w = (a, w1)" by fastforce
    obtain x w2 where 2: "wake_sys os (SysNonBlock (fst (wfds a))) w1 = (x, w2)" by fastforce
    obtain y w3 where 3: "wake_sys os (SysNonBlock (snd (wfds a))) w2 = (y, w3)" by fastforce
    have "st = \<lparr>wstate = Some (wfds a), wsource = Some (fst (wfds a)), wattached = False, wnet = w3\<rparr>"
      using assms(1) True
      by (simp add: new_wake_def new_pipe_state_def wake_createSource_def 1 2 3 split: if_splits)
    moreover have "wreg (wlog w3) = Some False" "closed_wake (wlog w3) = []"
      using e by (simp_all add: wake_sysD [OF 1] wake_sysD [OF 2] wake_sysD [OF 3])
    ultimately show ?thesis using True by (simp add: wake_inv_def)
  next
    case False
    obtain a w1 where 1: "wake_sys os SysEventfd w = (a, w1)" by fastforce
    have "\<not> wret a < 0" "st = \<lparr>wstate = Some (wret a, wret a), wsource = Some (wret a),
        wattached = False, wnet = w1\<rparr>"
      using assms(1) False
      by (simp_all add: new_wake_def new_eventfd_state_def wake_createSource_def 1 split: if_splits)
    then show ?thesis using e False by (simp add: wake_inv_def wake_sysD [OF 1])
  qed
qed

text \<open>
  From the constructor to the destructor the source is registered at most once at a time and not at
  all at the end, and every descriptor of the object is closed once, at the end.
\<close>

lemma wakeup_closes_its_object:
  assumes "new_wake os c w = Inr s" "wlog w = []" "wake_run os c n ps s = Some st"
    and "wstate s = Some fds" "fst fds \<ge> 0" "snd fds \<ge> 0"
  shows "wreg (wlog (wnet (wake_destroy os c st))) = Some False \<and>
    closed_wake (wlog (wnet (wake_destroy os c st))) = (if wc_pipe c then [fst fds, snd fds] else [fst fds])"
proof -
  from new_wake_inv [OF assms(1,2)] assms(4) have "wake_inv fds s" by (auto simp: wake_inv_def)
  from wake_inv_run [OF this assms(3)] assms(5,6) show ?thesis
    by (auto simp: wake_destroy_def destroy_state_def wake_inv_def wake_stop_def wake_note_def
        closed_wake_sys Let_def)
qed

section \<open>Windows\<close>

text \<open>
  \<^verbatim>\<open>IocpWakeUpWatcher\<close> and \<^verbatim>\<open>IocpWorkerWakeUpWatcher\<close> own a wakeup source \<open>s\<close> of the completion port;
  \<open>start\<close> and \<open>stop\<close> call the core.
\<close>

definition iocp_wake_start :: "'s \<Rightarrow> bool \<Rightarrow> bool \<times> 's core_call list" where
  "iocp_wake_start s att = (if att then (att, []) else (True, [CallAdd (Some s)]))"

definition iocp_wake_stop :: "'s \<Rightarrow> bool \<Rightarrow> bool \<times> 's core_call list" where
  "iocp_wake_stop s att = (if \<not> att then (att, []) else (False, [CallRemove (Some s)]))"

definition iocp_wake_notify ::
  "'k port_api \<Rightarrow> 's \<Rightarrow> bool \<Rightarrow> ('s, 'u, 'k) iocp_world \<Rightarrow> ('s, 'u, 'k) iocp_world" where
  "iocp_wake_notify api s att w = (if \<not> att then w else wake_notify api s w)"

definition iocp_worker_wake_start :: "'s \<Rightarrow> bool \<Rightarrow> bool \<times> 's core_call list" where
  "iocp_worker_wake_start = iocp_wake_start"

definition iocp_worker_wake_stop :: "'s \<Rightarrow> bool \<Rightarrow> bool \<times> 's core_call list" where
  "iocp_worker_wake_stop = iocp_wake_stop"

definition iocp_worker_wake_notify ::
  "'k port_api \<Rightarrow> 's \<Rightarrow> bool \<Rightarrow> ('s, 'u, 'k) iocp_world \<Rightarrow> ('s, 'u, 'k) iocp_world" where
  "iocp_worker_wake_notify = iocp_wake_notify"

text \<open>
  The Win32 watchers post a message to the thread that started them; \<^verbatim>\<open>PostThreadMessage\<close> is a
  parameter.
\<close>

record win32_wake =
  thread_id :: u32
  tattached :: bool

definition WM_USER :: u32 where "WM_USER = 0x0400"

definition new_win32_wake :: win32_wake where
  "new_win32_wake = \<lparr>thread_id = 0, tattached = False\<rparr>"

definition win32_wake_start :: "u32 \<Rightarrow> win32_wake \<Rightarrow> win32_wake" where
  "win32_wake_start current st = st\<lparr>thread_id := current, tattached := True\<rparr>"

definition win32_wake_stop :: "win32_wake \<Rightarrow> win32_wake" where
  "win32_wake_stop st = st\<lparr>tattached := False\<rparr>"

definition win32_wake_notify :: "(u32 \<Rightarrow> u32 \<Rightarrow> 'k \<Rightarrow> 'k) \<Rightarrow> win32_wake \<Rightarrow> 'k \<Rightarrow> 'k" where
  "win32_wake_notify post st k =
    (if \<not> tattached st then k else post (thread_id st) (WM_USER + 100) k)"

definition win32_worker_wake_start :: "u32 \<Rightarrow> win32_wake \<Rightarrow> win32_wake" where
  "win32_worker_wake_start current st = st\<lparr>thread_id := current, tattached := True\<rparr>"

definition win32_worker_wake_stop :: "win32_wake \<Rightarrow> win32_wake" where
  "win32_worker_wake_stop st = st\<lparr>tattached := False\<rparr>"

definition win32_worker_wake_notify :: "(u32 \<Rightarrow> u32 \<Rightarrow> 'k \<Rightarrow> 'k) \<Rightarrow> win32_wake \<Rightarrow> 'k \<Rightarrow> 'k" where
  "win32_worker_wake_notify post st k =
    (if \<not> tattached st then k
     else if thread_id st = 0 then k
     else post (thread_id st) (WM_USER + 101) k)"

text \<open>
  A notification reaches the port exactly when the watcher is started and its source armed: before
  the core has applied the registration it is dropped.
\<close>

lemma iocp_wakeup_posts:
  assumes "iocp_winv api kassoc keyof handleof w" "ib_port (iw_backend w)"
  shows "iw_kernel (iocp_wake_notify api s att w) =
    (if att \<and> s \<in> iocp_armed w then pa_post api 0 (keyof s) 0 (iw_kernel w) else iw_kernel w)"
  using assms by (simp add: iocp_wake_notify_def wake_notify_armed)

section \<open>Concrete runs\<close>

text \<open>A pipe that holds at most four bytes, between the descriptors 3 and 4.\<close>

definition small_pipe :: "nat wake_os" where
  "small_pipe k c =
    (case c of
       SysPipe \<Rightarrow> (\<lparr>wret = 0, wfds = (3, 4)\<rparr>, 0)
     | SysWrite f n \<Rightarrow> if k + n \<le> 4 then (\<lparr>wret = int n, wfds = (0, 0)\<rparr>, k + n)
                       else (\<lparr>wret = -1, wfds = (0, 0)\<rparr>, k)
     | SysRead f n \<Rightarrow> if k = 0 then (\<lparr>wret = -1, wfds = (0, 0)\<rparr>, k)
                      else (\<lparr>wret = int (min n k), wfds = (0, 0)\<rparr>, k - n)
     | _ \<Rightarrow> (\<lparr>wret = 0, wfds = (0, 0)\<rparr>, k))"

definition demo_wake :: "nat wake" where
  "demo_wake = \<lparr>wstate = Some (3, 4), wsource = Some 3, wattached = False, wnet = \<lparr>wkern = 0, wlog = []\<rparr>\<rparr>"

lemma small_pipe_laws: "signal_laws small_pipe KqueueWakeUpWatcher (3, 4) id"
  by (simp add: signal_laws_def small_pipe_def KqueueWakeUpWatcher_def)

lemma wakeup_is_a_signal_witness:
  "\<exists>n. \<forall>m\<ge>n. \<exists>st'. wake_run small_pipe KqueueWakeUpWatcher m
      [WStart, WNotify, WNotify, WReady 0, WNotify] demo_wake = Some st' \<and>
    (wkern (wnet st') > 0) = True"
  using wakeup_is_a_signal [OF small_pipe_laws, of demo_wake "[WStart, WNotify, WNotify, WReady 0, WNotify]"]
  by (simp add: demo_wake_def)

text \<open>An \<^verbatim>\<open>eventfd\<close>.\<close>

definition eventfd_os :: "nat wake_os" where
  "eventfd_os k c =
    (case c of
       SysEventfd \<Rightarrow> (\<lparr>wret = 3, wfds = (0, 0)\<rparr>, 0)
     | SysWrite f n \<Rightarrow> (\<lparr>wret = 8, wfds = (0, 0)\<rparr>, k + 1)
     | SysRead f n \<Rightarrow> if k = 0 then (\<lparr>wret = -1, wfds = (0, 0)\<rparr>, k) else (\<lparr>wret = 8, wfds = (0, 0)\<rparr>, 0)
     | _ \<Rightarrow> (\<lparr>wret = 0, wfds = (0, 0)\<rparr>, k))"

lemma eventfd_laws: "signal_laws eventfd_os EpollWakeUpWatcher (3, 3) id"
  by (simp add: signal_laws_def eventfd_os_def)

lemma eventfd_life:
  "map_option (\<lambda>st. (wkern (wnet st), closed_wake (wlog (wnet (wake_destroy eventfd_os EpollWakeUpWatcher st)))))
    (wake_run eventfd_os EpollWakeUpWatcher 3 [WStart, WNotify, WNotify, WReady POLLIN, WStop]
      (projr (new_wake eventfd_os EpollWakeUpWatcher \<lparr>wkern = 0, wlog = []\<rparr>))) = Some (0, [3])"
  by code_simp

end
