(* ===== verification/Worker_Timer.thy ===== *)
theory Worker_Timer
  imports Wakeup
begin

text \<open>
  The timer watchers of a worker on Linux, \<^verbatim>\<open>platform/linux/schedule/watcher/epoll_worker_timer.cc\<close>
  and \<^verbatim>\<open>poll_worker_timer.cc\<close>: a \<^verbatim>\<open>timerfd\<close> whose event source reads the number of expirations and
  calls the callback once for each. The two classes have the same text but for the names of the
  mask. The callback is user code and may start, stop, arm or disarm the timer; destroying the
  watcher inside it is not modelled.
\<close>

section \<open>Calls and state\<close>

text \<open>\<^verbatim>\<open>itimerspec\<close> as the interval and the first expiration.\<close>

record itimerspec =
  it_interval :: int
  it_value :: int

datatype timer_call = TimerfdCreate | TimerfdSettime int itimerspec | ReadTimer int | CloseTimer int

record timer_answer =
  tret :: int
  teno :: int
  expirations :: u64

type_synonym 'k timer_os = "'k \<Rightarrow> timer_call \<Rightarrow> timer_answer \<times> 'k"

datatype timer_event = TSys timer_call timer_answer | TCallback | TAttach int | TDetach int

record 'k timer =
  tstate :: "int option"
  tcb :: bool
  tsource :: "int option"
  t_attached :: bool
  tkern :: 'k
  tlog :: "timer_event list"

datatype tact = ActStart | ActStop | ActSet itimerspec | ActClear

type_synonym timer_user = "timer_event list \<Rightarrow> tact list"

definition EINTR_t :: int where "EINTR_t = 4"

definition timer_sys :: "'k timer_os \<Rightarrow> timer_call \<Rightarrow> 'k timer \<Rightarrow> timer_answer \<times> 'k timer" where
  "timer_sys os c st =
    (let (a, k) = os (tkern st) c in (a, st\<lparr>tkern := k, tlog := tlog st @ [TSys c a]\<rparr>))"

definition timer_note :: "timer_event \<Rightarrow> 'k timer \<Rightarrow> 'k timer" where
  "timer_note e st = st\<lparr>tlog := tlog st @ [e]\<rparr>"

section \<open>Operations\<close>

definition timer_createSource :: "'k timer \<Rightarrow> 'k timer" where
  "timer_createSource st = st\<lparr>tsource := Some (case tstate st of None \<Rightarrow> -1 | Some fd \<Rightarrow> fd)\<rparr>"

text \<open>The constructor throws when there is no descriptor.\<close>

definition new_timer :: "'k timer_os \<Rightarrow> bool \<Rightarrow> 'k \<Rightarrow> 'k timer option" where
  "new_timer os cb k =
    (let st = \<lparr>tstate = None, tcb = cb, tsource = None, t_attached = False, tkern = k, tlog = []\<rparr>;
         (a, st) = timer_sys os TimerfdCreate st
     in if tret a < 0 then None else Some (timer_createSource (st\<lparr>tstate := Some (tret a)\<rparr>)))"

definition timer_start :: "'k timer \<Rightarrow> 'k timer" where
  "timer_start st =
    (if t_attached st then st
     else (case tsource st of None \<Rightarrow> st | Some f \<Rightarrow> timer_note (TAttach f) st)\<lparr>t_attached := True\<rparr>)"

definition timer_stop :: "'k timer \<Rightarrow> 'k timer" where
  "timer_stop st =
    (if \<not> t_attached st then st
     else (case tsource st of None \<Rightarrow> st | Some f \<Rightarrow> timer_note (TDetach f) st)\<lparr>t_attached := False\<rparr>)"

definition setItimerspec :: "'k timer_os \<Rightarrow> itimerspec \<Rightarrow> 'k timer \<Rightarrow> 'k timer" where
  "setItimerspec os spec st =
    (let fd = (case tstate st of None \<Rightarrow> -1 | Some fd \<Rightarrow> fd) in
     if fd < 0 then st else snd (timer_sys os (TimerfdSettime fd spec) st))"

definition clearItimerspec :: "'k timer_os \<Rightarrow> 'k timer \<Rightarrow> 'k timer" where
  "clearItimerspec os st =
    (let fd = (case tstate st of None \<Rightarrow> -1 | Some fd \<Rightarrow> fd) in
     if fd < 0 then st
     else snd (timer_sys os (TimerfdSettime fd \<lparr>it_interval = 0, it_value = 0\<rparr>) st))"

definition timer_destroy :: "'k timer_os \<Rightarrow> 'k timer \<Rightarrow> 'k timer" where
  "timer_destroy os st =
    (let st = (timer_stop st)\<lparr>tsource := None\<rparr> in
     case tstate st of
       None \<Rightarrow> st
     | Some fd \<Rightarrow> (if fd \<ge> 0 then snd (timer_sys os (CloseTimer fd) st) else st)\<lparr>tstate := None\<rparr>)"

fun timer_act :: "'k timer_os \<Rightarrow> tact \<Rightarrow> 'k timer \<Rightarrow> 'k timer" where
  "timer_act os ActStart st = timer_start st"
| "timer_act os ActStop st = timer_stop st"
| "timer_act os (ActSet spec) st = setItimerspec os spec st"
| "timer_act os ActClear st = clearItimerspec os st"

definition timer_callback :: "'k timer_os \<Rightarrow> timer_user \<Rightarrow> 'k timer \<Rightarrow> 'k timer" where
  "timer_callback os user st = fold (timer_act os) (user (tlog st)) (timer_note TCallback st)"

text \<open>The calls for one read, \<open>i\<close> of them.\<close>

fun timer_calls :: "'k timer_os \<Rightarrow> timer_user \<Rightarrow> nat \<Rightarrow> 'k timer \<Rightarrow> 'k timer" where
  "timer_calls os user 0 st = st"
| "timer_calls os user (Suc i) st =
    timer_calls os user i (if tcb st then timer_callback os user st else st)"

text \<open>The loop of the source's callback; \<open>None\<close> means that the bound on its rounds was too small.\<close>

fun timer_loop :: "'k timer_os \<Rightarrow> timer_user \<Rightarrow> nat \<Rightarrow> int \<Rightarrow> 'k timer \<Rightarrow> 'k timer option" where
  "timer_loop os user 0 fd st = None"
| "timer_loop os user (Suc n) fd st =
    (let (a, st) = timer_sys os (ReadTimer fd) st in
     if tret a = 8 then
       timer_loop os user n fd
         (if tcb st then timer_calls os user (unat (expirations a)) st else st)
     else if tret a < 0 \<and> teno a = EINTR_t then timer_loop os user n fd st
     else Some st)"

definition timer_ready :: "'k timer_os \<Rightarrow> timer_user \<Rightarrow> nat \<Rightarrow> u32 \<Rightarrow> 'k timer \<Rightarrow> 'k timer option" where
  "timer_ready os user n ev st =
    (if \<not> pollin ev then Some st
     else
       let fd = (case tstate st of None \<Rightarrow> -1 | Some fd \<Rightarrow> fd) in
       if fd < 0 then Some st else timer_loop os user n fd st)"

text \<open>The members of the poll class.\<close>

definition new_poll_timer :: "'k timer_os \<Rightarrow> bool \<Rightarrow> 'k \<Rightarrow> 'k timer option" where
  "new_poll_timer os = new_timer os"
definition poll_timer_destroy :: "'k timer_os \<Rightarrow> 'k timer \<Rightarrow> 'k timer" where
  "poll_timer_destroy os = timer_destroy os"
definition poll_timer_start :: "'k timer \<Rightarrow> 'k timer" where "poll_timer_start = timer_start"
definition poll_timer_stop :: "'k timer \<Rightarrow> 'k timer" where "poll_timer_stop = timer_stop"
definition poll_setItimerspec :: "'k timer_os \<Rightarrow> itimerspec \<Rightarrow> 'k timer \<Rightarrow> 'k timer" where
  "poll_setItimerspec os = setItimerspec os"
definition poll_clearItimerspec :: "'k timer_os \<Rightarrow> 'k timer \<Rightarrow> 'k timer" where
  "poll_clearItimerspec os = clearItimerspec os"
definition poll_timer_ready :: "'k timer_os \<Rightarrow> timer_user \<Rightarrow> nat \<Rightarrow> u32 \<Rightarrow> 'k timer \<Rightarrow> 'k timer option" where
  "poll_timer_ready os = timer_ready os"

section \<open>One call for each expiration\<close>

fun fired :: "timer_event list \<Rightarrow> nat" where
  "fired [] = 0"
| "fired (TCallback # es) = Suc (fired es)"
| "fired (e # es) = fired es"

fun expired :: "timer_event list \<Rightarrow> nat" where
  "expired [] = 0"
| "expired (TSys (ReadTimer f) a # es) = (if tret a = 8 then unat (expirations a) else 0) + expired es"
| "expired (e # es) = expired es"

lemma counts_append [simp]:
  "fired (xs @ ys) = fired xs + fired ys" "expired (xs @ ys) = expired xs + expired ys"
proof -
  show "fired (xs @ ys) = fired xs + fired ys" by (induction xs rule: fired.induct) auto
  show "expired (xs @ ys) = expired xs + expired ys" by (induction xs rule: expired.induct) auto
qed

text \<open>
  \<open>ticks i j s t\<close>: from \<open>s\<close> to \<open>t\<close> the kernel reported \<open>i\<close> expirations, the callback ran \<open>j\<close> times, and
  the descriptor and the callback stayed the same.
\<close>

definition ticks :: "nat \<Rightarrow> nat \<Rightarrow> 'k timer \<Rightarrow> 'k timer \<Rightarrow> bool" where
  "ticks i j s t \<longleftrightarrow> tstate t = tstate s \<and> tcb t = tcb s \<and>
    (\<exists>es. tlog t = tlog s @ es \<and> expired es = i \<and> fired es = j)"

lemma ticks_refl: "ticks 0 0 s s"
  by (simp add: ticks_def)

lemma ticks_trans:
  assumes "ticks i j s t" "ticks k l t u"
  shows "ticks (i + k) (j + l) s u"
proof -
  obtain es fs where "tlog t = tlog s @ es" "expired es = i" "fired es = j"
    "tlog u = tlog t @ fs" "expired fs = k" "fired fs = l"
    using assms unfolding ticks_def by blast
  with assms show ?thesis unfolding ticks_def by (intro conjI exI [of _ "es @ fs"]) simp_all
qed

lemma ticks_sys:
  assumes "timer_sys os c s = (a, t)"
  shows "ticks (expired [TSys c a]) 0 s t" "tkern t = snd (os (tkern s) c)" "a = fst (os (tkern s) c)"
  using assms by (auto simp: timer_sys_def ticks_def split: prod.splits)

text \<open>
  What is assumed of the kernel: \<open>lev\<close> bounds the reads that deliver expirations or are interrupted
  before one reports that nothing is left, and arming the timer anew does not make it expire before
  the handler is through.
\<close>

definition timer_laws :: "'k timer_os \<Rightarrow> int \<Rightarrow> ('k \<Rightarrow> nat) \<Rightarrow> bool" where
  "timer_laws os fd lev \<longleftrightarrow>
    (\<forall>k. let (a, k') = os k (ReadTimer fd) in
      if lev k = 0 then tret a \<noteq> 8 \<and> \<not> (tret a < 0 \<and> teno a = EINTR_t) else lev k' < lev k) \<and>
    (\<forall>k spec. lev (snd (os k (TimerfdSettime fd spec))) \<le> lev k)"

lemma timer_read_law:
  assumes "timer_laws os fd lev" "timer_sys os (ReadTimer fd) s = (a, t)"
  shows "if lev (tkern s) = 0 then tret a \<noteq> 8 \<and> \<not> (tret a < 0 \<and> teno a = EINTR_t)
    else lev (tkern t) < lev (tkern s)"
proof -
  have "let (a, k') = os (tkern s) (ReadTimer fd) in
      if lev (tkern s) = 0 then tret a \<noteq> 8 \<and> \<not> (tret a < 0 \<and> teno a = EINTR_t) else lev k' < lev (tkern s)"
    using assms(1) unfolding timer_laws_def by blast
  then show ?thesis using ticks_sys(2,3) [OF assms(2)] by (simp add: case_prod_beta)
qed

lemma timer_set_law:
  "timer_laws os fd lev \<Longrightarrow> lev (tkern (snd (timer_sys os (TimerfdSettime fd spec) s))) \<le> lev (tkern s)"
  by (simp add: timer_laws_def timer_sys_def split: prod.split) (metis snd_conv)

lemma ticks_note: "expired [e] = 0 \<Longrightarrow> fired [e] = j \<Longrightarrow> ticks 0 j s (timer_note e s)"
  by (simp add: ticks_def timer_note_def)

lemma ticks_attached [simp]: "ticks i j s (t\<lparr>t_attached := b\<rparr>) = ticks i j s t"
  by (simp add: ticks_def)

lemma timer_act_ticks:
  assumes "timer_laws os fd lev" "tstate s = Some fd"
  shows "ticks 0 0 s (timer_act os a s) \<and> lev (tkern (timer_act os a s)) \<le> lev (tkern s)"
proof -
  have set: "ticks 0 0 s (snd (timer_sys os (TimerfdSettime fd spec) s))" for spec
    by (cases "timer_sys os (TimerfdSettime fd spec) s") (force dest: ticks_sys(1))
  show ?thesis
  proof (cases a)
    case ActStart
    have "ticks 0 0 s (timer_start s)"
      by (auto simp: timer_start_def intro: ticks_refl ticks_note split: option.split)
    then show ?thesis using ActStart by (simp add: timer_start_def timer_note_def split: option.split)
  next
    case ActStop
    have "ticks 0 0 s (timer_stop s)"
      by (auto simp: timer_stop_def intro: ticks_refl ticks_note split: option.split)
    then show ?thesis using ActStop by (simp add: timer_stop_def timer_note_def split: option.split)
  next
    case (ActSet spec)
    with set timer_set_law [OF assms(1)] assms(2) show ?thesis
      by (simp add: setItimerspec_def ticks_refl)
  next
    case ActClear
    with set timer_set_law [OF assms(1)] assms(2) show ?thesis
      by (simp add: clearItimerspec_def ticks_refl)
  qed
qed

lemma timer_acts_ticks:
  assumes "timer_laws os fd lev"
  shows "tstate s = Some fd \<Longrightarrow>
    ticks 0 0 s (fold (timer_act os) as s) \<and> lev (tkern (fold (timer_act os) as s)) \<le> lev (tkern s)"
proof (induction as arbitrary: s)
  case (Cons a as)
  note 1 = timer_act_ticks [OF assms Cons.prems, of a]
  have "tstate (timer_act os a s) = Some fd" using 1 Cons.prems by (simp add: ticks_def)
  from Cons.IH [OF this] 1 show ?case using ticks_trans [of 0 0 s "timer_act os a s" 0 0] by force
qed (simp add: ticks_refl)

lemma timer_callback_ticks:
  assumes "timer_laws os fd lev" "tstate s = Some fd"
  shows "ticks 0 1 s (timer_callback os user s) \<and> lev (tkern (timer_callback os user s)) \<le> lev (tkern s)"
proof -
  let ?n = "timer_note TCallback s"
  have "tstate ?n = Some fd" "tkern ?n = tkern s" "ticks 0 1 s ?n"
    using assms(2) ticks_note [of TCallback 1 s] by (simp_all add: timer_note_def)
  then show ?thesis
    using timer_acts_ticks [OF assms(1), of ?n] ticks_trans [of 0 1 s ?n 0 0]
    by (simp add: timer_callback_def)
qed

lemma timer_calls_ticks:
  assumes "timer_laws os fd lev"
  shows "tstate s = Some fd \<Longrightarrow> tcb s \<Longrightarrow>
    ticks 0 i s (timer_calls os user i s) \<and> lev (tkern (timer_calls os user i s)) \<le> lev (tkern s)"
proof (induction i arbitrary: s)
  case (Suc i)
  let ?t = "timer_callback os user s"
  note 1 = timer_callback_ticks [OF assms Suc.prems(1), of user]
  have "tstate ?t = Some fd" "tcb ?t" using 1 Suc.prems by (simp_all add: ticks_def)
  from Suc.IH [OF this] 1 show ?case
    using ticks_trans [of 0 1 s ?t 0 i] Suc.prems(2) by force
qed (simp add: ticks_refl)

lemma timer_loop_ticks:
  assumes "timer_laws os fd lev"
  shows "tstate s = Some fd \<Longrightarrow> lev (tkern s) < n \<Longrightarrow>
    \<exists>t i. timer_loop os user n fd s = Some t \<and> ticks i (if tcb s then i else 0) s t"
proof (induction n arbitrary: s)
  case (Suc n)
  obtain a r where r: "timer_sys os (ReadTimer fd) s = (a, r)" by fastforce
  note k = ticks_sys(1) [OF r] and law = timer_read_law [OF assms r]
  have fr: "tstate r = Some fd" "tcb r = tcb s" using k Suc.prems(1) by (simp_all add: ticks_def)
  consider (fire) "tret a = 8" | (intr) "tret a \<noteq> 8" "tret a < 0" "teno a = EINTR_t"
    | (over) "tret a \<noteq> 8" "\<not> (tret a < 0 \<and> teno a = EINTR_t)" by blast
  then show ?case
  proof cases
    case fire
    define u where "u = (if tcb r then timer_calls os user (unat (expirations a)) r else r)"
    define e where "e = unat (expirations a)"
    have u: "ticks 0 (if tcb s then e else 0) r u" "lev (tkern u) \<le> lev (tkern r)"
      using timer_calls_ticks [OF assms fr(1)] fr(2) by (auto simp: u_def e_def ticks_refl)
    have su: "ticks e (if tcb s then e else 0) s u"
      using ticks_trans [OF k u(1)] fire by (simp add: e_def)
    have "lev (tkern u) < n" using law fire u(2) Suc.prems(2) by (auto split: if_splits)
    moreover have "tstate u = Some fd" "tcb u = tcb s" using su Suc.prems(1) by (simp_all add: ticks_def)
    ultimately obtain t i where t: "timer_loop os user n fd u = Some t" "ticks i (if tcb s then i else 0) u t"
      using Suc.IH [of u] by auto
    have "ticks (e + i) (if tcb s then e + i else 0) s t"
      using ticks_trans [OF su t(2)] by (cases "tcb s") simp_all
    moreover have "timer_loop os user (Suc n) fd s = Some t" using t(1) r fire by (simp add: u_def)
    ultimately show ?thesis by blast
  next
    case intr
    have "lev (tkern r) < n" using law intr Suc.prems(2) by (auto split: if_splits)
    from Suc.IH [OF fr(1) this] obtain t i where
      t: "timer_loop os user n fd r = Some t" "ticks i (if tcb s then i else 0) r t" using fr(2) by auto
    have "ticks i (if tcb s then i else 0) s t" using ticks_trans [OF k t(2)] intr by simp
    then show ?thesis using t(1) r intr by auto
  next
    case over
    then have "timer_loop os user (Suc n) fd s = Some r" using r by auto
    moreover have "ticks 0 (if tcb s then 0 else 0) s r" using k over by simp
    ultimately show ?thesis by blast
  qed
qed simp


section \<open>A concrete run\<close>

text \<open>Three expirations at once, then an interrupted read, then one more, then nothing.\<close>

definition demo_timerfd :: "nat timer_os" where
  "demo_timerfd k c =
    (case c of
       ReadTimer f \<Rightarrow>
         (if k = 3 then (\<lparr>tret = 8, teno = 0, expirations = 3\<rparr>, 2)
          else if k = 2 then (\<lparr>tret = -1, teno = EINTR_t, expirations = 0\<rparr>, 1)
          else if k = 1 then (\<lparr>tret = 8, teno = 0, expirations = 1\<rparr>, 0)
          else (\<lparr>tret = -1, teno = 11, expirations = 0\<rparr>, 0))
     | _ \<Rightarrow> (\<lparr>tret = 0, teno = 0, expirations = 0\<rparr>, k))"

definition demo_timer :: "nat timer" where
  "demo_timer = \<lparr>tstate = Some 5, tcb = True, tsource = Some 5, t_attached = True, tkern = 3, tlog = []\<rparr>"


text \<open>
  The callback clears and stops the timer in its first call; the calls for the expirations already
  counted, and for those the next reads find, are made all the same.
\<close>

lemma demo_timer_run:
  "map_option (\<lambda>t. (fired (tlog t), t_attached t))
    (timer_ready demo_timerfd (\<lambda>_. [ActClear, ActStop]) 4 POLLIN demo_timer) = Some (4, False)"
  by code_simp

end
