(* ===== verification/Mac_Tcp_Accept.thy ===== *)
theory Mac_Tcp_Accept
  imports Mac_Tcp_Connection Tcp_Accept
begin

text \<open>
  The accept watchers of \<^verbatim>\<open>platform/macos/network/watcher/tcp_accept_watcher.cc\<close>, for kqueue and
  poll. \<^verbatim>\<open>accept(2)\<close> has no flags here: the watcher makes every accepted descriptor non-blocking
  itself, and gives up the descriptor and the tick when that fails. The watcher's state, \<open>start\<close> and
  \<open>stop\<close> are those of the Linux watcher.
\<close>

section \<open>Operations\<close>

definition mac_createListenSocket :: "'k os \<Rightarrow> TcpAcceptOption \<Rightarrow> 'k net \<Rightarrow> int \<times> int \<times> 'k net" where
  "mac_createListenSocket os o' w =
    (let (ss, ss_len) = mac_toSockaddr (local_ep o');
         family = sa_family ss;
         (a, w) = sys os (SysSocket family SOCK_STREAM) w;
         fd = ret a
     in
     if fd < 0 then (-1, eno a, w)
     else
       let (ok, e, w) = mac_setNonBlocking os fd w in
       if \<not> ok then let (c, w) = sys os (SysClose fd) w in (-1, eno c, w)
       else
         let w = mac_applyCloseOnExec os fd (set_close_on_exec o') w;
             w = mac_applyReuseAddr os fd (reuse_addr o') w;
             w = mac_applyReusePort os fd (reuse_port o') w;
             w = (if family = AF_INET6 then mac_applyIpv6Only os fd (ipv6_only o') w else w);
             (b, w) = sys os (SysBind fd ss) w
         in
         if ret b \<noteq> 0 then let (c, w) = sys os (SysClose fd) w in (-1, eno c, w)
         else
           let (l, w) = sys os (SysListen fd (backlog o')) w in
           if ret l \<noteq> 0 then let (c, w) = sys os (SysClose fd) w in (-1, eno c, w)
           else (fd, eno l, w))"

definition prepareAcceptedSocket ::
    "'k os \<Rightarrow> int \<Rightarrow> TcpAcceptOption \<Rightarrow> 'k net \<Rightarrow> bool \<times> 'k net" where
  "prepareAcceptedSocket os fd o' w =
    (let (ok, e, w) = mac_setNonBlocking os fd w in
     if \<not> ok then (False, w)
     else
       let w = mac_applyCloseOnExec os fd (set_close_on_exec o') w;
           w = applyNoSigPipeIfAvailable os fd w;
           w = mac_applyTcpNoDelay os fd (tcp_no_delay o') w;
           w = mac_applyKeepAlive os fd (keep_alive o') (keep_alive_idle_sec o')
                 (keep_alive_interval_sec o') (keep_alive_count o') w
       in (True, mac_applyBufSize os fd (recv_buf_bytes o') (send_buf_bytes o') w))"

text \<open>The rest of the loop body for a prepared descriptor: the stream is built and handed over.\<close>

definition mac_hand_over ::
    "'k os \<Rightarrow> watch_user \<Rightarrow> TcpStreamKind \<Rightarrow> answer \<Rightarrow> 'k acceptor \<Rightarrow> 'k acceptor" where
  "mac_hand_over os user kind a st =
    (let stream = new_mac_stream kind (ret a);
         (stream, w) =
           (if fill_endpoints (aopts st) then
              mac_fillEndpoints os (ret a)
                (stream\<lparr>peer := mac_fromSockaddr (out_addr a) (out_len a)\<rparr>) (anet st)
            else (stream, anet st))
     in
     if has_accept st then acc_callback user (OnAccept stream) (st\<lparr>anet := w\<rparr>)
     else st\<lparr>anet := destroy_mac_stream os stream w\<rparr>)"

text \<open>Closing may change \<open>errno\<close>, which is reported after it.\<close>

definition mac_give_up ::
    "'k os \<Rightarrow> watch_user \<Rightarrow> int \<Rightarrow> 'k acceptor \<Rightarrow> 'k acceptor" where
  "mac_give_up os user fd st =
    (let (c, w) = sys os (SysClose fd) (anet st); st = st\<lparr>anet := w\<rparr> in
     if has_aerror st then acc_callback user (OnError (if eno c \<noteq> 0 then eno c else EIO)) st else st)"

fun mac_acceptLoop ::
    "'k os \<Rightarrow> watch_user \<Rightarrow> TcpStreamKind \<Rightarrow> nat \<Rightarrow> nat \<Rightarrow> 'k acceptor \<Rightarrow> 'k acceptor option" where
  "mac_acceptLoop os user kind 0 cnt st = None"
| "mac_acceptLoop os user kind (Suc n) cnt st =
    (if cnt < max_accept_per_tick (aopts st) then
       let (a, w) = sys os (SysAccept (listen_fd st) 0) (anet st); st = st\<lparr>anet := w\<rparr> in
       if ret a \<ge> 0 then
         let (ok, w) = prepareAcceptedSocket os (ret a) (aopts st) (anet st); st = st\<lparr>anet := w\<rparr> in
         if \<not> ok then Some (mac_give_up os user (ret a) st)
         else mac_acceptLoop os user kind n (cnt + 1) (mac_hand_over os user kind a st)
       else if eno a = EAGAIN \<or> eno a = EWOULDBLOCK then Some st
       else if eno a = EINTR then mac_acceptLoop os user kind n cnt st
       else if has_aerror st then Some (acc_callback user (OnError (eno a)) st)
       else Some st
     else Some st)"

text \<open>The error branch of both handlers.\<close>

definition mac_accept_error :: "watch_user \<Rightarrow> int \<times> 'k net \<Rightarrow> 'k acceptor \<Rightarrow> 'k acceptor" where
  "mac_accept_error user ew st =
    (let (err, w) = ew; st = st\<lparr>anet := w\<rparr> in
     if has_aerror st then acc_callback user (OnError (if err \<noteq> 0 then err else EIO)) st else st)"

definition kq_accept_onReady ::
    "'k os \<Rightarrow> watch_user \<Rightarrow> nat \<Rightarrow> KqueueRawEvent \<Rightarrow> 'k acceptor \<Rightarrow> 'k acceptor option" where
  "kq_accept_onReady os user n ev st =
    (if listen_fd st < 0 then Some st
     else if kq_flags ev AND (EV_ERROR OR EV_EOF) \<noteq> 0 then
       Some (mac_accept_error user
         (if kq_flags ev AND EV_ERROR \<noteq> 0 then (ev_errno ev, anet st)
          else getSoErrorOr os (listen_fd st) EIO (anet st)) st)
     else mac_acceptLoop os user MacKqueue n 0 st)"

definition mac_poll_accept_onReady ::
    "'k os \<Rightarrow> watch_user \<Rightarrow> nat \<Rightarrow> u32 \<Rightarrow> 'k acceptor \<Rightarrow> 'k acceptor option" where
  "mac_poll_accept_onReady os user n revents st =
    (if listen_fd st < 0 then Some st
     else if revents AND (EV_ERR OR EV_HUP) \<noteq> 0 then
       Some (mac_accept_error user (getSoErrorOr os (listen_fd st) EIO (anet st)) st)
     else if revents AND EV_IN \<noteq> 0 then mac_acceptLoop os user MacPoll n 0 st
     else Some st)"

definition mac_accept_start :: "'k acceptor \<Rightarrow> 'k acceptor" where "mac_accept_start = accept_start"
definition mac_accept_stop :: "'k acceptor \<Rightarrow> 'k acceptor" where "mac_accept_stop = accept_stop"

definition mac_accept_destroy :: "'k os \<Rightarrow> 'k acceptor \<Rightarrow> 'k acceptor" where
  "mac_accept_destroy os = accept_destroy os"

definition createKqueueTcpAcceptWatcher ::
    "'k os \<Rightarrow> TcpAcceptOption \<Rightarrow> bool \<Rightarrow> bool \<Rightarrow> 'k net \<Rightarrow> 'k acceptor option \<times> 'k net" where
  "createKqueueTcpAcceptWatcher os o' acc err w =
    (let (fd, e, w) = mac_createListenSocket os o' w in
     if fd < 0 then (None, if err then emit (Cb (OnError e)) w else w)
     else (Some \<lparr>listen_fd = fd, aopts = o', has_accept = acc, has_aerror = err,
                 aattached = False, anet = w\<rparr>, w))"

definition createMacPollTcpAcceptWatcher ::
    "'k os \<Rightarrow> TcpAcceptOption \<Rightarrow> bool \<Rightarrow> bool \<Rightarrow> 'k net \<Rightarrow> 'k acceptor option \<times> 'k net" where
  "createMacPollTcpAcceptWatcher os = createKqueueTcpAcceptWatcher os"

section \<open>Every accepted descriptor is handed over or closed\<close>

text \<open>
  \<open>deals k s t\<close>: from \<open>s\<close> to \<open>t\<close> at most \<open>k\<close> descriptors were accepted; first some were handed over,
  then the others were closed, all in the order of acceptance.
\<close>

definition deals :: "nat \<Rightarrow> 'k acceptor \<Rightarrow> 'k acceptor \<Rightarrow> bool" where
  "deals k s t \<longleftrightarrow> same_acceptor s t \<and>
    (\<exists>es. log (anet t) = log (anet s) @ es \<and> length (accepted_fds es) \<le> k \<and>
      accepted_fds es = handed_fds es @ closed_fds es \<and> (\<not> has_accept s \<longrightarrow> handed_fds es = []) \<and>
      (has_accept s \<longrightarrow> length (closed_fds es) \<le> 1))"

lemma hands_deals: "hands k s t \<Longrightarrow> deals k s t"
  by (force simp: hands_def deals_def)

lemma hands_then_deals:
  assumes "hands j s t" "deals k t u" "j + k \<le> l"
  shows "deals l s u"
proof -
  obtain xs where x: "log (anet t) = log (anet s) @ xs" "length (accepted_fds xs) \<le> j"
    "handed_fds xs = (if has_accept s then accepted_fds xs else [])"
    "closed_fds xs = (if has_accept s then [] else accepted_fds xs)"
    using assms(1) by (auto simp: hands_def)
  obtain ys where y: "log (anet u) = log (anet t) @ ys" "length (accepted_fds ys) \<le> k"
    "accepted_fds ys = handed_fds ys @ closed_fds ys" "\<not> has_accept t \<longrightarrow> handed_fds ys = []"
    "has_accept t \<longrightarrow> length (closed_fds ys) \<le> 1"
    using assms(2) unfolding deals_def by blast
  have st: "same_acceptor s t" "same_acceptor t u" using assms by (auto simp: hands_def deals_def)
  have "has_accept t = has_accept s" "same_acceptor s u" using st by (simp_all add: same_acceptor_def)
  then show ?thesis
    unfolding deals_def by (intro conjI exI [of _ "xs @ ys"]) (use x y assms(3) in auto)
qed

lemma prepare_adds:
  assumes "prepareAcceptedSocket os fd o' w = (ok, w')"
  shows "adds (config_event fd) w w'"
proof -
  obtain b e w1 where nb: "setNonBlocking os fd w = (b, e, w1)" by (cases "setNonBlocking os fd w") auto
  have "adds (config_event fd) w1 (applyBufSizeIfConfigured os fd (recv_buf_bytes o') (send_buf_bytes o')
    (mac_applyKeepAlive os fd (keep_alive o') (keep_alive_idle_sec o') (keep_alive_interval_sec o')
      (keep_alive_count o') (applyTcpNoDelayIfConfigured os fd (tcp_no_delay o')
        (applyNoSigPipeIfAvailable os fd (applyCloseOnExecIfConfigured os fd (set_close_on_exec o') w1)))))"
    by (rule adds_trans [OF adds_trans [OF adds_trans [OF adds_trans [OF adds_config(1) adds_nosigpipe]
          adds_config(2)] adds_mac_keepalive] adds_config(3)])
  with assms adds_nonblocking [OF nb] show ?thesis
    by (auto simp: prepareAcceptedSocket_def mac_same nb Let_def intro: adds_trans split: if_splits)
qed

lemma hand_over_fds:
  assumes "ret a \<ge> 0"
  shows "\<exists>es. log (anet (mac_hand_over os user kind a s)) = log (anet s) @ es \<and> accepted_fds es = [] \<and>
      handed_fds es = (if has_accept s then [ret a] else []) \<and>
      closed_fds es = (if has_accept s then [] else [ret a])"
    and "same_acceptor s (mac_hand_over os user kind a s)"
proof -
  obtain str w where f: "(if fill_endpoints (aopts s) then bestEffortFillEndpoints os (ret a)
      ((new_stream kind (ret a))\<lparr>peer := fromSockaddr (out_addr a) (out_len a)\<rparr>) (anet s)
    else (new_stream kind (ret a), anet s)) = (str, w)" by fastforce
  have 1: "adds (config_event (ret a)) (anet s) w \<and> sfd str = ret a"
    using f adds_fill by (fastforce simp: new_stream_def split: if_splits)
  have "adds still (anet s) w" by (rule adds_mono [OF conjunct1 [OF 1] config_still])
  then obtain xs where x: "log w = log (anet s) @ xs" "list_all still xs" by (auto simp: adds_def)
  have eq: "mac_hand_over os user kind a s =
    (if has_accept s then acc_callback user (OnAccept str) (s\<lparr>anet := w\<rparr>)
     else s\<lparr>anet := destroy_stream os str w\<rparr>)"
    unfolding mac_hand_over_def Let_def mac_same f by simp
  show "\<exists>es. log (anet (mac_hand_over os user kind a s)) = log (anet s) @ es \<and> accepted_fds es = [] \<and>
      handed_fds es = (if has_accept s then [ret a] else []) \<and>
      closed_fds es = (if has_accept s then [] else [ret a])"
  proof (cases "has_accept s")
    case True
    obtain ys where "log (anet (acc_callback user (OnAccept str) (s\<lparr>anet := w\<rparr>))) =
      log w @ Cb (OnAccept str) # ys" "list_all still ys"
      using callback_log(1) [of user "OnAccept str" "s\<lparr>anet := w\<rparr>"] by auto
    then show ?thesis using True eq x 1 still_fds by simp
  next
    case False
    then show ?thesis using eq x 1 still_fds assms by (simp add: destroy_stream_def closeFd_def)
  qed
  show "same_acceptor s (mac_hand_over os user kind a s)"
    using eq callback_log(2) [of "s\<lparr>anet := w\<rparr>"] by (simp add: same_acceptor_def)
qed

text \<open>One accepted descriptor, prepared or given up.\<close>

lemma round_log:
  assumes "sys os (SysAccept f g) (anet s) = (a, w)" "ret a \<ge> 0"
    and "prepareAcceptedSocket os (ret a) o' w = (ok, w')"
  shows "\<exists>xs. log w' = log (anet s) @ Sys (SysAccept f g) a # xs \<and> list_all still xs"
  using log_sys [OF assms(1)] adds_mono [OF prepare_adds [OF assms(3)] config_still]
  by (auto simp: adds_def)

lemma hand_over_round:
  assumes "sys os (SysAccept f g) (anet s) = (a, w)" "ret a \<ge> 0"
    and "prepareAcceptedSocket os (ret a) o' w = (ok, w')"
  shows "hands 1 s (mac_hand_over os user kind a (s\<lparr>anet := w'\<rparr>))"
proof -
  obtain xs where x: "log w' = log (anet s) @ Sys (SysAccept f g) a # xs" "list_all still xs"
    using round_log [OF assms] by blast
  show ?thesis
    using hand_over_fds [OF assms(2), where s = "s\<lparr>anet := w'\<rparr>" and os = os and user = user and kind = kind]
      x still_fds [OF x(2)] assms(2)
    by (auto simp: hands_def same_acceptor_def)
qed

lemma give_up_round:
  assumes "sys os (SysAccept f g) (anet s) = (a, w)" "ret a \<ge> 0"
    and "prepareAcceptedSocket os (ret a) o' w = (ok, w')"
  shows "deals 1 s (mac_give_up os user (ret a) (s\<lparr>anet := w'\<rparr>))"
proof -
  obtain xs where x: "log w' = log (anet s) @ Sys (SysAccept f g) a # xs" "list_all still xs"
    using round_log [OF assms] by blast
  obtain c v where c: "sys os (SysClose (ret a)) w' = (c, v)" by fastforce
  let ?s = "s\<lparr>anet := v\<rparr>"
  have "deals 1 s ?s"
    using x still_fds [OF x(2)] log_sys [OF c] assms(2) by (simp add: deals_def same_acceptor_def)
  moreover have "deals 1 s (acc_callback user (OnError e) ?s)" for e
  proof -
    obtain es where es: "log (anet (acc_callback user (OnError e) ?s)) = log v @ Cb (OnError e) # es"
      "list_all still es" using callback_log(1) [of user "OnError e" ?s] by auto
    then have "list_all still (Cb (OnError e) # es)" by (simp add: still_def)
    from still_fds [OF this] es(1) x still_fds [OF x(2)] log_sys [OF c] assms(2) callback_log(2) [of ?s]
    show ?thesis by (simp add: deals_def same_acceptor_def)
  qed
  ultimately show ?thesis by (simp add: mac_give_up_def c Let_def)
qed

lemma mac_acceptLoop_deals:
  "mac_acceptLoop os user kind n k s = Some t \<Longrightarrow> k \<le> max_accept_per_tick (aopts s) \<Longrightarrow>
    deals (max_accept_per_tick (aopts s) - k) s t"
proof (induction n arbitrary: k s)
  case (Suc n)
  show ?case
  proof (cases "k < max_accept_per_tick (aopts s)")
    case False
    with Suc.prems show ?thesis by (auto simp: deals_def same_acceptor_def)
  next
    case True
    let ?m = "max_accept_per_tick (aopts s)"
    obtain a w where c: "sys os (SysAccept (listen_fd s) 0) (anet s) = (a, w)" by fastforce
    obtain ok w' where p: "prepareAcceptedSocket os (ret a) (aopts s) w = (ok, w')" by fastforce
    note ref = accept_refused [OF c]
    consider "ret a \<ge> 0" "ok" | "ret a \<ge> 0" "\<not> ok"
      | "ret a < 0" "eno a = EINTR" "\<not> (eno a = EAGAIN \<or> eno a = EWOULDBLOCK)"
      | "ret a < 0" "eno a \<noteq> EINTR \<or> eno a = EAGAIN \<or> eno a = EWOULDBLOCK" by linarith
    then show ?thesis
    proof cases
      case 1
      let ?s1 = "mac_hand_over os user kind a (s\<lparr>anet := w'\<rparr>)"
      have h: "hands 1 s ?s1" by (rule hand_over_round [OF c 1(1) p])
      then have o: "aopts ?s1 = aopts s" by (simp add: hands_def same_acceptor_def)
      have "mac_acceptLoop os user kind n (k + 1) ?s1 = Some t" using Suc.prems True 1 by (simp add: c p)
      from Suc.IH [OF this] o True hands_then_deals [OF h] show ?thesis by simp
    next
      case 2
      then have "t = mac_give_up os user (ret a) (s\<lparr>anet := w'\<rparr>)"
        using Suc.prems True by (simp add: c p)
      with give_up_round [OF c 2(1) p, of user] True
      show ?thesis by (fastforce simp: deals_def)
    next
      case 3
      then have "mac_acceptLoop os user kind n k (s\<lparr>anet := w\<rparr>) = Some t"
        using Suc.prems True by (simp add: c)
      from Suc.IH [OF this] True hands_then_deals [OF ref [OF 3(1), of 0]] show ?thesis by simp
    next
      case 4
      then have "t = s\<lparr>anet := w\<rparr> \<or> t = acc_callback user (OnError (eno a)) (s\<lparr>anet := w\<rparr>)"
        using Suc.prems(1) True by (auto simp: c Let_def split: if_splits)
      then show ?thesis
        using hands_deals [OF hands_trans [OF ref [OF 4(1), of 0] error_callback_hands [of "?m - k"]]]
          hands_deals [OF ref [OF 4(1)]] by auto
    qed
  qed
qed simp

lemma accept_error_deals:
  assumes "adds still (anet s) (snd ew)"
  shows "deals k s (mac_accept_error user ew s)"
proof -
  have h: "hands 0 s (s\<lparr>anet := snd ew\<rparr>)"
    using still_hands [of s "s\<lparr>anet := snd ew\<rparr>"] assms by (simp add: same_acceptor_def)
  have h': "hands k s (s\<lparr>anet := snd ew\<rparr>)"
    using still_hands [of s "s\<lparr>anet := snd ew\<rparr>"] assms by (simp add: same_acceptor_def)
  show ?thesis
    using hands_deals [OF h'] hands_deals [OF hands_trans [OF h error_callback_hands [of k]]]
    by (auto simp: mac_accept_error_def Let_def split: prod.split)
qed

lemma soError_still: "adds still w (snd (getSoErrorOr os fd f w))"
  by (auto simp: getSoErrorOr_def still_def intro: adds_sys split: prod.split)

text \<open>
  The kqueue accept watcher loses no descriptor: one readiness report accepts at most
  \<open>max_accept_per_tick\<close> connections; those it could make non-blocking go to \<open>on_accept\<close>, each once and
  in the order of acceptance, and at most one, the last, is closed instead because it could not be
  prepared. Without \<open>on_accept\<close> all of them are closed. No other descriptor is closed.
\<close>

lemma kq_accept_deals_each:
  assumes "kq_accept_onReady os user n ev s = Some t"
  shows "\<exists>es. log (anet t) = log (anet s) @ es \<and>
    length (accepted_fds es) \<le> max_accept_per_tick (aopts s) \<and>
    accepted_fds es = handed_fds es @ closed_fds es \<and>
    (if has_accept s then length (closed_fds es) \<le> 1 else handed_fds es = [])"
proof -
  let ?m = "max_accept_per_tick (aopts s)"
  have "deals ?m s s" by (simp add: deals_def same_acceptor_def)
  moreover have "deals ?m s (mac_accept_error user (ev_errno ev, anet s) s)"
    by (rule accept_error_deals) simp
  ultimately have "deals ?m s t"
    using assms mac_acceptLoop_deals [of os user MacKqueue n 0 s t]
      accept_error_deals [OF soError_still, of ?m s user os "listen_fd s" EIO]
    by (auto simp: kq_accept_onReady_def split: if_splits)
  then show ?thesis unfolding deals_def by auto
qed

lemma mac_poll_accept_deals:
  assumes "mac_poll_accept_onReady os user n ev s = Some t"
  shows "deals (max_accept_per_tick (aopts s)) s t"
proof -
  let ?m = "max_accept_per_tick (aopts s)"
  have "deals ?m s s" by (simp add: deals_def same_acceptor_def)
  then show ?thesis
    using assms mac_acceptLoop_deals [of os user MacPoll n 0 s t]
      accept_error_deals [OF soError_still, of ?m s user os "listen_fd s" EIO]
    by (auto simp: mac_poll_accept_onReady_def split: if_splits)
qed

text \<open>A kernel with pending connections whose third descriptor cannot be made non-blocking.\<close>

fun stubborn_os :: "nat os" where
  "stubborn_os k (SysSetFl f w) =
    (\<lparr>ret = if f = 12 then -1 else 0, eno = 22, out_int = 0, out_bytes = [], out_addr = None, out_len = 0\<rparr>, k)"
| "stubborn_os k c = busy_os k c"

definition demo_mac_acceptor :: "nat acceptor" where
  "demo_mac_acceptor = demo_acceptor\<lparr>aopts := (aopts demo_acceptor)\<lparr>max_accept_per_tick := 5\<rparr>\<rparr>"

lemma kq_accept_deals_each_witness:
  "\<exists>t. kq_accept_onReady stubborn_os (\<lambda>_ _. []) 6
      \<lparr>kq_ident = 4, kq_filter = 0xFFFF, kq_flags = 0, kq_fflags = 0, kq_data = 3\<rparr> demo_mac_acceptor = Some t \<and>
    handed_fds (log (anet t)) = [10, 11] \<and> closed_fds (log (anet t)) = [12]"
proof -
  let ?e = "\<lparr>kq_ident = 4, kq_filter = 0xFFFF, kq_flags = 0, kq_fflags = 0, kq_data = 3\<rparr>"
  let ?r = "kq_accept_onReady stubborn_os (\<lambda>_ _. []) 6 ?e demo_mac_acceptor"
  have r: "?r = Some (the ?r)" by (rule some_the) code_simp
  have "accepted_fds (log (anet (the ?r))) = [10, 11, 12]" "length (handed_fds (log (anet (the ?r)))) = 2"
    "log (anet demo_mac_acceptor) = []" by code_simp+
  moreover from kq_accept_deals_each [OF r] calculation
  have "accepted_fds (log (anet (the ?r))) =
    handed_fds (log (anet (the ?r))) @ closed_fds (log (anet (the ?r)))" by auto
  ultimately have "handed_fds (log (anet (the ?r))) = [10, 11] \<and> closed_fds (log (anet (the ?r))) = [12]"
    by (auto simp: append_eq_Cons_conv)
  with r show ?thesis by blast
qed

end
