(* ===== verification/Mac_Tcp_Connect.thy ===== *)
theory Mac_Tcp_Connect
  imports Mac_Tcp_Socket Tcp_Connect
begin

text \<open>
  The connect watchers of \<^verbatim>\<open>platform/macos/network/watcher/tcp_connect_watcher.cc\<close>, for kqueue and
  poll. They are the Linux watchers but for the options of the socket and for the kqueue handler,
  which takes every report of its write filter for a result.
\<close>

section \<open>Operations\<close>

definition mac_connect_options :: "'k os \<Rightarrow> 'k connector \<Rightarrow> 'k connector" where
  "mac_connect_options os st =
    (let o' = copts st; fd = kfd st; w = cnet st;
         w = mac_applyCloseOnExec os fd (set_close_on_exec o') w;
         w = applyNoSigPipeIfAvailable os fd w;
         w = mac_applyTcpNoDelay os fd (tcp_no_delay o') w;
         w = mac_applyKeepAlive os fd (keep_alive o') (keep_alive_idle_sec o')
               (keep_alive_interval_sec o') (keep_alive_count o') w;
         w = mac_applyBufSize os fd (recv_buf_bytes o') (send_buf_bytes o') w
     in st\<lparr>cnet := w\<rparr>)"

definition mac_createSocket :: "'k os \<Rightarrow> connect_user \<Rightarrow> 'k connector \<Rightarrow> 'k connector" where
  "mac_createSocket os user st =
    (let family = sa_family (fst (mac_toSockaddr (remote st)));
         (a, st) = k_sys os (SysSocket family SOCK_STREAM) st;
         st = st\<lparr>kfd := ret a\<rparr>
     in
     if ret a < 0 then fail os user (eno a) st
     else
       let (ok, e, w) = mac_setNonBlocking os (kfd st) (cnet st); st = st\<lparr>cnet := w\<rparr> in
       if \<not> ok then fail os user e st
       else bindLocal os user family (mac_connect_options os st))"

definition mac_connect_start :: "'k os \<Rightarrow> connect_user \<Rightarrow> 'k connector \<Rightarrow> 'k connector" where
  "mac_connect_start os user st =
    (if cattached st \<or> canceled st then st
     else
       let st = mac_createSocket os user st in
       if kfd st < 0 then st
       else
         let st = startConnect os user st in
         if kfd st < 0 then st
         else (k_note (Attach (kfd st)) (st\<lparr>ksrc := kfd st\<rparr>))\<lparr>cattached := True\<rparr>)"

definition kq_connect_onReady :: "'k os \<Rightarrow> connect_user \<Rightarrow> 'k connector \<Rightarrow> 'k connector" where
  "kq_connect_onReady os user st = (if canceled st then st else checkConnectResult os user st)"

text \<open>Members with the text of the Linux classes.\<close>

definition mac_connect_stop :: "'k os \<Rightarrow> 'k connector \<Rightarrow> 'k connector" where
  "mac_connect_stop os = connect_stop os"
definition mac_connect_cancel :: "'k os \<Rightarrow> 'k connector \<Rightarrow> 'k connector" where
  "mac_connect_cancel os = connect_cancel os"
definition mac_startConnect :: "'k os \<Rightarrow> connect_user \<Rightarrow> 'k connector \<Rightarrow> 'k connector" where
  "mac_startConnect os = startConnect os"
definition mac_checkConnectResult :: "'k os \<Rightarrow> connect_user \<Rightarrow> 'k connector \<Rightarrow> 'k connector" where
  "mac_checkConnectResult os = checkConnectResult os"
definition mac_connect_fail :: "'k os \<Rightarrow> connect_user \<Rightarrow> int \<Rightarrow> 'k connector \<Rightarrow> 'k connector" where
  "mac_connect_fail os = fail os"
definition mac_connect_destroy :: "'k os \<Rightarrow> 'k connector \<Rightarrow> 'k connector" where
  "mac_connect_destroy os = connect_destroy os"
definition mac_poll_connect_onReady :: "'k os \<Rightarrow> connect_user \<Rightarrow> u32 \<Rightarrow> 'k connector \<Rightarrow> 'k connector" where
  "mac_poll_connect_onReady os = connect_onReady os"

text \<open>The handler is that of the class, which the kind of its streams tells.\<close>

fun mac_connect_step :: "'k os \<Rightarrow> connect_user \<Rightarrow> connect_op \<Rightarrow> 'k connector \<Rightarrow> 'k connector" where
  "mac_connect_step os user ConnStart st = mac_connect_start os user st"
| "mac_connect_step os user ConnStop st = mac_connect_stop os st"
| "mac_connect_step os user ConnCancel st = mac_connect_cancel os st"
| "mac_connect_step os user (ConnReady ev) st =
    (if ckind st = MacKqueue then kq_connect_onReady os user st
     else mac_poll_connect_onReady os user ev st)"

definition mac_connect_run ::
    "'k os \<Rightarrow> connect_user \<Rightarrow> connect_op list \<Rightarrow> 'k connector \<Rightarrow> 'k connector" where
  "mac_connect_run os user ops st = foldl (\<lambda>st p. mac_connect_step os user p st) st ops"

definition createKqueueTcpConnectWatcher ::
    "IpEndpoint \<Rightarrow> TcpConnectOption \<Rightarrow> bool \<Rightarrow> bool \<Rightarrow> 'k net \<Rightarrow> 'k connector" where
  "createKqueueTcpConnectWatcher r o' c e w = new_connector r o' MacKqueue c e w"

definition createMacPollTcpConnectWatcher ::
    "IpEndpoint \<Rightarrow> TcpConnectOption \<Rightarrow> bool \<Rightarrow> bool \<Rightarrow> 'k net \<Rightarrow> 'k connector" where
  "createMacPollTcpConnectWatcher r o' c e w = new_connector r o' MacPoll c e w"

text \<open>
  Both classes have the same \<open>createSocket\<close> and \<open>start\<close>; the members of the poll class under their
  own names.
\<close>

definition mac_poll_createSocket :: "'k os \<Rightarrow> connect_user \<Rightarrow> 'k connector \<Rightarrow> 'k connector" where
  "mac_poll_createSocket os = mac_createSocket os"
definition mac_poll_connect_start :: "'k os \<Rightarrow> connect_user \<Rightarrow> 'k connector \<Rightarrow> 'k connector" where
  "mac_poll_connect_start os = mac_connect_start os"
definition mac_poll_startConnect :: "'k os \<Rightarrow> connect_user \<Rightarrow> 'k connector \<Rightarrow> 'k connector" where
  "mac_poll_startConnect os = startConnect os"
definition mac_poll_checkConnectResult :: "'k os \<Rightarrow> connect_user \<Rightarrow> 'k connector \<Rightarrow> 'k connector" where
  "mac_poll_checkConnectResult os = checkConnectResult os"

section \<open>Ownership of descriptors\<close>

lemma mac_connect_options_held:
  assumes "held st" "kfd st \<ge> 0"
  shows "held (mac_connect_options os st)" "kfd (mac_connect_options os st) = kfd st"
proof -
  have a: "adds (config_event (kfd st)) (cnet st) (cnet (mac_connect_options os st))"
    unfolding mac_connect_options_def Let_def connector.update_convs connector.select_convs cnet_upd mac_same
    by (rule adds_trans [OF adds_trans [OF adds_trans [OF adds_trans [OF adds_config(1) adds_nosigpipe]
          adds_config(2)] adds_mac_keepalive] adds_config(3)])
  show k: "kfd (mac_connect_options os st) = kfd st"
    by (simp add: mac_connect_options_def Let_def)
  have "owns {} (log (cnet st)) = Some {kfd st}" using assms by (simp add: held_def own_def)
  from owns_adds_config [OF a this]
  have "owns {} (log (cnet (mac_connect_options os st))) = Some {kfd st}" by simp
  then show "held (mac_connect_options os st)" using k assms(2) by (simp add: held_def own_def)
qed

lemma mac_createSocket_held:
  assumes "settled st" "\<not> cattached st"
  shows "held (mac_createSocket os user st)"
proof -
  let ?c = "SysSocket (sa_family (fst (toSockaddr (remote st)))) SOCK_STREAM"
  obtain a s1 where c: "k_sys os ?c st = (a, s1)" by fastforce
  let ?s2 = "s1\<lparr>kfd := ret a\<rparr>"
  have "owns {} (log (cnet st)) = Some {}"
    using assms by (auto simp: settled_def held_def own_def)
  then have h2: "held ?s2"
    using k_sysD(1) [OF c] by (simp add: held_def own_def owns_append)
  obtain ok e w where nb: "setNonBlocking os (kfd ?s2) (cnet ?s2) = (ok, e, w)"
    by (cases "setNonBlocking os (kfd ?s2) (cnet ?s2)") auto
  have h3: "held (?s2\<lparr>cnet := w\<rparr>)" if "ret a \<ge> 0"
    using owns_adds_config [OF adds_nonblocking [OF nb]] h2 that by (simp add: held_def own_def)
  note o = mac_connect_options_held [OF h3, of os]
  have eq: "mac_createSocket os user st =
    (if ret a < 0 then fail os user (eno a) ?s2
     else if \<not> ok then fail os user e (?s2\<lparr>cnet := w\<rparr>)
     else bindLocal os user (sa_family (fst (toSockaddr (remote st))))
       (mac_connect_options os (?s2\<lparr>cnet := w\<rparr>)))"
    unfolding mac_createSocket_def Let_def mac_same c prod.case nb by simp
  show ?thesis
    unfolding eq using fail_keeps(1) [OF h2] fail_keeps(1) [OF h3] bindLocal_held [OF o(1)] o(2)
    by (cases "ret a < 0") auto
qed

text \<open>The step of attaching after a socket was made, whichever way it was configured.\<close>

lemma attach_settled:
  "held s \<Longrightarrow> settled ((k_note (Attach (kfd s)) (s\<lparr>ksrc := kfd s\<rparr>))\<lparr>cattached := True\<rparr>)"
  "held s \<Longrightarrow> kfd s < 0 \<Longrightarrow> settled s"
  by (simp_all add: settled_def held_def own_def owns_append)

lemma mac_connect_step_settled:
  assumes "settled st"
  shows "settled (mac_connect_step os user p st)"
proof (cases p)
  case ConnStart
  show ?thesis
  proof (cases "cattached st \<or> canceled st")
    case True
    with assms ConnStart show ?thesis by (simp add: mac_connect_start_def)
  next
    case False
    let ?s1 = "mac_createSocket os user st"
    have 1: "held ?s1" using mac_createSocket_held [OF assms] False by simp
    have 2: "held (startConnect os user ?s1)" if "kfd ?s1 \<ge> 0" using startConnect_held [OF 1 that] .
    show ?thesis
      using attach_settled [OF 2] attach_settled(2) [OF 1] False ConnStart
      by (simp add: mac_connect_start_def Let_def)
  qed
next
  case ConnStop
  then show ?thesis using connect_stop_settled [OF assms] by (simp add: mac_connect_stop_def)
next
  case ConnCancel
  then show ?thesis
    using connect_acts_keep(2) [OF assms, of os "[CCancel]"] by (simp add: mac_connect_cancel_def)
next
  case (ConnReady ev)
  then show ?thesis
    using assms checkConnectResult_keeps(2) [OF assms]
    by (simp add: kq_connect_onReady_def mac_poll_connect_onReady_def connect_onReady_def)
qed

text \<open>
  The connect watchers of macOS leak no descriptor and close none twice: after the watcher is
  destroyed every descriptor it got from \<^verbatim>\<open>socket\<close> has been closed exactly once by the watcher or
  handed to \<open>on_connected\<close> exactly once, and it never used a descriptor it did not own, whatever the
  kernel answers and whatever the owner and the callbacks do.
\<close>

lemma mac_connect_owns_descriptor:
  assumes "log w = []"
  shows "owns {} (log (cnet (mac_connect_destroy os
    (mac_connect_run os user ops (createKqueueTcpConnectWatcher r o' c e w))))) = Some {}"
proof -
  have run: "settled (mac_connect_run os user ops st)" if "settled st" for st :: "'a connector"
    using that unfolding mac_connect_run_def
    by (induction ops arbitrary: st) (auto intro: mac_connect_step_settled)
  let ?n = "new_connector r o' MacKqueue c e w"
  have "settled ?n"
    using assms by (simp add: settled_def held_def own_def new_connector_def)
  from run [OF this] have "held (mac_connect_run os user ops ?n)" by (simp add: settled_def)
  note h = k_closeFd_held [OF connect_stop_held(1) [OF this, of os], of os]
  then show ?thesis
    by (simp add: mac_connect_destroy_def connect_destroy_def createKqueueTcpConnectWatcher_def held_def own_def)
qed

text \<open>
  A refused connection is reported twice here as well: first as an error and then, at the next
  report of the write filter, as connected.
\<close>

lemma mac_error_then_connected:
  "callbacks (log (cnet (mac_connect_run refusing_os (\<lambda>_ _. [])
      [ConnStart, ConnReady 0] (demo_connector\<lparr>ckind := MacKqueue\<rparr>)))) =
    [OnError ECONNREFUSED,
     OnConnected \<lparr>skind = MacKqueue, peer = None, local = None, sfd = 5\<rparr>]"
  by code_simp

lemma mac_connect_owns_descriptor_witness:
  "owns {} (log (cnet (mac_connect_destroy refusing_os
    (mac_connect_run refusing_os (\<lambda>_ _. [CStop]) [ConnStart, ConnCancel, ConnReady 0]
      (createKqueueTcpConnectWatcher (makeIpEndpointV4 [127, 0, 0, 1] 80)
        (sock_options.extend default_sock_options (TcpConnectOption.fields None 0 True 4))
        True True \<lparr>kern = 0, log = []\<rparr>))))) = Some {}"
  by (rule mac_connect_owns_descriptor) simp

end
