(* ===== verification/Mac_Poll_Backend.thy ===== *)
theory Mac_Poll_Backend
  imports Poll_Backend
begin

text \<open>
  \<^verbatim>\<open>platform/macos/schedule/poll_backend.h\<close> and \<^verbatim>\<open>.cc\<close>: the \<open>poll(2)\<close> backend on macOS. Its text is
  that of the Linux one but for the backend type, which the model of that one has as a parameter;
  here the definitions get their macOS instance and the laws of the core carry over.
\<close>

definition mac_new_PollEventSource :: "int \<Rightarrow> short \<Rightarrow> PollEventSource" where
  "mac_new_PollEventSource fd events = new_PollEventSource MACOS_POLL fd events"

definition mac_poll_arm :: "'s \<Rightarrow> ('s, 'u) poll_world \<Rightarrow> ('s, 'u) poll_world" where
  "mac_poll_arm = arm"

definition mac_poll_disarm :: "'s \<Rightarrow> ('s, 'u) poll_world \<Rightarrow> ('s, 'u) poll_world" where
  "mac_poll_disarm = disarm"

definition mac_setEvents :: "'s \<Rightarrow> short \<Rightarrow> ('s, 'u) poll_world \<Rightarrow> ('s, 'u) poll_world" where
  "mac_setEvents = setEvents"

definition mac_poll_matches :: "('s, 'u) poll_world \<Rightarrow> 's \<Rightarrow> PollRawEvent \<Rightarrow> bool" where
  "mac_poll_matches = matches"

definition mac_registerFd :: "int \<Rightarrow> short \<Rightarrow> PollBackend \<Rightarrow> PollBackend" where
  "mac_registerFd = registerFd"

definition mac_unregisterFd :: "int \<Rightarrow> PollBackend \<Rightarrow> PollBackend" where
  "mac_unregisterFd = unregisterFd"

definition mac_poll_wait :: "poll_answer list \<Rightarrow> PollBackend \<Rightarrow> (PollBackend \<times> poll_answer list) option" where
  "mac_poll_wait = wait"

definition mac_poll_rawEvents :: "PollBackend \<Rightarrow> PollRawEvent list" where
  "mac_poll_rawEvents = rawEvents"

definition mac_poll_dispatch ::
  "('s \<Rightarrow> ('s, 'u) callback option) \<Rightarrow> 's \<Rightarrow> PollRawEvent \<Rightarrow> ('s, 'u) poll_world \<Rightarrow>
   ('s, 'u) poll_world \<times> 's core_call list" where
  "mac_poll_dispatch = dispatch"

definition mac_poll_vtable ::
  "('s \<Rightarrow> ('s, 'u) callback option) \<Rightarrow> (('s, 'u) poll_world, 's, PollRawEvent) vtable" where
  "mac_poll_vtable cbs =
     \<lparr>vt_addSource = (\<lambda>_ w. w),
      vt_removeSource = (\<lambda>_ w. w),
      vt_wait = (\<lambda>_ w. map_option (\<lambda>(b, rest). w\<lparr>pw_backend := b, pw_answers := rest\<rparr>)
                         (mac_poll_wait (pw_answers w) (pw_backend w))),
      vt_rawEvents = (\<lambda>w. mac_poll_rawEvents (pw_backend w)),
      vt_arm = mac_poll_arm,
      vt_disarm = mac_poll_disarm,
      vt_matches = mac_poll_matches,
      vt_dispatch = mac_poll_dispatch cbs\<rparr>"

definition mac_poll_fresh ::
  "('s \<Rightarrow> int) \<Rightarrow> ('s \<Rightarrow> short) \<Rightarrow> 'u \<Rightarrow> poll_answer list \<Rightarrow> ('s, 'u) poll_world" where
  "mac_poll_fresh fdof evof u answers =
     \<lparr>pw_type = MACOS_POLL, pw_backend = new_PollBackend,
      pw_src = (\<lambda>s. mac_new_PollEventSource (fdof s) (evof s)), pw_user = u, pw_answers = answers\<rparr>"

lemma mac_poll_vtable_same: "mac_poll_vtable cbs = poll_vtable cbs"
  by (simp add: mac_poll_vtable_def poll_vtable_def mac_poll_wait_def mac_poll_rawEvents_def
      mac_poll_arm_def mac_poll_disarm_def mac_poll_matches_def mac_poll_dispatch_def)

lemma mac_poll_fresh_same: "mac_poll_fresh fdof evof u answers = poll_fresh MACOS_POLL fdof evof u answers"
  by (simp add: mac_poll_fresh_def poll_fresh_def mac_new_PollEventSource_def)

interpretation mac_poll: reactor "mac_poll_vtable cbs" "poll_winv MACOS_POLL fdof" poll_armed
    "\<lambda>x y. fdof x = fdof y"
  for cbs :: "'s \<Rightarrow> ('s, 'u) callback option" and fdof
  unfolding mac_poll_vtable_same by (rule poll.reactor_axioms)

text \<open>
  The core on this backend watches exactly what is registered, and no event is lost between \<open>poll\<close>
  and the sources.
\<close>

lemma mac_poll_watches_armed:
  assumes "loop_run (mac_poll_vtable cbs) ks (new_core (mac_poll_fresh fdof evof u answers)) = Some c"
    and "run_fits (mac_poll_vtable cbs) (\<lambda>x y. fdof x = fdof y) ks
      (new_core (mac_poll_fresh fdof evof u answers))"
  shows "poll_winv MACOS_POLL fdof (core_backend c)"
  using mac_poll.loop_watches_registered [OF assms [unfolded mac_poll_fresh_same] poll_fresh_law] by blast

end
