(* ===== verification/Cocoa_Backend.thy ===== *)
theory Cocoa_Backend
  imports Event_Core
begin

text \<open>
  \<^verbatim>\<open>platform/macos/schedule/cocoa_backend.h\<close> and \<^verbatim>\<open>.mm\<close>: the backend on the event pump of
  \<^verbatim>\<open>NSApplication\<close>, and its wakeup watchers in \<^verbatim>\<open>watcher/cocoa_wakeup.mm\<close> and \<^verbatim>\<open>cocoa_worker_wakeup.mm\<close>.
  The application's queue is a list of answers to come, one for each time it is asked; a call that
  finds no answer does not return. What the backend does to events is logged: it retains them, hands
  them to the application, and releases them in the next wait. Handlers that \<^verbatim>\<open>sendEvent:\<close> calls are
  outside the model.
\<close>

section \<open>State\<close>

record NSEvent =
  ns_type :: int
  ns_ptr :: nat

record CocoaRawEvent =
  ca_type :: int
  ca_event :: "nat option"

record CocoaEventSource =
  cs_backend :: BackendType
  cs_type :: int
  cs_armed :: bool

datatype until_date = DistantFuture | DistantPast | AfterMs int

datatype cocoa_call =
    NextEvent until_date
  | CFRetain nat
  | CFRelease nat
  | SendEvent nat
  | UpdateWindows
  | SharedApplication
  | PostEvent int

record ('s, 'u) cocoa_world =
  ca_backend :: BackendType
  ca_ready :: "CocoaRawEvent list"
  ca_src :: "'s \<Rightarrow> CocoaEventSource"
  ca_user :: 'u
  ca_queue :: "NSEvent option list"
  ca_log :: "cocoa_call list"

definition new_CocoaEventSource :: "int \<Rightarrow> CocoaEventSource" where
  "new_CocoaEventSource ty = \<lparr>cs_backend = MACOS_COCOA, cs_type = ty, cs_armed = False\<rparr>"

definition cocoa_note :: "cocoa_call list \<Rightarrow> ('s, 'u) cocoa_world \<Rightarrow> ('s, 'u) cocoa_world" where
  "cocoa_note cs w = w\<lparr>ca_log := ca_log w @ cs\<rparr>"

definition new_cocoa_world :: "('s \<Rightarrow> int) \<Rightarrow> 'u \<Rightarrow> NSEvent option list \<Rightarrow> ('s, 'u) cocoa_world" where
  "new_cocoa_world ty u queue =
     cocoa_note [SharedApplication]
       \<lparr>ca_backend = MACOS_COCOA, ca_ready = [], ca_src = (\<lambda>s. new_CocoaEventSource (ty s)),
        ca_user = u, ca_queue = queue, ca_log = []\<rparr>"

section \<open>Operations\<close>

text \<open>\<open>releaseReady\<close>; a released entry is also cleared, but the vector is emptied at once.\<close>

fun release_calls :: "CocoaRawEvent list \<Rightarrow> cocoa_call list" where
  "release_calls [] = []"
| "release_calls (e # es) = (case ca_event e of None \<Rightarrow> [] | Some p \<Rightarrow> [CFRelease p]) @ release_calls es"

definition releaseReady :: "('s, 'u) cocoa_world \<Rightarrow> ('s, 'u) cocoa_world" where
  "releaseReady w = (cocoa_note (release_calls (ca_ready w)) w)\<lparr>ca_ready := []\<rparr>"

definition cocoa_arm :: "'s \<Rightarrow> ('s, 'u) cocoa_world \<Rightarrow> ('s, 'u) cocoa_world" where
  "cocoa_arm s w =
     (if \<not> isSourceMatchBackend (cs_backend (ca_src w s)) (ca_backend w) then w
      else w\<lparr>ca_src := (ca_src w)(s := (ca_src w s)\<lparr>cs_armed := True\<rparr>)\<rparr>)"

definition cocoa_disarm :: "'s \<Rightarrow> ('s, 'u) cocoa_world \<Rightarrow> ('s, 'u) cocoa_world" where
  "cocoa_disarm s w =
     (if \<not> isSourceMatchBackend (cs_backend (ca_src w s)) (ca_backend w) then w
      else w\<lparr>ca_src := (ca_src w)(s := (ca_src w s)\<lparr>cs_armed := False\<rparr>)\<rparr>)"

definition cocoa_matches :: "('s, 'u) cocoa_world \<Rightarrow> 's \<Rightarrow> CocoaRawEvent \<Rightarrow> bool" where
  "cocoa_matches w s ev =
     (if \<not> cs_armed (ca_src w s) then False else ca_type ev = cs_type (ca_src w s))"

text \<open>The backend keeps an event for the dispatch that follows, then the application gets it.\<close>

definition take_event :: "NSEvent \<Rightarrow> ('s, 'u) cocoa_world \<Rightarrow> ('s, 'u) cocoa_world" where
  "take_event ev w =
     (let w = cocoa_note [CFRetain (ns_ptr ev)] w;
          w = w\<lparr>ca_ready := ca_ready w @ [\<lparr>ca_type = ns_type ev, ca_event = Some (ns_ptr ev)\<rparr>]\<rparr>
      in cocoa_note [SendEvent (ns_ptr ev), UpdateWindows] w)"

fun drain_queue :: "NSEvent option list \<Rightarrow> ('s, 'u) cocoa_world \<Rightarrow> ('s, 'u) cocoa_world option" where
  "drain_queue [] w = None"
| "drain_queue (None # rest) w = Some ((cocoa_note [NextEvent DistantPast] w)\<lparr>ca_queue := rest\<rparr>)"
| "drain_queue (Some ev # rest) w =
     drain_queue rest (take_event ev (cocoa_note [NextEvent DistantPast] w))"

definition cocoa_wait :: "int \<Rightarrow> ('s, 'u) cocoa_world \<Rightarrow> ('s, 'u) cocoa_world option" where
  "cocoa_wait timeout w =
     (let w = releaseReady w;
          untilDate = (if timeout < 0 then DistantFuture else AfterMs timeout);
          w = cocoa_note [NextEvent untilDate] w
      in case ca_queue w of
           [] \<Rightarrow> None
         | None # rest \<Rightarrow> Some (w\<lparr>ca_queue := rest\<rparr>)
         | Some ev # rest \<Rightarrow> drain_queue rest (take_event ev w))"

definition cocoa_rawEvents :: "('s, 'u) cocoa_world \<Rightarrow> CocoaRawEvent list" where
  "cocoa_rawEvents w = ca_ready w"

text \<open>\<^verbatim>\<open>CocoaEventTypeSource::dispatch\<close>.\<close>

definition cocoa_dispatch ::
  "('s \<Rightarrow> ('u \<Rightarrow> CocoaRawEvent \<Rightarrow> 'u \<times> 's core_call list) option) \<Rightarrow> 's \<Rightarrow> CocoaRawEvent \<Rightarrow>
   ('s, 'u) cocoa_world \<Rightarrow> ('s, 'u) cocoa_world \<times> 's core_call list" where
  "cocoa_dispatch cbs s ev w =
     (case cbs s of
        None \<Rightarrow> (w, [])
      | Some cb \<Rightarrow> (let (u, calls) = cb (ca_user w) ev in (w\<lparr>ca_user := u\<rparr>, calls)))"

definition cocoa_vtable ::
  "('s \<Rightarrow> ('u \<Rightarrow> CocoaRawEvent \<Rightarrow> 'u \<times> 's core_call list) option) \<Rightarrow>
   (('s, 'u) cocoa_world, 's, CocoaRawEvent) vtable" where
  "cocoa_vtable cbs =
     \<lparr>vt_addSource = (\<lambda>_ w. w),
      vt_removeSource = (\<lambda>_ w. w),
      vt_wait = cocoa_wait,
      vt_rawEvents = cocoa_rawEvents,
      vt_arm = cocoa_arm,
      vt_disarm = cocoa_disarm,
      vt_matches = cocoa_matches,
      vt_dispatch = cocoa_dispatch cbs\<rparr>"

section \<open>References to events\<close>

text \<open>
  The references the backend holds, read off the log: an event may be released or handed over only
  while the backend holds a reference to it; \<open>None\<close> is a use after release.
\<close>

fun held :: "cocoa_call list \<Rightarrow> nat multiset \<Rightarrow> nat multiset option" where
  "held [] m = Some m"
| "held (CFRetain p # cs) m = held cs (add_mset p m)"
| "held (CFRelease p # cs) m = (if p \<in># m then held cs (m - {#p#}) else None)"
| "held (SendEvent p # cs) m = (if p \<in># m then held cs m else None)"
| "held (_ # cs) m = held cs m"

definition ready_refs :: "CocoaRawEvent list \<Rightarrow> nat multiset" where
  "ready_refs es = mset (List.map_filter ca_event es)"

lemma ready_refs_simps [simp]:
  "ready_refs [] = {#}"
  "ready_refs (e # es) = (case ca_event e of None \<Rightarrow> {#} | Some p \<Rightarrow> {#p#}) + ready_refs es"
  "ready_refs (es @ fs) = ready_refs es + ready_refs fs"
  by (auto simp: ready_refs_def map_filter_simps map_filter_def split: option.split)

lemma held_append: "held (cs @ ds) m = Option.bind (held cs m) (held ds)"
  by (induction cs m rule: held.induct) auto

lemma held_release: "held (release_calls es) (ready_refs es + m) = Some m"
  by (induction es) (auto simp: held_append split: option.split)

definition cocoa_winv :: "('s, 'u) cocoa_world \<Rightarrow> bool" where
  "cocoa_winv w \<longleftrightarrow>
     ca_backend w = MACOS_COCOA \<and> (\<forall>s. cs_backend (ca_src w s) = MACOS_COCOA) \<and>
     held (ca_log w) {#} = Some (ready_refs (ca_ready w))"

definition cocoa_armed :: "('s, 'u) cocoa_world \<Rightarrow> 's set" where
  "cocoa_armed w = {s. cs_armed (ca_src w s)}"

lemma releaseReady_winv: "cocoa_winv w \<Longrightarrow> cocoa_winv (releaseReady w)"
  using held_release [of "ca_ready w" "{#}"]
  by (simp add: cocoa_winv_def releaseReady_def cocoa_note_def held_append)

lemma next_winv: "cocoa_winv w \<Longrightarrow> cocoa_winv (cocoa_note [NextEvent d] w)"
  by (simp add: cocoa_winv_def cocoa_note_def held_append)

lemma take_winv: "cocoa_winv w \<Longrightarrow> cocoa_winv (take_event ev w)"
  by (simp add: cocoa_winv_def take_event_def Let_def cocoa_note_def held_append)

lemma sources_kept:
  "ca_src (releaseReady w) = ca_src w" "ca_src (cocoa_note cs w) = ca_src w"
  "ca_src (take_event ev w) = ca_src w"
  by (simp_all add: releaseReady_def cocoa_note_def take_event_def Let_def)

lemma drain_queue_law:
  "drain_queue q w = Some w' \<Longrightarrow> cocoa_winv w \<Longrightarrow> cocoa_winv w' \<and> ca_src w' = ca_src w"
proof (induction q w rule: drain_queue.induct)
  case (2 rest w)
  then show ?case using next_winv [of w] by (auto simp: sources_kept cocoa_winv_def)
next
  case (3 ev rest w)
  then show ?case by (simp add: take_winv next_winv sources_kept)
qed simp

lemma wait_event_law:
  assumes "cocoa_wait t w = Some w'" "cocoa_winv w"
  shows "cocoa_winv w' \<and> ca_src w' = ca_src w"
proof -
  let ?w = "cocoa_note [NextEvent (if t < 0 then DistantFuture else AfterMs t)] (releaseReady w)"
  have inv: "cocoa_winv ?w" by (intro next_winv releaseReady_winv assms)
  then have "cocoa_winv (?w\<lparr>ca_queue := rest\<rparr>)" for rest by (simp add: cocoa_winv_def)
  with assms(1) inv show ?thesis
    using drain_queue_law [OF _ take_winv [OF inv]]
    by (auto simp: cocoa_wait_def Let_def sources_kept split: list.splits option.splits)
qed

lemma cocoa_dispatch_law:
  "cocoa_dispatch cbs s ev w = (w', calls) \<Longrightarrow> \<exists>u. w' = w\<lparr>ca_user := u\<rparr>"
  by (cases "cbs s") (auto simp: cocoa_dispatch_def split: prod.splits intro: exI [of _ "ca_user w"])

text \<open>The backend keeps the contract of the core; no two sources are in each other's way.\<close>

interpretation cocoa: watcher_backend "cocoa_vtable cbs" cocoa_winv cocoa_armed "\<lambda>_ _. False"
  for cbs :: "'s \<Rightarrow> ('u \<Rightarrow> CocoaRawEvent \<Rightarrow> 'u \<times> 's core_call list) option"
proof (unfold_locales, goal_cases)
  case (3 w s)
  then show ?case
    by (auto simp: cocoa_vtable_def cocoa_arm_def cocoa_winv_def cocoa_armed_def isSourceMatchBackend_def)
next
  case (4 w s)
  then show ?case
    by (auto simp: cocoa_vtable_def cocoa_disarm_def cocoa_winv_def cocoa_armed_def isSourceMatchBackend_def)
next
  case (5 w t w')
  then show ?case using wait_event_law by (auto simp: cocoa_vtable_def cocoa_armed_def)
next
  case (6 w s ev w' calls)
  then obtain u where "w' = w\<lparr>ca_user := u\<rparr>"
    using cocoa_dispatch_law by (force simp: cocoa_vtable_def)
  with 6 show ?case
    by (simp add: cocoa_vtable_def cocoa_winv_def cocoa_armed_def cocoa_matches_def fun_eq_iff)
qed (simp_all add: cocoa_vtable_def)

lemma new_cocoa_world_winv: "cocoa_winv (new_cocoa_world ty u q)" "cocoa_armed (new_cocoa_world ty u q) = {}"
  by (simp_all add: cocoa_winv_def cocoa_armed_def new_cocoa_world_def cocoa_note_def new_CocoaEventSource_def)

section \<open>What a wait reports\<close>

fun queued :: "NSEvent option list \<Rightarrow> NSEvent list" where
  "queued (Some ev # rest) = ev # queued rest"
| "queued _ = []"

definition sent_events :: "cocoa_call list \<Rightarrow> nat list" where
  "sent_events cs = List.map_filter (\<lambda>c. case c of SendEvent p \<Rightarrow> Some p | _ \<Rightarrow> None) cs"

abbreviation raw_of :: "NSEvent \<Rightarrow> CocoaRawEvent" where
  "raw_of ev \<equiv> \<lparr>ca_type = ns_type ev, ca_event = Some (ns_ptr ev)\<rparr>"

lemma sent_release: "sent_events (release_calls es) = []"
  by (induction es) (auto simp: sent_events_def map_filter_simps map_filter_def split: option.split)

lemma sent_append: "sent_events (cs @ ds) = sent_events cs @ sent_events ds"
  by (simp add: sent_events_def map_filter_def)

lemma drain_reports:
  "drain_queue q w = Some w' \<Longrightarrow>
   ca_ready w' = ca_ready w @ map raw_of (queued q) \<and>
   sent_events (ca_log w') = sent_events (ca_log w) @ map ns_ptr (queued q)"
proof (induction q w rule: drain_queue.induct)
  case (2 rest w)
  then show ?case by (auto simp: cocoa_note_def sent_append) (simp add: sent_events_def map_filter_simps)
next
  case (3 ev rest w)
  then show ?case
    by (auto simp: take_event_def Let_def cocoa_note_def sent_append)
      (simp_all add: sent_events_def map_filter_simps)
qed simp

lemma wait_reports:
  assumes "cocoa_wait t w = Some w'"
  shows "cocoa_rawEvents w' = map raw_of (queued (ca_queue w))"
    and "sent_events (ca_log w') = sent_events (ca_log w) @ map ns_ptr (queued (ca_queue w))"
proof -
  let ?w = "cocoa_note [NextEvent (if t < 0 then DistantFuture else AfterMs t)] (releaseReady w)"
  have w: "ca_ready ?w = []" "sent_events (ca_log ?w) = sent_events (ca_log w)" "ca_queue ?w = ca_queue w"
    by (simp_all add: cocoa_note_def releaseReady_def sent_append sent_release)
      (simp_all add: sent_events_def map_filter_simps)
  have take: "ca_ready (take_event ev ?w) = [raw_of ev]"
    "sent_events (ca_log (take_event ev ?w)) = sent_events (ca_log w) @ [ns_ptr ev]" for ev
    using w(1,2) by (simp_all add: take_event_def Let_def cocoa_note_def sent_append)
      (simp_all add: sent_events_def map_filter_simps)
  have "ca_ready w' = map raw_of (queued (ca_queue w)) \<and>
    sent_events (ca_log w') = sent_events (ca_log w) @ map ns_ptr (queued (ca_queue w))"
  proof (cases "ca_queue w")
    case (Cons a rest)
    show ?thesis
    proof (cases a)
      case None
      with Cons assms w show ?thesis by (auto simp: cocoa_wait_def Let_def)
    next
      case (Some ev)
      with Cons assms w have "drain_queue rest (take_event ev ?w) = Some w'"
        by (simp add: cocoa_wait_def Let_def)
      from drain_reports [OF this] take [of ev] Cons Some show ?thesis by simp
    qed
  qed (use assms w in \<open>simp add: cocoa_wait_def Let_def\<close>)
  then show "cocoa_rawEvents w' = map raw_of (queued (ca_queue w))"
    "sent_events (ca_log w') = sent_events (ca_log w) @ map ns_ptr (queued (ca_queue w))"
    by (simp_all add: cocoa_rawEvents_def)
qed

section \<open>Wakeup\<close>

text \<open>
  \<^verbatim>\<open>CocoaWakeUpWatcher\<close> and \<^verbatim>\<open>CocoaWorkerWakeUpWatcher\<close> own a source \<open>s\<close> for application-defined events,
  whose callback does nothing; \<open>start\<close> and \<open>stop\<close> call the core, \<open>notify\<close> posts such an event.
\<close>

definition NSEventTypeApplicationDefined :: int where "NSEventTypeApplicationDefined = 15"

definition new_cocoa_wake :: "CocoaEventSource \<times> ('u \<Rightarrow> CocoaRawEvent \<Rightarrow> 'u \<times> 's core_call list) option" where
  "new_cocoa_wake = (new_CocoaEventSource NSEventTypeApplicationDefined, Some (\<lambda>u _. (u, [])))"

definition cocoa_wake_start :: "'s \<Rightarrow> bool \<Rightarrow> bool \<times> 's core_call list" where
  "cocoa_wake_start s att = (if att then (att, []) else (True, [CallAdd (Some s)]))"

definition cocoa_wake_stop :: "'s \<Rightarrow> bool \<Rightarrow> bool \<times> 's core_call list" where
  "cocoa_wake_stop s att = (if \<not> att then (att, []) else (False, [CallRemove (Some s)]))"

definition cocoa_wake_notify :: "bool \<Rightarrow> ('s, 'u) cocoa_world \<Rightarrow> ('s, 'u) cocoa_world" where
  "cocoa_wake_notify att w =
     (if \<not> att then w
      else cocoa_note [SharedApplication, PostEvent NSEventTypeApplicationDefined] w)"

definition cocoa_wake_destroy :: "'s \<Rightarrow> bool \<Rightarrow> bool \<times> 's core_call list" where
  "cocoa_wake_destroy s att = cocoa_wake_stop s att"

definition cocoa_worker_wake_start :: "'s \<Rightarrow> bool \<Rightarrow> bool \<times> 's core_call list" where
  "cocoa_worker_wake_start = cocoa_wake_start"

definition cocoa_worker_wake_stop :: "'s \<Rightarrow> bool \<Rightarrow> bool \<times> 's core_call list" where
  "cocoa_worker_wake_stop = cocoa_wake_stop"

definition cocoa_worker_wake_destroy :: "'s \<Rightarrow> bool \<Rightarrow> bool \<times> 's core_call list" where
  "cocoa_worker_wake_destroy s att = cocoa_worker_wake_stop s att"

definition cocoa_worker_wake_notify :: "bool \<Rightarrow> ('s, 'u) cocoa_world \<Rightarrow> ('s, 'u) cocoa_world" where
  "cocoa_worker_wake_notify = cocoa_wake_notify"

text \<open>
  The event of a notification is dispatched to the watcher's source when no source registered
  before it listens to the same type.
\<close>

lemma cocoa_wake_event_matches:
  assumes "ca_src w s = (fst new_cocoa_wake)\<lparr>cs_armed := True\<rparr>" "ns_type ev = NSEventTypeApplicationDefined"
  shows "cocoa_matches w s (raw_of ev)"
  using assms by (simp add: cocoa_matches_def new_cocoa_wake_def new_CocoaEventSource_def)

section \<open>Properties\<close>

lemma no_conflict_fits: "fits (\<lambda>_ _. False) ops xs"
  by (induction ops arbitrary: xs) (auto simp del: spec_op.simps split: option.split)

lemma no_conflict_run_fits: "run_fits vt (\<lambda>_ _. False) ks c"
proof (induction ks arbitrary: c)
  case (Cons k ks)
  then show ?case
    by (cases k) (simp_all add: no_conflict_fits Let_def split: option.split)
qed simp

text \<open>
  C37. However a core on the Cocoa backend was used, the backend never releases an event it holds no
  reference to and never hands a released one to the application; between waits it holds exactly
  one reference to each event of the last one, so the raw events are alive while they are
  dispatched; and the armed sources are the registered ones. The next wait gives back every one of
  these references and reports the events queued before it, in order, each handed to the
  application once.
\<close>

theorem cocoa_events_live:
  assumes "loop_run (cocoa_vtable cbs) ks (new_core (new_cocoa_world ty u q)) = Some c"
    and "cocoa_wait t (core_backend c) = Some w"
  shows "held (ca_log (core_backend c)) {#} = Some (ready_refs (ca_ready (core_backend c))) \<and>
    held (ca_log w) {#} = Some (mset (map ns_ptr (queued (ca_queue (core_backend c))))) \<and>
    cocoa_rawEvents w = map raw_of (queued (ca_queue (core_backend c))) \<and>
    sent_events (ca_log w) = sent_events (ca_log (core_backend c)) @ map ns_ptr (queued (ca_queue (core_backend c))) \<and>
    {s. cs_armed (ca_src w s)} = set (registered c)"
proof -
  note inv = cocoa.loop_watches_registered [OF assms(1) no_conflict_run_fits new_cocoa_world_winv]
  have w: "cocoa_winv w" "ca_src w = ca_src (core_backend c)" using wait_event_law [OF assms(2) inv(1)] by auto
  have "ready_refs (map raw_of evs) = mset (map ns_ptr evs)" for evs by (induction evs) auto
  then show ?thesis
    using inv w wait_reports [OF assms(2)] by (simp add: cocoa_winv_def cocoa_armed_def cocoa_rawEvents_def)
qed

definition demo_queue :: "NSEvent option list" where
  "demo_queue = [Some \<lparr>ns_type = 15, ns_ptr = 7\<rparr>, Some \<lparr>ns_type = 1, ns_ptr = 8\<rparr>, None,
                 Some \<lparr>ns_type = 15, ns_ptr = 9\<rparr>, None]"

definition demo_cocoa :: "((nat, nat) cocoa_world, nat) IEventLoopCore option" where
  "demo_cocoa = loop_run (cocoa_vtable (\<lambda>_. Some (\<lambda>u _. (u + 1, [])))) [LAdd (Some 0), LApplyInitial, LRunOnce (-1)]
     (new_core (new_cocoa_world (\<lambda>_. 15) 0 demo_queue))"

lemma demo_cocoa_returns:
  "\<not> Option.is_none demo_cocoa" "\<not> Option.is_none (cocoa_wait 5 (core_backend (the demo_cocoa)))"
  "queued (ca_queue (core_backend (the demo_cocoa))) = [\<lparr>ns_type = 15, ns_ptr = 9\<rparr>]"
  by code_simp+

lemma cocoa_events_live_witness:
  "held (ca_log (the (cocoa_wait 5 (core_backend (the demo_cocoa))))) {#} = Some {#9#}"
proof -
  obtain c w where c: "demo_cocoa = Some c" and w: "cocoa_wait 5 (core_backend c) = Some w"
    using demo_cocoa_returns(1,2) unfolding Option.is_none_def by (metis option.collapse)
  have "queued (ca_queue (core_backend c)) = [\<lparr>ns_type = 15, ns_ptr = 9\<rparr>]"
    using demo_cocoa_returns(3) unfolding c option.sel .
  then show ?thesis
    using cocoa_events_live [OF c [unfolded demo_cocoa_def] w]
    unfolding c option.sel w by simp
qed

text \<open>
  Nothing releases the events of the last wait when the backend is destroyed: the destructor is the
  default one, and the vector holds plain pointers.
\<close>

definition cocoa_destroy :: "('s, 'u) cocoa_world \<Rightarrow> ('s, 'u) cocoa_world" where
  "cocoa_destroy w = w\<lparr>ca_ready := []\<rparr>"

lemma cocoa_last_round_leaks:
  "held (ca_log (cocoa_destroy (core_backend (the demo_cocoa)))) {#} = Some {#7, 8#} \<and>
   ca_user (core_backend (the demo_cocoa)) = 1"
  by code_simp

end
