(* ===== verification/Worker_Watchers.thy ===== *)
theory Worker_Watchers
  imports Poll_Backend
begin

text \<open>
  The watchers of a worker: which thread a worker runs on, who owns a watcher, and how a watcher
  registers its event sources with the worker's core (\<^verbatim>\<open>platform/schedule/io_worker.cc\<close> and
  \<^verbatim>\<open>worker_watcher.cc\<close>). A worker is named by a number, a watcher by its address \<open>'h\<close>; \<open>None\<close> is a
  null pointer. Each thread has its own \<open>current_worker\<close>. What the virtual \<open>start\<close>, \<open>stop\<close> and the
  destructor of a watcher ask of the core are lists of calls.
\<close>

section \<open>Threads\<close>

record current_worker =
  tls_worker :: "nat option"
  tls_worker_id :: nat
  tls_worker_valid :: bool

definition no_worker :: current_worker where
  "no_worker = \<lparr>tls_worker = None, tls_worker_id = 0, tls_worker_valid = False\<rparr>"

definition currentWorkerId :: "current_worker \<Rightarrow> nat option" where
  "currentWorkerId tls = (if \<not> tls_worker_valid tls then None else Some (tls_worker_id tls))"

definition currentWorker :: "current_worker \<Rightarrow> nat option" where
  "currentWorker tls = tls_worker tls"

text \<open>The first and the last lines of \<^verbatim>\<open>run()\<close>.\<close>

definition enter_run :: "nat \<Rightarrow> nat \<Rightarrow> current_worker \<Rightarrow> current_worker" where
  "enter_run this worker_id tls = tls\<lparr>tls_worker := Some this, tls_worker_id := worker_id, tls_worker_valid := True\<rparr>"

definition leave_run :: "current_worker \<Rightarrow> current_worker" where
  "leave_run tls = tls\<lparr>tls_worker_valid := False, tls_worker_id := 0, tls_worker := None\<rparr>"

section \<open>State\<close>

record ('w, 's, 'h) worker_core =
  wk_this :: nat
  wk_initialized :: bool
  wk_core :: "('w, 's) IEventLoopCore option"
  wk_wakeup :: "'h option"
  wk_owned :: "'h list"
  wk_stop :: bool

datatype worker_error = NotOwnerThread

section \<open>Sources\<close>

definition worker_attachSource ::
  "('w, 's, 'e) vtable \<Rightarrow> 's option \<Rightarrow> ('w, 's, 'h) worker_core \<Rightarrow> ('w, 's, 'h) worker_core" where
  "worker_attachSource vt source w =
     (case wk_core w of
        None \<Rightarrow> w
      | Some c \<Rightarrow>
          if \<not> wk_initialized w \<or> source = None then w
          else w\<lparr>wk_core := Some (applyInitialChanges vt (addSource source c))\<rparr>)"

definition worker_detachSource ::
  "('w, 's, 'e) vtable \<Rightarrow> 's option \<Rightarrow> ('w, 's, 'h) worker_core \<Rightarrow> ('w, 's, 'h) worker_core" where
  "worker_detachSource vt source w =
     (case wk_core w of
        None \<Rightarrow> w
      | Some c \<Rightarrow>
          if \<not> wk_initialized w \<or> source = None then w
          else w\<lparr>wk_core := Some (applyInitialChanges vt (removeSource source c))\<rparr>)"

text \<open>\<^verbatim>\<open>IWorkerWatcher\<close> passes its calls on.\<close>

fun watcher_call ::
  "('w, 's, 'e) vtable \<Rightarrow> 's core_call \<Rightarrow> ('w, 's, 'h) worker_core \<Rightarrow> ('w, 's, 'h) worker_core" where
  "watcher_call vt (CallAdd src) w = worker_attachSource vt src w"
| "watcher_call vt (CallRemove src) w = worker_detachSource vt src w"

text \<open>\<^verbatim>\<open>core_->runOnce\<close> in the loop of the worker; the callbacks are in the table of functions.\<close>

definition worker_runOnce ::
  "('w, 's, 'e) vtable \<Rightarrow> int \<Rightarrow> ('w, 's, 'h) worker_core \<Rightarrow> ('w, 's, 'h) worker_core option" where
  "worker_runOnce vt timeout w =
     (case wk_core w of
        None \<Rightarrow> None
      | Some c \<Rightarrow> map_option (\<lambda>c. w\<lparr>wk_core := Some c\<rparr>) (runOnce vt timeout c))"

section \<open>Ownership\<close>

definition adoptWatcher ::
  "current_worker \<Rightarrow> 'h option \<Rightarrow> ('w, 's, 'h) worker_core \<Rightarrow> worker_error + ('w, 's, 'h) worker_core" where
  "adoptWatcher tls watcher w =
     (case watcher of
        None \<Rightarrow> Inr w
      | Some h \<Rightarrow>
          if currentWorker tls \<noteq> Some (wk_this w) then Inl NotOwnerThread
          else Inr (w\<lparr>wk_owned := wk_owned w @ [h]\<rparr>))"

definition releaseWatcher ::
  "current_worker \<Rightarrow> 'h option \<Rightarrow> ('w, 's, 'h) worker_core \<Rightarrow> ('w, 's, 'h) worker_core" where
  "releaseWatcher tls watcher w =
     (case watcher of
        None \<Rightarrow> w
      | Some h \<Rightarrow>
          if currentWorker tls \<noteq> Some (wk_this w) then w
          else w\<lparr>wk_owned := filter (\<lambda>p. p \<noteq> h) (wk_owned w)\<rparr>)"

text \<open>
  The destructor. \<open>stop_calls h\<close> is what stopping the watcher asks of the core, \<open>gone_calls h\<close> what its
  destruction does; nobody else holds the watchers.
\<close>

definition worker_destroy ::
  "('w, 's, 'e) vtable \<Rightarrow> ('h \<Rightarrow> 's core_call list) \<Rightarrow> ('h \<Rightarrow> 's core_call list) \<Rightarrow>
   ('w, 's, 'h) worker_core \<Rightarrow> ('w, 's, 'h) worker_core" where
  "worker_destroy vt stop_calls gone_calls w =
     (let w = w\<lparr>wk_stop := True\<rparr>;
          w = (case wk_wakeup w of
                 None \<Rightarrow> w
               | Some h \<Rightarrow> (fold (watcher_call vt) (stop_calls h @ gone_calls h) w)\<lparr>wk_wakeup := None\<rparr>);
          w = fold (watcher_call vt) (concat (map gone_calls (wk_owned w))) w
      in w\<lparr>wk_owned := []\<rparr>)"

section \<open>Inside a dispatch\<close>

text \<open>
  What a callback asks for is noted and waits for the end of the round, which is how the core's model
  treats the calls of callbacks.
\<close>

lemma watcher_call_in_dispatch:
  assumes "wk_core w = Some c" "wk_initialized w" "in_dispatch c"
  shows "watcher_call vt k w = w\<lparr>wk_core := Some (do_call k c)\<rparr>"
  using assms
  by (cases k; cases "case k of CallAdd s \<Rightarrow> s | CallRemove s \<Rightarrow> s")
    (auto simp: worker_attachSource_def worker_detachSource_def applyInitialChanges_def core_simps)

section \<open>Outside a dispatch\<close>

definition settled :: "('w, 's, 'h) worker_core \<Rightarrow> bool" where
  "settled w \<longleftrightarrow> wk_initialized w \<and> (\<exists>c. wk_core w = Some c \<and> core_inv c \<and> pending_ops c = [])"

definition worker_sources :: "('w, 's, 'h) worker_core \<Rightarrow> 's list" where
  "worker_sources w = (case wk_core w of None \<Rightarrow> [] | Some c \<Rightarrow> registered c)"

lemma do_call_inv: "core_inv c \<Longrightarrow> core_inv (do_call k c) \<and> registered (do_call k c) = registered c"
  by (auto simp: do_call_pending core_inv_def registered_def)

lemma watcher_call_do:
  assumes "wk_core w = Some c" "wk_initialized w" "pending_ops c = []" "core_inv c"
  shows "watcher_call vt k w = w\<lparr>wk_core := Some (applyPendingChanges vt (do_call k c))\<rparr>"
proof -
  have "applyPendingChanges vt c = c" using assms(3,4) by (cases c) (auto simp: applyPendingChanges_def core_inv_def)
  then show ?thesis using assms(1,2)
    by (cases k; cases "case k of CallAdd s \<Rightarrow> s | CallRemove s \<Rightarrow> s")
      (auto simp: worker_attachSource_def worker_detachSource_def applyInitialChanges_def addSource_def removeSource_def)
qed

lemma watcher_call_settled:
  assumes "settled w"
  shows "settled (watcher_call vt k w)"
    and "worker_sources (watcher_call vt k w) = fold spec_op (call_ops k) (worker_sources w)"
proof -
  obtain c where c: "wk_core w = Some c" "wk_initialized w" "pending_ops c = []" "core_inv c"
    using assms by (auto simp: settled_def)
  note step = watcher_call_do [OF this]
  note inv = applyPendingChanges_inv [OF conjunct1 [OF do_call_inv [OF c(4)]], of vt k]
  show "settled (watcher_call vt k w)" using inv c by (simp add: step settled_def)
  show "worker_sources (watcher_call vt k w) = fold spec_op (call_ops k) (worker_sources w)"
    using inv(2) c do_call_inv [OF c(4), of k] by (simp add: step worker_sources_def do_call_pending)
qed

lemma watcher_calls_settled:
  assumes "settled w"
  shows "settled (fold (watcher_call vt) ks w) \<and>
    worker_sources (fold (watcher_call vt) ks w) = fold spec_op (concat (map call_ops ks)) (worker_sources w)"
  using assms by (induction ks arbitrary: w) (simp_all add: watcher_call_settled)

lemma worker_runOnce_settled:
  assumes "worker_runOnce vt t w = Some w'" "settled w"
  shows "settled w'"
proof -
  obtain c where c: "wk_core w = Some c" "wk_initialized w" "core_inv c"
    using assms(2) by (auto simp: settled_def)
  then obtain v where v: "w' = w\<lparr>wk_core := Some (applyPendingChanges vt (dispatchRawEvents vt (c\<lparr>core_backend := v\<rparr>)))\<rparr>"
    using assms(1) by (auto simp: worker_runOnce_def runOnce_def)
  have "core_inv (c\<lparr>core_backend := v\<rparr>)" using c(3) by (simp add: core_inv_def)
  from applyPendingChanges_inv [OF dispatch_inv(1) [OF this], of vt vt] show ?thesis
    using c v by (simp add: settled_def)
qed

section \<open>Lives of a worker's watchers\<close>

datatype ('s, 'h) worker_op =
    WCall "'s core_call"
  | WTurn int
  | WAdopt current_worker "'h option"
  | WRelease current_worker "'h option"

text \<open>An exception of \<open>adoptWatcher\<close> leaves the worker as it was.\<close>

fun worker_step ::
  "('w, 's, 'e) vtable \<Rightarrow> ('s, 'h) worker_op \<Rightarrow> ('w, 's, 'h) worker_core \<Rightarrow> ('w, 's, 'h) worker_core option" where
  "worker_step vt (WCall k) w = Some (watcher_call vt k w)"
| "worker_step vt (WTurn t) w = worker_runOnce vt t w"
| "worker_step vt (WAdopt tls h) w = Some (case adoptWatcher tls h w of Inl _ \<Rightarrow> w | Inr w' \<Rightarrow> w')"
| "worker_step vt (WRelease tls h) w = Some (releaseWatcher tls h w)"

fun worker_life ::
  "('w, 's, 'e) vtable \<Rightarrow> ('s, 'h) worker_op list \<Rightarrow> ('w, 's, 'h) worker_core \<Rightarrow> ('w, 's, 'h) worker_core option" where
  "worker_life vt [] w = Some w"
| "worker_life vt (k # ks) w = Option.bind (worker_step vt k w) (worker_life vt ks)"

text \<open>The worker as \<^verbatim>\<open>bind()\<close> leaves it.\<close>

definition bound_worker :: "nat \<Rightarrow> 'w \<Rightarrow> 'h option \<Rightarrow> ('w, 's, 'h) worker_core" where
  "bound_worker this v wakeup =
     \<lparr>wk_this = this, wk_initialized = True, wk_core = Some (new_core v), wk_wakeup = wakeup, wk_owned = [], wk_stop = False\<rparr>"

text \<open>The same life as operations of the core, and as changes of the owned watchers.\<close>

fun core_ops_of :: "('s, 'h) worker_op \<Rightarrow> 's loop_op list" where
  "core_ops_of (WCall (CallAdd (Some s))) = [LAdd (Some s), LApplyInitial]"
| "core_ops_of (WCall (CallRemove (Some s))) = [LRemove (Some s), LApplyInitial]"
| "core_ops_of (WTurn t) = [LRunOnce t]"
| "core_ops_of _ = []"

fun owned_by :: "nat \<Rightarrow> ('s, 'h) worker_op \<Rightarrow> 'h list \<Rightarrow> 'h list" where
  "owned_by i (WAdopt tls (Some h)) hs = (if tls_worker tls = Some i then hs @ [h] else hs)"
| "owned_by i (WRelease tls (Some h)) hs = (if tls_worker tls = Some i then removeAll h hs else hs)"
| "owned_by i _ hs = hs"

lemma attach_frame:
  "wk_this (watcher_call vt k w) = wk_this w" "wk_owned (watcher_call vt k w) = wk_owned w"
  by (cases k; simp add: worker_attachSource_def worker_detachSource_def split: option.split)+

lemma removeAll_filter_neq: "filter (\<lambda>p. p \<noteq> h) hs = removeAll h hs"
  by (induction hs) auto

lemma worker_step_frame:
  assumes "worker_step vt k w = Some w'"
  shows "wk_this w' = wk_this w" "wk_owned w' = owned_by (wk_this w) k (wk_owned w)"
proof -
  have "wk_this w' = wk_this w \<and> wk_owned w' = owned_by (wk_this w) k (wk_owned w)"
  proof (cases k)
    case (WTurn t)
    with assms show ?thesis by (auto simp: worker_runOnce_def split: option.splits)
  next
    case (WAdopt tls h)
    with assms show ?thesis by (cases h) (auto simp: adoptWatcher_def currentWorker_def)
  next
    case (WRelease tls h)
    with assms show ?thesis
      by (cases h) (auto simp: releaseWatcher_def currentWorker_def removeAll_filter_neq)
  qed (use assms in \<open>auto simp: attach_frame\<close>)
  then show "wk_this w' = wk_this w" "wk_owned w' = owned_by (wk_this w) k (wk_owned w)" by auto
qed

lemma worker_step_core:
  assumes "worker_step vt k w = Some w'" "settled w" "wk_core w = Some c"
  shows "settled w' \<and> (\<exists>c'. wk_core w' = Some c' \<and> loop_run vt (core_ops_of k) c = Some c')"
proof (cases k)
  case (WCall call)
  have "wk_core w' = Some (applyPendingChanges vt (do_call call c))"
    using assms watcher_call_do [of w c vt call] WCall by (auto simp: settled_def)
  moreover have "applyPendingChanges vt c = c"
    using assms(2,3) by (cases c) (auto simp: applyPendingChanges_def core_inv_def settled_def)
  ultimately show ?thesis
    using watcher_call_settled(1) [OF assms(2), of vt call] assms(1) WCall
    by (cases call; cases "case call of CallAdd s \<Rightarrow> s | CallRemove s \<Rightarrow> s")
      (auto simp: applyInitialChanges_def addSource_def removeSource_def)
next
  case (WTurn t)
  with assms show ?thesis
    using worker_runOnce_settled [of vt t w w'] by (auto simp: worker_runOnce_def)
next
  case (WAdopt tls h)
  with assms show ?thesis by (cases h) (auto simp: adoptWatcher_def settled_def)
next
  case (WRelease tls h)
  with assms show ?thesis by (cases h) (auto simp: releaseWatcher_def settled_def)
qed

lemma loop_run_append: "loop_run vt (ks @ ls) c = Option.bind (loop_run vt ks c) (loop_run vt ls)"
proof (induction ks arbitrary: c)
  case (Cons k ks)
  then show ?case by (cases "loop_step vt k c") simp_all
qed simp

lemma worker_life_core:
  "worker_life vt ks w = Some w' \<Longrightarrow> settled w \<Longrightarrow> wk_core w = Some c \<Longrightarrow>
   settled w' \<and> wk_this w' = wk_this w \<and> wk_owned w' = fold (owned_by (wk_this w)) ks (wk_owned w) \<and>
   (\<exists>c'. wk_core w' = Some c' \<and> loop_run vt (concat (map core_ops_of ks)) c = Some c')"
proof (induction ks arbitrary: w c)
  case (Cons k ks)
  then obtain w1 where w1: "worker_step vt k w = Some w1" "worker_life vt ks w1 = Some w'"
    by (auto simp: bind_eq_Some_conv)
  from worker_step_core [OF w1(1) Cons.prems(2,3)] obtain c1 where
    c1: "settled w1" "wk_core w1 = Some c1" "loop_run vt (core_ops_of k) c = Some c1" by auto
  show ?case
    using Cons.IH [OF w1(2) c1(1,2)] c1(3) worker_step_frame [OF w1(1)] by (simp add: loop_run_append)
qed simp

lemma bound_worker_settled: "settled (bound_worker i v h)" "wk_core (bound_worker i v h) = Some (new_core v)"
  using new_core_inv by (auto simp: settled_def bound_worker_def new_core_def)

text \<open>Destroying a worker whose watchers detach their sources leaves none of these registered.\<close>

lemma fold_removals:
  "\<forall>k \<in> set ks. \<exists>s. k = CallRemove (Some s) \<Longrightarrow>
   set (fold spec_op (concat (map call_ops ks)) xs) = set xs - {s. CallRemove (Some s) \<in> set ks}"
  by (induction ks arbitrary: xs) auto

lemma worker_destroy_detaches:
  assumes "settled w" "\<forall>h k. k \<in> set (stop_calls h @ gone_calls h) \<longrightarrow> (\<exists>s. k = CallRemove (Some s))"
    and "h \<in> set (wk_owned w)" "CallRemove (Some s) \<in> set (gone_calls h)"
  shows "s \<notin> set (worker_sources (worker_destroy vt stop_calls gone_calls w))"
    and "wk_owned (worker_destroy vt stop_calls gone_calls w) = []"
proof -
  define w0 where "w0 = w\<lparr>wk_stop := True\<rparr>"
  define w1 where "w1 = (case wk_wakeup w of None \<Rightarrow> w0
     | Some h \<Rightarrow> (fold (watcher_call vt) (stop_calls h @ gone_calls h) w0)\<lparr>wk_wakeup := None\<rparr>)"
  let ?ks = "concat (map gone_calls (wk_owned w1))"
  have own: "wk_owned (fold (watcher_call vt) ks v) = wk_owned v" for ks v
    by (induction ks arbitrary: v) (simp_all add: attach_frame)
  have w0: "settled w0" "wk_owned w0 = wk_owned w" using assms(1) by (auto simp: w0_def settled_def)
  have w1: "settled w1" "wk_owned w1 = wk_owned w"
    using watcher_calls_settled [OF w0(1), of vt] w0
    by (auto simp: w1_def settled_def own split: option.split simp del: fold_append)
  have d: "worker_destroy vt stop_calls gone_calls w = (fold (watcher_call vt) ?ks w1)\<lparr>wk_owned := []\<rparr>"
    unfolding worker_destroy_def Let_def w1_def w0_def by simp
  have "set (worker_sources (fold (watcher_call vt) ?ks w1)) =
    set (worker_sources w1) - {s. CallRemove (Some s) \<in> set ?ks}"
    using watcher_calls_settled [OF w1(1), of vt ?ks] fold_removals [of ?ks "worker_sources w1"] assms(2) by auto
  moreover have "CallRemove (Some s) \<in> set ?ks" using assms(3,4) w1(2) by auto
  ultimately show "s \<notin> set (worker_sources (worker_destroy vt stop_calls gone_calls w))"
    by (simp add: d worker_sources_def)
  show "wk_owned (worker_destroy vt stop_calls gone_calls w) = []" by (simp add: d)
qed

section \<open>Properties\<close>


text \<open>
  A worker on \<^verbatim>\<open>poll\<close>: its thread adopts watcher 1 and attaches its source, another thread tries to
  adopt and to release, a turn passes, and a second source is attached and detached.
\<close>

definition demo_worker_ops :: "(nat, nat) worker_op list" where
  "demo_worker_ops =
    (let mine = enter_run 4 0 no_worker; other = enter_run 5 1 no_worker in
     [WAdopt mine (Some 1), WCall (CallAdd (Some 0)), WAdopt other (Some 2), WRelease other (Some 1),
      WTurn (-1), WCall (CallAdd (Some 3)), WCall (CallRemove (Some 3))])"

definition demo_worker_world :: "(nat, unit) poll_world" where
  "demo_worker_world = poll_fresh LINUX_POLL int (\<lambda>_. 1) () [PollReturn 1 (\<lambda>_. 1)]"

lemma demo_worker_life:
  "\<not> Option.is_none (worker_life (poll_vtable (\<lambda>_. None)) demo_worker_ops (bound_worker 4 demo_worker_world None))"
  by code_simp


end
