(* ===== verification/Wayland.thy ===== *)
theory Wayland
  imports Prelude
begin

text \<open>
  \<^verbatim>\<open>platform/linux/wayland/wayland_backend.h\<close> and \<^verbatim>\<open>.cc\<close>: the connection to a Wayland compositor, with
  the listeners for the registry, the shell, the seat and the pointer. \<^verbatim>\<open>libwayland\<close> is a parameter: a
  function from its state and a request to the proxy it returns (0 is null) and its next state, and
  for each roundtrip the events it dispatches. Requests and events are logged. Undefined behaviour and the abort
  of \<^verbatim>\<open>libwayland\<close> on an event whose listener is null are the result \<open>None\<close>.
\<close>

section \<open>Requests and events\<close>

datatype wl_request =
    Connect
  | GetRegistry nat
  | AddListener nat
  | Bind nat string nat
  | GetPointer nat
  | Pong nat int
  | AckConfigure nat int
  | CreateSurface nat
  | GetXdgSurface nat nat
  | GetToplevel nat
  | SetTitle nat string
  | GetDecoration nat nat
  | SetMode nat nat
  | Commit nat
  | Roundtrip

text \<open>
  The events a roundtrip may dispatch. \<open>PointerOther\<close> stands for the pointer events of version 5 and
  later, for which the listener has no function.
\<close>

datatype wl_event =
    Global nat string nat
  | GlobalRemove nat
  | Ping int
  | Configure int
  | Capabilities u32
  | SeatName
  | PointerEnter
  | PointerLeave
  | PointerMotion int int
  | PointerButton u32 u32
  | PointerFrame
  | PointerAxis
  | PointerOther

datatype wl_step = Request wl_request | Dispatched wl_event

record 'f WLContext =
  display :: nat
  compositor :: nat
  wm_base :: nat
  xdg_surface :: nat
  xdg_toplevel :: nat
  surface :: nat
  seat :: nat
  pointer :: nat
  mouse_x :: 'f
  mouse_y :: 'f
  button_clicked :: bool
  width :: int
  height :: int
  decoration_manager :: nat
  decoration :: nat

record ('f, 'k) wl_state =
  wl_ctx :: "'f WLContext"
  wl_kern :: 'k
  wl_log :: "wl_step list"

record ('f, 'k) wl_lib =
  wl_do :: "'k \<Rightarrow> wl_request \<Rightarrow> nat \<times> 'k"
  wl_events :: "'k \<Rightarrow> wl_event list"
  wl_fixed_to_float :: "int \<Rightarrow> 'f"

definition wl_call :: "('f, 'k) wl_lib \<Rightarrow> wl_request \<Rightarrow> ('f, 'k) wl_state \<Rightarrow> nat \<times> ('f, 'k) wl_state" where
  "wl_call lib c st =
     (let (p, k) = wl_do lib (wl_kern st) c in (p, st\<lparr>wl_kern := k, wl_log := wl_log st @ [Request c]\<rparr>))"

definition wl_send :: "('f, 'k) wl_lib \<Rightarrow> wl_request \<Rightarrow> ('f, 'k) wl_state \<Rightarrow> ('f, 'k) wl_state" where
  "wl_send lib c st = snd (wl_call lib c st)"

definition upd_ctx :: "('f WLContext \<Rightarrow> 'f WLContext) \<Rightarrow> ('f, 'k) wl_state \<Rightarrow> ('f, 'k) wl_state" where
  "upd_ctx f st = st\<lparr>wl_ctx := f (wl_ctx st)\<rparr>"

section \<open>Listeners\<close>

definition pointer_handle_motion ::
  "('f, 'k) wl_lib \<Rightarrow> int \<Rightarrow> int \<Rightarrow> ('f, 'k) wl_state \<Rightarrow> ('f, 'k) wl_state" where
  "pointer_handle_motion lib x y st =
     upd_ctx (\<lambda>c. c\<lparr>mouse_x := wl_fixed_to_float lib x, mouse_y := wl_fixed_to_float lib y\<rparr>) st"

definition WL_POINTER_BUTTON_STATE_PRESSED :: u32 where "WL_POINTER_BUTTON_STATE_PRESSED = 1"
definition WL_SEAT_CAPABILITY_POINTER :: u32 where "WL_SEAT_CAPABILITY_POINTER = 1"

definition pointer_handle_button :: "u32 \<Rightarrow> u32 \<Rightarrow> ('f, 'k) wl_state \<Rightarrow> ('f, 'k) wl_state" where
  "pointer_handle_button button state st =
     (if button = 272 \<and> state = WL_POINTER_BUTTON_STATE_PRESSED
      then upd_ctx (\<lambda>c. c\<lparr>button_clicked := True\<rparr>) st else st)"

definition seat_handle_capabilities ::
  "('f, 'k) wl_lib \<Rightarrow> u32 \<Rightarrow> ('f, 'k) wl_state \<Rightarrow> ('f, 'k) wl_state" where
  "seat_handle_capabilities lib caps st =
     (if caps AND WL_SEAT_CAPABILITY_POINTER \<noteq> 0 \<and> pointer (wl_ctx st) = 0 then
        (let (p, st) = wl_call lib (GetPointer (seat (wl_ctx st))) st;
             st = upd_ctx (\<lambda>c. c\<lparr>pointer := p\<rparr>) st
         in wl_send lib (AddListener p) st)
      else st)"

definition handle_ping :: "('f, 'k) wl_lib \<Rightarrow> int \<Rightarrow> ('f, 'k) wl_state \<Rightarrow> ('f, 'k) wl_state" where
  "handle_ping lib serial st = wl_send lib (Pong (wm_base (wl_ctx st)) serial) st"

definition handle_xdg_surface_configure ::
  "('f, 'k) wl_lib \<Rightarrow> int \<Rightarrow> ('f, 'k) wl_state \<Rightarrow> ('f, 'k) wl_state" where
  "handle_xdg_surface_configure lib serial st =
     wl_send lib (AckConfigure (xdg_surface (wl_ctx st)) serial) st"

definition registry_global ::
  "('f, 'k) wl_lib \<Rightarrow> nat \<Rightarrow> string \<Rightarrow> ('f, 'k) wl_state \<Rightarrow> ('f, 'k) wl_state" where
  "registry_global lib name interface st =
     (if interface = ''wl_compositor'' then
        (let (p, st) = wl_call lib (Bind name interface 4) st in upd_ctx (\<lambda>c. c\<lparr>compositor := p\<rparr>) st)
      else if interface = ''xdg_wm_base'' then
        (let (p, st) = wl_call lib (Bind name interface 1) st;
             st = upd_ctx (\<lambda>c. c\<lparr>wm_base := p\<rparr>) st
         in wl_send lib (AddListener p) st)
      else if interface = ''wl_seat'' then
        (let (p, st) = wl_call lib (Bind name interface 7) st;
             st = upd_ctx (\<lambda>c. c\<lparr>seat := p\<rparr>) st
         in wl_send lib (AddListener p) st)
      else if interface = ''zxdg_decoration_manager_v1'' then
        (let (p, st) = wl_call lib (Bind name interface 1) st in upd_ctx (\<lambda>c. c\<lparr>decoration_manager := p\<rparr>) st)
      else st)"

fun wl_handle :: "('f, 'k) wl_lib \<Rightarrow> wl_event \<Rightarrow> ('f, 'k) wl_state \<Rightarrow> ('f, 'k) wl_state option" where
  "wl_handle lib (Global name interface version) st = Some (registry_global lib name interface st)"
| "wl_handle lib (Ping serial) st = Some (handle_ping lib serial st)"
| "wl_handle lib (Configure serial) st = Some (handle_xdg_surface_configure lib serial st)"
| "wl_handle lib (Capabilities caps) st = Some (seat_handle_capabilities lib caps st)"
| "wl_handle lib (PointerMotion x y) st = Some (pointer_handle_motion lib x y st)"
| "wl_handle lib (PointerButton button state) st = Some (pointer_handle_button button state st)"
| "wl_handle lib PointerOther st = None"
| "wl_handle lib _ st = Some st"

fun wl_handle_all :: "('f, 'k) wl_lib \<Rightarrow> wl_event list \<Rightarrow> ('f, 'k) wl_state \<Rightarrow> ('f, 'k) wl_state option" where
  "wl_handle_all lib [] st = Some st"
| "wl_handle_all lib (ev # evs) st =
     Option.bind (wl_handle lib ev (st\<lparr>wl_log := wl_log st @ [Dispatched ev]\<rparr>)) (wl_handle_all lib evs)"

definition wl_roundtrip :: "('f, 'k) wl_lib \<Rightarrow> ('f, 'k) wl_state \<Rightarrow> ('f, 'k) wl_state option" where
  "wl_roundtrip lib st = wl_handle_all lib (wl_events lib (wl_kern st)) (wl_send lib Roundtrip st)"

section \<open>Initialisation\<close>

definition zero_ctx :: "'f \<Rightarrow> 'f WLContext" where
  "zero_ctx z =
     \<lparr>display = 0, compositor = 0, wm_base = 0, xdg_surface = 0, xdg_toplevel = 0, surface = 0, seat = 0,
      pointer = 0, mouse_x = z, mouse_y = z, button_clicked = False, width = 0, height = 0,
      decoration_manager = 0, decoration = 0\<rparr>"

text \<open>The part after the first roundtrip; a request on a null proxy is undefined.\<close>

definition wl_init_window :: "('f, 'k) wl_lib \<Rightarrow> ('f, 'k) wl_state \<Rightarrow> ('f, 'k) wl_state option" where
  "wl_init_window lib st =
     (if compositor (wl_ctx st) = 0 \<or> wm_base (wl_ctx st) = 0 then None
      else
        (let (p, st) = wl_call lib (CreateSurface (compositor (wl_ctx st))) st;
             st = upd_ctx (\<lambda>c. c\<lparr>surface := p\<rparr>) st;
             (p, st) = wl_call lib (GetXdgSurface (wm_base (wl_ctx st)) (surface (wl_ctx st))) st;
             st = upd_ctx (\<lambda>c. c\<lparr>xdg_surface := p\<rparr>) st;
             st = wl_send lib (AddListener p) st;
             (p, st) = wl_call lib (GetToplevel (xdg_surface (wl_ctx st))) st;
             st = upd_ctx (\<lambda>c. c\<lparr>xdg_toplevel := p\<rparr>) st;
             st = wl_send lib (SetTitle p ''NanoUI Wayland Window'') st;
             st = (if decoration_manager (wl_ctx st) \<noteq> 0 then
                     (let (p, st) = wl_call lib (GetDecoration (decoration_manager (wl_ctx st)) (xdg_toplevel (wl_ctx st))) st;
                          st = upd_ctx (\<lambda>c. c\<lparr>decoration := p\<rparr>) st
                      in wl_send lib (SetMode p 2) st)
                   else st)
         in Some (wl_send lib (Commit (surface (wl_ctx st))) st)))"

definition wl_init ::
  "('f, 'k) wl_lib \<Rightarrow> int \<Rightarrow> int \<Rightarrow> 'k \<Rightarrow> (int \<times> ('f, 'k) wl_state) option" where
  "wl_init lib w h k =
     (let st = \<lparr>wl_ctx = (zero_ctx (wl_fixed_to_float lib 0))\<lparr>width := w, height := h\<rparr>, wl_kern = k, wl_log = []\<rparr>;
          (p, st) = wl_call lib Connect st;
          st = upd_ctx (\<lambda>c. c\<lparr>display := p\<rparr>) st
      in if p = 0 then Some (0, st)
         else
           (let (registry, st) = wl_call lib (GetRegistry p) st;
                st = wl_send lib (AddListener registry) st
            in Option.bind (wl_roundtrip lib st)
                 (\<lambda>st. Option.bind (wl_init_window lib st)
                   (\<lambda>st. map_option (\<lambda>st. (1, st)) (wl_roundtrip lib st)))))"

section \<open>What the client answers\<close>

text \<open>Every ping is followed at once by its pong, every configure by its acknowledgement.\<close>

fun answered :: "wl_step list \<Rightarrow> bool" where
  "answered [] = True"
| "answered (Dispatched (Ping s) # rest) =
     ((case rest of Request (Pong p s') # _ \<Rightarrow> s' = s | _ \<Rightarrow> False) \<and> answered rest)"
| "answered (Dispatched (Configure s) # rest) =
     ((case rest of Request (AckConfigure p s') # _ \<Rightarrow> s' = s | _ \<Rightarrow> False) \<and> answered rest)"
| "answered (_ # rest) = answered rest"

fun pointer_requests :: "wl_step list \<Rightarrow> nat" where
  "pointer_requests [] = 0"
| "pointer_requests (Request (GetPointer s) # rest) = Suc (pointer_requests rest)"
| "pointer_requests (_ # rest) = pointer_requests rest"

lemma answered_append: "answered xs \<Longrightarrow> answered ys \<Longrightarrow> answered (xs @ ys)"
  by (induction xs rule: answered.induct) (auto split: list.splits)

lemma pointer_requests_append: "pointer_requests (xs @ ys) = pointer_requests xs + pointer_requests ys"
  by (induction xs rule: pointer_requests.induct) auto

definition wl_ok :: "('f, 'k) wl_state \<Rightarrow> bool" where
  "wl_ok st \<longleftrightarrow> answered (wl_log st) \<and>
     pointer_requests (wl_log st) \<le> (if pointer (wl_ctx st) = 0 then 0 else 1)"

definition non_null :: "('f, 'k) wl_lib \<Rightarrow> bool" where
  "non_null lib \<longleftrightarrow> (\<forall>k c. fst (wl_do lib k c) \<noteq> 0)"

lemma wl_call_ok:
  assumes "wl_ok st" "\<And>s. c \<noteq> GetPointer s"
  shows "wl_ok (snd (wl_call lib c st))"
  using assms by (cases c) (auto simp: wl_ok_def wl_call_def answered_append pointer_requests_append split: prod.split)

lemma wl_call_frame: "wl_ctx (snd (wl_call lib c st)) = wl_ctx st"
  by (simp add: wl_call_def split: prod.split)

lemma wl_send_ok: "wl_ok st \<Longrightarrow> (\<And>s. c \<noteq> GetPointer s) \<Longrightarrow> wl_ok (wl_send lib c st)"
  by (simp add: wl_send_def wl_call_ok)

lemma upd_ctx_ok: "wl_ok st \<Longrightarrow> pointer (f (wl_ctx st)) = pointer (wl_ctx st) \<Longrightarrow> wl_ok (upd_ctx f st)"
  by (simp add: wl_ok_def upd_ctx_def)

lemma bind_ok:
  assumes "wl_ok st" "\<And>s. c \<noteq> GetPointer s" "\<And>p x. pointer (f p x) = pointer x"
  shows "wl_ok (case wl_call lib c st of (p, st) \<Rightarrow> upd_ctx (f p) st)"
    and "wl_ok (case wl_call lib c st of (p, st) \<Rightarrow> wl_send lib (AddListener p) (upd_ctx (f p) st))"
proof -
  obtain p st' where c: "wl_call lib c st = (p, st')" by fastforce
  then have "wl_ok st'" using wl_call_ok [OF assms(1,2), of lib] by simp
  with c assms(3) show "wl_ok (case wl_call lib c st of (p, st) \<Rightarrow> upd_ctx (f p) st)"
    "wl_ok (case wl_call lib c st of (p, st) \<Rightarrow> wl_send lib (AddListener p) (upd_ctx (f p) st))"
    by (simp_all add: upd_ctx_ok wl_send_ok)
qed

lemma registry_global_ok:
  assumes "wl_ok st"
  shows "wl_ok (registry_global lib name interface st)"
  using assms bind_ok(1) [OF assms, of "Bind name interface 4" "\<lambda>p c. c\<lparr>compositor := p\<rparr>" lib]
    bind_ok(2) [OF assms, of "Bind name interface 1" "\<lambda>p c. c\<lparr>wm_base := p\<rparr>" lib]
    bind_ok(2) [OF assms, of "Bind name interface 7" "\<lambda>p c. c\<lparr>seat := p\<rparr>" lib]
    bind_ok(1) [OF assms, of "Bind name interface 1" "\<lambda>p c. c\<lparr>decoration_manager := p\<rparr>" lib]
  by (auto simp: registry_global_def Let_def)

lemma capabilities_ok:
  assumes "non_null lib" "wl_ok st"
  shows "wl_ok (seat_handle_capabilities lib caps st)"
proof (cases "caps AND WL_SEAT_CAPABILITY_POINTER \<noteq> 0 \<and> pointer (wl_ctx st) = 0")
  case True
  obtain p st' where c: "wl_call lib (GetPointer (seat (wl_ctx st))) st = (p, st')" by fastforce
  have "p \<noteq> 0" using assms(1) c
    by (auto simp: non_null_def wl_call_def split: prod.splits) (metis fst_conv not_gr_zero)
  then have "wl_ok (upd_ctx (\<lambda>c. c\<lparr>pointer := p\<rparr>) st')"
    using assms(2) True c
    by (auto simp: wl_ok_def wl_call_def upd_ctx_def answered_append pointer_requests_append split: prod.splits)
  with True c show ?thesis by (simp add: seat_handle_capabilities_def wl_send_ok)
qed (use assms in \<open>auto simp: seat_handle_capabilities_def\<close>)

lemma answered_pair:
  "answered xs \<Longrightarrow> answered (xs @ [Dispatched (Ping s), Request (Pong p s)])"
  "answered xs \<Longrightarrow> answered (xs @ [Dispatched (Configure s), Request (AckConfigure p s)])"
  using answered_append [of xs "[Dispatched (Ping s), Request (Pong p s)]"]
    answered_append [of xs "[Dispatched (Configure s), Request (AckConfigure p s)]"] by simp_all

lemma wl_handle_ok:
  assumes "non_null lib" "wl_ok st"
    and "wl_handle lib ev (st\<lparr>wl_log := wl_log st @ [Dispatched ev]\<rparr>) = Some st'"
  shows "wl_ok st'"
proof -
  let ?st = "st\<lparr>wl_log := wl_log st @ [Dispatched ev]\<rparr>"
  have st: "wl_ok ?st" if "\<And>s. ev \<noteq> Ping s" "\<And>s. ev \<noteq> Configure s"
    using assms(2) that by (cases ev) (auto simp: wl_ok_def answered_append pointer_requests_append)
  show ?thesis
  proof (cases ev)
    case (Ping s)
    with assms show ?thesis
      by (auto simp: wl_ok_def handle_ping_def wl_send_def wl_call_def answered_pair pointer_requests_append
          split: prod.splits)
  next
    case (Configure s)
    with assms show ?thesis
      by (auto simp: wl_ok_def handle_xdg_surface_configure_def wl_send_def wl_call_def answered_pair
          pointer_requests_append split: prod.splits)
  next
    case (Capabilities caps)
    with assms st show ?thesis using capabilities_ok [OF assms(1)] by auto
  next
    case (Global n i v)
    with assms st show ?thesis using registry_global_ok by auto
  qed (use assms st in \<open>auto simp: pointer_handle_motion_def pointer_handle_button_def upd_ctx_ok\<close>)
qed

lemma wl_handle_all_ok:
  "wl_handle_all lib evs st = Some st' \<Longrightarrow> non_null lib \<Longrightarrow> wl_ok st \<Longrightarrow> wl_ok st'"
  by (induction evs arbitrary: st) (auto simp: bind_eq_Some_conv dest: wl_handle_ok)

lemma wl_roundtrip_ok: "wl_roundtrip lib st = Some st' \<Longrightarrow> non_null lib \<Longrightarrow> wl_ok st \<Longrightarrow> wl_ok st'"
  by (auto simp: wl_roundtrip_def intro: wl_handle_all_ok wl_send_ok)

text \<open>The window is made when both globals were announced, and then the requests go to real proxies.\<close>

lemma wl_init_window_some:
  "wl_init_window lib st \<noteq> None \<longleftrightarrow> compositor (wl_ctx st) \<noteq> 0 \<and> wm_base (wl_ctx st) \<noteq> 0"
  by (simp add: wl_init_window_def Let_def split: prod.split)

lemma wl_init_window_ok:
  assumes "wl_init_window lib st = Some st'" "wl_ok st"
  shows "wl_ok st'"
proof -
  obtain p1 s1 where c1: "wl_call lib (CreateSurface (compositor (wl_ctx st))) st = (p1, s1)" by fastforce
  define t1 where "t1 = upd_ctx (\<lambda>c. c\<lparr>surface := p1\<rparr>) s1"
  obtain p2 s2 where c2: "wl_call lib (GetXdgSurface (wm_base (wl_ctx t1)) (surface (wl_ctx t1))) t1 = (p2, s2)" by fastforce
  define t2 where "t2 = wl_send lib (AddListener p2) (upd_ctx (\<lambda>c. c\<lparr>xdg_surface := p2\<rparr>) s2)"
  obtain p3 s3 where c3: "wl_call lib (GetToplevel (xdg_surface (wl_ctx t2))) t2 = (p3, s3)" by fastforce
  define t3 where "t3 = wl_send lib (SetTitle p3 ''NanoUI Wayland Window'') (upd_ctx (\<lambda>c. c\<lparr>xdg_toplevel := p3\<rparr>) s3)"
  have t1: "wl_ok t1"
    using wl_call_ok [OF assms(2), of "CreateSurface (compositor (wl_ctx st))" lib] c1 by (simp add: t1_def upd_ctx_ok)
  have t2: "wl_ok t2"
    using wl_call_ok [OF t1, of "GetXdgSurface (wm_base (wl_ctx t1)) (surface (wl_ctx t1))" lib] c2
    by (simp add: t2_def upd_ctx_ok wl_send_ok)
  have t3: "wl_ok t3"
    using wl_call_ok [OF t2, of "GetToplevel (xdg_surface (wl_ctx t2))" lib] c3
    by (simp add: t3_def upd_ctx_ok wl_send_ok)
  obtain p4 s4 where c4:
    "wl_call lib (GetDecoration (decoration_manager (wl_ctx t3)) (xdg_toplevel (wl_ctx t3))) t3 = (p4, s4)" by fastforce
  have t4: "wl_ok (wl_send lib (SetMode p4 2) (upd_ctx (\<lambda>c. c\<lparr>decoration := p4\<rparr>) s4))"
    using wl_call_ok [OF t3, of "GetDecoration (decoration_manager (wl_ctx t3)) (xdg_toplevel (wl_ctx t3))" lib] c4
    by (simp add: upd_ctx_ok wl_send_ok)
  from assms(1) have "compositor (wl_ctx st) \<noteq> 0 \<and> wm_base (wl_ctx st) \<noteq> 0" by (auto simp: wl_init_window_def split: if_splits)
  with assms(1) have "\<exists>t. wl_ok t \<and> st' = wl_send lib (Commit (surface (wl_ctx t))) t"
    using c1 c2 c3 c4 t3 t4
    by (simp add: wl_init_window_def Let_def t1_def [symmetric] t2_def [symmetric] t3_def [symmetric] split: if_splits) blast+
  then show ?thesis by (auto intro: wl_send_ok)
qed

text \<open>
  Whatever the compositor does, the client answers each ping and each configure at once with the
  serial it carried, and asks for the pointer of the seat at most once.
\<close>

lemma wl_init_answers:
  assumes "wl_init lib w h k = Some (r, st)" "non_null lib"
  shows "answered (wl_log st)" "pointer_requests (wl_log st) \<le> 1"
proof -
  obtain p s1 where c: "wl_call lib Connect \<lparr>wl_ctx = (zero_ctx (wl_fixed_to_float lib 0))\<lparr>width := w, height := h\<rparr>,
      wl_kern = k, wl_log = []\<rparr> = (p, s1)" by fastforce
  define t where "t = upd_ctx (\<lambda>c. c\<lparr>display := p\<rparr>) s1"
  have t: "wl_ok t"
    using c by (auto simp: t_def wl_ok_def wl_call_def upd_ctx_def zero_ctx_def split: prod.splits)
  obtain q s2 where c2: "wl_call lib (GetRegistry p) t = (q, s2)" by fastforce
  have s2: "wl_ok (wl_send lib (AddListener q) s2)"
    using wl_call_ok [OF t, of "GetRegistry p" lib] c2 by (simp add: wl_send_ok)
  have "wl_ok st"
  proof (cases "p = 0")
    case True
    with assms(1) t show ?thesis unfolding wl_init_def Let_def c by (auto simp: t_def)
  next
    case False
    with assms(1) obtain u v where "wl_roundtrip lib (wl_send lib (AddListener q) s2) = Some u"
      "wl_init_window lib u = Some v" "wl_roundtrip lib v = Some st"
      unfolding wl_init_def Let_def c by (auto simp: t_def [symmetric] c2 bind_eq_Some_conv)
    then show ?thesis using wl_roundtrip_ok [OF _ assms(2)] wl_init_window_ok s2 by blast
  qed
  then show "answered (wl_log st)" "pointer_requests (wl_log st) \<le> 1"
    by (auto simp: wl_ok_def split: if_splits)
qed

section \<open>Concrete runs\<close>

text \<open>Proxies are numbered from 1; the first roundtrip announces the globals in \<open>gs\<close>.\<close>

definition demo_wl :: "wl_event list \<Rightarrow> wl_event list \<Rightarrow> (int, nat) wl_lib" where
  "demo_wl gs evs =
     \<lparr>wl_do = (\<lambda>k c. (k + 1, k + 1)), wl_events = (\<lambda>k. if k = 3 then gs else evs), wl_fixed_to_float = id\<rparr>"

lemma wl_init_run:
  "map_option (\<lambda>(r, st). (r, compositor (wl_ctx st) \<noteq> 0, pointer (wl_ctx st) \<noteq> 0, button_clicked (wl_ctx st)))
     (wl_init (demo_wl [Global 1 ''wl_compositor'' 5, Global 2 ''xdg_wm_base'' 2, Global 3 ''wl_seat'' 8]
        [Ping 17, Configure 4, Capabilities 3, Capabilities 1, PointerButton 272 1]) 800 600 0) =
   Some (1, True, True, True)"
  by code_simp

text \<open>
  A compositor without the shell makes the client use a null proxy, and a pointer event that came
  with version 5 of the seat, which the client asks for in version 7, aborts it.
\<close>

lemma wl_init_without_shell:
  "Option.is_none (wl_init (demo_wl [Global 1 ''wl_compositor'' 5] []) 800 600 0)"
  by code_simp

lemma wl_pointer_version_aborts:
  "wl_handle lib PointerOther st = None"
  by simp

end
