(* ===== verification/Async_Queue.thy ===== *)
theory Async_Queue
  imports Prelude
begin

text \<open>
  \<open>AsyncQueue\<close> of \<^verbatim>\<open>example/tcp_server_async_example/library/include/asyncnet.h\<close>: a queue that any thread
  may push to or close and that one coroutine awaits. Every member locks \<open>mu_\<close> once, so it is one
  step; the two locks that an await takes, to look and to leave its handle, are two. \<open>'x\<close> is an executor,
  \<open>'c\<close> a coroutine handle; the handles a call gives to an executor are its second result.
\<close>

section \<open>The members\<close>

record ('v, 'x, 'c) async_queue =
  aq_exec :: "'x option"
  aq_closed :: bool
  aq_q :: "'v list"
  aq_waiter :: "'c option"

definition new_async_queue :: "('v, 'x, 'c) async_queue" where
  "new_async_queue = \<lparr>aq_exec = None, aq_closed = False, aq_q = [], aq_waiter = None\<rparr>"

definition wakeOne :: "'x option \<Rightarrow> 'c option \<Rightarrow> ('x \<times> 'c) list" where
  "wakeOne exec waiter =
     (case exec of None \<Rightarrow> [] | Some x \<Rightarrow> (case waiter of None \<Rightarrow> [] | Some c \<Rightarrow> [(x, c)]))"

definition aq_push :: "'v \<Rightarrow> ('v, 'x, 'c) async_queue \<Rightarrow> ('v, 'x, 'c) async_queue \<times> ('x \<times> 'c) list" where
  "aq_push v a =
     (if aq_closed a then (a, [])
      else (a\<lparr>aq_q := aq_q a @ [v], aq_waiter := None\<rparr>, wakeOne (aq_exec a) (aq_waiter a)))"

definition aq_close :: "('v, 'x, 'c) async_queue \<Rightarrow> ('v, 'x, 'c) async_queue \<times> ('x \<times> 'c) list" where
  "aq_close a = (a\<lparr>aq_closed := True, aq_waiter := None\<rparr>, wakeOne (aq_exec a) (aq_waiter a))"

definition aq_bind :: "'x \<Rightarrow> ('v, 'x, 'c) async_queue \<Rightarrow> ('v, 'x, 'c) async_queue \<times> ('x \<times> 'c) list" where
  "aq_bind x a =
     (let a = a\<lparr>aq_exec := Some x\<rparr>;
          should_wake = (aq_waiter a \<noteq> None \<and> (aq_closed a \<or> aq_q a \<noteq> []))
      in if should_wake then (a\<lparr>aq_waiter := None\<rparr>, wakeOne (Some x) (aq_waiter a)) else (a, []))"

definition pop_ready :: "('v, 'x, 'c) async_queue \<Rightarrow> bool" where
  "pop_ready a = (aq_closed a \<or> aq_q a \<noteq> [])"

definition pop_suspend :: "'c \<Rightarrow> ('v, 'x, 'c) async_queue \<Rightarrow> ('v, 'x, 'c) async_queue" where
  "pop_suspend c a = a\<lparr>aq_waiter := Some c\<rparr>"

definition pop_resume :: "('v, 'x, 'c) async_queue \<Rightarrow> 'v option \<times> ('v, 'x, 'c) async_queue" where
  "pop_resume a = (case aq_q a of [] \<Rightarrow> (None, a) | v # q \<Rightarrow> (Some v, a\<lparr>aq_q := q\<rparr>))"

lemmas aq_ops [net_simps] = wakeOne_def aq_push_def aq_close_def aq_bind_def pop_ready_def pop_suspend_def
  pop_resume_def new_async_queue_def

section \<open>A consumer and its producers\<close>

text \<open>
  The consumer awaits again and again. \<open>Looking\<close> is the time between the two locks of an await,
  \<open>Scheduled\<close> the time until the executor resumes it. The history: what it was given, what was pushed
  before the queue was closed.
\<close>

datatype consumer = Running | Looking | Suspended | Scheduled

record ('v, 'x) aq_world =
  aw_queue :: "('v, 'x, unit) async_queue"
  aw_consumer :: consumer
  aw_got :: "'v option list"
  aw_pushed :: "'v list"

datatype 'v aq_actor = Push 'v | Close | Consume

definition wake_consumer :: "('x \<times> unit) list \<Rightarrow> consumer \<Rightarrow> consumer" where
  "wake_consumer wakes c = (if wakes = [] then c else Scheduled)"

definition consumer_resume :: "('v, 'x) aq_world \<Rightarrow> ('v, 'x) aq_world" where
  "consumer_resume w =
     (let (v, a) = pop_resume (aw_queue w)
      in w\<lparr>aw_queue := a, aw_consumer := Running, aw_got := aw_got w @ [v]\<rparr>)"

fun aq_step :: "'v aq_actor \<Rightarrow> ('v, 'x) aq_world \<Rightarrow> ('v, 'x) aq_world" where
  "aq_step (Push v) w =
     (let (a, wakes) = aq_push v (aw_queue w)
      in w\<lparr>aw_queue := a, aw_consumer := wake_consumer wakes (aw_consumer w),
           aw_pushed := (if aq_closed (aw_queue w) then aw_pushed w else aw_pushed w @ [v])\<rparr>)"
| "aq_step Close w =
     (let (a, wakes) = aq_close (aw_queue w)
      in w\<lparr>aw_queue := a, aw_consumer := wake_consumer wakes (aw_consumer w)\<rparr>)"
| "aq_step Consume w =
     (case aw_consumer w of
        Running \<Rightarrow> if pop_ready (aw_queue w) then consumer_resume w else w\<lparr>aw_consumer := Looking\<rparr>
      | Looking \<Rightarrow> w\<lparr>aw_queue := pop_suspend () (aw_queue w), aw_consumer := Suspended\<rparr>
      | Suspended \<Rightarrow> w
      | Scheduled \<Rightarrow> consumer_resume w)"

definition aq_fresh :: "'x \<Rightarrow> ('v, 'x) aq_world" where
  "aq_fresh x =
     \<lparr>aw_queue = fst (aq_bind x new_async_queue), aw_consumer = Running, aw_got = [], aw_pushed = []\<rparr>"

section \<open>Order and completeness\<close>

definition values_of :: "'v option list \<Rightarrow> 'v list" where
  "values_of = List.map_filter id"

lemma values_of_simps [simp]:
  "values_of [] = []" "values_of (xs @ ys) = values_of xs @ values_of ys"
  "values_of [None] = []" "values_of [Some v] = [v]"
  by (simp_all add: values_of_def map_filter_def)

definition aq_inv :: "('v, 'x) aq_world \<Rightarrow> bool" where
  "aq_inv w \<longleftrightarrow>
     aq_exec (aw_queue w) \<noteq> None \<and>
     (aq_waiter (aw_queue w) \<noteq> None \<longleftrightarrow> aw_consumer w = Suspended) \<and>
     values_of (aw_got w) @ aq_q (aw_queue w) = aw_pushed w \<and>
     (aw_consumer w = Scheduled \<longrightarrow> pop_ready (aw_queue w)) \<and>
     (None \<in> set (aw_got w) \<longrightarrow> aq_closed (aw_queue w) \<and> aq_q (aw_queue w) = [])"

lemma aq_fresh_inv: "aq_inv (aq_fresh x)"
  by (simp add: aq_inv_def aq_fresh_def net_simps)

lemma consumer_resume_inv:
  assumes "aq_inv w" "pop_ready (aw_queue w)" "aw_consumer w \<noteq> Suspended"
  shows "aq_inv (consumer_resume w)"
  using assms by (cases "aq_q (aw_queue w)") (auto simp: aq_inv_def consumer_resume_def net_simps)

lemma aq_step_inv: "aq_inv w \<Longrightarrow> aq_inv (aq_step k w)"
proof (induction k w rule: aq_step.induct)
  case (1 v w)
  then show ?case
    by (auto simp: aq_inv_def net_simps wake_consumer_def split: option.splits)
next
  case (2 w)
  then show ?case
    by (auto simp: aq_inv_def net_simps wake_consumer_def split: option.splits)
next
  case (3 w)
  then show ?case
  proof (cases "aw_consumer w = Scheduled \<or> aw_consumer w = Running \<and> pop_ready (aw_queue w)")
    case True
    then have "aq_step Consume w = consumer_resume w" by auto
    with consumer_resume_inv [OF 3] True 3 show ?thesis by (auto simp: aq_inv_def)
  next
    case False
    with 3 show ?thesis by (cases "aw_consumer w") (auto simp: aq_inv_def net_simps)
  qed
qed

lemma aq_run_inv: "aq_inv w \<Longrightarrow> aq_inv (fold aq_step ks w)"
  by (induction ks arbitrary: w) (simp_all add: aq_step_inv)

section \<open>No sleep with something to deliver\<close>

text \<open>
  On the worker's own thread nothing comes between the two locks of an await.
\<close>

fun uninterrupted :: "'v aq_actor list \<Rightarrow> ('v, 'x) aq_world \<Rightarrow> bool" where
  "uninterrupted [] w = True"
| "uninterrupted (k # ks) w =
     ((aw_consumer w = Looking \<longrightarrow> k = Consume) \<and> uninterrupted ks (aq_step k w))"

definition aq_calm :: "('v, 'x) aq_world \<Rightarrow> bool" where
  "aq_calm w \<longleftrightarrow> (aw_consumer w \<in> {Looking, Suspended} \<longrightarrow> \<not> pop_ready (aw_queue w))"

lemma aq_step_calm:
  assumes "aq_inv w" "aq_calm w" "aw_consumer w = Looking \<longrightarrow> k = Consume"
  shows "aq_calm (aq_step k w)"
proof (cases k)
  case (Push v)
  with assms show ?thesis
    by (cases "aw_consumer w")
      (auto simp: aq_inv_def aq_calm_def net_simps wake_consumer_def split: option.splits)
next
  case Close
  with assms show ?thesis
    by (cases "aw_consumer w")
      (auto simp: aq_inv_def aq_calm_def net_simps wake_consumer_def split: option.splits)
next
  case Consume
  with assms show ?thesis
    by (cases "aw_consumer w")
      (auto simp: aq_inv_def aq_calm_def net_simps consumer_resume_def split: list.splits)
qed

lemma aq_run_calm:
  "uninterrupted ks w \<Longrightarrow> aq_inv w \<Longrightarrow> aq_calm w \<Longrightarrow> aq_calm (fold aq_step ks w)"
  by (induction ks arbitrary: w) (simp_all add: aq_step_inv aq_step_calm)

text \<open>
  With a thread in between, a value pushed after the look and before the suspension wakes nobody:
  the consumer sleeps with the value in the queue.
\<close>

lemma aq_lost_wakeup:
  "let w = fold aq_step [Consume, Push (7::nat), Consume, Consume] (aq_fresh ())
   in aw_consumer w = Suspended \<and> aq_q (aw_queue w) = [7] \<and> aw_got w = []"
  by (simp add: aq_fresh_def net_simps wake_consumer_def Let_def)

text \<open>A push before \<open>bind\<close> forgets the waiter, so \<open>bind\<close> has nobody left to wake.\<close>

lemma aq_push_before_bind:
  "let (a, wakes) = aq_push v (pop_suspend c new_async_queue); (a', wakes') = aq_bind x a
   in wakes = [] \<and> wakes' = [] \<and> aq_waiter a' = None \<and> aq_q a' = [v]"
  by (simp add: net_simps)

section \<open>Properties\<close>

text \<open>
  C39. In every interleaving of pushes, closing and the awaiting coroutine, the values it got followed
  by those still queued are the values pushed before the queue was closed, in order; it is told the
  end only when the queue is closed and everything was delivered; and if no other thread comes
  between the two locks of an await, it sleeps only while the queue is open and empty.
\<close>

theorem async_queue_delivers:
  "let w = fold aq_step ks (aq_fresh x) in
    values_of (aw_got w) @ aq_q (aw_queue w) = aw_pushed w \<and>
    (None \<in> set (aw_got w) \<longrightarrow> aq_closed (aw_queue w) \<and> values_of (aw_got w) = aw_pushed w) \<and>
    (uninterrupted ks (aq_fresh x) \<and> aw_consumer w = Suspended \<longrightarrow>
       \<not> aq_closed (aw_queue w) \<and> values_of (aw_got w) = aw_pushed w)"
proof -
  define w where "w = fold aq_step ks (aq_fresh x)"
  have inv: "aq_inv w" unfolding w_def by (rule aq_run_inv [OF aq_fresh_inv])
  have "aq_calm w" if "uninterrupted ks (aq_fresh x)"
    unfolding w_def by (rule aq_run_calm [OF that aq_fresh_inv]) (simp add: aq_calm_def aq_fresh_def)
  with inv show ?thesis unfolding w_def [symmetric] Let_def by (auto simp: aq_inv_def aq_calm_def pop_ready_def)
qed

definition demo_aq :: "nat aq_actor list" where
  "demo_aq = [Consume, Consume, Push 1, Push 2, Consume, Consume, Consume, Consume]"

lemma demo_aq_run:
  "uninterrupted demo_aq (aq_fresh ())" "aw_consumer (fold aq_step demo_aq (aq_fresh ())) = Suspended"
  "aw_pushed (fold aq_step demo_aq (aq_fresh ())) = [1, 2]"
  by (simp_all add: demo_aq_def aq_fresh_def net_simps wake_consumer_def consumer_resume_def Let_def)

lemma async_queue_delivers_witness:
  "values_of (aw_got (fold aq_step demo_aq (aq_fresh ()))) = [1, 2]"
  using async_queue_delivers [of demo_aq "()"] demo_aq_run by (simp add: Let_def)

end
