(* ===== verification/Async_Stream.thy ===== *)
theory Async_Stream
  imports Async_Queue
begin

text \<open>
  \<open>AsyncTcpStream\<close> of \<^verbatim>\<open>example/tcp_server_async_example/library/src/asyncnet.cc\<close>: sending on a
  connection from any number of coroutines of one worker. A call of \<^verbatim>\<open>sendAll\<close> is named by a number; it
  runs from one suspension to the next without interruption, as all coroutines of an executor run on the
  worker's thread. The connection watcher is a parameter with a state \<open>'w\<close>; what it calls back during
  \<open>trySend\<close> is only the end of the connection (\<open>on_send_ready\<close> is called by readiness handlers).
\<close>

section \<open>State\<close>

record send_result =
  sr_n :: nat
  sr_would_block :: bool
  sr_err :: int
  sr_closed :: bool

record ('b, 'w) stream_watcher =
  sw_trySend :: "'w \<Rightarrow> 'b list \<Rightarrow> send_result \<times> 'w"
  sw_close :: "'w \<Rightarrow> 'w"

datatype phase = Fresh | WantsLock | Granted | WantsReady | ReadyScheduled | Ended

text \<open>\<open>st_sent\<close>, \<open>st_entered\<close> and \<open>st_called\<close> are history.\<close>

record ('b, 'w) stream =
  st_locked :: bool
  st_lock_waiters :: "nat list"
  st_out :: "'b list"
  st_watcher :: "'w option"
  st_ready :: "(int, unit, nat) async_queue"
  st_recv :: "('b list, unit, nat) async_queue"
  st_phase :: "nat \<Rightarrow> phase"
  st_sent :: "'b list"
  st_entered :: "nat list"
  st_called :: "nat list"

definition new_stream :: "'w option \<Rightarrow> ('b, 'w) stream" where
  "new_stream w =
     \<lparr>st_locked = False, st_lock_waiters = [], st_out = [], st_watcher = w,
      st_ready = fst (aq_bind () new_async_queue), st_recv = fst (aq_bind () new_async_queue),
      st_phase = (\<lambda>_. Fresh), st_sent = [], st_entered = [], st_called = []\<rparr>"

definition set_phase :: "nat \<Rightarrow> phase \<Rightarrow> ('b, 'w) stream \<Rightarrow> ('b, 'w) stream" where
  "set_phase i p st = st\<lparr>st_phase := (st_phase st)(i := p)\<rparr>"

section \<open>Operations\<close>

text \<open>Handles that a queue gives to the executor: the suspended call becomes scheduled.\<close>

definition wake_ready ::
  "(int, unit, nat) async_queue \<times> (unit \<times> nat) list \<Rightarrow> ('b, 'w) stream \<Rightarrow> ('b, 'w) stream" where
  "wake_ready r st = fold (\<lambda>(_, i). set_phase i ReadyScheduled) (snd r) (st\<lparr>st_ready := fst r\<rparr>)"

text \<open>\<open>on_close\<close> and \<open>on_error\<close>.\<close>

definition close_queues :: "('b, 'w) stream \<Rightarrow> ('b, 'w) stream" where
  "close_queues st = wake_ready (aq_close (st_ready st)) (st\<lparr>st_recv := fst (aq_close (st_recv st))\<rparr>)"

definition on_send_ready :: "('b, 'w) stream \<Rightarrow> ('b, 'w) stream" where
  "on_send_ready st = wake_ready (aq_push 1 (st_ready st)) st"

definition on_recv :: "'b list \<Rightarrow> ('b, 'w) stream \<Rightarrow> ('b, 'w) stream" where
  "on_recv chunk st = st\<lparr>st_recv := fst (aq_push chunk (st_recv st))\<rparr>"

definition unlockSend :: "('b, 'w) stream \<Rightarrow> ('b, 'w) stream" where
  "unlockSend st =
     (case st_lock_waiters st of
        h # rest \<Rightarrow> set_phase h Granted (st\<lparr>st_lock_waiters := rest\<rparr>)
      | [] \<Rightarrow> st\<lparr>st_locked := False\<rparr>)"

text \<open>The call returns and its \<open>Unlocker\<close> is destroyed.\<close>

definition finish_send :: "nat \<Rightarrow> ('b, 'w) stream \<Rightarrow> ('b, 'w) stream" where
  "finish_send i st = unlockSend (set_phase i Ended st)"

text \<open>One call of \<open>trySend\<close>, with what it changes.\<close>

definition try_once ::
  "('b, 'w) stream_watcher \<Rightarrow> 'w \<Rightarrow> ('b, 'w) stream \<Rightarrow> send_result \<times> ('b, 'w) stream" where
  "try_once sw w st =
     (let (res, w) = sw_trySend sw w (st_out st);
          st = st\<lparr>st_watcher := Some w\<rparr>;
          st = (if sr_closed res then close_queues st else st)
      in (res, if sr_err res = 0 then st\<lparr>st_sent := st_sent st @ take (sr_n res) (st_out st)\<rparr> else st))"

definition send_failed :: "('b, 'w) stream_watcher \<Rightarrow> ('b, 'w) stream \<Rightarrow> ('b, 'w) stream" where
  "send_failed sw st = (close_queues st)\<lparr>st_watcher := map_option (sw_close sw) (st_watcher st)\<rparr>"

lemma fold_scheduled:
  "fold (\<lambda>(_, i). set_phase i ReadyScheduled) hs st =
   st\<lparr>st_phase := (\<lambda>i. if i \<in> snd ` set hs then ReadyScheduled else st_phase st i)\<rparr>"
  by (induction hs arbitrary: st) (auto simp: set_phase_def fun_eq_iff intro!: stream.equality)

lemma wake_ready_eq:
  "wake_ready r st = st\<lparr>st_ready := fst r,
     st_phase := (\<lambda>i. if i \<in> snd ` set (snd r) then ReadyScheduled else st_phase st i)\<rparr>"
  by (simp add: wake_ready_def fold_scheduled cong: if_cong)

lemma try_once_out:
  "try_once sw w st = (res, st') \<Longrightarrow> st_out st' = st_out st \<and>
   (aq_q (st_ready st') = aq_q (st_ready st)) \<and> st_watcher st' \<noteq> None"
  by (auto simp: try_once_def Let_def close_queues_def wake_ready_eq aq_close_def split: prod.splits if_splits)

text \<open>The loop of the call \<open>i\<close>, up to the next suspension or the end.\<close>

function send_loop :: "('b, 'w) stream_watcher \<Rightarrow> nat \<Rightarrow> ('b, 'w) stream \<Rightarrow> ('b, 'w) stream" where
  "send_loop sw i st =
     (case st_watcher st of
        None \<Rightarrow> finish_send i st
      | Some w \<Rightarrow>
          if st_out st = [] then finish_send i st
          else
            (let (res, st) = try_once sw w st in
             if sr_err res \<noteq> 0 then finish_send i (send_failed sw st)
             else if sr_n res > 0 then send_loop sw i (st\<lparr>st_out := drop (sr_n res) (st_out st)\<rparr>)
             else if sr_would_block res then
               (if pop_ready (st_ready st) then
                  (case pop_resume (st_ready st) of
                     (None, a) \<Rightarrow> finish_send i (st\<lparr>st_ready := a\<rparr>)
                   | (Some _, a) \<Rightarrow> send_loop sw i (st\<lparr>st_ready := a\<rparr>))
                else set_phase i WantsReady (st\<lparr>st_ready := pop_suspend i (st_ready st)\<rparr>))
             else finish_send i st))"
  by pat_completeness auto

termination
  by (relation "measures [\<lambda>(sw, i, st). length (st_out st), \<lambda>(sw, i, st). length (aq_q (st_ready st))]")
    (auto dest!: try_once_out [OF sym] simp: pop_resume_def split: list.splits)

declare send_loop.simps [simp del]

definition enter_send ::
  "('b, 'w) stream_watcher \<Rightarrow> (nat \<Rightarrow> 'b list) \<Rightarrow> nat \<Rightarrow> ('b, 'w) stream \<Rightarrow> ('b, 'w) stream" where
  "enter_send sw data i st =
     send_loop sw i (st\<lparr>st_locked := True, st_out := st_out st @ data i, st_entered := st_entered st @ [i]\<rparr>)"

text \<open>The start of \<^verbatim>\<open>sendAll\<close>, and what the executor resumes.\<close>

definition sendAll ::
  "('b, 'w) stream_watcher \<Rightarrow> (nat \<Rightarrow> 'b list) \<Rightarrow> nat \<Rightarrow> ('b, 'w) stream \<Rightarrow> ('b, 'w) stream" where
  "sendAll sw data i st =
     (let st = st\<lparr>st_called := st_called st @ [i]\<rparr> in
      if \<not> st_locked st then enter_send sw data i st
      else set_phase i WantsLock (st\<lparr>st_lock_waiters := st_lock_waiters st @ [i]\<rparr>))"

definition resume_send ::
  "('b, 'w) stream_watcher \<Rightarrow> (nat \<Rightarrow> 'b list) \<Rightarrow> nat \<Rightarrow> ('b, 'w) stream \<Rightarrow> ('b, 'w) stream" where
  "resume_send sw data i st =
     (case st_phase st i of
        Granted \<Rightarrow> enter_send sw data i st
      | ReadyScheduled \<Rightarrow>
          (case pop_resume (st_ready st) of
             (None, a) \<Rightarrow> finish_send i (st\<lparr>st_ready := a\<rparr>)
           | (Some _, a) \<Rightarrow> send_loop sw i (st\<lparr>st_ready := a\<rparr>))
      | _ \<Rightarrow> st)"

datatype 'b stream_op = SendAll nat | Resume nat | SendReady | Recv "'b list" | Gone

fun stream_step ::
  "('b, 'w) stream_watcher \<Rightarrow> (nat \<Rightarrow> 'b list) \<Rightarrow> 'b stream_op \<Rightarrow> ('b, 'w) stream \<Rightarrow> ('b, 'w) stream" where
  "stream_step sw data (SendAll i) st = (if st_phase st i = Fresh then sendAll sw data i st else st)"
| "stream_step sw data (Resume i) st = resume_send sw data i st"
| "stream_step sw data SendReady st = on_send_ready st"
| "stream_step sw data (Recv chunk) st = on_recv chunk st"
| "stream_step sw data Gone st = close_queues st"

section \<open>The lock and the buffer\<close>

text \<open>
  \<open>stream_mid i\<close> holds while the call \<open>i\<close> runs with the lock in its hands, \<open>stream_inv\<close> between the steps.
\<close>

definition lock_queue :: "('b, 'w) stream \<Rightarrow> bool" where
  "lock_queue st \<longleftrightarrow> distinct (st_called st) \<and> (\<forall>j. j \<in> set (st_lock_waiters st) \<longleftrightarrow> st_phase st j = WantsLock)"

definition sent_in_order :: "(nat \<Rightarrow> 'b list) \<Rightarrow> ('b, 'w) stream \<Rightarrow> bool" where
  "sent_in_order data st \<longleftrightarrow> st_sent st @ st_out st = concat (map data (st_entered st))"

definition stream_mid :: "(nat \<Rightarrow> 'b list) \<Rightarrow> nat \<Rightarrow> ('b, 'w) stream \<Rightarrow> bool" where
  "stream_mid data i st \<longleftrightarrow>
     lock_queue st \<and> sent_in_order data st \<and> aq_exec (st_ready st) = Some () \<and>
     st_locked st \<and> aq_waiter (st_ready st) = None \<and>
     st_called st = st_entered st @ st_lock_waiters st \<and>
     (\<forall>j. j \<noteq> i \<longrightarrow> st_phase st j \<in> {Fresh, WantsLock, Ended} \<and> (st_phase st j \<noteq> Fresh \<longleftrightarrow> j \<in> set (st_called st))) \<and>
     i \<in> set (st_entered st)"

definition lock_owner :: "('b, 'w) stream \<Rightarrow> bool" where
  "lock_owner st \<longleftrightarrow>
     (if st_locked st
      then (\<exists>h. (\<forall>j. st_phase st j \<in> {Granted, WantsReady, ReadyScheduled} \<longleftrightarrow> j = h) \<and>
             st_called st = st_entered st @ (if st_phase st h = Granted then [h] else []) @ st_lock_waiters st)
      else (\<forall>j. st_phase st j \<in> {Fresh, Ended}) \<and> st_called st = st_entered st \<and> st_lock_waiters st = [])"

definition stream_inv :: "(nat \<Rightarrow> 'b list) \<Rightarrow> ('b, 'w) stream \<Rightarrow> bool" where
  "stream_inv data st \<longleftrightarrow>
     lock_queue st \<and> sent_in_order data st \<and> aq_exec (st_ready st) = Some () \<and>
     (\<forall>j. st_phase st j \<noteq> Fresh \<longleftrightarrow> j \<in> set (st_called st)) \<and>
     (\<forall>j. aq_waiter (st_ready st) = Some j \<longleftrightarrow> st_phase st j = WantsReady) \<and>
     (\<forall>j. st_phase st j = WantsReady \<longrightarrow> \<not> pop_ready (st_ready st)) \<and>
     lock_owner st"

lemma stream_mid_cong:
  assumes "stream_mid data i st" "st_called st' = st_called st" "st_lock_waiters st' = st_lock_waiters st"
    "st_phase st' = st_phase st" "st_entered st' = st_entered st" "st_locked st' = st_locked st"
    and "aq_exec (st_ready st') = Some ()" "aq_waiter (st_ready st') = None" "sent_in_order data st'"
  shows "stream_mid data i st'"
  using assms(1) unfolding stream_mid_def lock_queue_def assms(2-6) using assms(7-9) by blast

lemma stream_mid_runs:
  assumes "stream_mid data i st"
  shows "i \<notin> set (st_lock_waiters st)" "st_phase st i \<noteq> WantsLock"
proof -
  have "distinct (st_entered st @ st_lock_waiters st)" "i \<in> set (st_entered st)"
    using assms unfolding stream_mid_def lock_queue_def by metis+
  then show "i \<notin> set (st_lock_waiters st)" by auto
  then show "st_phase st i \<noteq> WantsLock" using assms unfolding stream_mid_def lock_queue_def by metis
qed

lemma finish_inv:
  assumes "stream_mid data i st"
  shows "stream_inv data (finish_send i st)"
proof (cases "st_lock_waiters st")
  case Nil
  with assms have "st_phase st j \<noteq> WantsLock" for j by (auto simp: stream_mid_def lock_queue_def)
  with assms Nil show ?thesis
    by (auto simp: stream_mid_def stream_inv_def lock_owner_def finish_send_def unlockSend_def set_phase_def lock_queue_def
        sent_in_order_def)
next
  case (Cons h rest)
  have d: "distinct (h # rest)" "h \<noteq> i" "i \<notin> set rest"
    using assms Cons by (auto simp: stream_mid_def lock_queue_def)
  have p: "st_phase st h = WantsLock" "\<And>j. j \<in> set rest \<Longrightarrow> st_phase st j = WantsLock"
    "\<And>j. st_phase st j = WantsLock \<Longrightarrow> j = h \<or> j \<in> set rest"
    using assms Cons by (auto simp: stream_mid_def lock_queue_def)
  let ?v = "st\<lparr>st_phase := (st_phase st)(i := Ended, h := Granted), st_lock_waiters := rest\<rparr>"
  have v: "finish_send i st = ?v" using Cons by (simp add: finish_send_def unlockSend_def set_phase_def)
  have mid: "lock_queue st" "sent_in_order data st" "aq_exec (st_ready st) = Some ()" "st_locked st"
    "aq_waiter (st_ready st) = None" "st_called st = st_entered st @ h # rest"
    "\<And>j. j \<noteq> i \<Longrightarrow> st_phase st j \<in> {Fresh, WantsLock, Ended}"
    "\<And>j. j \<noteq> i \<Longrightarrow> st_phase st j \<noteq> Fresh \<longleftrightarrow> j \<in> set (st_called st)" "i \<in> set (st_entered st)"
    using assms Cons by (auto simp: stream_mid_def)
  have ph: "st_phase ?v j \<in> {Granted, WantsReady, ReadyScheduled} \<longleftrightarrow> j = h" for j
    using mid(7) [of j] d(2) by auto
  moreover have "lock_queue ?v" using mid(1) d p by (auto simp: lock_queue_def)
  moreover have "sent_in_order data ?v" using mid(2) by (simp add: sent_in_order_def)
  moreover have "st_phase ?v j \<noteq> Fresh \<longleftrightarrow> j \<in> set (st_called st)" for j
    using mid(8) [of j] mid(6,9) by auto
  moreover have "st_called ?v = st_entered ?v @ (if st_phase ?v h = Granted then [h] else []) @ st_lock_waiters ?v"
    using mid(6) by simp
  moreover have "st_phase ?v j \<noteq> WantsReady" for j using ph [of j] by auto
  ultimately show ?thesis unfolding v stream_inv_def lock_owner_def using mid(3,4,5) by (auto intro!: exI [of _ h])
qed

lemma close_queues_mid:
  assumes "stream_mid data i st"
  shows "stream_mid data i (close_queues st)"
proof (rule stream_mid_cong [OF assms])
  have "aq_waiter (st_ready st) = None" "aq_exec (st_ready st) = Some ()" "sent_in_order data st"
    using assms by (simp_all add: stream_mid_def)
  then show "aq_exec (st_ready (close_queues st)) = Some ()" "st_phase (close_queues st) = st_phase st"
    "sent_in_order data (close_queues st)" "aq_waiter (st_ready (close_queues st)) = None"
    by (simp_all add: close_queues_def wake_ready_eq aq_close_def wakeOne_def sent_in_order_def)
qed (simp_all add: close_queues_def wake_ready_eq)

lemma try_once_mid:
  assumes "try_once sw w st = (res, st')" "stream_mid data i st"
  shows "sr_err res \<noteq> 0 \<Longrightarrow> stream_mid data i st'"
    and "sr_err res = 0 \<Longrightarrow> stream_mid data i (st'\<lparr>st_out := drop (sr_n res) (st_out st')\<rparr>)"
proof -
  obtain w' where w': "sw_trySend sw w (st_out st) = (res, w')"
    using assms(1) by (auto simp: try_once_def Let_def split: prod.splits)
  define u where "u = (if sr_closed res then close_queues (st\<lparr>st_watcher := Some w'\<rparr>) else st\<lparr>st_watcher := Some w'\<rparr>)"
  have "stream_mid data i (st\<lparr>st_watcher := Some w'\<rparr>)"
    by (rule stream_mid_cong [OF assms(2)]) (use assms(2) in \<open>auto simp: stream_mid_def sent_in_order_def\<close>)
  then have u: "stream_mid data i u" by (simp add: u_def close_queues_mid)
  have st': "st' = (if sr_err res = 0 then u\<lparr>st_sent := st_sent u @ take (sr_n res) (st_out u)\<rparr> else u)"
    using assms(1) w' by (auto simp: try_once_def Let_def u_def)
  show "sr_err res \<noteq> 0 \<Longrightarrow> stream_mid data i st'" using u st' by simp
  show "sr_err res = 0 \<Longrightarrow> stream_mid data i (st'\<lparr>st_out := drop (sr_n res) (st_out st')\<rparr>)"
    by (rule stream_mid_cong [OF u]) (use u st' in \<open>auto simp: stream_mid_def sent_in_order_def\<close>)
qed

lemma wants_ready_inv:
  assumes "stream_mid data i st" "\<not> pop_ready (st_ready st)"
  shows "stream_inv data (set_phase i WantsReady (st\<lparr>st_ready := pop_suspend i (st_ready st)\<rparr>))"
proof -
  let ?v = "set_phase i WantsReady (st\<lparr>st_ready := pop_suspend i (st_ready st)\<rparr>)"
  note r = stream_mid_runs [OF assms(1)]
  have mid: "lock_queue st" "sent_in_order data st" "aq_exec (st_ready st) = Some ()" "st_locked st"
    "st_called st = st_entered st @ st_lock_waiters st"
    "\<And>j. j \<noteq> i \<Longrightarrow> st_phase st j \<in> {Fresh, WantsLock, Ended}"
    "\<And>j. j \<noteq> i \<Longrightarrow> st_phase st j \<noteq> Fresh \<longleftrightarrow> j \<in> set (st_called st)" "i \<in> set (st_entered st)"
    using assms by (simp_all add: stream_mid_def)
  have ph: "st_phase ?v j \<in> {Granted, WantsReady, ReadyScheduled} \<longleftrightarrow> j = i" for j
    using mid(6) [of j] by (auto simp: set_phase_def)
  moreover have "lock_queue ?v" using mid(1) r by (auto simp: lock_queue_def set_phase_def)
  moreover have "sent_in_order data ?v" using mid(2) by (simp add: sent_in_order_def set_phase_def)
  moreover have "st_phase ?v j \<noteq> Fresh \<longleftrightarrow> j \<in> set (st_called ?v)" for j
    using mid(7) [of j] mid(5,8) by (auto simp: set_phase_def)
  moreover have "st_phase ?v i \<noteq> Granted" "st_phase ?v j = WantsReady \<longleftrightarrow> j = i" for j
    using ph [of j] mid(6) [of j] by (auto simp: set_phase_def)
  moreover have "st_ready ?v = pop_suspend i (st_ready st)" "st_locked ?v"
    "st_called ?v = st_entered ?v @ st_lock_waiters ?v"
    using mid(4,5) by (simp_all add: set_phase_def)
  ultimately show ?thesis
    unfolding stream_inv_def lock_owner_def using mid(3) assms(2) by (auto simp: pop_suspend_def pop_ready_def intro!: exI [of _ i])
qed

lemma ready_mid:
  assumes "stream_mid data i st" "aq_exec a = Some ()" "aq_waiter a = None"
  shows "stream_mid data i (st\<lparr>st_ready := a\<rparr>)"
  by (rule stream_mid_cong [OF assms(1)]) (use assms in \<open>auto simp: stream_mid_def sent_in_order_def\<close>)

lemma send_loop_inv:
  "stream_mid data i st \<Longrightarrow> stream_inv data (send_loop sw i st)"
proof (induction sw i st rule: send_loop.induct)
  case (1 sw i st)
  show ?case
  proof (cases "st_watcher st")
    case None
    with 1 show ?thesis by (subst send_loop.simps) (simp add: finish_inv)
  next
    case (Some w)
    show ?thesis
    proof (cases "st_out st = []")
      case True
      with 1 Some show ?thesis by (subst send_loop.simps) (simp add: finish_inv)
    next
      case out: False
      obtain res u where t: "try_once sw w st = (res, u)" by fastforce
      note mid = try_once_mid [OF t 1(3)]
      have zero: "stream_mid data i u" if "sr_err res = 0" "sr_n res = 0"
        using mid(2) that by simp
      note IH = 1(1) [OF Some out t [symmetric]] 1(2) [OF Some out t [symmetric]]
      consider (err) "sr_err res \<noteq> 0" | (some) "sr_err res = 0" "sr_n res > 0"
        | (block) "sr_err res = 0" "sr_n res = 0" "sr_would_block res"
        | (stop) "sr_err res = 0" "sr_n res = 0" "\<not> sr_would_block res" by auto
      then show ?thesis
      proof cases
        case err
        have "stream_mid data i (send_failed sw u)"
          by (rule stream_mid_cong [OF close_queues_mid [OF mid(1) [OF err]]])
            (use close_queues_mid [OF mid(1) [OF err]] in
              \<open>auto simp: send_failed_def stream_mid_def sent_in_order_def\<close>)
        then show ?thesis using Some out t err by (subst send_loop.simps) (simp add: finish_inv)
      next
        case some
        then show ?thesis using Some out t IH(1) [OF refl _ _ mid(2)] by (subst send_loop.simps) simp
      next
        case block
        show ?thesis
        proof (cases "aq_q (st_ready u)")
          case Nil
          then show ?thesis using Some out t block zero [OF block(1,2)] wants_ready_inv [of data i u]
            by (subst send_loop.simps) (auto simp: pop_resume_def finish_inv)
        next
          case (Cons v q)
          have "stream_mid data i (u\<lparr>st_ready := (st_ready u)\<lparr>aq_q := q\<rparr>\<rparr>)"
            using zero [OF block(1,2)] by (intro ready_mid) (simp_all add: stream_mid_def)
          with IH(2) [of res u "Some v" _ v] Some out t block Cons show ?thesis
            by (subst send_loop.simps) (simp add: pop_resume_def pop_ready_def)
        qed
      next
        case stop
        then show ?thesis using Some out t zero by (subst send_loop.simps) (simp add: finish_inv)
      qed
    qed
  qed
qed

lemma enter_inv:
  assumes "stream_inv data st" "st_phase st i = Granted"
  shows "stream_inv data (enter_send sw data i st)"
proof -
  have lk: "st_locked st"
  proof (rule ccontr)
    assume "\<not> st_locked st"
    then have "st_phase st i \<in> {Fresh, Ended}" using assms(1) unfolding stream_inv_def lock_owner_def by (simp only: if_False)
    with assms(2) show False by simp
  qed
  then obtain h where h: "\<And>j. st_phase st j \<in> {Granted, WantsReady, ReadyScheduled} \<longleftrightarrow> j = h"
    "st_called st = st_entered st @ (if st_phase st h = Granted then [h] else []) @ st_lock_waiters st"
    using assms(1) unfolding stream_inv_def lock_owner_def by (simp only: if_True) blast
  have "i = h" using h(1) [of i] assms(2) by simp
  then have c: "st_called st = (st_entered st @ [i]) @ st_lock_waiters st" using h(2) assms(2) by simp
  have inv: "lock_queue st" "sent_in_order data st" "aq_exec (st_ready st) = Some ()"
    "\<And>j. st_phase st j \<noteq> Fresh \<longleftrightarrow> j \<in> set (st_called st)"
    "\<And>j. aq_waiter (st_ready st) = Some j \<longleftrightarrow> st_phase st j = WantsReady"
    using assms(1) by (simp_all add: stream_inv_def lock_owner_def)
  have "st_phase st j \<noteq> WantsReady" for j using h(1) [of j] assms(2) \<open>i = h\<close> by auto
  then have w: "aq_waiter (st_ready st) = None" using inv(5) by (metis not_None_eq)
  have ph: "st_phase st j \<in> {Fresh, WantsLock, Ended}" if "j \<noteq> i" for j
    using h(1) [of j] that \<open>i = h\<close> by (cases "st_phase st j") auto
  have "stream_mid data i (st\<lparr>st_locked := True, st_out := st_out st @ data i, st_entered := st_entered st @ [i]\<rparr>)"
    unfolding stream_mid_def using inv w ph c assms(2)
    by (simp add: lock_queue_def sent_in_order_def)
  then show ?thesis unfolding enter_send_def by (rule send_loop_inv)
qed

lemma call_inv:
  assumes "stream_inv data st" "st_phase st i = Fresh"
  shows "stream_inv data (sendAll sw data i st)"
proof (cases "st_locked st")
  case False
  have inv: "lock_queue st" "sent_in_order data st" "aq_exec (st_ready st) = Some ()"
    "\<And>j. st_phase st j \<noteq> Fresh \<longleftrightarrow> j \<in> set (st_called st)"
    "\<And>j. aq_waiter (st_ready st) = Some j \<longleftrightarrow> st_phase st j = WantsReady"
    "\<And>j. st_phase st j \<in> {Fresh, Ended}" "st_called st = st_entered st" "st_lock_waiters st = []"
    using assms(1) False by (simp_all add: stream_inv_def lock_owner_def)
  have w: "aq_waiter (st_ready st) = None" using inv(5,6) by (metis insertE not_None_eq phase.distinct singletonD)
  have "i \<notin> set (st_called st)" using assms(2) inv(4) [of i] by simp
  then have "stream_mid data i (st\<lparr>st_called := st_called st @ [i], st_locked := True, st_out := st_out st @ data i,
      st_entered := st_entered st @ [i]\<rparr>)"
    unfolding stream_mid_def using inv w
    by (auto simp: lock_queue_def sent_in_order_def)
  then have "stream_inv data (send_loop sw i (st\<lparr>st_called := st_called st @ [i], st_locked := True,
      st_out := st_out st @ data i, st_entered := st_entered st @ [i]\<rparr>))"
    by (rule send_loop_inv)
  then show ?thesis using False by (simp add: sendAll_def enter_send_def)
next
  case True
  obtain h where h: "\<And>j. st_phase st j \<in> {Granted, WantsReady, ReadyScheduled} \<longleftrightarrow> j = h"
    "st_called st = st_entered st @ (if st_phase st h = Granted then [h] else []) @ st_lock_waiters st"
    using assms True by (auto simp: stream_inv_def lock_owner_def)
  have "h \<noteq> i" using h(1) [of h] assms(2) by auto
  let ?v = "set_phase i WantsLock (st\<lparr>st_called := st_called st @ [i], st_lock_waiters := st_lock_waiters st @ [i]\<rparr>)"
  have inv: "lock_queue st" "sent_in_order data st" "aq_exec (st_ready st) = Some ()"
    "\<And>j. st_phase st j \<noteq> Fresh \<longleftrightarrow> j \<in> set (st_called st)"
    "\<And>j. aq_waiter (st_ready st) = Some j \<longleftrightarrow> st_phase st j = WantsReady"
    "\<And>j. st_phase st j = WantsReady \<Longrightarrow> \<not> pop_ready (st_ready st)"
    using assms(1) unfolding stream_inv_def lock_owner_def by blast+
  have "i \<notin> set (st_called st)" using assms(2) inv(4) [of i] by simp
  then have "lock_queue ?v" using inv(1) by (auto simp: lock_queue_def set_phase_def)
  moreover have "sent_in_order data ?v" using inv(2) by (simp add: sent_in_order_def set_phase_def)
  moreover have "st_phase ?v j \<noteq> Fresh \<longleftrightarrow> j \<in> set (st_called ?v)" for j
    using inv(4) [of j] by (simp add: set_phase_def)
  moreover have "aq_waiter (st_ready ?v) = Some j \<longleftrightarrow> st_phase ?v j = WantsReady" for j
    using inv(5) [of j] assms(2) by (auto simp: set_phase_def)
  moreover have "st_phase ?v j = WantsReady \<Longrightarrow> \<not> pop_ready (st_ready ?v)" for j
    using inv(6) [of j] by (auto simp: set_phase_def split: if_splits)
  moreover have "st_phase ?v j \<in> {Granted, WantsReady, ReadyScheduled} \<longleftrightarrow> j = h" for j
    using h(1) [of j] \<open>h \<noteq> i\<close> by (auto simp: set_phase_def)
  moreover have "st_called ?v = st_entered ?v @ (if st_phase ?v h = Granted then [h] else []) @ st_lock_waiters ?v"
    using h(2) \<open>h \<noteq> i\<close> by (simp add: set_phase_def)
  moreover have "st_locked ?v" "aq_exec (st_ready ?v) = Some ()" using True inv(3) by (simp_all add: set_phase_def)
  ultimately have "stream_inv data ?v" unfolding stream_inv_def lock_owner_def by (simp only: if_True) blast
  then show ?thesis using True by (simp add: sendAll_def)
qed

lemma resumed_mid:
  assumes "stream_inv data st" "st_phase st i = ReadyScheduled"
  shows "stream_mid data i st"
proof -
  have lk: "st_locked st"
  proof (rule ccontr)
    assume "\<not> st_locked st"
    then have "st_phase st i \<in> {Fresh, Ended}" using assms(1) unfolding stream_inv_def lock_owner_def by (simp only: if_False)
    with assms(2) show False by simp
  qed
  then obtain h where h: "\<And>j. st_phase st j \<in> {Granted, WantsReady, ReadyScheduled} \<longleftrightarrow> j = h"
    "st_called st = st_entered st @ (if st_phase st h = Granted then [h] else []) @ st_lock_waiters st"
    using assms(1) unfolding stream_inv_def lock_owner_def by (simp only: if_True) blast
  have "i = h" using h(1) [of i] assms(2) by simp
  then have c: "st_called st = st_entered st @ st_lock_waiters st" using h(2) assms(2) by simp
  have inv: "lock_queue st" "sent_in_order data st" "aq_exec (st_ready st) = Some ()"
    "\<And>j. st_phase st j \<noteq> Fresh \<longleftrightarrow> j \<in> set (st_called st)"
    "\<And>j. aq_waiter (st_ready st) = Some j \<longleftrightarrow> st_phase st j = WantsReady"
    using assms(1) by (simp_all add: stream_inv_def lock_owner_def)
  have "st_phase st j \<noteq> WantsReady" for j using h(1) [of j] assms(2) \<open>i = h\<close> by auto
  then have w: "aq_waiter (st_ready st) = None" using inv(5) by (metis not_None_eq)
  have ph: "st_phase st j \<in> {Fresh, WantsLock, Ended}" if "j \<noteq> i" for j
    using h(1) [of j] that \<open>i = h\<close> by (cases "st_phase st j") auto
  have "i \<in> set (st_called st)" "i \<notin> set (st_lock_waiters st)"
    using inv(4) [of i] inv(1) assms(2) by (auto simp: lock_queue_def)
  then have "i \<in> set (st_entered st)" using c by auto
  then show ?thesis unfolding stream_mid_def using inv(1-4) w ph c lk by blast
qed

lemma resume_inv:
  assumes "stream_inv data st"
  shows "stream_inv data (resume_send sw data i st)"
proof (cases "st_phase st i")
  case Granted
  then show ?thesis using enter_inv [OF assms] by (simp add: resume_send_def)
next
  case ReadyScheduled
  note mid = resumed_mid [OF assms ReadyScheduled]
  then have "aq_exec (st_ready st) = Some ()" "aq_waiter (st_ready st) = None" by (simp_all add: stream_mid_def)
  then have "stream_mid data i (st\<lparr>st_ready := snd (pop_resume (st_ready st))\<rparr>)"
    by (intro ready_mid [OF mid]) (auto simp: pop_resume_def split: list.split)
  then show ?thesis
    using ReadyScheduled
    by (auto simp: resume_send_def finish_inv send_loop_inv split: prod.split option.split)
qed (use assms in \<open>simp_all add: resume_send_def\<close>)

text \<open>A signal wakes the call that waits for it, if there is one, and loses nothing.\<close>

lemma wake_inv:
  assumes "stream_inv data st" "aq_exec a = Some ()" "aq_waiter a = None"
  shows "stream_inv data (wake_ready (a, wakeOne (Some ()) (aq_waiter (st_ready st))) st)"
proof -
  let ?v = "wake_ready (a, wakeOne (Some ()) (aq_waiter (st_ready st))) st"
  have w: "\<And>j. aq_waiter (st_ready st) = Some j \<longleftrightarrow> st_phase st j = WantsReady"
    using assms(1) by (simp add: stream_inv_def lock_owner_def)
  have ph: "st_phase ?v = (\<lambda>j. if st_phase st j = WantsReady then ReadyScheduled else st_phase st j)"
    by (cases "aq_waiter (st_ready st)") (auto simp: wake_ready_eq wakeOne_def fun_eq_iff simp flip: w)
  have fr: "st_called ?v = st_called st" "st_lock_waiters ?v = st_lock_waiters st" "st_entered ?v = st_entered st"
    "st_locked ?v = st_locked st" "st_sent ?v = st_sent st" "st_out ?v = st_out st" "st_ready ?v = a"
    by (simp_all add: wake_ready_eq)
  have all: "lock_queue ?v" "sent_in_order data ?v" "\<forall>j. st_phase ?v j \<noteq> Fresh \<longleftrightarrow> j \<in> set (st_called ?v)"
    "\<forall>j. st_phase ?v j \<noteq> WantsReady"
    using assms(1) unfolding stream_inv_def lock_owner_def lock_queue_def sent_in_order_def fr ph by auto
  have ow: "st_phase ?v j \<in> {Granted, WantsReady, ReadyScheduled} \<longleftrightarrow>
      st_phase st j \<in> {Granted, WantsReady, ReadyScheduled}"
    "st_phase ?v j = Granted \<longleftrightarrow> st_phase st j = Granted"
    "st_phase ?v j \<in> {Fresh, Ended} \<longleftrightarrow> st_phase st j \<in> {Fresh, Ended}" for j
    unfolding ph by auto
  have "lock_owner ?v = lock_owner st" unfolding lock_owner_def fr by (simp only: ow)
  then show ?thesis
    unfolding stream_inv_def using all assms(2,3) assms(1) [unfolded stream_inv_def] by (simp only: fr) auto
qed

lemma stream_step_inv:
  assumes "stream_inv data st"
  shows "stream_inv data (stream_step sw data k st)"
proof -
  have e: "aq_exec (st_ready st) = Some ()" using assms by (simp add: stream_inv_def lock_owner_def)
  have "stream_inv data (st\<lparr>st_recv := r\<rparr>) = stream_inv data st" for r
    by (simp add: stream_inv_def lock_owner_def lock_queue_def sent_in_order_def)
  with assms have recv: "stream_inv data (st\<lparr>st_recv := r\<rparr>)" for r by simp
  show ?thesis
  proof (cases k)
    case SendReady
    then show ?thesis
      using assms e wake_inv [OF assms, of "(st_ready st)\<lparr>aq_q := aq_q (st_ready st) @ [1], aq_waiter := None\<rparr>"]
      by (cases "aq_closed (st_ready st)") (simp_all add: on_send_ready_def aq_push_def wake_ready_eq)
  next
    case Gone
    then show ?thesis
      using e wake_inv [OF recv, of "(st_ready st)\<lparr>aq_closed := True, aq_waiter := None\<rparr>"]
      by (simp add: close_queues_def aq_close_def)
  qed (use assms recv in \<open>simp_all add: call_inv resume_inv on_recv_def\<close>)
qed

lemma stream_run_inv: "stream_inv data st \<Longrightarrow> stream_inv data (fold (stream_step sw data) ks st)"
  by (induction ks arbitrary: st) (simp_all add: stream_step_inv)

lemma new_stream_inv: "stream_inv data (new_stream w)"
  by (simp add: stream_inv_def lock_owner_def new_stream_def lock_queue_def sent_in_order_def net_simps)

section \<open>Properties\<close>


section \<open>Concrete runs\<close>

text \<open>
  A connection that takes what its list of answers says: \<open>Some n\<close> at most \<open>n\<close> bytes, with \<open>n = 0\<close>
  for \<open>EAGAIN\<close>, \<open>None\<close> an error.
\<close>

fun demo_trySend :: "nat option list \<Rightarrow> nat list \<Rightarrow> send_result \<times> nat option list" where
  "demo_trySend [] out = (\<lparr>sr_n = length out, sr_would_block = False, sr_err = 0, sr_closed = False\<rparr>, [])"
| "demo_trySend (Some n # rest) out =
     (\<lparr>sr_n = min n (length out), sr_would_block = (n = 0), sr_err = 0, sr_closed = False\<rparr>, rest)"
| "demo_trySend (None # rest) out = (\<lparr>sr_n = 0, sr_would_block = False, sr_err = 32, sr_closed = True\<rparr>, rest)"

definition demo_watcher :: "(nat, nat option list) stream_watcher" where
  "demo_watcher = \<lparr>sw_trySend = demo_trySend, sw_close = (\<lambda>_. [])\<rparr>"

definition demo_data :: "nat \<Rightarrow> nat list" where
  "demo_data i = [10 * i, 10 * i + 1, 10 * i + 2]"

definition demo_stream :: "(nat, nat option list) stream" where
  "demo_stream = fold (stream_step demo_watcher demo_data) [SendAll 1, SendAll 2, SendReady, Resume 1, Resume 2]
     (new_stream (Some [Some 2, Some 0, Some 1, Some 2, Some 0]))"

lemma demo_stream_run:
  "st_sent demo_stream = [10, 11, 12, 20, 21]" "st_out demo_stream = [22]" "st_phase demo_stream 2 = WantsReady"
  "st_called demo_stream = [1, 2]" "st_entered demo_stream = [1, 2]"
  by code_simp+


text \<open>
  After an error the bytes that were not sent stay in the buffer and the call returns as if it had
  sent them.
\<close>

lemma stream_keeps_unsent:
  "st_out (fold (stream_step demo_watcher demo_data) [SendAll 1] (new_stream (Some [None]))) = [10, 11, 12]"
  by code_simp

end
