(* ===== verification/Async_Tasks.thy ===== *)
theory Async_Tasks
  imports Async_Queue Io_Worker Ip_Endpoint
begin

text \<open>
  The rest of \<^verbatim>\<open>example/tcp_server_async_example/library\<close>: how coroutines are scheduled on a worker, how
  a task resumes the one that awaits it, groups of tasks, connecting, sleeping, and the server that
  deals connections to workers in turn. A coroutine handle is an opaque value; the hive's tasks here
  are resumptions of handles. \<open>'x\<close> is an executor.
\<close>

section \<open>Executors\<close>

text \<open>\<^verbatim>\<open>Executor::schedule\<close> on the worker \<open>w\<close>: the task that resumes \<open>c\<close> is named \<open>c\<close>.\<close>

definition exec_schedule :: "'c \<Rightarrow> 'c IOWorker \<Rightarrow> 'c IOWorker" where
  "exec_schedule c w = wakeup (postPrivate (Some c) w)"

text \<open>
  The posted task: \<open>resume\<close> runs the coroutine to its next suspension, given the thread's current
  executor; an exception that leaves it ends the program.
\<close>

definition resume_task ::
  "('x option \<Rightarrow> 'st \<Rightarrow> 'err + 'x option \<times> 'st) \<Rightarrow> 'x \<Rightarrow> 'x option \<times> 'st \<Rightarrow> ('x option \<times> 'st) option" where
  "resume_task resume this tls_st =
     (let prev = fst tls_st in
      case resume (Some this) (snd tls_st) of
        Inl _ \<Rightarrow> None
      | Inr (_, st) \<Rightarrow> Some (prev, st))"

lemma resume_task_restores: "resume_task r x (tls, st) = Some (tls', st') \<Longrightarrow> tls' = tls"
  by (auto simp: resume_task_def Let_def split: sum.splits)

section \<open>Tasks\<close>

text \<open>The promise of a task; \<open>pr_exception\<close> is set when its body threw.\<close>

record ('x, 'c, 'v, 'err) promise =
  pr_exec :: "'x option"
  pr_continuation :: "'c option"
  pr_value :: "'v option"
  pr_exception :: "'err option"
  pr_detached :: bool

definition new_promise :: "('x, 'c, 'v, 'err) promise" where
  "new_promise = \<lparr>pr_exec = None, pr_continuation = None, pr_value = None, pr_exception = None, pr_detached = False\<rparr>"

text \<open>The second result is what is given to an executor.\<close>

definition task_start ::
  "'x \<Rightarrow> 'c \<Rightarrow> ('x, 'c, 'v, 'err) promise \<Rightarrow> ('x, 'c, 'v, 'err) promise \<times> ('x \<times> 'c) list" where
  "task_start exec h p = (p\<lparr>pr_exec := Some exec\<rparr>, [(exec, h)])"

definition task_detach ::
  "'x \<Rightarrow> 'c \<Rightarrow> ('x, 'c, 'v, 'err) promise \<Rightarrow> ('x, 'c, 'v, 'err) promise \<times> ('x \<times> 'c) list" where
  "task_detach exec h p = (p\<lparr>pr_exec := Some exec, pr_detached := True\<rparr>, [(exec, h)])"

text \<open>Awaiting: \<open>None\<close> is the abort outside of any executor.\<close>

definition task_await ::
  "'x option \<Rightarrow> 'c \<Rightarrow> 'c \<Rightarrow> ('x, 'c, 'v, 'err) promise \<Rightarrow>
   (('x, 'c, 'v, 'err) promise \<times> ('x \<times> 'c) list) option" where
  "task_await tls h cont p =
     (let p = p\<lparr>pr_continuation := Some cont\<rparr>;
          p = (if pr_exec p = None then p\<lparr>pr_exec := tls\<rparr> else p)
      in map_option (\<lambda>x. (p, [(x, h)])) (pr_exec p))"

datatype ('x, 'c) final_action = DestroyFrame | Continue 'x 'c | StaySuspended

text \<open>\<^verbatim>\<open>FinalAwaiter\<close>; a continuation without an executor would be a null dereference, \<open>None\<close>.\<close>

definition final_suspend :: "('x, 'c, 'v, 'err) promise \<Rightarrow> ('x, 'c) final_action option" where
  "final_suspend p =
     (if pr_detached p then Some DestroyFrame
      else
        (case pr_continuation p of
           None \<Rightarrow> Some StaySuspended
         | Some c \<Rightarrow> map_option (\<lambda>x. Continue x c) (pr_exec p)))"

definition return_value :: "'v \<Rightarrow> ('x, 'c, 'v, 'err) promise \<Rightarrow> ('x, 'c, 'v, 'err) promise" where
  "return_value v p = p\<lparr>pr_value := Some v\<rparr>"

definition unhandled_exception :: "'err \<Rightarrow> ('x, 'c, 'v, 'err) promise \<Rightarrow> ('x, 'c, 'v, 'err) promise" where
  "unhandled_exception e p = p\<lparr>pr_exception := Some e\<rparr>"

definition task_resume_value :: "('x, 'c, 'v, 'err) promise \<Rightarrow> ('err + 'v) option" where
  "task_resume_value p =
     (case pr_exception p of
        Some e \<Rightarrow> Some (Inl e)
      | None \<Rightarrow> map_option Inr (pr_value p))"

text \<open>
  A task that is awaited inside an executor is scheduled once, on its own executor or else on the
  current one, and when it ends it schedules the one that awaits it, once and on the same executor,
  which then gets the value or the exception.
\<close>

lemma await_round:
  assumes "task_await (Some x) h cont p = Some (p', sched)" "\<not> pr_detached p" "pr_exec p = None \<or> pr_exec p = Some y"
  shows "\<exists>z \<in> {x, y}. sched = [(z, h)] \<and> final_suspend (return_value v p') = Some (Continue z cont) \<and>
    final_suspend (unhandled_exception e p') = Some (Continue z cont) \<and>
    (pr_exception p = None \<longrightarrow> task_resume_value (return_value v p') = Some (Inr v)) \<and>
    task_resume_value (unhandled_exception e p') = Some (Inl e)"
  using assms
  by (auto simp: task_await_def Let_def final_suspend_def return_value_def unhandled_exception_def
      task_resume_value_def)

text \<open>
  Nobody learns of an exception in a spawned task, and a task that was started before it is
  awaited is given to the executor twice.
\<close>

lemma spawned_exception_vanishes:
  "final_suspend (unhandled_exception e (fst (task_detach x h p))) = Some DestroyFrame"
  by (simp add: final_suspend_def unhandled_exception_def task_detach_def)

lemma started_then_awaited:
  "(let (p1, s1) = task_start x h p; r = task_await (Some y) h c p1 in map_option (\<lambda>(_, s2). s1 @ s2) r)
   = Some [(x, h), (x, h)]"
  by (simp add: task_start_def task_await_def Let_def)

section \<open>Groups of tasks\<close>

text \<open>\<open>tg_live\<close> (children that run), \<open>tg_sleeping\<close> and \<open>tg_resumed\<close> (joins) are history.\<close>

record 'c task_group =
  tg_active :: nat
  tg_waiter :: "'c option"
  tg_live :: nat
  tg_sleeping :: "'c list"
  tg_resumed :: "'c list"

definition new_task_group :: "'c task_group" where
  "new_task_group = \<lparr>tg_active = 0, tg_waiter = None, tg_live = 0, tg_sleeping = [], tg_resumed = []\<rparr>"

definition tg_spawn :: "'c task_group \<Rightarrow> 'c task_group" where
  "tg_spawn g = g\<lparr>tg_active := tg_active g + 1, tg_live := tg_live g + 1\<rparr>"

text \<open>\<open>childWrapper\<close> after \<^verbatim>\<open>co_await task\<close>, which rethrows what the child threw.\<close>

definition child_ends :: "'c task_group \<Rightarrow> 'c task_group" where
  "child_ends g =
     (let g = g\<lparr>tg_active := tg_active g - 1, tg_live := tg_live g - 1\<rparr> in
      case tg_waiter g of
        Some h \<Rightarrow>
          if tg_active g = 0
          then g\<lparr>tg_waiter := None, tg_sleeping := remove1 h (tg_sleeping g), tg_resumed := tg_resumed g @ [h]\<rparr>
          else g
      | None \<Rightarrow> g)"

definition child_throws :: "'c task_group \<Rightarrow> 'c task_group" where
  "child_throws g = g\<lparr>tg_live := tg_live g - 1\<rparr>"

definition tg_join :: "'c \<Rightarrow> 'c task_group \<Rightarrow> 'c task_group" where
  "tg_join c g =
     (if tg_active g = 0 then g\<lparr>tg_resumed := tg_resumed g @ [c]\<rparr>
      else g\<lparr>tg_waiter := Some c, tg_sleeping := tg_sleeping g @ [c]\<rparr>)"

datatype 'c tg_op = TgSpawn | ChildEnds | ChildThrows | TgJoin 'c

fun tg_step :: "'c tg_op \<Rightarrow> 'c task_group \<Rightarrow> 'c task_group" where
  "tg_step TgSpawn g = tg_spawn g"
| "tg_step ChildEnds g = (if tg_live g = 0 then g else child_ends g)"
| "tg_step ChildThrows g = (if tg_live g = 0 then g else child_throws g)"
| "tg_step (TgJoin c) g = tg_join c g"

text \<open>No child throws, and nobody joins while another one waits.\<close>

fun tg_orderly :: "'c tg_op list \<Rightarrow> 'c task_group \<Rightarrow> bool" where
  "tg_orderly [] g = True"
| "tg_orderly (k # ks) g =
     (k \<noteq> ChildThrows \<and> (case k of TgJoin c \<Rightarrow> tg_waiter g = None | _ \<Rightarrow> True) \<and> tg_orderly ks (tg_step k g))"

fun joins :: "'c tg_op list \<Rightarrow> 'c list" where
  "joins [] = []"
| "joins (TgJoin c # ks) = c # joins ks"
| "joins (_ # ks) = joins ks"

definition tg_inv :: "'c task_group \<Rightarrow> bool" where
  "tg_inv g \<longleftrightarrow> tg_active g = tg_live g \<and> tg_sleeping g = (case tg_waiter g of None \<Rightarrow> [] | Some c \<Rightarrow> [c]) \<and>
     (tg_waiter g \<noteq> None \<longrightarrow> tg_live g > 0)"

lemma tg_step_inv:
  assumes "tg_inv g" "tg_orderly [k] g"
  shows "tg_inv (tg_step k g)" "tg_resumed (tg_step k g) @ tg_sleeping (tg_step k g) =
    tg_resumed g @ tg_sleeping g @ joins [k]"
  using assms
  by (cases k; auto simp: tg_inv_def tg_spawn_def child_ends_def tg_join_def Let_def split: option.splits)+

lemma tg_run_inv:
  "tg_orderly ks g \<Longrightarrow> tg_inv g \<Longrightarrow> tg_inv (fold tg_step ks g) \<and>
   tg_resumed (fold tg_step ks g) @ tg_sleeping (fold tg_step ks g) = tg_resumed g @ tg_sleeping g @ joins ks"
proof (induction ks arbitrary: g)
  case (Cons k ks)
  then have k: "tg_orderly [k] g" by simp
  have "joins (k # ks) = joins [k] @ joins ks" by (cases k) simp_all
  then show ?case
    using Cons.IH [of "tg_step k g"] Cons.prems tg_step_inv [OF Cons.prems(2) k] by simp
qed simp

lemma join_waits_for_all:
  assumes "tg_orderly ks new_task_group"
  defines "g \<equiv> fold tg_step ks new_task_group"
  shows "tg_resumed g @ tg_sleeping g = joins ks" "tg_live g = 0 \<Longrightarrow> tg_resumed g = joins ks"
  using tg_run_inv [OF assms(1)]
  by (auto simp: g_def new_task_group_def tg_inv_def split: option.splits)

text \<open>
  A child that throws is never taken off the count, so the join after it sleeps with no child left;
  and of two coroutines that join at once the first is forgotten.
\<close>

lemma thrown_child_blocks_join:
  "let g = fold tg_step [TgSpawn, TgSpawn, TgJoin (1::nat), ChildThrows, ChildEnds] new_task_group
   in tg_live g = 0 \<and> tg_sleeping g = [1] \<and> tg_resumed g = []"
  by (simp add: new_task_group_def tg_spawn_def child_ends_def child_throws_def tg_join_def Let_def)

lemma second_join_forgets_first:
  "let g = fold tg_step [TgSpawn, TgJoin (1::nat), TgJoin 2, ChildEnds] new_task_group
   in tg_live g = 0 \<and> tg_sleeping g = [1] \<and> tg_resumed g = [2]"
  by (simp add: new_task_group_def tg_spawn_def child_ends_def tg_join_def Let_def)

section \<open>Dealing connections to workers\<close>

definition rr_target :: "int \<Rightarrow> size_t \<Rightarrow> size_t" where
  "rr_target worker_n rr = rr mod word_of_int (max 1 worker_n)"

text \<open>The loop of \<open>serveRoundRobin\<close> over the accepted streams; it ends when the listener does.\<close>

fun serve_loop ::
  "int \<Rightarrow> (nat \<Rightarrow> 'h \<Rightarrow> 'c) \<Rightarrow> size_t \<Rightarrow> 'h option list \<Rightarrow> 'c Hive \<Rightarrow> 'c Hive" where
  "serve_loop worker_n task rr [] h = h"
| "serve_loop worker_n task rr (None # rest) h = h"
| "serve_loop worker_n task rr (Some connected # rest) h =
     (let target = unat (rr_target worker_n rr)
      in serve_loop worker_n task (rr + 1) rest (postToWorker target (Some (task target connected)) h))"

text \<open>The posted task: the executor of the target, if there is one, gets a stream and its handler.\<close>

definition serve_task :: "'x option list \<Rightarrow> nat \<Rightarrow> bool \<Rightarrow> 'h option \<Rightarrow> ('x \<times> 'h) option" where
  "serve_task execs target on_worker connected_box =
     (if \<not> on_worker then None
      else (case execs ! target of
              None \<Rightarrow> None
            | Some exec \<Rightarrow> map_option (\<lambda>c. (exec, c)) connected_box))"

fun dealt :: "int \<Rightarrow> size_t \<Rightarrow> 'h option list \<Rightarrow> (nat \<times> 'h) list" where
  "dealt worker_n rr (Some c # rest) = (unat (rr_target worker_n rr), c) # dealt worker_n (rr + 1) rest"
| "dealt worker_n rr _ = []"

lemma serve_loop_dealt:
  "serve_loop worker_n task rr streams h =
   fold (\<lambda>(t, c). postToWorker t (Some (task t c))) (dealt worker_n rr streams) h"
  by (induction worker_n task rr streams h rule: serve_loop.induct) (simp_all add: Let_def)

lemma unat_rr_target:
  assumes "worker_n < 2 ^ 31"
  shows "unat (rr_target worker_n rr) = unat rr mod nat (max 1 worker_n)"
proof -
  have "uint (word_of_int (max 1 worker_n) :: size_t) = max 1 worker_n"
    using assms by (simp add: uint_word_of_int take_bit_eq_mod)
  then have "unat (word_of_int (max 1 worker_n) :: size_t) = nat (max 1 worker_n)"
    by (metis nat_uint_eq)
  then show ?thesis by (simp add: rr_target_def unat_mod)
qed

text \<open>Before the counter wraps, connection number \<open>i\<close> goes to worker \<open>i\<close> modulo the number of workers.\<close>

lemma dealt_in_turn:
  assumes "worker_n < 2 ^ 31" "unat rr + length streams < 2 ^ 64"
  shows "dealt worker_n rr (map Some streams) =
    map (\<lambda>i. ((unat rr + i) mod nat (max 1 worker_n), streams ! i)) [0..<length streams]"
  using assms(2)
proof (induction streams arbitrary: rr)
  case (Cons c cs)
  have "unat (rr + 1) = unat rr + 1" using Cons.prems by (simp add: unat_word_ariths(1))
  then have "dealt worker_n (rr + 1) (map Some cs) =
    map (\<lambda>i. ((unat rr + 1 + i) mod nat (max 1 worker_n), cs ! i)) [0..<length cs]"
    using Cons by simp
  moreover have "[0..<length (c # cs)] = 0 # map Suc [0..<length cs]" by (simp add: upt_conv_Cons map_Suc_upt del: upt_Suc)
  ultimately show ?case by (simp add: unat_rr_target [OF assms(1)] comp_def del: upt_Suc)
qed simp

section \<open>Listening, connecting, sleeping\<close>

definition listen_port :: "int \<Rightarrow> IpEndpoint" where
  "listen_port port = makeIpEndpointV4 [0, 0, 0, 0] (word_of_int port)"

text \<open>\<^verbatim>\<open>std::to_string\<close> on an \<^verbatim>\<open>int\<close>.\<close>

definition to_string_int :: "int \<Rightarrow> string" where
  "to_string_int n = (if n < 0 then CHR ''-'' # to_string_nat (nat (- n)) else to_string_nat (nat n))"

definition connect_endpoint :: "inet_api \<Rightarrow> string \<Rightarrow> int \<Rightarrow> IpEndpoint option" where
  "connect_endpoint I host port = parseIpEndpoint I (host @ '':'' @ to_string_int port)"

text \<open>
  A call of \<open>connect\<close> after it started its watcher. Its callbacks hold a reference to the queue in the
  frame of the coroutine: once that is gone their use of it is undefined, \<open>None\<close>.
\<close>

record 's connect_call =
  cc_queue :: "('s, unit, unit) async_queue"
  cc_frame :: bool
  cc_owned :: bool

definition connect_started :: "'s connect_call" where
  "connect_started = \<lparr>cc_queue = fst (aq_bind () new_async_queue), cc_frame = True, cc_owned = True\<rparr>"

definition cc_connected :: "'s \<Rightarrow> 's connect_call \<Rightarrow> 's connect_call option" where
  "cc_connected s cc =
     (if \<not> cc_frame cc then None
      else Some (cc\<lparr>cc_queue := fst (aq_close (fst (aq_push s (cc_queue cc))))\<rparr>))"

definition cc_error :: "bool \<Rightarrow> 's connect_call \<Rightarrow> 's connect_call option" where
  "cc_error on_worker cc =
     (if \<not> cc_frame cc then None
      else (let cc = cc\<lparr>cc_queue := fst (aq_close (cc_queue cc))\<rparr>
            in Some (if on_worker then cc\<lparr>cc_owned := False\<rparr> else cc)))"

text \<open>The coroutine once its queue has something or is closed: the stream it returns, if any.\<close>

definition connect_result :: "'s connect_call \<Rightarrow> 's option \<times> 's connect_call" where
  "connect_result cc =
     (let (v, a) = pop_resume (cc_queue cc) in (v, cc\<lparr>cc_queue := a, cc_frame := False\<rparr>))"

text \<open>
  The first callback decides what \<open>connect\<close> returns. After a success the worker still owns the
  watcher and nothing releases it; after an error it does not.
\<close>

lemma connect_first_callback:
  assumes "cc_connected s connect_started = Some c1" "cc_error True connect_started = Some c2"
  shows "fst (connect_result c1) = Some s" "fst (connect_result c2) = None"
    and "cc_owned (snd (connect_result c1))" "\<not> cc_owned (snd (connect_result c2))"
  using assms by (auto simp: cc_connected_def cc_error_def connect_started_def connect_result_def net_simps Let_def)

lemma connect_late_callback:
  "cc_error w (snd (connect_result cc)) = None" "cc_connected s (snd (connect_result cc)) = None"
  by (auto simp: cc_error_def cc_connected_def connect_result_def split: prod.split)

text \<open>
  An IPv6 host goes into the text without brackets, so the port becomes part of the address: what
  is parsed has port 0.
\<close>

lemma scoped_port: "parseIpv6WithOptionalScope I text p = Some v6 \<Longrightarrow> port6 v6 = p"
  by (auto simp: parseIpv6WithOptionalScope_def Let_def split: option.splits if_splits prod.splits)

lemma connect_ipv6_loses_port:
  assumes "connect_endpoint I host port = Some ep" "hd (trim_back (trim_front (host @ '':'' @ to_string_int port))) \<noteq> CHR ''[''"
    and "sv_find (CHR ''.'') (trim_back (trim_front (host @ '':'' @ to_string_int port))) = None"
  shows "portOf ep = 0"
proof -
  obtain v6 where "ep = V6 v6"
    "parseIpv6WithOptionalScope I (trim_back (trim_front (host @ '':'' @ to_string_int port))) 0 = Some v6"
    using assms by (auto simp: connect_endpoint_def parseIpEndpoint_def Let_def split: if_splits)
  then show ?thesis using scoped_port by (auto simp: portOf_def)
qed

text \<open>The accepted streams of a listener.\<close>

definition listener_accepted ::
  "'s \<Rightarrow> ('s, 'x, 'c) async_queue \<Rightarrow> ('s, 'x, 'c) async_queue \<times> ('x \<times> 'c) list" where
  "listener_accepted s a = aq_push s a"

definition listener_error ::
  "bool \<Rightarrow> ('s, 'x, 'c) async_queue \<times> bool \<Rightarrow> (('s, 'x, 'c) async_queue \<times> bool) \<times> ('x \<times> 'c) list" where
  "listener_error on_worker st =
     (let (a, wakes) = aq_close (fst st) in ((a, if on_worker then False else snd st), wakes))"

text \<open>\<open>sleepFor\<close>: a delay that is not positive does not suspend.\<close>

definition sleep_ready :: "int \<Rightarrow> bool" where
  "sleep_ready delay = (delay \<le> 0)"

definition sleep_suspend :: "int \<Rightarrow> int \<Rightarrow> 'c \<Rightarrow> 'c IOWorker \<Rightarrow> 'c IOWorker" where
  "sleep_suspend now delay c w = wakeup (addTimer (now + delay) (Some c) w)"

text \<open>
  The destructor of a stream: the cleanup of its watcher runs on the worker's thread, at once or as
  a private task. The first result says whether it ran at once.
\<close>

definition stream_destroy :: "nat option \<Rightarrow> nat \<Rightarrow> bool \<Rightarrow> 'c \<Rightarrow> 'c IOWorker \<Rightarrow> bool \<times> 'c IOWorker" where
  "stream_destroy current this has_watcher cleanup w =
     (if \<not> has_watcher then (False, w)
      else if current = Some this then (True, w)
      else (False, wakeup (postPrivate (Some cleanup) w)))"

end
