(* ===== verification/Chat_Server.thy ===== *)
theory Chat_Server
  imports Async_Queue Ip_Endpoint
begin

text \<open>
  The chat server of \<^verbatim>\<open>example/tcp_server_async_example/app.cc\<close> on the coroutine library: cutting the
  received bytes into lines, the session of a client, and the room that passes messages on. A client is
  named by its number; \<open>alive\<close> says of which clients a \<^verbatim>\<open>weak_ptr\<close> still finds the object.
\<close>

section \<open>Lines\<close>

abbreviation newline :: char where "newline \<equiv> CHR 0x0A"
abbreviation carriage :: char where "carriage \<equiv> CHR 0x0D"

function split_loop :: "string \<Rightarrow> nat \<Rightarrow> nat \<Rightarrow> string list \<Rightarrow> nat \<times> string list" where
  "split_loop buffer start i lines =
     (if i < length buffer then
        (if buffer ! i = newline then
           (let stop = i;
                stop = (if stop > start \<and> buffer ! (stop - 1) = carriage then stop - 1 else stop);
                lines = lines @ [take (stop - start) (drop start buffer)]
            in split_loop buffer (i + 1) (i + 1) lines)
         else split_loop buffer start (i + 1) lines)
      else (start, lines))"
  by pat_completeness auto

termination by (relation "measure (\<lambda>(buffer, start, i, lines). length buffer - i)") auto

declare split_loop.simps [simp del]

definition splitLines :: "string \<Rightarrow> string list \<times> string" where
  "splitLines buffer = (let (start, lines) = split_loop buffer 0 0 [] in (lines, drop start buffer))"

text \<open>The reference: characters one by one, \<open>acc\<close> the line so far.\<close>

definition chomp :: "string \<Rightarrow> string" where
  "chomp s = (if s \<noteq> [] \<and> last s = carriage then butlast s else s)"

fun cut_lines :: "string \<Rightarrow> string \<Rightarrow> string list \<times> string" where
  "cut_lines acc [] = ([], acc)"
| "cut_lines acc (c # s) =
     (if c = newline then (let (ls, r) = cut_lines [] s in (chomp acc # ls, r)) else cut_lines (acc @ [c]) s)"

lemma chomp_slice:
  assumes "start \<le> i" "i < length buffer"
  shows "chomp (take (i - start) (drop start buffer)) =
    (if i > start \<and> buffer ! (i - 1) = carriage then take (i - 1 - start) (drop start buffer)
     else take (i - start) (drop start buffer))"
proof (cases "i > start")
  case True
  let ?s = "take (i - start) (drop start buffer)"
  have len: "length ?s = i - start" using assms by simp
  then have "last ?s = buffer ! (i - 1)" "?s \<noteq> []"
    using True assms by (auto simp: last_conv_nth)
  moreover have "butlast ?s = take (i - 1 - start) (drop start buffer)"
    using assms by (simp add: butlast_take diff_right_commute)
  ultimately show ?thesis using True by (simp add: chomp_def)
qed (simp add: chomp_def)

lemma split_loop_cut:
  assumes "start \<le> i" "i \<le> length buffer"
  shows "case split_loop buffer start i lines of (start', lines') \<Rightarrow>
    \<exists>ls. lines' = lines @ ls \<and> cut_lines (take (i - start) (drop start buffer)) (drop i buffer) = (ls, drop start' buffer)"
  using assms
proof (induction buffer start i lines rule: split_loop.induct)
  case (1 buffer start i lines)
  show ?case
  proof (cases "i < length buffer")
    case False
    then show ?thesis using "1.prems" by (subst split_loop.simps) simp
  next
    case True
    have d: "drop i buffer = buffer ! i # drop (i + 1) buffer" using True by (simp add: Cons_nth_drop_Suc)
    show ?thesis
    proof (cases "buffer ! i = newline")
      case nl: True
      define line where "line = chomp (take (i - start) (drop start buffer))"
      have line: "take ((if i > start \<and> buffer ! (i - 1) = carriage then i - 1 else i) - start) (drop start buffer) = line"
        using chomp_slice [OF "1.prems"(1) True] by (simp add: line_def)
      have "split_loop buffer start i lines = split_loop buffer (i + 1) (i + 1) (lines @ [line])"
        using True nl chomp_slice [OF "1.prems"(1) True]
        by (subst split_loop.simps) (simp add: line_def Let_def)
      moreover have "case split_loop buffer (i + 1) (i + 1) (lines @ [line]) of (start', lines') \<Rightarrow>
        \<exists>ls. lines' = (lines @ [line]) @ ls \<and>
          cut_lines (take (i + 1 - (i + 1)) (drop (i + 1) buffer)) (drop (i + 1) buffer) = (ls, drop start' buffer)"
        using "1.IH"(1) [OF True nl refl refl refl] True unfolding line by simp
      ultimately show ?thesis using d nl by (auto simp: line_def split: prod.splits)
    next
      case no: False
      have "take (i + 1 - start) (drop start buffer) = take (i - start) (drop start buffer) @ [buffer ! i]"
        using "1.prems" True by (simp add: Suc_diff_le take_Suc_conv_app_nth)
      with "1.IH"(2) [OF True no] "1.prems" True no d show ?thesis
        by (simp add: split_loop.simps [of buffer start i])
    qed
  qed
qed

lemma splitLines_cut: "splitLines buffer = cut_lines [] buffer"
  using split_loop_cut [of 0 0 buffer "[]"] by (auto simp: splitLines_def split: prod.splits)

lemma cut_append:
  "cut_lines acc (s @ t) = (let (l1, r) = cut_lines acc s; (l2, r2) = cut_lines r t in (l1 @ l2, r2))"
  by (induction acc s rule: cut_lines.induct) (auto simp: Let_def split: prod.splits)

lemma cut_rest: "cut_lines acc s = (ls, r) \<Longrightarrow> newline \<notin> set acc \<Longrightarrow> newline \<notin> set r"
  by (induction acc s arbitrary: ls rule: cut_lines.induct) (auto simp: Let_def split: prod.splits if_splits)

lemma cut_open: "newline \<notin> set s \<Longrightarrow> cut_lines acc s = ([], acc @ s)"
  by (induction acc s rule: cut_lines.induct) auto

text \<open>What a session reads from the chunks it receives, with the buffer it keeps.\<close>

fun read_lines :: "string \<Rightarrow> string list \<Rightarrow> string list \<times> string" where
  "read_lines buffer [] = ([], buffer)"
| "read_lines buffer (chunk # chunks) =
     (let (ls, buffer) = splitLines (buffer @ chunk); (ls', r) = read_lines buffer chunks in (ls @ ls', r))"

lemma read_lines_cut:
  "newline \<notin> set buffer \<Longrightarrow> read_lines buffer chunks = cut_lines buffer (concat chunks)"
proof (induction chunks arbitrary: buffer)
  case (Cons chunk chunks)
  obtain ls r where c: "cut_lines buffer chunk = (ls, r)" by fastforce
  have "cut_lines [] (buffer @ chunk) = (ls, r)"
    using cut_append [of "[]" buffer chunk] cut_open [OF Cons.prems, of "[]"] c by simp
  moreover have "newline \<notin> set r" by (rule cut_rest [OF c Cons.prems])
  ultimately show ?case
    using Cons.IH [of r] cut_append [of buffer chunk "concat chunks"] c by (simp add: splitLines_cut)
qed simp

text \<open>The lines do not depend on how the bytes were cut into chunks.\<close>

lemma lines_ignore_chunking: "read_lines [] chunks = splitLines (concat chunks)"
  by (simp add: read_lines_cut splitLines_cut)

section \<open>A session\<close>

datatype session_act = ToOutbox string | Broadcast string | LeaveRoom nat | CloseOutbox | JoinWriter

definition user_text :: "nat \<Rightarrow> string \<Rightarrow> string" where
  "user_text uid line = ''user#'' @ to_string_nat uid @ '': '' @ line @ [newline]"

text \<open>The lines of one chunk; the second result is \<open>done\<close>.\<close>

fun session_lines :: "nat \<Rightarrow> string list \<Rightarrow> session_act list \<times> bool" where
  "session_lines uid [] = ([], False)"
| "session_lines uid (line # rest) =
     (if line = ''/quit'' then ([ToOutbox (''[server] bye'' @ [newline])], True)
      else (let (acts, quit) = session_lines uid rest in (Broadcast (user_text uid line) # acts, quit)))"

text \<open>The chunks that \<^verbatim>\<open>recvSome\<close> gives, up to the end of the connection.\<close>

fun session_loop :: "nat \<Rightarrow> string \<Rightarrow> string list \<Rightarrow> session_act list" where
  "session_loop uid buffer [] = []"
| "session_loop uid buffer (chunk # chunks) =
     (let (ls, buffer) = splitLines (buffer @ chunk);
          (acts, quit) = session_lines uid ls
      in acts @ (if quit then [] else session_loop uid buffer chunks))"

definition chatSession :: "nat \<Rightarrow> string list \<Rightarrow> session_act list" where
  "chatSession uid chunks = session_loop uid [] chunks @ [LeaveRoom uid, CloseOutbox, JoinWriter]"

lemma session_lines_append:
  "session_lines uid (ls @ ms) =
    (let (acts, quit) = session_lines uid ls in
     if quit then (acts, True) else (let (acts', quit') = session_lines uid ms in (acts @ acts', quit')))"
  by (induction uid ls rule: session_lines.induct) (auto split: prod.splits)

lemma session_loop_lines: "session_loop uid buffer chunks = fst (session_lines uid (fst (read_lines buffer chunks)))"
  by (induction buffer chunks rule: read_lines.induct)
    (auto simp: session_lines_append Let_def split: prod.splits)

lemma session_lines_spec:
  "fst (session_lines uid ls) = map (\<lambda>l. Broadcast (user_text uid l)) (takeWhile (\<lambda>l. l \<noteq> ''/quit'') ls) @
     (if ''/quit'' \<in> set ls then [ToOutbox (''[server] bye'' @ [newline])] else [])"
  by (induction uid ls rule: session_lines.induct) (auto split: prod.splits)

text \<open>
  A session broadcasts the lines of the received bytes up to \<^verbatim>\<open>/quit\<close>, says goodbye if there was one,
  and then leaves the room and closes its outbox, however the bytes arrived.
\<close>

lemma session_spec:
  "chatSession uid chunks =
    (let ls = fst (splitLines (concat chunks)) in
     map (\<lambda>l. Broadcast (user_text uid l)) (takeWhile (\<lambda>l. l \<noteq> ''/quit'') ls) @
     (if ''/quit'' \<in> set ls then [ToOutbox (''[server] bye'' @ [newline])] else []) @
     [LeaveRoom uid, CloseOutbox, JoinWriter])"
  by (simp add: chatSession_def session_loop_lines lines_ignore_chunking session_lines_spec Let_def)

section \<open>The room\<close>

datatype room_command = RJoin nat | RLeave nat | RBroadcast string

text \<open>\<open>broadcastImpl\<close> forgets clients that are gone; the second result is what goes into which outbox.\<close>

definition broadcastImpl :: "(nat \<Rightarrow> bool) \<Rightarrow> string \<Rightarrow> nat list \<Rightarrow> nat list \<times> (nat \<times> string) list" where
  "broadcastImpl alive msg clients = (filter alive clients, map (\<lambda>c. (c, msg)) (filter alive clients))"

definition count_text :: "nat list \<Rightarrow> string" where
  "count_text clients = '' ('' @ to_string_nat (length clients) @ '' online)'' @ [newline]"

fun room_handle :: "(nat \<Rightarrow> bool) \<Rightarrow> room_command \<Rightarrow> nat list \<Rightarrow> nat list \<times> (nat \<times> string) list" where
  "room_handle alive (RJoin uid) clients =
     (let clients = clients @ [uid]
      in broadcastImpl alive (''[server] user#'' @ to_string_nat uid @ '' joined'' @ count_text clients) clients)"
| "room_handle alive (RLeave uid) clients =
     (let clients = filter (\<lambda>c. \<not> (\<not> alive c \<or> c = uid)) clients
      in broadcastImpl alive (''[server] user#'' @ to_string_nat uid @ '' left'' @ count_text clients) clients)"
| "room_handle alive (RBroadcast msg) clients = broadcastImpl alive msg clients"

fun room_run :: "(room_command \<times> (nat \<Rightarrow> bool)) list \<Rightarrow> nat list \<Rightarrow> nat list \<times> (nat \<times> string) list" where
  "room_run [] clients = (clients, [])"
| "room_run ((cmd, alive) # cmds) clients =
     (let (clients, out) = room_handle alive cmd clients; (clients, out') = room_run cmds clients
      in (clients, out @ out'))"

fun members :: "room_command list \<Rightarrow> nat list \<Rightarrow> nat list" where
  "members [] ms = ms"
| "members (RJoin uid # cmds) ms = members cmds (ms @ [uid])"
| "members (RLeave uid # cmds) ms = members cmds (removeAll uid ms)"
| "members (RBroadcast msg # cmds) ms = members cmds ms"

lemma filter_not_eq: "filter (\<lambda>c. c \<noteq> x) xs = removeAll x xs"
  by (induction xs) auto

text \<open>While the clients live, the room's list is the joins without the leaves, in order.\<close>

lemma room_members:
  "fst (room_run (map (\<lambda>c. (c, \<lambda>_. True)) cmds) clients) = members cmds clients"
  by (induction cmds clients rule: members.induct)
    (auto simp: broadcastImpl_def Let_def filter_not_eq split: prod.splits)

text \<open>A message goes once to every member that is alive, in the order of joining, and to nobody else.\<close>

lemma broadcast_reaches_members:
  "distinct clients \<Longrightarrow> distinct (map fst (snd (broadcastImpl alive msg clients)))"
  "map fst (snd (broadcastImpl alive msg clients)) = filter alive clients"
  "(c, m) \<in> set (snd (broadcastImpl alive msg clients)) \<longleftrightarrow> m = msg \<and> c \<in> set clients \<and> alive c"
  by (auto simp: broadcastImpl_def comp_def)

text \<open>The number in the notice counts clients that are gone but not yet forgotten.\<close>

lemma join_counts_gone_clients:
  "snd (room_handle (\<lambda>c. c = 2) (RJoin 2) [1]) = [(2, ''[server] user#2 joined (2 online)'' @ [newline])]"
  by code_simp

text \<open>
  Sessions on other workers push to the queue of the room while its coroutine awaits it: a broadcast that comes
  between the two locks of that await stays in the queue until the next push.
\<close>

lemma broadcast_may_stall:
  "let w = fold aq_step [Consume, Push (RBroadcast m), Consume, Consume] (aq_fresh ())
   in aw_consumer w = Suspended \<and> aq_q (aw_queue w) = [RBroadcast m] \<and> aw_got w = []"
  by (simp add: aq_fresh_def net_simps wake_consumer_def Let_def)

end
