(* ===== verification/Logging.thy ===== *)
theory Logging
  imports Ip_Endpoint
begin

text \<open>
  \<^verbatim>\<open>utils/log/log.hpp\<close> and \<^verbatim>\<open>platform/schedule/sched_trace.h\<close>, \<^verbatim>\<open>sched_trace.cc\<close>: the logger and the trace of
  the scheduler, which writes through it. A file is the text written to it so far. What \<^verbatim>\<open>vsnprintf\<close>
  makes of a format and its arguments is a string without NUL, cut to the size of the buffer; the local
  time and the clock are parameters.
\<close>

section \<open>The logger\<close>

datatype LogLevel = DEBUG | INFO | WARN | ERROR | FATAL | NONE

definition level_number :: "LogLevel \<Rightarrow> nat" where
  "level_number l = (case l of DEBUG \<Rightarrow> 0 | INFO \<Rightarrow> 1 | WARN \<Rightarrow> 2 | ERROR \<Rightarrow> 3 | FATAL \<Rightarrow> 4 | NONE \<Rightarrow> 5)"

definition LOG_OPT_TIME :: u32 where "LOG_OPT_TIME = push_bit 0 1"
definition LOG_OPT_LEVEL :: u32 where "LOG_OPT_LEVEL = push_bit 1 1"
definition LOG_OPT_FILE :: u32 where "LOG_OPT_FILE = push_bit 2 1"
definition LOG_OPT_LINE :: u32 where "LOG_OPT_LINE = push_bit 3 1"
definition LOG_OPT_FUNCTION :: u32 where "LOG_OPT_FUNCTION = push_bit 4 1"
definition LOG_OPT_COLOR :: u32 where "LOG_OPT_COLOR = push_bit 5 1"

lemmas log_opts = LOG_OPT_TIME_def LOG_OPT_LEVEL_def LOG_OPT_FILE_def LOG_OPT_LINE_def
  LOG_OPT_FUNCTION_def LOG_OPT_COLOR_def

record 'f logger =
  lg_options :: u32
  lg_output :: 'f
  lg_min_level :: LogLevel

definition default_logger :: "'f \<Rightarrow> 'f logger" where
  "default_logger stdout =
     \<lparr>lg_options = LOG_OPT_LEVEL OR LOG_OPT_FILE OR LOG_OPT_LINE OR LOG_OPT_COLOR,
      lg_output = stdout, lg_min_level = INFO\<rparr>"

definition setOptions :: "u32 \<Rightarrow> 'f logger \<Rightarrow> 'f logger" where
  "setOptions opts lg = lg\<lparr>lg_options := opts\<rparr>"

definition setOutput :: "'f \<Rightarrow> 'f option \<Rightarrow> 'f logger \<Rightarrow> 'f logger" where
  "setOutput stdout fp lg = lg\<lparr>lg_output := (case fp of None \<Rightarrow> stdout | Some f \<Rightarrow> f)\<rparr>"

definition setMinLevel :: "LogLevel \<Rightarrow> 'f logger \<Rightarrow> 'f logger" where
  "setMinLevel level lg = lg\<lparr>lg_min_level := level\<rparr>"

definition levelToString :: "LogLevel \<Rightarrow> string" where
  "levelToString l =
     (case l of DEBUG \<Rightarrow> ''DEBUG'' | INFO \<Rightarrow> ''INFO'' | WARN \<Rightarrow> ''WARN'' | ERROR \<Rightarrow> ''ERROR'' | FATAL \<Rightarrow> ''FATAL''
      | NONE \<Rightarrow> ''UNKNOWN'')"

definition escape :: "string \<Rightarrow> string" where
  "escape s = CHR 0x1B # s"

definition levelToColor :: "LogLevel \<Rightarrow> string" where
  "levelToColor l =
     (case l of DEBUG \<Rightarrow> escape ''[36m'' | INFO \<Rightarrow> escape ''[32m'' | WARN \<Rightarrow> escape ''[33m''
      | ERROR \<Rightarrow> escape ''[31m'' | FATAL \<Rightarrow> escape ''[1;31m'' | NONE \<Rightarrow> escape ''[0m'')"

text \<open>\<^verbatim>\<open>%d\<close>, and \<^verbatim>\<open>%0wd\<close> of a number that is not negative.\<close>

definition print_int :: "int \<Rightarrow> string" where
  "print_int n = (if n < 0 then CHR ''-'' # to_string_nat (nat (- n)) else to_string_nat (nat n))"

definition padded :: "nat \<Rightarrow> nat \<Rightarrow> string" where
  "padded w n = (let s = to_string_nat n in replicate (w - length s) CHR ''0'' @ s)"

record tm =
  tm_year :: nat
  tm_mon :: nat
  tm_mday :: nat
  tm_hour :: nat
  tm_min :: nat
  tm_sec :: nat

text \<open>The string that \<^verbatim>\<open>vsnprintf\<close> leaves in a buffer of the given size.\<close>

definition vsnprintf :: "nat \<Rightarrow> string \<Rightarrow> string" where
  "vsnprintf n text = take (n - 1) text"

definition opt :: "'f logger \<Rightarrow> u32 \<Rightarrow> bool" where
  "opt lg b = (lg_options lg AND b \<noteq> 0)"

definition log_line ::
  "'f logger \<Rightarrow> tm \<Rightarrow> LogLevel \<Rightarrow> string \<Rightarrow> int \<Rightarrow> string \<Rightarrow> string \<Rightarrow> string" where
  "log_line lg t level file line func text =
     (let msg_buf = vsnprintf 1024 text in
      (if opt lg LOG_OPT_COLOR then levelToColor level else []) @
      (if opt lg LOG_OPT_LEVEL then ''['' @ levelToString level @ ''] '' else []) @
      (if opt lg LOG_OPT_COLOR then levelToColor NONE else []) @
      (if opt lg LOG_OPT_FILE then
         file @ (if opt lg LOG_OPT_LINE then '':'' @ print_int line else []) @ '' ''
       else []) @
      (if opt lg LOG_OPT_FUNCTION then ''('' @ func @ '') '' else []) @
      (if opt lg LOG_OPT_TIME then
         ''['' @ padded 4 (tm_year t + 1900) @ ''-'' @ padded 2 (tm_mon t + 1) @ ''-'' @ padded 2 (tm_mday t) @
         '' '' @ padded 2 (tm_hour t) @ '':'' @ padded 2 (tm_min t) @ '':'' @ padded 2 (tm_sec t) @ ''] ''
       else []) @
      msg_buf @
      (if opt lg LOG_OPT_COLOR then escape ''[0m'' else []) @
      [CHR 0x0A])"

definition logImpl ::
  "'f logger \<Rightarrow> tm \<Rightarrow> LogLevel \<Rightarrow> string \<Rightarrow> int \<Rightarrow> string \<Rightarrow> string \<Rightarrow> ('f \<Rightarrow> string) \<Rightarrow> 'f \<Rightarrow> string" where
  "logImpl lg t level file line func text out =
     (if level_number level < level_number (lg_min_level lg) then out
      else out(lg_output lg := out (lg_output lg) @ log_line lg t level file line func text))"

section \<open>The trace\<close>

datatype trace_event =
    UserBlockBegin | UserBlockEnd | WorkerBind | InboundDrained | WakeupNotify | LocalPush | LocalDegradeGlobal
  | LocalDone | GlobalHarvestDone | PrivateDone | TimerDone | WorkerRunStart | WorkerRunStop | StealFail | LoopTick
  | RunOnceBegin | SleepEnter | SleepExit | RunOnceEnd | StealAttempt | StealSuccess

fun toString :: "trace_event \<Rightarrow> string" where
  "toString UserBlockBegin = ''user_block_begin''"
| "toString UserBlockEnd = ''user_block_end''"
| "toString WorkerBind = ''worker_bind''"
| "toString InboundDrained = ''inbound_drained''"
| "toString WakeupNotify = ''wakeup_notify''"
| "toString LocalPush = ''local_push''"
| "toString LocalDegradeGlobal = ''local_degrade_global''"
| "toString LocalDone = ''local_done''"
| "toString GlobalHarvestDone = ''global_harvest_done''"
| "toString PrivateDone = ''private_done''"
| "toString TimerDone = ''timer_done''"
| "toString WorkerRunStart = ''worker_run_start''"
| "toString WorkerRunStop = ''worker_run_stop''"
| "toString StealFail = ''steal_fail''"
| "toString LoopTick = ''loop_tick''"
| "toString RunOnceBegin = ''runonce_begin''"
| "toString SleepEnter = ''sleep_enter''"
| "toString SleepExit = ''sleep_exit''"
| "toString RunOnceEnd = ''runonce_end''"
| "toString StealAttempt = ''steal_attempt''"
| "toString StealSuccess = ''steal_success''"

text \<open>The state: -1 means that the environment has not been asked; \<open>env\<close> is the variable's value.\<close>

definition trace_enabled :: "string option \<Rightarrow> int \<Rightarrow> bool \<times> int" where
  "trace_enabled env state =
     (if state \<noteq> -1 then (state = 1, state)
      else (let on = (case env of Some (c # _) \<Rightarrow> c = CHR ''1'' | _ \<Rightarrow> False) in (on, if on then 1 else 0)))"

definition trace_setEnabled :: "bool \<Rightarrow> int" where
  "trace_setEnabled on = (if on then 1 else 0)"

definition nowNs :: "int \<Rightarrow> u64" where
  "nowNs ns = (if ns < 0 then 0 else word_of_int ns)"

text \<open>The text handed to the logger; \<open>kv\<close> is \<open>None\<close> for a null or empty format.\<close>

definition trace_text :: "u64 \<Rightarrow> size_t \<Rightarrow> string \<Rightarrow> string option \<Rightarrow> string" where
  "trace_text ts worker_id event kv =
     (let kv_buf = (case kv of None \<Rightarrow> [] | Some text \<Rightarrow> vsnprintf 768 text)
      in ''SCHED|'' @ to_string ts @ ''|'' @ to_string worker_id @ ''|'' @ event @ ''|'' @ kv_buf)"

definition emitImpl ::
  "string option \<Rightarrow> 'f logger \<Rightarrow> tm \<Rightarrow> int \<Rightarrow> string \<Rightarrow> int \<Rightarrow> string \<Rightarrow> size_t \<Rightarrow> string \<Rightarrow> string option \<Rightarrow>
   int \<times> ('f \<Rightarrow> string) \<Rightarrow> int \<times> ('f \<Rightarrow> string)" where
  "emitImpl env lg t ns file line func worker_id event kv st =
     (let (on, state) = trace_enabled env (fst st) in
      if \<not> on then (state, snd st)
      else (state, logImpl lg t DEBUG file line func (trace_text (nowNs ns) worker_id event kv) (snd st)))"

section \<open>What is written\<close>

lemma log_filtered:
  "level_number level < level_number (lg_min_level lg) \<Longrightarrow> logImpl lg t level file line func text out = out"
  by (simp add: logImpl_def)

lemma log_appends:
  "\<not> level_number level < level_number (lg_min_level lg) \<Longrightarrow>
   logImpl lg t level file line func text out f =
     (if f = lg_output lg then out f @ log_line lg t level file line func text else out f)"
  by (simp add: logImpl_def)

lemma log_ends_line: "last (log_line lg t level file line func text) = CHR 0x0A"
  by (simp add: log_line_def Let_def)

text \<open>The two buffers fit: a trace line is never cut by the buffer of the logger.\<close>

lemma to_string_nat_length: "n < 10 ^ k \<Longrightarrow> 0 < k \<Longrightarrow> length (to_string_nat n) \<le> k"
proof (induction k arbitrary: n)
  case (Suc k)
  show ?case
  proof (cases "n < 10")
    case True
    then show ?thesis by (simp add: to_string_nat.simps [of n])
  next
    case False
    then have "k > 0" using Suc.prems by (cases k) auto
    then have "length (to_string_nat (n div 10)) \<le> k" using Suc.IH [of "n div 10"] Suc.prems(1) by simp
    then show ?thesis using False by (simp add: to_string_nat.simps [of n])
  qed
qed simp

lemma to_string_u64_length: "length (to_string (w :: 64 word)) \<le> 20"
proof -
  have "unat w < 2 ^ LENGTH(64)" by (rule unsigned_less)
  then have "unat w < 10 ^ 20" by simp
  then show ?thesis using to_string_nat_length [of "unat w" 20] by (simp add: to_string_def)
qed

lemma toString_length: "length (toString e) \<le> 20"
  by (cases e) simp_all

lemma trace_fits:
  "vsnprintf 1024 (trace_text ts worker_id (toString e) kv) = trace_text ts worker_id (toString e) kv"
proof -
  have "length (case kv of None \<Rightarrow> [] | Some text \<Rightarrow> vsnprintf 768 text) \<le> 767"
    by (auto simp: vsnprintf_def split: option.split)
  then have "length (trace_text ts worker_id (toString e) kv) \<le> 1023"
    using to_string_u64_length [of ts] to_string_u64_length [of worker_id] toString_length [of e]
    unfolding trace_text_def Let_def by (simp only: length_append) simp
  then show ?thesis by (simp add: vsnprintf_def)
qed

text \<open>A reader that splits a trace line at its first four bars gets the fields back.\<close>

fun fields :: "nat \<Rightarrow> string \<Rightarrow> string list" where
  "fields 0 s = [s]"
| "fields (Suc n) s = takeWhile (\<lambda>c. c \<noteq> CHR ''|'') s # fields n (drop 1 (dropWhile (\<lambda>c. c \<noteq> CHR ''|'') s))"

lemma fields_cons:
  assumes "CHR ''|'' \<notin> set a"
  shows "fields (Suc n) (a @ CHR ''|'' # s) = a # fields n s"
  using assms by (induction a) auto

lemma no_bar: "CHR ''|'' \<notin> set (to_string w)" "CHR ''|'' \<notin> set (toString e)" "CHR ''|'' \<notin> set ''SCHED''"
proof -
  have "\<not> is_digit CHR ''|''" by (simp add: is_digit_def)
  then show "CHR ''|'' \<notin> set (to_string w)" using to_string_nat_digits [of "unat w"] by (auto simp: to_string_def)
  show "CHR ''|'' \<notin> set (toString e)" by (cases e) simp_all
qed simp

lemma toString_inj: "toString e = toString e' \<Longrightarrow> e = e'"
  by (cases e; cases e') simp_all

lemma trace_fields:
  "fields 4 (trace_text ts worker_id (toString e) kv) =
   [''SCHED'', to_string ts, to_string worker_id, toString e, case kv of None \<Rightarrow> [] | Some text \<Rightarrow> take 767 text]"
proof -
  have "trace_text ts worker_id (toString e) kv =
    ''SCHED'' @ CHR ''|'' # (to_string ts @ CHR ''|'' # (to_string worker_id @ CHR ''|'' # (toString e @ CHR ''|'' #
      (case kv of None \<Rightarrow> [] | Some text \<Rightarrow> take 767 text))))"
    by (simp add: trace_text_def vsnprintf_def split: option.split)
  moreover have "fields 4 s = fields (Suc (Suc (Suc (Suc 0)))) s" for s by (simp add: eval_nat_numeral)
  ultimately show ?thesis by (simp only: fields_cons no_bar not_False_eq_True fields.simps(1))
qed

text \<open>
  Trace lines have level \<open>DEBUG\<close> and the logger starts at \<open>INFO\<close>: enabling the trace alone writes nothing.
\<close>

lemma trace_silent_by_default:
  "snd (emitImpl (Some ''1'') (default_logger stdout) t ns file line func worker_id event kv (-1, out)) = out"
  by (simp add: emitImpl_def trace_enabled_def logImpl_def default_logger_def level_number_def)

lemma trace_written:
  assumes "lg_min_level lg = DEBUG" "state = 1 \<or> state = -1 \<and> env = Some (CHR ''1'' # v)"
  shows "snd (emitImpl env lg t ns file line func worker_id event kv (state, out)) (lg_output lg) =
    out (lg_output lg) @ log_line lg t DEBUG file line func (trace_text (nowNs ns) worker_id event kv)"
  using assms by (auto simp: emitImpl_def trace_enabled_def logImpl_def level_number_def Let_def)

text \<open>A line of the demo, which turns all options off but the level.\<close>

lemma log_example:
  "log_line (setOptions LOG_OPT_LEVEL (default_logger ())) t WARN ''hive.cc'' 7 ''run'' ''no worker'' = ''[WARN] no worker'' @ [CHR 0x0A]"
  by (simp add: log_line_def setOptions_def default_logger_def opt_def log_opts levelToString_def vsnprintf_def)

end
